(* ===== verification/Prelude.thy ===== *)
theory Prelude
  imports Main
begin

text \<open>
  Shared vocabulary of the development: block numbers, results, the searches and folds of
  the Rust standard library that several components use, and the lemmas about them.
  A Rust \<open>Result<T, E>\<close> is a value of \<open>'e + 'a\<close>, \<open>Inl\<close> being \<open>Err\<close> and \<open>Inr\<close> being \<open>Ok\<close>;
  a method that takes \<open>&mut self\<close> returns the updated state.
\<close>

section \<open>Block numbers\<close>

text \<open>
  \<open>BlockNumber\<close> is \<open>i32\<close>. The model computes in \<open>int\<close>; \<open>i32_range\<close> is the range in which
  that agrees with the machine, and \<open>BLOCK_NUMBER_MAX\<close> is \<open>i32::MAX\<close>. Where a result can leave the range the model
  wraps it around with \<open>wrap_i32\<close>, as the release profile of the program does.
\<close>

type_synonym block_number = int

definition BLOCK_NUMBER_MAX :: block_number where
  "BLOCK_NUMBER_MAX = 2147483647"

definition i32_range :: "int \<Rightarrow> bool" where
  "i32_range n \<longleftrightarrow> - 2147483648 \<le> n \<and> n \<le> 2147483647"

definition wrap_i32 :: "int \<Rightarrow> int" where
  "wrap_i32 n = (n + 2147483648) mod 4294967296 - 2147483648"

lemma wrap_i32_in_range: "i32_range (wrap_i32 n)"
  using pos_mod_bound[of 4294967296 "n + 2147483648"] pos_mod_sign[of 4294967296 "n + 2147483648"]
  unfolding wrap_i32_def i32_range_def by linarith

lemma wrap_i32_id: "i32_range n \<Longrightarrow> wrap_i32 n = n"
  by (simp add: wrap_i32_def i32_range_def)

record block_ptr =
  hash :: string
  number :: block_number

lemma option_eqI: "(\<And>x. a = Some x \<longleftrightarrow> b = Some x) \<Longrightarrow> a = b"
  by (cases a) (auto, metis option.exhaust)

section \<open>Results\<close>

type_synonym ('e, 'a) result = "'e + 'a"

definition bind_res :: "('e, 'a) result \<Rightarrow> ('a \<Rightarrow> ('e, 'b) result) \<Rightarrow> ('e, 'b) result" where
  "bind_res r f = (case r of Inl e \<Rightarrow> Inl e | Inr a \<Rightarrow> f a)"

lemma bind_res_simps [simp]:
  "bind_res (Inl e) f = Inl e"
  "bind_res (Inr a) f = f a"
  by (simp_all add: bind_res_def)

lemma bind_res_Inr_iff: "bind_res r f = Inr b \<longleftrightarrow> (\<exists>a. r = Inr a \<and> f a = Inr b)"
  by (cases r) simp_all

lemma bind_res_assoc: "bind_res (bind_res r f) g = bind_res r (\<lambda>a. bind_res (f a) g)"
  by (cases r) simp_all

text \<open>A \<open>for\<close> loop whose body ends with \<open>?\<close>: stop at the first error.\<close>

fun fold_res :: "('a \<Rightarrow> 's \<Rightarrow> ('e, 's) result) \<Rightarrow> 'a list \<Rightarrow> 's \<Rightarrow> ('e, 's) result" where
  "fold_res f [] s = Inr s"
| "fold_res f (x # xs) s = bind_res (f x s) (fold_res f xs)"

lemma fold_res_append: "fold_res f (xs @ ys) s = bind_res (fold_res f xs s) (fold_res f ys)"
  by (induction xs arbitrary: s) (simp_all add: bind_res_assoc bind_res_def split: sum.splits)

lemma fold_res_invariant:
  assumes "fold_res f xs s = Inr s'" and "P s"
    and "\<And>x s s'. x \<in> set xs \<Longrightarrow> P s \<Longrightarrow> f x s = Inr s' \<Longrightarrow> P s'"
  shows "P s'"
  using assms
proof (induction xs arbitrary: s)
  case Nil
  then show ?case by simp
next
  case (Cons x xs)
  from Cons.prems(1) obtain s1 where s1: "f x s = Inr s1" "fold_res f xs s1 = Inr s'"
    by (auto simp: bind_res_Inr_iff)
  have "P s1" using Cons.prems(2,3) s1(1) by auto
  then show ?case using Cons.IH[OF s1(2)] Cons.prems(3) by auto
qed

lemma fold_res_congruent:
  "(\<And>x s. x \<in> set xs \<Longrightarrow> f x s = g x s) \<Longrightarrow> fold_res f xs s = fold_res g xs s"
  by (induction xs arbitrary: s) (auto simp: bind_res_def split: sum.splits)

lemma fold_res_map: "fold_res f (map h xs) s = fold_res (\<lambda>x. f (h x)) xs s"
  by (induction xs arbitrary: s) (auto simp: bind_res_def split: sum.splits)

text \<open>Two loops agree on success if their steps do, on the states they reach.\<close>

lemma fold_res_Inr_iff:
  assumes "P s"
    and "\<And>x s s'. x \<in> set xs \<Longrightarrow> P s \<Longrightarrow> f x s = Inr s' \<longleftrightarrow> g x s = Inr s'"
    and "\<And>x s s'. x \<in> set xs \<Longrightarrow> P s \<Longrightarrow> g x s = Inr s' \<Longrightarrow> P s'"
  shows "fold_res f xs s = Inr s' \<longleftrightarrow> fold_res g xs s = Inr s'"
  using assms
proof (induction xs arbitrary: s)
  case Nil
  then show ?case by simp
next
  case (Cons x xs)
  have "fold_res f xs s1 = Inr s' \<longleftrightarrow> fold_res g xs s1 = Inr s'" if "g x s = Inr s1" for s1
  proof (rule Cons.IH)
    show "P s1" using Cons.prems(3)[OF _ Cons.prems(1) that] by simp
  next
    fix y u u'
    assume y: "y \<in> set xs" "P u"
    then show "f y u = Inr u' \<longleftrightarrow> g y u = Inr u'" by (intro Cons.prems(2)) auto
    assume "g y u = Inr u'"
    with y show "P u'" by (intro Cons.prems(3)[of y u u']) auto
  qed
  then show ?case using Cons.prems(2)[of x s] Cons.prems(1) by (auto simp: bind_res_Inr_iff)
qed

lemma fold_res_concat: "fold_res f (concat xss) s = fold_res (fold_res f) xss s"
  by (induction xss arbitrary: s) (auto simp: fold_res_append bind_res_def split: sum.splits)

text \<open>
  A computation that may run forever, and then has no result at all, is an optional result.
\<close>

definition bind_run :: "('e, 'a) result option \<Rightarrow> ('a \<Rightarrow> ('e, 'b) result option)
    \<Rightarrow> ('e, 'b) result option" where
  "bind_run r f = (case r of None \<Rightarrow> None | Some (Inl e) \<Rightarrow> Some (Inl e) | Some (Inr a) \<Rightarrow> f a)"

lemma bind_run_simps [simp]:
  "bind_run None f = None"
  "bind_run (Some (Inl e)) f = Some (Inl e)"
  "bind_run (Some (Inr a)) f = f a"
  by (simp_all add: bind_run_def)

lemma bind_run_Inr_iff:
  "bind_run r f = Some (Inr b) \<longleftrightarrow> (\<exists>a. r = Some (Inr a) \<and> f a = Some (Inr b))"
  by (cases r) (auto simp: bind_run_def split: sum.splits)

fun fold_run :: "('a \<Rightarrow> 's \<Rightarrow> ('e, 's) result option) \<Rightarrow> 'a list \<Rightarrow> 's \<Rightarrow> ('e, 's) result option" where
  "fold_run f [] s = Some (Inr s)"
| "fold_run f (x # xs) s = bind_run (f x s) (fold_run f xs)"

text \<open>Collecting an iterator of results, \<open>collect::<Result<Vec<_>, _>>()\<close>.\<close>

fun map_res :: "('a \<Rightarrow> ('e, 'b) result) \<Rightarrow> 'a list \<Rightarrow> ('e, 'b list) result" where
  "map_res f [] = Inr []"
| "map_res f (x # xs) = bind_res (f x) (\<lambda>y. bind_res (map_res f xs) (\<lambda>ys. Inr (y # ys)))"

lemma map_res_append:
  "map_res f (xs @ ys) =
     bind_res (map_res f xs) (\<lambda>xs'. bind_res (map_res f ys) (\<lambda>ys'. Inr (xs' @ ys')))"
  by (induction xs) (auto simp: bind_res_def split: sum.splits)

lemma map_res_id: "(\<And>x. x \<in> set xs \<Longrightarrow> f x = Inr x) \<Longrightarrow> map_res f xs = Inr xs"
  by (induction xs) auto

lemma map_res_Inr_list_all2:
  "map_res f xs = Inr ys \<Longrightarrow> list_all2 (\<lambda>x y. f x = Inr y) xs ys"
  by (induction xs arbitrary: ys) (auto simp: bind_res_Inr_iff)

lemma map_res_total: "(\<forall>x \<in> set xs. \<exists>y. f x = Inr y) \<Longrightarrow> \<exists>ys. map_res f xs = Inr ys"
  by (induction xs) auto

lemma map_res_in:
  "map_res f xs = Inr ys \<Longrightarrow> y \<in> set ys \<Longrightarrow> \<exists>x \<in> set xs. f x = Inr y"
  by (induction xs arbitrary: ys) (auto simp: bind_res_Inr_iff)

lemma map_res_Inr_map:
  "map_res f xs = Inr ys \<Longrightarrow> (\<And>x y. x \<in> set xs \<Longrightarrow> f x = Inr y \<Longrightarrow> y = g x) \<Longrightarrow> ys = map g xs"
  by (induction xs arbitrary: ys) (auto simp: bind_res_Inr_iff)

section \<open>Searching from the back\<close>

text \<open>
  \<open>iter().rfind(p)\<close> is the last element that satisfies \<open>p\<close>; \<open>iter_mut().rfind(p)\<close> gives
  access to its slot, so its model returns the index.
\<close>

fun find_index :: "('a \<Rightarrow> bool) \<Rightarrow> 'a list \<Rightarrow> nat option" where
  "find_index p [] = None"
| "find_index p (x # xs) = (if p x then Some 0 else map_option Suc (find_index p xs))"

definition rfind :: "('a \<Rightarrow> bool) \<Rightarrow> 'a list \<Rightarrow> 'a option" where
  "rfind p xs = find p (rev xs)"

fun rfind_index :: "('a \<Rightarrow> bool) \<Rightarrow> 'a list \<Rightarrow> nat option" where
  "rfind_index p [] = None"
| "rfind_index p (x # xs) =
     (case rfind_index p xs of
        Some i \<Rightarrow> Some (Suc i)
      | None \<Rightarrow> if p x then Some 0 else None)"

lemma rfind_Nil [simp]: "rfind p [] = None"
  by (simp add: rfind_def)

lemma rfind_snoc [simp]: "rfind p (xs @ [x]) = (if p x then Some x else rfind p xs)"
  by (simp add: rfind_def)

lemma find_append: "find p (xs @ ys) = (case find p xs of Some x \<Rightarrow> Some x | None \<Rightarrow> find p ys)"
  by (induction xs) auto

lemma rfind_append: "rfind p (xs @ ys) = (case rfind p ys of Some x \<Rightarrow> Some x | None \<Rightarrow> rfind p xs)"
  by (simp add: rfind_def find_append split: option.splits)

lemma rfind_Cons: "rfind p (x # xs) =
    (case rfind p xs of Some y \<Rightarrow> Some y | None \<Rightarrow> if p x then Some x else None)"
  by (simp add: rfind_def find_append split: option.splits)

lemma rfind_None_iff: "rfind p xs = None \<longleftrightarrow> (\<forall>x \<in> set xs. \<not> p x)"
  by (auto simp: rfind_def find_None_iff)

lemma rfind_Some_in: "rfind p xs = Some x \<Longrightarrow> x \<in> set xs \<and> p x"
  by (auto simp: rfind_def find_Some_iff) (metis length_rev nth_mem set_rev)

lemma rfind_filter: "rfind p xs = (case filter p xs of [] \<Rightarrow> None | ys \<Rightarrow> Some (last ys))"
  by (induction xs rule: rev_induct) (auto split: list.splits)

lemma rfind_index_None_iff: "rfind_index p xs = None \<longleftrightarrow> (\<forall>x \<in> set xs. \<not> p x)"
  by (induction xs) (auto split: option.splits)

lemma rfind_index_split:
  assumes "rfind_index p xs = Some i"
  obtains ys x zs where "xs = ys @ x # zs" "length ys = i" "p x" "\<forall>z \<in> set zs. \<not> p z"
    "xs ! i = x"
proof -
  have "\<exists>ys x zs. xs = ys @ x # zs \<and> length ys = i \<and> p x \<and> (\<forall>z \<in> set zs. \<not> p z)"
    using assms
  proof (induction xs arbitrary: i)
    case Nil
    then show ?case by simp
  next
    case (Cons a xs)
    show ?case
    proof (cases "rfind_index p xs")
      case None
      with Cons.prems have "p a" "i = 0" "\<forall>z \<in> set xs. \<not> p z"
        by (auto simp: rfind_index_None_iff split: if_splits)
      then show ?thesis by (intro exI[of _ "[]"]) auto
    next
      case (Some j)
      with Cons.IH[OF Some] Cons.prems obtain ys x zs where
        "xs = ys @ x # zs" "length ys = j" "p x" "\<forall>z \<in> set zs. \<not> p z" "i = Suc j"
        by auto
      then show ?thesis by (intro exI[of _ "a # ys"]) auto
    qed
  qed
  then show thesis using that by (auto simp: nth_append)
qed

section \<open>Slices\<close>

text \<open>\<open>slice.chunks(n)\<close>: consecutive pieces of \<open>n\<close> elements, the last one maybe shorter.\<close>

function chunks :: "nat \<Rightarrow> 'a list \<Rightarrow> 'a list list" where
  "chunks n xs = (if xs = [] \<or> n = 0 then [] else take n xs # chunks n (drop n xs))"
  by pat_completeness auto
termination
  by (relation "measure (\<lambda>(n, xs). length xs)") auto

declare chunks.simps [simp del]

lemma concat_chunks: "0 < n \<Longrightarrow> concat (chunks n xs) = xs"
proof (induction n xs rule: chunks.induct)
  case (1 n xs)
  then show ?case by (cases "xs = []") (simp_all add: chunks.simps[of n xs] chunks.simps[of n "[]"])
qed

end
