(* ===== verification/Entity_Mod.thy ===== *)
theory Entity_Mod
  imports Prelude
begin

text \<open>
  Entity keys, entity modifications and their projections: the first half of
  \<open>graph/src/components/store/write.rs\<close> and the key types it uses. The data of an entity is
  opaque to this code, so it is the type parameter \<open>'d\<close>; an \<open>EntityType\<close> behaves like the
  string name of the type and is modelled by it.
\<close>

section \<open>Keys and errors\<close>

datatype id = IdString string | IdBytes "nat list" | IdInt8 int

type_synonym entity_type = string
type_synonym causality_region = int

definition CR_ONCHAIN :: causality_region where
  "CR_ONCHAIN = 0"

record entity_key =
  key_type :: entity_type
  key_id :: id
  key_causality_region :: causality_region

text \<open>
  The error values. \<open>constraint_violation!\<close> builds a \<open>ConstraintViolation\<close> with a formatted
  message; the model keeps one constructor per message instead of the text.
\<close>

datatype violation =
    AlreadyModified block_number
  | ImmutableOnlyInserts
  | GoesBackwards
  | ImpossibleCombination
  | CanNotClamp
  | CanNotClampRemove
  | RemoveAsInsert
  | GroupTypeMismatch
  | BatchMustGoForward
  | ImmutableTable
  | PastGraftPoint
  | HeadIsAlreadyAt block_ptr block_ptr
  | WriterNotRunning
  | MismatchingCreationBlocks "block_number option" block_number
  | RemovesTooManyDataSources

datatype store_error =
    ConstraintViolation violation
  | WriteFailure
  | QueryExecutionError
  | ConflictingId entity_type id entity_type
  | UnknownTable entity_type
  | UnknownAttribute entity_type string
  | DuplicateBlockProcessing block_number
  | UnknownStoreError
  | Panic
  | Poisoned
  | WriterPanic

section \<open>Entity modifications\<close>

text \<open>
  The fields of \<open>Insert\<close> and \<open>Overwrite\<close> are \<open>key\<close>, \<open>data\<close>, \<open>block\<close> and \<open>end\<close>, in this order.
\<close>

datatype 'd entity_modification =
    Insert entity_key 'd block_number "block_number option"
  | Overwrite entity_key 'd block_number "block_number option"
  | Remove entity_key block_number

record 'd entity_write =
  w_id :: id
  w_entity :: 'd
  w_causality_region :: causality_region
  w_block :: block_number
  w_end :: "block_number option"

datatype 'd entity_op = OpWrite entity_key 'd | OpRemove entity_key

fun emod_key :: "'d entity_modification \<Rightarrow> entity_key" where
  "emod_key (Insert key data block end') = key"
| "emod_key (Overwrite key data block end') = key"
| "emod_key (Remove key block) = key"

definition emod_id :: "'d entity_modification \<Rightarrow> id" where
  "emod_id m = key_id (emod_key m)"

fun emod_block :: "'d entity_modification \<Rightarrow> block_number" where
  "emod_block (Insert key data block end') = block"
| "emod_block (Overwrite key data block end') = block"
| "emod_block (Remove key block) = block"

fun is_write :: "'d entity_modification \<Rightarrow> bool" where
  "is_write (Insert key data block end') = True"
| "is_write (Overwrite key data block end') = True"
| "is_write (Remove key block) = False"

text \<open>\<open>EntityWrite::try_from\<close>; its error carries no information.\<close>

fun entity_write_try_from :: "'d entity_modification \<Rightarrow> (unit, 'd entity_write) result" where
  "entity_write_try_from (Insert key data block end') =
     Inr \<lparr>w_id = key_id key, w_entity = data, w_causality_region = key_causality_region key,
          w_block = block, w_end = end'\<rparr>"
| "entity_write_try_from (Overwrite key data block end') =
     Inr \<lparr>w_id = key_id key, w_entity = data, w_causality_region = key_causality_region key,
          w_block = block, w_end = end'\<rparr>"
| "entity_write_try_from (Remove key block) = Inl ()"

definition as_write :: "'d entity_modification \<Rightarrow> 'd entity_write option" where
  "as_write m = (case entity_write_try_from m of Inr w \<Rightarrow> Some w | Inl _ \<Rightarrow> None)"

fun is_clamp :: "'d entity_modification \<Rightarrow> bool" where
  "is_clamp (Insert key data block end') = False"
| "is_clamp (Overwrite key data block end') = True"
| "is_clamp (Remove key block) = True"

fun creates_entity :: "'d entity_modification \<Rightarrow> bool" where
  "creates_entity (Insert key data block end') = True"
| "creates_entity (Overwrite key data block end') = False"
| "creates_entity (Remove key block) = False"

fun emod_count_change :: "'d entity_modification \<Rightarrow> int" where
  "emod_count_change (Insert key data block None) = 1"
| "emod_count_change (Insert key data block (Some end')) = 0"
| "emod_count_change (Overwrite key data block None) = 0"
| "emod_count_change (Overwrite key data block (Some end')) = -1"
| "emod_count_change (Remove key block) = -1"

fun emod_clamp :: "'d entity_modification \<Rightarrow> block_number
    \<Rightarrow> (store_error, 'd entity_modification) result" where
  "emod_clamp (Insert key data block end') b =
     (if end' \<noteq> None then Inl (ConstraintViolation CanNotClamp)
      else Inr (Insert key data block (Some b)))"
| "emod_clamp (Overwrite key data block end') b =
     (if end' \<noteq> None then Inl (ConstraintViolation CanNotClamp)
      else Inr (Overwrite key data block (Some b)))"
| "emod_clamp (Remove key block) b = Inl (ConstraintViolation CanNotClampRemove)"

fun as_insert :: "'d entity_modification \<Rightarrow> (store_error, 'd entity_modification) result" where
  "as_insert (Insert key data block end') = Inr (Insert key data block end')"
| "as_insert (Overwrite key data block end') = Inr (Insert key data block end')"
| "as_insert (Remove key block) = Inl (ConstraintViolation RemoveAsInsert)"

text \<open>
  \<open>as_entity_op\<close>: the \<open>debug_assert\<close> at its start, \<open>block() \<le> at\<close>, holds at both call sites,
  which filter on it. The first \<open>match\<close> arm is the open version, the second (guarded by
  \<open>at < *end\<close>) the version that is clamped later than \<open>at\<close>.
\<close>

fun as_entity_op :: "'d entity_modification \<Rightarrow> block_number \<Rightarrow> 'd entity_op" where
  "as_entity_op (Insert key data block None) at = OpWrite key data"
| "as_entity_op (Overwrite key data block None) at = OpWrite key data"
| "as_entity_op (Insert key data block (Some end')) at =
     (if at < end' then OpWrite key data else OpRemove key)"
| "as_entity_op (Overwrite key data block (Some end')) at =
     (if at < end' then OpWrite key data else OpRemove key)"
| "as_entity_op (Remove key block) at = OpRemove key"

definition emod_insert :: "entity_key \<Rightarrow> 'd \<Rightarrow> block_number \<Rightarrow> 'd entity_modification" where
  "emod_insert key data block = Insert key data block None"

definition emod_overwrite :: "entity_key \<Rightarrow> 'd \<Rightarrow> block_number \<Rightarrow> 'd entity_modification" where
  "emod_overwrite key data block = Overwrite key data block None"

definition emod_remove :: "entity_key \<Rightarrow> block_number \<Rightarrow> 'd entity_modification" where
  "emod_remove key block = Remove key block"

section \<open>Vocabulary of the proofs\<close>

text \<open>The block from which a modification is no longer in force, if there is one.\<close>

fun emod_end :: "'d entity_modification \<Rightarrow> block_number option" where
  "emod_end (Insert key data block end') = end'"
| "emod_end (Overwrite key data block end') = end'"
| "emod_end (Remove key block) = Some block"

text \<open>
  Block numbers are at most \<open>BLOCK_NUMBER_MAX\<close> and an entity version ends after it starts.
\<close>

fun emod_ok :: "'d entity_modification \<Rightarrow> bool" where
  "emod_ok (Insert key data block end') \<longleftrightarrow> block \<le> BLOCK_NUMBER_MAX \<and>
     (case end' of None \<Rightarrow> True | Some e \<Rightarrow> block < e \<and> e \<le> BLOCK_NUMBER_MAX)"
| "emod_ok (Overwrite key data block end') \<longleftrightarrow> block \<le> BLOCK_NUMBER_MAX \<and>
     (case end' of None \<Rightarrow> True | Some e \<Rightarrow> block < e \<and> e \<le> BLOCK_NUMBER_MAX)"
| "emod_ok (Remove key block) \<longleftrightarrow> block \<le> BLOCK_NUMBER_MAX"

lemma emod_id_simps [simp]:
  "emod_id (Insert key data block end') = key_id key"
  "emod_id (Overwrite key data block end') = key_id key"
  "emod_id (Remove key block) = key_id key"
  by (simp_all add: emod_id_def)

lemma as_write_simps [simp]:
  "as_write (Insert key data block end') =
     Some \<lparr>w_id = key_id key, w_entity = data, w_causality_region = key_causality_region key,
           w_block = block, w_end = end'\<rparr>"
  "as_write (Overwrite key data block end') =
     Some \<lparr>w_id = key_id key, w_entity = data, w_causality_region = key_causality_region key,
           w_block = block, w_end = end'\<rparr>"
  "as_write (Remove key block) = None"
  by (simp_all add: as_write_def)

lemma is_write_iff: "is_write m \<longleftrightarrow> as_write m \<noteq> None"
  by (cases m) simp_all

lemma as_write_SomeD:
  "as_write m = Some w \<Longrightarrow> w_id w = emod_id m \<and> w_block w = emod_block m \<and> w_end w = emod_end m"
  by (cases m) auto

text \<open>Clamping succeeds exactly on open versions and only changes the end.\<close>

lemma emod_clamp_Inr_iff:
  "emod_clamp m b = Inr m' \<longleftrightarrow>
     (\<exists>key data block. m = Insert key data block None \<and> m' = Insert key data block (Some b)
        \<or> m = Overwrite key data block None \<and> m' = Overwrite key data block (Some b))"
  by (cases m) auto

fun_cases emod_clamp_InrE: "emod_clamp m b = Inr m'"
fun_cases as_insert_InrE: "as_insert m = Inr m'"

lemma as_insert_Inr:
  "as_insert m = Inr m' \<Longrightarrow> emod_key m' = emod_key m \<and> emod_block m' = emod_block m \<and>
     as_write m' = as_write m \<and> \<not> is_clamp m'"
  by (cases m) auto

end
