(* ===== verification/Entity_Table.thy ===== *)
theory Entity_Table
  imports Entity_Mod
begin

text \<open>
  The tables that hold entity versions, and the SQL statements that the store runs on them:
  \<open>store/postgres/src/block_range.rs\<close> (the block range column), the clamp, insert and revert
  queries of \<open>relational_queries.rs\<close>, the lookup of \<open>relational.rs\<close> and \<open>relational/dsl.rs\<close>,
  and \<open>Layout::insert\<close>, \<open>Layout::delete\<close> and \<open>Layout::revert_block\<close>. A table is the list of its
  rows; each query that the code assembles as SQL text is the function that the text denotes.
\<close>

section \<open>Block ranges\<close>

text \<open>
  A value of type \<open>int4range\<close>. Postgres normalises \<open>int4range(l, u)\<close> to \<open>[l, u)\<close>, to the empty
  range when \<open>l = u\<close>, and raises an error when \<open>u < l\<close>; an absent upper bound is infinite.
\<close>

datatype int4range = Empty_range | Int4range block_number "block_number option"

fun make_int4range :: "block_number \<Rightarrow> block_number option \<Rightarrow> (store_error, int4range) result" where
  "make_int4range l None = Inr (Int4range l None)"
| "make_int4range l (Some u) =
     (if u < l then Inl WriteFailure
      else if u = l then Inr Empty_range else Inr (Int4range l (Some u)))"

fun range_contains :: "int4range \<Rightarrow> block_number \<Rightarrow> bool" where
  "range_contains Empty_range b = False"
| "range_contains (Int4range l None) b \<longleftrightarrow> l \<le> b"
| "range_contains (Int4range l (Some u)) b \<longleftrightarrow> l \<le> b \<and> b < u"

text \<open>\<open>lower(r)\<close> is \<open>null\<close> for the empty range, \<open>upper(r)\<close> for an empty or unbounded one.\<close>

fun range_lower :: "int4range \<Rightarrow> block_number option" where
  "range_lower Empty_range = None"
| "range_lower (Int4range l u) = Some l"

fun range_upper :: "int4range \<Rightarrow> block_number option" where
  "range_upper Empty_range = None"
| "range_upper (Int4range l u) = u"

text \<open>\<open>coalesce(upper(block_range), 2147483647)\<close>\<close>

definition coalesce_upper :: "int4range \<Rightarrow> block_number" where
  "coalesce_upper r = (case range_upper r of None \<Rightarrow> BLOCK_NUMBER_MAX | Some u \<Rightarrow> u)"

text \<open>
  The value of the block column: \<open>block$\<close> in immutable tables, \<open>block_range\<close> in mutable ones.
\<close>

datatype block_range_value = Immutable block_number | Mutable int4range

fun block_range_value_new :: "bool \<Rightarrow> block_number \<Rightarrow> block_number option
    \<Rightarrow> (store_error, block_range_value) result" where
  "block_range_value_new immutable block end' =
     (if immutable then Inr (Immutable block)
      else bind_res (make_int4range block end') (\<lambda>r. Inr (Mutable r)))"

text \<open>
  \<open>BlockRangeColumn::contains\<close>: for account-like tables the query repeats the condition in
  terms of the bounds so that Postgres can use the BRIN index.
\<close>

fun br_contains :: "bool \<Rightarrow> bool \<Rightarrow> bool \<Rightarrow> block_number \<Rightarrow> block_range_value \<Rightarrow> bool" where
  "br_contains account_like filters_by_id use_brin_all block (Mutable r) \<longleftrightarrow>
     range_contains r block \<and>
     (account_like \<and> block < BLOCK_NUMBER_MAX \<and> (\<not> filters_by_id \<or> use_brin_all) \<longrightarrow>
        coalesce_upper r > block \<and> (case range_lower r of None \<Rightarrow> False | Some l \<Rightarrow> l \<le> block))"
| "br_contains account_like filters_by_id use_brin_all block (Immutable n) \<longleftrightarrow>
     (if block = BLOCK_NUMBER_MAX then True else n \<le> block)"

fun br_latest :: "block_range_value \<Rightarrow> bool" where
  "br_latest (Mutable r) = range_contains r BLOCK_NUMBER_MAX"
| "br_latest (Immutable n) = True"

text \<open>
  \<open>clamp\<close> panics on an immutable table; \<open>ClampRangeQuery::new\<close> has refused it before. The
  lower bound of an empty range is \<open>null\<close>, so \<open>int4range(null, $block)\<close> holds every \<open>i32\<close>
  below \<open>block\<close>; an empty range is never the latest, so the query never does this.
\<close>

fun br_clamp :: "block_number \<Rightarrow> block_range_value \<Rightarrow> (store_error, block_range_value) result" where
  "br_clamp block (Mutable r) =
     (case range_lower r of
        None \<Rightarrow> bind_res (make_int4range (- 2147483648) (Some block)) (\<lambda>r'. Inr (Mutable r'))
      | Some l \<Rightarrow> bind_res (make_int4range l (Some block)) (\<lambda>r'. Inr (Mutable r')))"
| "br_clamp block (Immutable n) = Inl (ConstraintViolation ImmutableTable)"

fun br_changed_since :: "block_number \<Rightarrow> block_range_value \<Rightarrow> bool" where
  "br_changed_since block (Mutable r) =
     (case range_lower r of None \<Rightarrow> False | Some l \<Rightarrow> l \<ge> block)"
| "br_changed_since block (Immutable n) = (n \<ge> block)"

text \<open>
  \<open>EntityBlockRange::contains\<close>, for the range \<open>start..end\<close> that \<open>EntityBlockRange::new\<close> makes:
  an excluded upper bound is compared with \<open><=\<close>.
\<close>

datatype bound_side = Lower | Upper

fun entity_block_range_contains :: "bound_side \<Rightarrow> block_number \<Rightarrow> block_number
    \<Rightarrow> block_range_value \<Rightarrow> bool" where
  "entity_block_range_contains side start finish (Immutable n) = (n \<ge> start \<and> n \<le> finish)"
| "entity_block_range_contains Lower start finish (Mutable r) =
     (case range_lower r of None \<Rightarrow> False | Some l \<Rightarrow> l \<ge> start \<and> l \<le> finish)"
| "entity_block_range_contains Upper start finish (Mutable r) =
     (case range_upper r of None \<Rightarrow> False | Some u \<Rightarrow> u \<ge> start \<and> u \<le> finish)"

text \<open>The range covers a block and the redundant BRIN clause changes nothing.\<close>

lemma range_contains_iff:
  "range_contains (Int4range l u) b \<longleftrightarrow> l \<le> b \<and> (case u of None \<Rightarrow> True | Some u \<Rightarrow> b < u)"
  by (cases u) simp_all

lemma br_contains_Mutable:
  "br_contains al fid brin b (Mutable r) = range_contains r b"
  by (cases r) (auto simp: coalesce_upper_def range_contains_iff split: option.splits)

section \<open>Tables\<close>

text \<open>
  What this code reads of a \<open>Table\<close>: the three flags, whether an entity has a value for every
  non-nullable column, and the number of rows one insert statement may have
  (\<open>InsertQuery::chunk_size\<close>); and the rows.
\<close>

record 'd version =
  v_id :: id
  v_entity :: 'd
  v_causality_region :: causality_region
  v_range :: block_range_value

record 'd table =
  t_immutable :: bool
  t_has_causality_region :: bool
  t_is_account_like :: bool
  t_complete :: "'d \<Rightarrow> bool"
  t_chunk_size :: nat
  t_rows :: "'d version list"

text \<open>\<open>Layout::find\<close>: \<open>at_block\<close> is used without \<open>filters_by_id\<close>.\<close>

definition at_block :: "'d table \<Rightarrow> block_number \<Rightarrow> 'd version \<Rightarrow> bool" where
  "at_block t block v = br_contains (t_is_account_like t) False False block (v_range v)"

definition belongs_to_causality_region :: "'d table \<Rightarrow> causality_region \<Rightarrow> 'd version \<Rightarrow> bool" where
  "belongs_to_causality_region t cr v \<longleftrightarrow> (t_has_causality_region t \<longrightarrow> v_causality_region v = cr)"

definition layout_find :: "'d table \<Rightarrow> entity_key \<Rightarrow> block_number \<Rightarrow> 'd option" where
  "layout_find t key block =
     map_option v_entity
       (find (\<lambda>v. v_id v = key_id key \<and> at_block t block v
                \<and> belongs_to_causality_region t (key_causality_region key) v) (t_rows t))"

section \<open>Clamping and inserting\<close>

definition clamp_selects :: "id list \<Rightarrow> 'd version \<Rightarrow> bool" where
  "clamp_selects ids v \<longleftrightarrow> v_id v \<in> set ids \<and> br_latest (v_range v)"

text \<open>
  \<open>ClampRangeQuery\<close>: \<open>update t set block_range = int4range(lower(block_range), $block)
  where id in (..) and block_range @> INTMAX\<close>. The number of rows it updates is only used in
  log messages and is left out.
\<close>

definition clamp_version :: "block_number \<Rightarrow> 'd version \<Rightarrow> (store_error, 'd version) result" where
  "clamp_version block v =
     bind_res (br_clamp block (v_range v)) (\<lambda>r. Inr (v\<lparr>v_range := r\<rparr>))"

definition clamp_rows :: "id list \<Rightarrow> block_number \<Rightarrow> 'd version list
    \<Rightarrow> (store_error, 'd version list) result" where
  "clamp_rows ids block =
     map_res (\<lambda>v. if clamp_selects ids v then clamp_version block v else Inr v)"

definition clamp_range_query :: "id list \<Rightarrow> block_number \<Rightarrow> 'd table
    \<Rightarrow> (store_error, 'd table) result" where
  "clamp_range_query ids block t =
     (if t_immutable t then Inl (ConstraintViolation ImmutableTable)
      else bind_res (clamp_rows ids block (t_rows t)) (\<lambda>rows. Inr (t\<lparr>t_rows := rows\<rparr>)))"

text \<open>
  \<open>InsertQuery::new\<close> checks that non-nullable columns have a value; executing the query adds
  one row per write.
\<close>

definition new_version :: "bool \<Rightarrow> 'd entity_write \<Rightarrow> (store_error, 'd version) result" where
  "new_version immutable w =
     bind_res (block_range_value_new immutable (w_block w) (w_end w))
       (\<lambda>r. Inr \<lparr>v_id = w_id w, v_entity = w_entity w,
                 v_causality_region = w_causality_region w, v_range = r\<rparr>)"

definition insert_query :: "'d entity_write list \<Rightarrow> 'd table \<Rightarrow> (store_error, 'd table) result" where
  "insert_query ws t =
     (if \<exists>w \<in> set ws. \<not> t_complete t (w_entity w) then Inl QueryExecutionError
      else bind_res (map_res (new_version (t_immutable t)) ws)
             (\<lambda>vs. Inr (t\<lparr>t_rows := t_rows t @ vs\<rparr>)))"

section \<open>Reverting\<close>

text \<open>\<open>RevertRemoveQuery\<close>: the ids of the versions it deletes, and the rows that stay.\<close>

definition revert_remove :: "block_number \<Rightarrow> 'd version list \<Rightarrow> id list \<times> 'd version list" where
  "revert_remove block rows =
     (map v_id (filter (\<lambda>v. br_changed_since block (v_range v)) rows),
      filter (\<lambda>v. \<not> br_changed_since block (v_range v)) rows)"

fun revert_clamp_selects :: "block_number \<Rightarrow> block_range_value \<Rightarrow> bool" where
  "revert_clamp_selects block (Mutable r) \<longleftrightarrow>
     range_contains r block \<and> \<not> range_contains r BLOCK_NUMBER_MAX \<and>
     (case range_lower r of None \<Rightarrow> False | Some l \<Rightarrow> l \<le> block) \<and>
     coalesce_upper r > block \<and> coalesce_upper r < BLOCK_NUMBER_MAX"
| "revert_clamp_selects block (Immutable n) = False"

fun unclamp :: "block_range_value \<Rightarrow> block_range_value" where
  "unclamp (Mutable (Int4range l u)) = Mutable (Int4range l None)"
| "unclamp r = r"

definition revert_clamp :: "block_number \<Rightarrow> 'd version list \<Rightarrow> id list \<times> 'd version list" where
  "revert_clamp block rows =
     (map v_id (filter (\<lambda>v. revert_clamp_selects block (v_range v)) rows),
      map (\<lambda>v. if revert_clamp_selects block (v_range v)
               then v\<lparr>v_range := unclamp (v_range v)\<rparr> else v) rows)"

definition set_difference_count :: "id list \<Rightarrow> id list \<Rightarrow> int" where
  "set_difference_count xs ys = int (length (remdups (filter (\<lambda>x. x \<notin> set ys) xs)))"

definition revert_table :: "block_number \<Rightarrow> 'd table \<Rightarrow> int \<times> 'd table" where
  "revert_table block t =
     (let (removed, rows) = revert_remove block (t_rows t);
          (unclamped, rows') = (if t_immutable t then ([], rows) else revert_clamp (block - 1) rows);
          deleted = set_difference_count removed unclamped;
          inserted = set_difference_count unclamped removed
      in (inserted - deleted, t\<lparr>t_rows := rows'\<rparr>))"

end
