(* ===== verification/Row_Group.thy ===== *)
theory Row_Group
  imports Entity_Table
begin

text \<open>
  \<open>RowGroup\<close> of \<open>graph/src/components/store/write.rs\<close>: the queued changes of one entity type,
  the folding of a new change into the ones already there (\<open>append_row\<close>), the lookups in a
  group, and the iterators over its clamps and writes from which
  \<open>store/postgres/src/relational.rs\<close> makes SQL statements.
\<close>

section \<open>The row group\<close>

record 'd row_group =
  rg_entity_type :: entity_type
  rg_rows :: "'d entity_modification list"
  rg_immutable :: bool

definition row_group_new :: "entity_type \<Rightarrow> bool \<Rightarrow> 'd row_group" where
  "row_group_new et immutable = \<lparr>rg_entity_type = et, rg_rows = [], rg_immutable = immutable\<rparr>"

definition rg_push_row :: "'d entity_modification \<Rightarrow> 'd row_group \<Rightarrow> 'd row_group" where
  "rg_push_row row g = g\<lparr>rg_rows := rg_rows g @ [row]\<rparr>"

definition row_count :: "'d row_group \<Rightarrow> nat" where
  "row_count g = length (rg_rows g)"

definition entity_count_change :: "'d row_group \<Rightarrow> int" where
  "entity_count_change g = sum_list (map emod_count_change (rg_rows g))"

definition writes :: "'d row_group \<Rightarrow> 'd entity_modification list" where
  "writes g = filter is_write (rg_rows g)"

definition has_clamps :: "'d row_group \<Rightarrow> bool" where
  "has_clamps g = list_ex is_clamp (rg_rows g)"

definition rg_ids :: "'d row_group \<Rightarrow> id list" where
  "rg_ids g = map emod_id (rg_rows g)"

section \<open>Appending rows\<close>

definition prev_row_mut :: "id \<Rightarrow> 'd row_group \<Rightarrow> nat option" where
  "prev_row_mut i g = rfind_index (\<lambda>m. emod_id m = i) (rg_rows g)"

text \<open>
  The \<open>match\<close> on \<open>(prev_row, row)\<close> in \<open>append_row\<close>, \<open>i\<close> being the index of \<open>prev_row\<close>.
\<close>

fun combine_rows :: "'d row_group \<Rightarrow> nat \<Rightarrow> 'd entity_modification \<Rightarrow> 'd entity_modification
    \<Rightarrow> (store_error, 'd row_group) result" where
  "combine_rows g i (Insert _ _ _ None) (Insert k d b e) =
     Inl (ConstraintViolation ImpossibleCombination)"
| "combine_rows g i (Overwrite _ _ _ None) (Insert k d b e) =
     Inl (ConstraintViolation ImpossibleCombination)"
| "combine_rows g i (Remove _ _) (Overwrite k d b e) =
     Inl (ConstraintViolation ImpossibleCombination)"
| "combine_rows g i (Insert _ _ _ (Some _)) (Overwrite k d b e) =
     Inl (ConstraintViolation ImpossibleCombination)"
| "combine_rows g i (Overwrite _ _ _ (Some _)) (Overwrite k d b e) =
     Inl (ConstraintViolation ImpossibleCombination)"
| "combine_rows g i (Insert _ _ _ (Some _)) (Remove k b) =
     Inl (ConstraintViolation ImpossibleCombination)"
| "combine_rows g i (Overwrite _ _ _ (Some _)) (Remove k b) =
     Inl (ConstraintViolation ImpossibleCombination)"
| "combine_rows g i (Remove _ _) (Remove k b) = Inr g"
| "combine_rows g i (Insert _ _ _ (Some _)) (Insert k d b e) = Inr (rg_push_row (Insert k d b e) g)"
| "combine_rows g i (Overwrite _ _ _ (Some _)) (Insert k d b e) =
     Inr (rg_push_row (Insert k d b e) g)"
| "combine_rows g i (Remove _ _) (Insert k d b e) = Inr (rg_push_row (Insert k d b e) g)"
| "combine_rows g i (Insert pk pd pb None) (Overwrite k d b e) =
     bind_res (emod_clamp (Insert pk pd pb None) b)
       (\<lambda>prev. bind_res (as_insert (Overwrite k d b e))
         (\<lambda>row. Inr (rg_push_row row (g\<lparr>rg_rows := (rg_rows g)[i := prev]\<rparr>))))"
| "combine_rows g i (Overwrite pk pd pb None) (Overwrite k d b e) =
     bind_res (emod_clamp (Overwrite pk pd pb None) b)
       (\<lambda>prev. bind_res (as_insert (Overwrite k d b e))
         (\<lambda>row. Inr (rg_push_row row (g\<lparr>rg_rows := (rg_rows g)[i := prev]\<rparr>))))"
| "combine_rows g i (Insert pk pd pb None) (Remove k b) =
     bind_res (emod_clamp (Insert pk pd pb None) b)
       (\<lambda>prev. Inr (g\<lparr>rg_rows := (rg_rows g)[i := prev]\<rparr>))"
| "combine_rows g i (Overwrite pk pd pb None) (Remove k b) =
     bind_res (emod_clamp (Overwrite pk pd pb None) b)
       (\<lambda>prev. Inr (g\<lparr>rg_rows := (rg_rows g)[i := prev]\<rparr>))"

definition append_row :: "'d entity_modification \<Rightarrow> 'd row_group
    \<Rightarrow> (store_error, 'd row_group) result" where
  "append_row row g =
     (if rg_immutable g then
        (case row of
           Insert _ _ _ _ \<Rightarrow> Inr (rg_push_row row g)
         | _ \<Rightarrow> Inl (ConstraintViolation ImmutableOnlyInserts))
      else
        (case prev_row_mut (emod_id row) g of
           None \<Rightarrow> Inr (rg_push_row row g)
         | Some i \<Rightarrow>
             let prev_row = rg_rows g ! i in
             if emod_block row \<le> emod_block prev_row then Inl (ConstraintViolation GoesBackwards)
             else combine_rows g i prev_row row))"

definition push :: "'d entity_modification \<Rightarrow> block_number \<Rightarrow> 'd row_group
    \<Rightarrow> (store_error, 'd row_group) result" where
  "push emod block g =
     (case rg_rows g of
        [] \<Rightarrow> append_row emod g
      | rows \<Rightarrow>
          if emod_block (last rows) \<le> block then append_row emod g
          else Inl (ConstraintViolation (AlreadyModified (emod_block (last rows)))))"

definition rg_append :: "'d row_group \<Rightarrow> 'd row_group \<Rightarrow> (store_error, 'd row_group) result" where
  "rg_append other g =
     (if rg_entity_type g \<noteq> rg_entity_type other then Inl (ConstraintViolation GroupTypeMismatch)
      else fold_res append_row (rg_rows other) g)"

section \<open>Looking up the effective operation\<close>

definition rg_last_op :: "'d row_group \<Rightarrow> entity_key \<Rightarrow> block_number \<Rightarrow> 'd entity_op option" where
  "rg_last_op g key at =
     map_option (\<lambda>emod. as_entity_op emod at)
       (rfind (\<lambda>emod. emod_key emod = key \<and> emod_block emod \<le> at) (rg_rows g))"

text \<open>\<open>effective_ops\<close>: newest row first, each id once; \<open>seen\<close> is the hash set of the closure.\<close>

fun effective_ops_from :: "id list \<Rightarrow> block_number \<Rightarrow> 'd entity_modification list
    \<Rightarrow> 'd entity_op list" where
  "effective_ops_from seen at [] = []"
| "effective_ops_from seen at (emod # rest) =
     (if emod_block emod \<le> at \<and> emod_id emod \<notin> set seen
      then as_entity_op emod at # effective_ops_from (emod_id emod # seen) at rest
      else effective_ops_from seen at rest)"

definition rg_effective_ops :: "'d row_group \<Rightarrow> block_number \<Rightarrow> 'd entity_op list" where
  "rg_effective_ops g at = effective_ops_from [] at (rev (rg_rows g))"

section \<open>Iterators over clamps and writes\<close>

text \<open>
  An iterator over a slice with a \<open>position\<close> is the rest of the slice from that position on.
  \<open>ClampsByBlockIterator::next\<close> skips to the next clamp and takes the run of clamps that have
  its block.
\<close>

definition clamps_next :: "'d entity_modification list
    \<Rightarrow> ((block_number \<times> 'd entity_modification list) \<times> 'd entity_modification list) option" where
  "clamps_next rest =
     (case dropWhile (\<lambda>m. \<not> is_clamp m) rest of
        [] \<Rightarrow> None
      | m # ms \<Rightarrow>
          let in_run = (\<lambda>r. emod_block r = emod_block m \<and> is_clamp r) in
          Some ((emod_block m, takeWhile in_run (m # ms)), dropWhile in_run (m # ms)))"

lemma clamps_next_shorter: "clamps_next rest = Some (run, rest') \<Longrightarrow> length rest' < length rest"
proof -
  assume a: "clamps_next rest = Some (run, rest')"
  have l: "length (dropWhile P xs) \<le> length xs" for P and xs :: "'a entity_modification list"
    by (rule length_dropWhile_le)
  from a obtain m ms where ms: "dropWhile (\<lambda>m. \<not> is_clamp m) rest = m # ms"
    and r: "rest' = dropWhile (\<lambda>r. emod_block r = emod_block m \<and> is_clamp r) (m # ms)"
    by (auto simp: clamps_next_def Let_def split: list.splits)
  have "is_clamp m" using ms hd_dropWhile[of "\<lambda>m. \<not> is_clamp m" rest] by auto
  then have "length rest' \<le> length ms" unfolding r by (simp add: l)
  moreover have "length (m # ms) \<le> length rest" unfolding ms[symmetric] by (rule l)
  ultimately show ?thesis by simp
qed

function clamps_from :: "'d entity_modification list
    \<Rightarrow> (block_number \<times> 'd entity_modification list) list" where
  "clamps_from rest =
     (case clamps_next rest of None \<Rightarrow> [] | Some (run, rest') \<Rightarrow> run # clamps_from rest')"
  by pat_completeness auto
termination
  by (relation "measure length") (auto dest: clamps_next_shorter)

declare clamps_from.simps [simp del]

definition clamps_by_block :: "'d row_group
    \<Rightarrow> (block_number \<times> 'd entity_modification list) list" where
  "clamps_by_block g = clamps_from (rg_rows g)"

text \<open>
  \<open>WriteChunker::next\<close> advances \<open>position\<close> past \<open>chunk_size\<close> writes; a \<open>WriteChunk\<close> is the rest
  of the rows from its position, read by \<open>WriteChunkIter\<close> up to \<open>chunk_size\<close> writes.
\<close>

fun advance_chunk :: "nat \<Rightarrow> 'd entity_modification list \<Rightarrow> 'd entity_modification list" where
  "advance_chunk 0 rest = rest"
| "advance_chunk (Suc n) [] = []"
| "advance_chunk (Suc n) (m # ms) =
     (if is_write m then advance_chunk n ms else advance_chunk (Suc n) ms)"

fun chunk_iter :: "nat \<Rightarrow> 'd entity_modification list \<Rightarrow> 'd entity_write list" where
  "chunk_iter 0 rest = []"
| "chunk_iter (Suc n) [] = []"
| "chunk_iter (Suc n) (m # ms) =
     (case as_write m of Some w \<Rightarrow> w # chunk_iter n ms | None \<Rightarrow> chunk_iter (Suc n) ms)"

definition chunk_len :: "nat \<Rightarrow> 'd entity_modification list \<Rightarrow> nat" where
  "chunk_len chunk_size rest = min (length rest) chunk_size"

definition chunk_is_empty :: "nat \<Rightarrow> 'd entity_modification list \<Rightarrow> bool" where
  "chunk_is_empty chunk_size rest \<longleftrightarrow> chunk_iter chunk_size rest = []"

text \<open>
  All chunks of a group. With a chunk size of 0 the iterator never advances, and the loop over
  it does not end: that is the value \<open>None\<close>.
\<close>

partial_function (option) write_chunks_from :: "nat \<Rightarrow> 'd entity_modification list
    \<Rightarrow> 'd entity_modification list list option" where
  "write_chunks_from chunk_size rest =
     (if rest = [] then Some []
      else Option.bind (write_chunks_from chunk_size (advance_chunk chunk_size rest))
             (\<lambda>cs. Some (rest # cs)))"

definition write_chunks :: "nat \<Rightarrow> 'd row_group \<Rightarrow> 'd entity_modification list list option" where
  "write_chunks chunk_size g = write_chunks_from chunk_size (rg_rows g)"

section \<open>Writing a group to its table\<close>

definition DELETE_OPERATION_CHUNK_SIZE :: nat where
  "DELETE_OPERATION_CHUNK_SIZE = 1000"

definition layout_insert :: "'d row_group \<Rightarrow> 'd table \<Rightarrow> (store_error, 'd table) result option" where
  "layout_insert g t =
     map_option
       (\<lambda>cs. fold_res
          (\<lambda>chunk t. if chunk_is_empty (t_chunk_size t) chunk then Inr t
                     else insert_query (chunk_iter (t_chunk_size t) chunk) t) cs t)
       (write_chunks (t_chunk_size t) g)"

definition layout_delete :: "'d row_group \<Rightarrow> 'd table \<Rightarrow> (store_error, 'd table) result" where
  "layout_delete g t =
     (if \<not> has_clamps g then Inr t
      else if t_immutable t then Inl (ConstraintViolation ImmutableTable)
      else fold_res
             (\<lambda>(block, rows).
                fold_res (\<lambda>ids. clamp_range_query ids block)
                  (chunks DELETE_OPERATION_CHUNK_SIZE (map emod_id rows)))
             (clamps_by_block g) t)"

end
