(* ===== verification/Version_Spec.thy ===== *)
theory Version_Spec
  imports Row_Group
begin

text \<open>
  The specification that the in-memory row groups implement: the meaning of one entity
  modification on the table of its entity type (\<open>exec_mod\<close>), and the meaning of a list of them
  as running one after the other. A group is written to the database in two sweeps, all clamps
  before all inserts, in chunks; the first part of this theory shows that the sweeps have the
  same effect as the one-by-one run.
\<close>

section \<open>One modification at a time\<close>

text \<open>
  A clamp ends the current version of the entity; a write adds a version. \<open>Insert\<close> promises
  that the entity has no current version, and the exclusion constraint of
  \<open>relational/ddl.rs\<close> makes an insert that breaks the promise fail.
\<close>

definition exec_clamp :: "'d entity_modification \<Rightarrow> 'd table \<Rightarrow> (store_error, 'd table) result" where
  "exec_clamp m t =
     (if is_clamp m then clamp_range_query [emod_id m] (emod_block m) t
      else if \<exists>v \<in> set (t_rows t). v_id v = emod_id m \<and> br_latest (v_range v) then Inl WriteFailure
      else Inr t)"

definition exec_write :: "'d entity_modification \<Rightarrow> 'd table \<Rightarrow> (store_error, 'd table) result" where
  "exec_write m t = (case as_write m of None \<Rightarrow> Inr t | Some w \<Rightarrow> insert_query [w] t)"

definition exec_mod :: "'d entity_modification \<Rightarrow> 'd table \<Rightarrow> (store_error, 'd table) result" where
  "exec_mod m t = bind_res (exec_clamp m t) (exec_write m)"

abbreviation exec_mods :: "'d entity_modification list \<Rightarrow> 'd table \<Rightarrow> (store_error, 'd table) result" where
  "exec_mods \<equiv> fold_res exec_mod"

text \<open>
  The shape that \<open>append_row\<close> keeps the rows in: of two rows for one id, the first is no longer
  in force when the second starts, and the second does not clamp anything.
\<close>

definition folds_into :: "'d entity_modification \<Rightarrow> 'd entity_modification \<Rightarrow> bool" where
  "folds_into x y \<longleftrightarrow> emod_id x = emod_id y \<longrightarrow>
     (\<exists>e. emod_end x = Some e \<and> e \<le> emod_block y) \<and> emod_block x < emod_block y \<and> \<not> is_clamp y"

definition rows_inv :: "'d entity_modification list \<Rightarrow> bool" where
  "rows_inv rows \<longleftrightarrow> (\<forall>m \<in> set rows. emod_ok m) \<and> sorted_wrt folds_into rows"

lemma rows_inv_Nil [simp]: "rows_inv []"
  by (simp add: rows_inv_def)

lemma rows_inv_append:
  "rows_inv (xs @ ys) \<longleftrightarrow> rows_inv xs \<and> rows_inv ys \<and> (\<forall>x \<in> set xs. \<forall>y \<in> set ys. folds_into x y)"
  by (auto simp: rows_inv_def sorted_wrt_append)

lemma rows_inv_snoc:
  "rows_inv (xs @ [y]) \<longleftrightarrow> rows_inv xs \<and> emod_ok y \<and> (\<forall>x \<in> set xs. folds_into x y)"
  by (auto simp: rows_inv_append) (simp_all add: rows_inv_def)

section \<open>Clamping\<close>

lemma emod_ok_block: "emod_ok m \<Longrightarrow> emod_block m \<le> BLOCK_NUMBER_MAX"
  by (cases m) auto

text \<open>A version that has been clamped at a block number is no longer current.\<close>

lemma clamp_version_not_latest:
  assumes "clamp_version b v = Inr v'" and "b \<le> BLOCK_NUMBER_MAX"
  shows "v_id v' = v_id v" and "\<not> br_latest (v_range v')"
proof -
  from assms(1) obtain r where r: "br_clamp b (v_range v) = Inr r" "v' = v\<lparr>v_range := r\<rparr>"
    by (auto simp: clamp_version_def bind_res_Inr_iff)
  then show "v_id v' = v_id v" by simp
  show "\<not> br_latest (v_range v')"
    using r assms(2)
    by (cases "v_range v")
       (auto simp: bind_res_Inr_iff BLOCK_NUMBER_MAX_def split: option.splits if_splits)
qed

lemma clamp_rows_Nil [simp]: "clamp_rows ids b [] = Inr []"
  by (simp add: clamp_rows_def)

lemma clamp_rows_append:
  "clamp_rows ids b (xs @ ys) =
     bind_res (clamp_rows ids b xs) (\<lambda>xs'. bind_res (clamp_rows ids b ys) (\<lambda>ys'. Inr (xs' @ ys')))"
  by (simp add: clamp_rows_def map_res_append)

lemma clamp_rows_unselected:
  "(\<And>v. v \<in> set vs \<Longrightarrow> \<not> clamp_selects ids v) \<Longrightarrow> clamp_rows ids b vs = Inr vs"
  unfolding clamp_rows_def by (rule map_res_id) simp

lemma clamp_rows_not_current:
  assumes "clamp_rows ids b vs = Inr vs'" and "b \<le> BLOCK_NUMBER_MAX" and "v \<in> set vs'"
    and "v_id v \<in> set ids"
  shows "\<not> br_latest (v_range v)"
proof -
  from assms(1,3) obtain u where "u \<in> set vs"
    and "(if clamp_selects ids u then clamp_version b u else Inr u) = Inr v"
    unfolding clamp_rows_def by (blast dest: map_res_in)
  then show ?thesis using assms(2,4) clamp_version_not_latest[of b u v]
    by (auto simp: clamp_selects_def split: if_splits)
qed

text \<open>One clamp query for several ids is several queries for one id each.\<close>

lemma clamp_rows_Cons:
  assumes "b \<le> BLOCK_NUMBER_MAX"
  shows "clamp_rows (i # is) b vs = Inr vs' \<longleftrightarrow>
     bind_res (clamp_rows [i] b vs) (clamp_rows is b) = Inr vs'"
proof (induction vs arbitrary: vs')
  case Nil
  then show ?case by simp
next
  case (Cons v vs)
  have step: "clamp_rows ids b (v # vs) = bind_res (clamp_rows ids b [v])
      (\<lambda>xs'. bind_res (clamp_rows ids b vs) (\<lambda>ys'. Inr (xs' @ ys')))" for ids
    using clamp_rows_append[of ids b "[v]" vs] by simp
  have one: "clamp_rows (i # is) b [v] = bind_res (clamp_rows [i] b [v]) (clamp_rows is b)"
  proof (cases "clamp_selects [i] v")
    case True
    then have "clamp_selects (i # is) v" by (simp add: clamp_selects_def)
    moreover have "clamp_rows is b [v'] = Inr [v']" if "clamp_version b v = Inr v'" for v'
      using clamp_version_not_latest[OF that assms]
      by (auto intro!: clamp_rows_unselected simp: clamp_selects_def)
    ultimately show ?thesis using True
      by (cases "clamp_version b v") (simp_all add: clamp_rows_def)
  next
    case False
    then have "clamp_selects (i # is) v = clamp_selects is v" by (auto simp: clamp_selects_def)
    with False show ?thesis by (simp add: clamp_rows_def)
  qed
  show ?case
    unfolding step one using Cons.IH
    by (auto simp: bind_res_Inr_iff clamp_rows_append)
qed

lemma clamp_range_query_Nil: "\<not> t_immutable t \<Longrightarrow> clamp_range_query [] b t = Inr t"
  by (simp add: clamp_range_query_def clamp_rows_unselected clamp_selects_def)

lemma clamp_range_query_flags:
  "clamp_range_query ids b t = Inr t' \<Longrightarrow>
     \<not> t_immutable t \<and> (\<exists>rows. clamp_rows ids b (t_rows t) = Inr rows \<and> t' = t\<lparr>t_rows := rows\<rparr>)"
  by (auto simp: clamp_range_query_def bind_res_Inr_iff split: if_splits)

lemma clamp_range_query_Inr_iff:
  "\<not> t_immutable t \<Longrightarrow> clamp_range_query ids b t = Inr t' \<longleftrightarrow>
     (\<exists>rows. clamp_rows ids b (t_rows t) = Inr rows \<and> t' = t\<lparr>t_rows := rows\<rparr>)"
  by (auto simp: clamp_range_query_def bind_res_Inr_iff)

lemma clamp_range_query_ids:
  assumes "b \<le> BLOCK_NUMBER_MAX" and "\<not> t_immutable t"
  shows "clamp_range_query ids b t = Inr t' \<longleftrightarrow>
     fold_res (\<lambda>i. clamp_range_query [i] b) ids t = Inr t'"
  using assms(2)
proof (induction ids arbitrary: t)
  case Nil
  then show ?case by (simp add: clamp_range_query_Nil)
next
  case (Cons i ids)
  have "clamp_range_query (i # ids) b t = Inr t' \<longleftrightarrow>
      (\<exists>rows. bind_res (clamp_rows [i] b (t_rows t)) (clamp_rows ids b) = Inr rows
         \<and> t' = t\<lparr>t_rows := rows\<rparr>)"
    using Cons.prems clamp_rows_Cons[OF assms(1), of i ids]
    by (auto simp: clamp_range_query_def bind_res_Inr_iff)
  also have "\<dots> \<longleftrightarrow> (\<exists>t1. clamp_range_query [i] b t = Inr t1 \<and> clamp_range_query ids b t1 = Inr t')"
    using Cons.prems by (auto simp: clamp_range_query_Inr_iff bind_res_Inr_iff)
  also have "\<dots> \<longleftrightarrow> (\<exists>t1. clamp_range_query [i] b t = Inr t1 \<and>
      fold_res (\<lambda>i. clamp_range_query [i] b) ids t1 = Inr t')"
    using Cons.IH clamp_range_query_flags[of "[i]" b t] by auto
  finally show ?case by (simp add: bind_res_Inr_iff)
qed

section \<open>The iterator over clamps\<close>

lemma clamps_next_None: "clamps_next rest = None \<Longrightarrow> filter is_clamp rest = []"
  by (auto simp: clamps_next_def dropWhile_eq_Nil_conv filter_empty_conv Let_def split: list.splits)

lemma filter_takeWhile_all:
  "(\<And>x. Q x \<Longrightarrow> P x) \<Longrightarrow> filter P (takeWhile Q xs) = takeWhile Q xs"
  by (rule filter_True) (auto dest: set_takeWhileD)

lemma clamps_next_Some:
  assumes "clamps_next rest = Some ((b, run), rest')"
  shows "filter is_clamp rest = run @ filter is_clamp rest'"
    and "run \<noteq> []" and "\<forall>m \<in> set run. is_clamp m \<and> emod_block m = b"
proof -
  from assms obtain m ms where ms: "dropWhile (\<lambda>m. \<not> is_clamp m) rest = m # ms"
    and b: "b = emod_block m"
    and run: "run = takeWhile (\<lambda>r. emod_block r = b \<and> is_clamp r) (m # ms)"
    and rest': "rest' = dropWhile (\<lambda>r. emod_block r = b \<and> is_clamp r) (m # ms)"
    by (auto simp: clamps_next_def Let_def split: list.splits)
  have m: "is_clamp m" using ms hd_dropWhile[of "\<lambda>m. \<not> is_clamp m" rest] by auto
  have "filter is_clamp (takeWhile (\<lambda>m. \<not> is_clamp m) rest) = []"
    by (auto simp: filter_empty_conv dest: set_takeWhileD)
  then have "filter is_clamp rest = filter is_clamp (m # ms)"
    using takeWhile_dropWhile_id[of "\<lambda>m. \<not> is_clamp m" rest] ms
    by (metis append_Nil filter_append)
  also have "m # ms = run @ rest'" unfolding run rest' by simp
  also have "filter is_clamp (run @ rest') = filter is_clamp run @ filter is_clamp rest'"
    by simp
  also have "filter is_clamp run = run" unfolding run by (rule filter_takeWhile_all) simp
  finally show "filter is_clamp rest = run @ filter is_clamp rest'" .
  show "run \<noteq> []" unfolding run using m b by simp
  show "\<forall>m \<in> set run. is_clamp m \<and> emod_block m = b"
    unfolding run by (auto dest: set_takeWhileD)
qed

text \<open>The runs partition the clamps, in order, and all clamps of a run have its block.\<close>

lemma clamps_from_correct:
  "concat (map snd (clamps_from rest)) = filter is_clamp rest \<and>
   (\<forall>(b, run) \<in> set (clamps_from rest). run \<noteq> [] \<and> (\<forall>m \<in> set run. is_clamp m \<and> emod_block m = b))"
proof (induction rest rule: clamps_from.induct)
  case (1 rest)
  show ?case
  proof (cases "clamps_next rest")
    case None
    then show ?thesis by (simp add: clamps_from.simps[of rest] clamps_next_None)
  next
    case (Some p)
    obtain b run rest' where "p = ((b, run), rest')" by (metis surj_pair)
    with Some have next': "clamps_next rest = Some ((b, run), rest')" by simp
    show ?thesis
      using 1[OF next' refl] clamps_next_Some[OF next'] next'
      by (simp add: clamps_from.simps[of rest])
  qed
qed

text \<open>A clamp modification as a statement of its own.\<close>

definition clamp_one :: "'d entity_modification \<Rightarrow> 'd table \<Rightarrow> (store_error, 'd table) result" where
  "clamp_one m = clamp_range_query [emod_id m] (emod_block m)"

lemma clamp_one_immutable:
  "clamp_range_query ids b t = Inr t' \<Longrightarrow> \<not> t_immutable t'"
  by (auto dest: clamp_range_query_flags)

lemma clamp_chunks:
  assumes "b \<le> BLOCK_NUMBER_MAX" and "\<not> t_immutable t"
  shows "fold_res (\<lambda>ids. clamp_range_query ids b) (chunks DELETE_OPERATION_CHUNK_SIZE ids) t = Inr t'
    \<longleftrightarrow> fold_res (\<lambda>i. clamp_range_query [i] b) ids t = Inr t'"
proof -
  have "fold_res (\<lambda>ids. clamp_range_query ids b) (chunks DELETE_OPERATION_CHUNK_SIZE ids) t = Inr t'
      \<longleftrightarrow> fold_res (fold_res (\<lambda>i. clamp_range_query [i] b)) (chunks DELETE_OPERATION_CHUNK_SIZE ids) t
           = Inr t'"
  proof (rule fold_res_Inr_iff[where P = "\<lambda>t. \<not> t_immutable t"])
    show "\<not> t_immutable t" by (rule assms(2))
  next
    fix x s s'
    assume "\<not> t_immutable (s :: 'a table)"
    then show "clamp_range_query x b s = Inr s' \<longleftrightarrow> fold_res (\<lambda>i. clamp_range_query [i] b) x s = Inr s'"
      by (rule clamp_range_query_ids[OF assms(1)])
  next
    fix x s s'
    assume "\<not> t_immutable (s :: 'a table)"
      and "fold_res (\<lambda>i. clamp_range_query [i] b) x s = Inr s'"
    then show "\<not> t_immutable s'"
      using fold_res_invariant[of _ x s s' "\<lambda>t. \<not> t_immutable t"] clamp_one_immutable by blast
  qed
  also have "\<dots> \<longleftrightarrow> fold_res (\<lambda>i. clamp_range_query [i] b) ids t = Inr t'"
    by (simp add: fold_res_concat[symmetric] concat_chunks DELETE_OPERATION_CHUNK_SIZE_def)
  finally show ?thesis .
qed


text \<open>
  \<open>Layout::delete\<close> clamps run by run and chunk by chunk; the effect is that of clamping the rows
  one by one, in order.
\<close>

lemma layout_delete_eq:
  assumes "\<forall>m \<in> set (rg_rows g). emod_ok m" and "\<not> t_immutable t"
  shows "layout_delete g t = Inr t' \<longleftrightarrow> fold_res clamp_one (filter is_clamp (rg_rows g)) t = Inr t'"
proof (cases "has_clamps g")
  case False
  then have "filter is_clamp (rg_rows g) = []"
    by (auto simp: has_clamps_def list_ex_iff filter_empty_conv)
  with False show ?thesis by (simp add: layout_delete_def)
next
  case True
  let ?runs = "clamps_by_block g"
  have runs: "concat (map snd ?runs) = filter is_clamp (rg_rows g)"
    "\<forall>(b, run) \<in> set ?runs. \<forall>m \<in> set run. is_clamp m \<and> emod_block m = b"
    using clamps_from_correct[of "rg_rows g"] by (auto simp: clamps_by_block_def)
  let ?step = "\<lambda>(block, rows). fold_res (\<lambda>ids. clamp_range_query ids block)
      (chunks DELETE_OPERATION_CHUNK_SIZE (map emod_id rows))"
  have "layout_delete g t = Inr t' \<longleftrightarrow> fold_res ?step ?runs t = Inr t'"
    using True assms(2) by (simp add: layout_delete_def)
  also have "\<dots> \<longleftrightarrow> fold_res (\<lambda>x. fold_res clamp_one (snd x)) ?runs t = Inr t'"
  proof (rule fold_res_Inr_iff[where P = "\<lambda>t. \<not> t_immutable t"])
    show "\<not> t_immutable t" by (rule assms(2))
  next
    fix x s s'
    assume x: "x \<in> set ?runs" and s: "\<not> t_immutable (s :: 'a table)"
    obtain b run where [simp]: "x = (b, run)" by (cases x)
    from x runs(2) have run: "\<forall>m \<in> set run. is_clamp m \<and> emod_block m = b" by auto
    have "clamp_one m u = clamp_range_query [emod_id m] b u" if "m \<in> set run" for m u
      using run that by (simp add: clamp_one_def)
    then have eq: "fold_res clamp_one run s = fold_res (\<lambda>i. clamp_range_query [i] b) (map emod_id run) s"
      by (simp add: fold_res_map) (rule fold_res_congruent)
    show "?step x s = Inr s' \<longleftrightarrow> fold_res clamp_one (snd x) s = Inr s'"
    proof (cases "run = []")
      case True
      then show ?thesis by (simp add: chunks.simps)
    next
      case False
      then obtain m where m: "m \<in> set run" by (cases run) auto
      have "run \<in> snd ` set ?runs" using imageI[OF x, of snd] by simp
      then have "m \<in> set (concat (map snd ?runs))" using m by (simp only: set_concat set_map) blast
      then have "m \<in> set (filter is_clamp (rg_rows g))" unfolding runs(1) .
      then have "m \<in> set (rg_rows g)" by simp
      then have "emod_ok m" using assms(1) by simp
      moreover have "emod_block m = b" using m run by simp
      ultimately have "b \<le> BLOCK_NUMBER_MAX" using emod_ok_block[of m] by simp
      from clamp_chunks[OF this s, of "map emod_id run" s'] show ?thesis by (simp add: eq)
    qed
  next
    fix x s s'
    assume "\<not> t_immutable (s :: 'a table)" and "fold_res clamp_one (snd x) s = Inr s'"
    then show "\<not> t_immutable s'"
      using fold_res_invariant[of clamp_one "snd x" s s' "\<lambda>t. \<not> t_immutable t"] clamp_one_immutable
      unfolding clamp_one_def by blast
  qed
  also have "\<dots> \<longleftrightarrow> fold_res clamp_one (filter is_clamp (rg_rows g)) t = Inr t'"
    by (simp add: runs(1)[symmetric] fold_res_concat fold_res_map)
  finally show ?thesis .
qed

section \<open>The iterator over writes\<close>

definition emod_writes :: "'d entity_modification list \<Rightarrow> 'd entity_write list" where
  "emod_writes rows = List.map_filter as_write rows"

lemma emod_writes_simps [simp]:
  "emod_writes [] = []"
  "emod_writes (m # ms) = (case as_write m of Some w \<Rightarrow> w # emod_writes ms | None \<Rightarrow> emod_writes ms)"
  by (simp_all add: emod_writes_def map_filter_simps split: option.splits)

lemma emod_writes_append: "emod_writes (xs @ ys) = emod_writes xs @ emod_writes ys"
  by (induction xs) (auto split: option.splits)

lemma chunk_iter_advance: "emod_writes rest = chunk_iter n rest @ emod_writes (advance_chunk n rest)"
  by (induction n rest rule: advance_chunk.induct) (auto simp: is_write_iff split: option.splits)

lemma length_chunk_iter: "length (chunk_iter n rest) \<le> n"
  by (induction n rest rule: chunk_iter.induct) (auto split: option.splits)

lemma length_advance_le: "length (advance_chunk n rest) \<le> length rest"
  by (induction n rest rule: advance_chunk.induct) auto

lemma length_advance_less: "0 < n \<Longrightarrow> rest \<noteq> [] \<Longrightarrow> length (advance_chunk n rest) < length rest"
  using length_advance_le by (cases n; cases rest) (auto simp: less_Suc_eq_le)

text \<open>
  With a positive chunk size the iterator ends, its chunks hold all writes in order, and no
  chunk has more writes than the chunk size.
\<close>

lemma write_chunks_from_total:
  assumes "0 < n"
  shows "\<exists>cs. write_chunks_from n rest = Some cs \<and> concat (map (chunk_iter n) cs) = emod_writes rest
           \<and> (\<forall>c \<in> set cs. length (chunk_iter n c) \<le> n)"
proof (induction "length rest" arbitrary: rest rule: less_induct)
  case less
  show ?case
  proof (cases "rest = []")
    case True
    then show ?thesis by (simp add: write_chunks_from.simps)
  next
    case False
    from less[OF length_advance_less[OF assms False]] obtain cs where
      "write_chunks_from n (advance_chunk n rest) = Some cs"
      "concat (map (chunk_iter n) cs) = emod_writes (advance_chunk n rest)"
      "\<forall>c \<in> set cs. length (chunk_iter n c) \<le> n"
      by blast
    then show ?thesis using False chunk_iter_advance[of rest n] length_chunk_iter[of n rest]
      by (simp add: write_chunks_from.simps[of n rest])
  qed
qed

lemma insert_query_Inr_iff:
  "insert_query ws t = Inr t' \<longleftrightarrow> (\<forall>w \<in> set ws. t_complete t (w_entity w)) \<and>
     (\<exists>vs. map_res (new_version (t_immutable t)) ws = Inr vs \<and> t' = t\<lparr>t_rows := t_rows t @ vs\<rparr>)"
  by (auto simp: insert_query_def bind_res_Inr_iff)

lemma insert_query_Nil [simp]: "insert_query [] t = Inr t"
  by (simp add: insert_query_def)

lemma insert_query_append:
  "insert_query (xs @ ys) t = Inr t' \<longleftrightarrow> bind_res (insert_query xs t) (insert_query ys) = Inr t'"
  by (auto simp: insert_query_Inr_iff bind_res_Inr_iff map_res_append)

lemma insert_query_concat:
  "insert_query (concat wss) t = Inr t' \<longleftrightarrow> fold_res insert_query wss t = Inr t'"
  by (induction wss arbitrary: t) (auto simp: insert_query_append bind_res_Inr_iff)

lemma layout_insert_eq:
  assumes "0 < t_chunk_size t"
  shows "layout_insert g t = Some (Inr t') \<longleftrightarrow> insert_query (emod_writes (rg_rows g)) t = Inr t'"
    and "layout_insert g t \<noteq> None"
proof -
  let ?n = "t_chunk_size t"
  obtain cs where cs: "write_chunks ?n g = Some cs"
    "concat (map (chunk_iter ?n) cs) = emod_writes (rg_rows g)"
    using write_chunks_from_total[OF assms] by (metis write_chunks_def)
  then show "layout_insert g t \<noteq> None" by (simp add: layout_insert_def)
  let ?step = "\<lambda>chunk t. if chunk_is_empty (t_chunk_size t) chunk then Inr t
                     else insert_query (chunk_iter (t_chunk_size t) chunk) t"
  have "fold_res ?step cs t = Inr t' \<longleftrightarrow> fold_res (\<lambda>c. insert_query (chunk_iter ?n c)) cs t = Inr t'"
    by (rule fold_res_Inr_iff[where P = "\<lambda>t. t_chunk_size t = ?n"])
       (auto simp: chunk_is_empty_def insert_query_Inr_iff)
  then show "layout_insert g t = Some (Inr t') \<longleftrightarrow> insert_query (emod_writes (rg_rows g)) t = Inr t'"
    using cs(1) insert_query_concat[of "map (chunk_iter ?n) cs" t t']
    by (simp add: layout_insert_def cs(2) fold_res_map)
qed

end
