(* ===== verification/Group_Refines.thy ===== *)
theory Group_Refines
  imports Version_Spec
begin

text \<open>
  The two refinements of the row group: writing a group in two sweeps does what running its
  rows one by one does, and folding a row into a group with \<open>append_row\<close> changes nothing about
  what running the rows does.
\<close>

section \<open>Writing a group\<close>

text \<open>What \<open>apply_entity_modifications\<close> does to the table of one group.\<close>

definition write_group :: "'d row_group \<Rightarrow> 'd table \<Rightarrow> (store_error, 'd table) result option" where
  "write_group g t = (case layout_delete g t of Inl e \<Rightarrow> Some (Inl e) | Inr t' \<Rightarrow> layout_insert g t')"

lemma new_version_id: "new_version im w = Inr v \<Longrightarrow> v_id v = w_id w"
  by (auto simp: new_version_def bind_res_Inr_iff)

lemma new_versions_id: "map_res (new_version im) ws = Inr vs \<Longrightarrow> v \<in> set vs \<Longrightarrow> v_id v \<in> w_id ` set ws"
  by (fastforce dest: map_res_in new_version_id)

text \<open>Clamping one entity and inserting versions of others commute.\<close>

lemma clamp_insert_commute:
  assumes "\<forall>w \<in> set ws. w_id w \<noteq> emod_id m"
  shows "bind_res (insert_query ws t) (clamp_one m) = Inr t' \<longleftrightarrow>
     bind_res (clamp_one m t) (insert_query ws) = Inr t'"
proof (cases "t_immutable t")
  case True
  then show ?thesis
    by (auto simp: bind_res_Inr_iff insert_query_Inr_iff clamp_one_def clamp_range_query_def)
next
  case False
  have "clamp_rows [emod_id m] (emod_block m) vs = Inr vs"
    if "map_res (new_version False) ws = Inr vs" for vs
  proof (rule clamp_rows_unselected)
    fix v assume "v \<in> set vs"
    with that have "v_id v \<in> w_id ` set ws" by (rule new_versions_id)
    with assms show "\<not> clamp_selects [emod_id m] v" by (auto simp: clamp_selects_def)
  qed
  with False show ?thesis
    by (auto simp: bind_res_Inr_iff insert_query_Inr_iff clamp_one_def clamp_range_query_Inr_iff
        clamp_rows_append)
qed

lemma emod_writes_id: "w \<in> set (emod_writes rows) \<Longrightarrow> w_id w \<in> emod_id ` set rows"
  by (induction rows) (auto dest: as_write_SomeD split: option.splits)

lemma exec_write_eq: "exec_write m t = insert_query (emod_writes [m]) t"
  by (simp add: exec_write_def split: option.splits)

lemma folds_into_clamp: "folds_into x y \<Longrightarrow> is_clamp y \<Longrightarrow> emod_id x \<noteq> emod_id y"
  by (auto simp: folds_into_def)

lemma two_sweeps:
  assumes "rows_inv rows" and "exec_mods rows t = Inr t'"
  shows "\<exists>tc. fold_res clamp_one (filter is_clamp rows) t = Inr tc \<and>
              insert_query (emod_writes rows) tc = Inr t'"
  using assms
proof (induction rows arbitrary: t' rule: rev_induct)
  case Nil
  then show ?case by simp
next
  case (snoc m rows)
  from snoc.prems(2) obtain t1 where t1: "exec_mods rows t = Inr t1" "exec_mod m t1 = Inr t'"
    by (auto simp: fold_res_append bind_res_Inr_iff)
  from snoc.prems(1) have inv: "rows_inv rows" "\<forall>x \<in> set rows. folds_into x m"
    by (auto simp: rows_inv_snoc)
  from snoc.IH[OF inv(1) t1(1)] obtain tc where
    tc: "fold_res clamp_one (filter is_clamp rows) t = Inr tc"
      "insert_query (emod_writes rows) tc = Inr t1" by blast
  show ?case
  proof (cases "is_clamp m")
    case True
    from t1(2) True obtain t2 where t2: "clamp_one m t1 = Inr t2" "exec_write m t2 = Inr t'"
      by (auto simp: exec_mod_def exec_clamp_def clamp_one_def bind_res_Inr_iff)
    have "\<forall>w \<in> set (emod_writes rows). w_id w \<noteq> emod_id m"
      using inv(2) True emod_writes_id folds_into_clamp by fastforce
    from clamp_insert_commute[OF this, of tc t2] tc(2) t2(1) obtain tc' where
      tc': "clamp_one m tc = Inr tc'" "insert_query (emod_writes rows) tc' = Inr t2"
      by (auto simp: bind_res_Inr_iff)
    have "insert_query (emod_writes (rows @ [m])) tc' = Inr t'"
      unfolding emod_writes_append insert_query_append
      using tc'(2) t2(2) by (simp add: exec_write_eq)
    moreover have "fold_res clamp_one (filter is_clamp (rows @ [m])) t = Inr tc'"
      using True tc(1) tc'(1) by (simp add: fold_res_append)
    ultimately show ?thesis by blast
  next
    case False
    with t1(2) have "exec_write m t1 = Inr t'"
      by (auto simp: exec_mod_def exec_clamp_def bind_res_Inr_iff split: if_splits)
    then have "insert_query (emod_writes (rows @ [m])) tc = Inr t'"
      unfolding emod_writes_append insert_query_append
      using tc(2) by (simp add: exec_write_eq)
    then show ?thesis using False tc(1) by auto
  qed
qed

lemma clamp_query_chunk_size: "clamp_one m t = Inr t' \<Longrightarrow> t_chunk_size t' = t_chunk_size t"
  by (auto simp: clamp_one_def dest: clamp_range_query_flags)

lemma clamps_chunk_size:
  "fold_res clamp_one ms t = Inr t' \<Longrightarrow> t_chunk_size t' = t_chunk_size t"
  by (erule fold_res_invariant) (auto dest: clamp_query_chunk_size)

lemma write_group_correct:
  assumes "rows_inv (rg_rows g)" and "0 < t_chunk_size t" and "exec_mods (rg_rows g) t = Inr t'"
  shows "write_group g t = Some (Inr t')"
proof -
  from two_sweeps[OF assms(1,3)] obtain tc where
    tc: "fold_res clamp_one (filter is_clamp (rg_rows g)) t = Inr tc"
      "insert_query (emod_writes (rg_rows g)) tc = Inr t'" by blast
  have "layout_delete g t = Inr tc"
  proof (cases "t_immutable t")
    case True
    have "filter is_clamp (rg_rows g) = []"
      using tc(1) True
      by (cases "filter is_clamp (rg_rows g)")
         (auto simp: clamp_one_def clamp_range_query_def)
    with tc(1) show ?thesis
      by (auto simp: layout_delete_def has_clamps_def list_ex_iff filter_empty_conv)
  next
    case False
    have "\<forall>m \<in> set (rg_rows g). emod_ok m" using assms(1) by (simp add: rows_inv_def)
    from layout_delete_eq[OF this False] tc(1) show ?thesis by simp
  qed
  moreover have "0 < t_chunk_size tc" using assms(2) clamps_chunk_size[OF tc(1)] by simp
  ultimately show ?thesis
    using layout_insert_eq(1)[of tc g t'] tc(2) by (simp add: write_group_def)
qed


section \<open>Folding a row into a group\<close>

text \<open>
  The four ways in which \<open>append_row\<close> succeeds on a mutable entity type: the id is new to the
  group; the entity was ended before and is inserted again; a removal repeats a removal; or the
  open row is closed and the new version, if there is one, becomes an insert.
\<close>

fun replacement :: "'d entity_modification \<Rightarrow> 'd entity_modification list" where
  "replacement (Overwrite k d b e) = [Insert k d b e]"
| "replacement _ = []"

lemma append_row_cases:
  assumes "append_row row g = Inr g'" and "\<not> rg_immutable g"
  obtains (fresh) "\<forall>x \<in> set (rg_rows g). emod_id x \<noteq> emod_id row" "g' = rg_push_row row g"
  | (again) xs prev zs where "rg_rows g = xs @ prev # zs" "emod_id prev = emod_id row"
      "\<forall>z \<in> set zs. emod_id z \<noteq> emod_id row" "emod_block prev < emod_block row"
      "emod_end prev \<noteq> None" "\<not> is_clamp row" "g' = rg_push_row row g"
  | (ignored) xs k b zs k' b' where "rg_rows g = xs @ Remove k b # zs" "key_id k = key_id k'"
      "\<forall>z \<in> set zs. emod_id z \<noteq> key_id k'" "b < b'" "row = Remove k' b'" "g' = g"
  | (closed) xs prev prev' zs where "rg_rows g = xs @ prev # zs" "emod_id prev = emod_id row"
      "\<forall>z \<in> set zs. emod_id z \<noteq> emod_id row" "emod_block prev < emod_block row"
      "is_clamp row" "emod_clamp prev (emod_block row) = Inr prev'"
      "g' = g\<lparr>rg_rows := xs @ prev' # zs @ replacement row\<rparr>"
proof (cases "prev_row_mut (emod_id row) g")
  case None
  then have "\<forall>x \<in> set (rg_rows g). emod_id x \<noteq> emod_id row"
    by (simp add: prev_row_mut_def rfind_index_None_iff)
  moreover have "g' = rg_push_row row g" using assms None by (simp add: append_row_def)
  ultimately show thesis by (rule fresh)
next
  case (Some i)
  then obtain xs prev zs where split: "rg_rows g = xs @ prev # zs" "length xs = i"
    "emod_id prev = emod_id row" "\<forall>z \<in> set zs. emod_id z \<noteq> emod_id row" "rg_rows g ! i = prev"
    unfolding prev_row_mut_def by (rule rfind_index_split) blast
  from assms Some split(5) have block: "emod_block prev < emod_block row"
    and comb: "combine_rows g i prev row = Inr g'"
    by (auto simp: append_row_def Let_def split: if_splits)
  have upd: "(rg_rows g)[i := x] = xs @ x # zs" for x
    using split(1,2) by (simp add: list_update_append)
  have open': thesis if "is_clamp row" "emod_clamp prev (emod_block row) = Inr prev'"
    "g' = g\<lparr>rg_rows := xs @ prev' # zs @ replacement row\<rparr>" for prev'
    using closed[OF split(1,3,4) block] that by blast
  have ended: thesis if "emod_end prev \<noteq> None" "\<not> is_clamp row" "g' = rg_push_row row g"
    using again[OF split(1,3,4) block] that by blast
  show thesis
  proof (cases prev)
    case (Insert k d b e)
    then show thesis using comb upd open' ended
      by (cases e; cases row) (auto simp: rg_push_row_def)
  next
    case (Overwrite k d b e)
    then show thesis using comb upd open' ended
      by (cases e; cases row) (auto simp: rg_push_row_def)
  next
    case (Remove k b)
    show thesis
    proof (cases row)
      case (Remove k' b')
      show thesis
        by (rule ignored[of xs k b zs k' b'])
           (use Remove \<open>prev = _\<close> comb split(1,3,4) block in auto)
    next
      case Insert
      then show thesis using \<open>prev = _\<close> comb by (intro ended) auto
    next
      case Overwrite
      then show thesis using \<open>prev = _\<close> comb by simp
    qed
  qed
qed

lemma append_row_immutable:
  "append_row row g = Inr g' \<Longrightarrow> rg_immutable g \<Longrightarrow> g' = rg_push_row row g \<and> \<not> is_clamp row"
  by (cases row) (auto simp: append_row_def)

lemma append_row_frame:
  assumes "append_row row g = Inr g'"
  shows "rg_entity_type g' = rg_entity_type g" and "rg_immutable g' = rg_immutable g"
proof -
  have "rg_entity_type g' = rg_entity_type g \<and> rg_immutable g' = rg_immutable g"
  proof (cases "rg_immutable g")
    case True
    with append_row_immutable[OF assms] show ?thesis by (simp add: rg_push_row_def)
  next
    case False
    with assms show ?thesis by (cases rule: append_row_cases) (auto simp: rg_push_row_def)
  qed
  then show "rg_entity_type g' = rg_entity_type g" "rg_immutable g' = rg_immutable g" by auto
qed

text \<open>
  The invariant of the rows is kept when the new row does not start before the versions of its
  entity in the group have ended. The code only compares the starts of the two rows.
\<close>

definition ended_by :: "'d entity_modification \<Rightarrow> 'd entity_modification list \<Rightarrow> bool" where
  "ended_by row rows \<longleftrightarrow> (\<forall>x \<in> set rows. emod_id x = emod_id row \<longrightarrow>
     emod_block x < emod_block row \<and> (\<forall>e. emod_end x = Some e \<longrightarrow> e \<le> emod_block row))"

lemma emod_clamp_facts:
  assumes "emod_clamp prev b = Inr prev'"
  shows "emod_key prev' = emod_key prev" "emod_id prev' = emod_id prev"
    "emod_block prev' = emod_block prev" "emod_end prev = None" "emod_end prev' = Some b"
    "is_clamp prev' = is_clamp prev" "is_write prev"
  using assms by (auto elim!: emod_clamp_InrE split: if_splits)

lemma emod_clamp_ok:
  "emod_clamp prev b = Inr prev' \<Longrightarrow> emod_ok prev \<Longrightarrow> emod_block prev < b \<Longrightarrow> b \<le> BLOCK_NUMBER_MAX
     \<Longrightarrow> emod_ok prev'"
  by (auto elim!: emod_clamp_InrE split: if_splits)

lemma folds_into_cong:
  "emod_id x = emod_id x' \<Longrightarrow> emod_block x = emod_block x' \<Longrightarrow> is_clamp x = is_clamp x' \<Longrightarrow>
     folds_into y x = folds_into y x'"
  by (simp add: folds_into_def)

lemma rows_inv_middle:
  "rows_inv (xs @ p # zs) \<longleftrightarrow> rows_inv (xs @ zs) \<and> emod_ok p \<and>
     (\<forall>x \<in> set xs. folds_into x p) \<and> (\<forall>z \<in> set zs. folds_into p z)"
  by (auto simp: rows_inv_def sorted_wrt_append)

lemma rows_inv_open_last:
  assumes "rows_inv (xs @ p # zs)" and "x \<in> set xs" and "emod_id x = emod_id p"
  shows "emod_end x \<noteq> None"
  using assms by (auto simp: rows_inv_middle folds_into_def)

lemma append_row_rows_inv:
  assumes "append_row row g = Inr g'" and "rows_inv (rg_rows g)" and "emod_ok row"
    and "ended_by row (rg_rows g)" and "rg_immutable g \<Longrightarrow> \<forall>x \<in> set (rg_rows g). emod_id x \<noteq> emod_id row"
  shows "rows_inv (rg_rows g')"
proof (cases "rg_immutable g")
  case True
  with append_row_immutable[OF assms(1)] assms(2,3,5) show ?thesis
    by (auto simp: rg_push_row_def rows_inv_snoc folds_into_def)
next
  case False
  from assms(1) False show ?thesis
  proof (cases rule: append_row_cases)
    case fresh
    then show ?thesis using assms(2,3) by (auto simp: rg_push_row_def rows_inv_snoc folds_into_def)
  next
    case (again xs prev zs)
    have "folds_into x row" if "x \<in> set (rg_rows g)" for x
    proof -
      have "emod_end x \<noteq> None" if "emod_id x = emod_id row"
        using that \<open>x \<in> set (rg_rows g)\<close> again rows_inv_open_last[of xs prev zs x] assms(2) by auto
      then show ?thesis using assms(4) that again(6)
        by (auto simp: folds_into_def ended_by_def)
    qed
    moreover have "rg_rows g' = rg_rows g @ [row]" using again(7) by (simp add: rg_push_row_def)
    ultimately show ?thesis using assms(2,3) by (simp only: rows_inv_snoc) blast
  next
    case ignored
    then show ?thesis using assms(2) by simp
  next
    case (closed xs prev prev' zs)
    note c = emod_clamp_facts[OF closed(6)]
    have inv: "rows_inv (xs @ prev # zs)" using assms(2) closed(1) by simp
    have ok: "emod_ok prev'"
      using emod_clamp_ok[OF closed(6) _ closed(4)] inv emod_ok_block[OF assms(3)]
      by (simp add: rows_inv_middle)
    have mid: "rows_inv (xs @ prev' # zs)"
      using inv ok c closed(2,3) folds_into_cong[of prev prev']
      by (auto simp: rows_inv_middle) (auto simp: folds_into_def)
    have last: "folds_into x r" if "x \<in> set (xs @ prev' # zs)" "r \<in> set (replacement row)" for x r
    proof (cases "emod_id x = emod_id row")
      case False
      then show ?thesis using that(2) by (cases row) (auto simp: folds_into_def)
    next
      case True
      then have x: "x \<in> set xs \<or> x = prev'" using that(1) closed(3) by auto
      have "emod_end x \<noteq> None"
        using x c rows_inv_open_last[OF inv, of x] closed(2) True by auto
      moreover have "emod_block x < emod_block row"
        using x c closed(4) assms(4) closed(1) True by (auto simp: ended_by_def)
      moreover have "e \<le> emod_block row" if "emod_end x = Some e" for e
        using x c that assms(4) closed(1) True by (auto simp: ended_by_def)
      ultimately show ?thesis using that(2) by (cases row) (auto simp: folds_into_def)
    qed
    have "rows_inv (replacement row)" using assms(3) by (cases row) (auto simp: rows_inv_def)
    with mid last have "rows_inv ((xs @ prev' # zs) @ replacement row)"
      unfolding rows_inv_append by blast
    then show ?thesis using closed(7) by simp
  qed
qed


section \<open>Folding changes nothing about running the rows\<close>

lemma clamp_rows_step:
  "clamp_rows ids b (v # vs) = bind_res (clamp_rows ids b [v])
     (\<lambda>xs'. bind_res (clamp_rows ids b vs) (\<lambda>ys'. Inr (xs' @ ys')))"
  using clamp_rows_append[of ids b "[v]" vs] by simp

lemma clamp_rows_single:
  "clamp_rows ids b [v] =
     (if clamp_selects ids v then bind_res (clamp_version b v) (\<lambda>v'. Inr [v']) else Inr [v])"
  by (simp add: clamp_rows_def)

lemma clamp_version_id: "clamp_version b v = Inr v' \<Longrightarrow> v_id v' = v_id v"
  by (auto simp: clamp_version_def bind_res_Inr_iff)

lemma clamp_rows_single_other: "v_id v \<noteq> i \<Longrightarrow> clamp_rows [i] b [v] = Inr [v]"
  by (simp add: clamp_rows_single clamp_selects_def)

lemma clamp_rows_single_result:
  "clamp_rows [i] b [v] = Inr u \<Longrightarrow> \<exists>v'. u = [v'] \<and> v_id v' = v_id v"
  by (auto simp: clamp_rows_single bind_res_Inr_iff split: if_splits dest: clamp_version_id)

lemma clamp_rows_commute:
  assumes "i \<noteq> j"
  shows "bind_res (clamp_rows [i] b vs) (clamp_rows [j] c) = Inr vs' \<longleftrightarrow>
     bind_res (clamp_rows [j] c vs) (clamp_rows [i] b) = Inr vs'"
proof (induction vs arbitrary: vs')
  case Nil
  then show ?case by simp
next
  case (Cons v vs)
  have one: "bind_res (clamp_rows [i] b [v]) (clamp_rows [j] c) = Inr u \<longleftrightarrow>
      bind_res (clamp_rows [j] c [v]) (clamp_rows [i] b) = Inr u" for u
  proof -
    have "bind_res (clamp_rows [k] b [v]) (clamp_rows [l] c) = clamp_rows [k] b [v]"
      if "v_id v \<noteq> l" for k l b c
    proof (cases "clamp_rows [k] b [v]")
      case (Inr u)
      with clamp_rows_single_result[OF Inr] that show ?thesis
        by (auto simp: clamp_rows_single_other)
    qed simp
    moreover have "bind_res (clamp_rows [k] b [v]) (clamp_rows [l] c) = clamp_rows [l] c [v]"
      if "v_id v \<noteq> k" for k l b c
      using that by (simp add: clamp_rows_single_other)
    ultimately show ?thesis using assms by metis
  qed
  have both: "bind_res (clamp_rows [k] b (v # vs)) (clamp_rows [l] c) = Inr vs' \<longleftrightarrow>
      (\<exists>x ys. bind_res (clamp_rows [k] b [v]) (clamp_rows [l] c) = Inr x \<and>
        bind_res (clamp_rows [k] b vs) (clamp_rows [l] c) = Inr ys \<and> vs' = x @ ys)" for k l b c
    by (auto simp: clamp_rows_step[of _ _ v vs] bind_res_Inr_iff clamp_rows_append)
  show ?case unfolding both one Cons.IH ..
qed

lemma clamp_rows_other:
  assumes "clamp_rows [i] b vs = Inr vs'" and "j \<noteq> i"
  shows "filter (\<lambda>v. v_id v = j) vs' = filter (\<lambda>v. v_id v = j) vs"
  using assms(1)
proof (induction vs arbitrary: vs')
  case Nil
  then show ?case by simp
next
  case (Cons v vs)
  then show ?case using assms(2)
    by (auto simp: clamp_rows_step[of _ _ v vs] clamp_rows_single bind_res_Inr_iff clamp_selects_def
        split: if_splits dest: clamp_version_id)
qed

lemma has_current_filter:
  "(\<exists>v \<in> set vs. v_id v = i \<and> br_latest (v_range v)) \<longleftrightarrow>
     (\<exists>v \<in> set (filter (\<lambda>v. v_id v = i) vs). br_latest (v_range v))"
  by auto

abbreviation end_version :: "id \<Rightarrow> block_number \<Rightarrow> 'd table \<Rightarrow> (store_error, 'd table) result" where
  "end_version i \<equiv> clamp_range_query [i]"

text \<open>Ending the version of one entity and running a modification of another commute.\<close>

lemma exec_clamp_commute:
  assumes "emod_id m \<noteq> i" and "bind_res (exec_clamp m t) (end_version i b) = Inr t'"
  shows "bind_res (end_version i b t) (exec_clamp m) = Inr t'"
proof -
  from assms(2) obtain t1 where t1: "exec_clamp m t = Inr t1" "end_version i b t1 = Inr t'"
    by (auto simp: bind_res_Inr_iff)
  show ?thesis
  proof (cases "is_clamp m")
    case True
    with t1 obtain rows rows' where r: "\<not> t_immutable t"
      "clamp_rows [emod_id m] (emod_block m) (t_rows t) = Inr rows" "clamp_rows [i] b rows = Inr rows'"
      "t' = t\<lparr>t_rows := rows'\<rparr>"
      by (auto simp: exec_clamp_def dest!: clamp_range_query_flags)
    have "bind_res (clamp_rows [emod_id m] (emod_block m) (t_rows t)) (clamp_rows [i] b) = Inr rows'"
      using r(2,3) by simp
    then have "bind_res (clamp_rows [i] b (t_rows t)) (clamp_rows [emod_id m] (emod_block m)) = Inr rows'"
      by (rule clamp_rows_commute[OF assms(1), THEN iffD1])
    with r True show ?thesis
      by (auto simp: bind_res_Inr_iff exec_clamp_def clamp_range_query_Inr_iff)
  next
    case False
    with t1 have 2: "end_version i b t = Inr t'"
      "\<not> (\<exists>v \<in> set (t_rows t). v_id v = emod_id m \<and> br_latest (v_range v))"
      by (auto simp: exec_clamp_def split: if_splits)
    then obtain rows where "clamp_rows [i] b (t_rows t) = Inr rows" "t' = t\<lparr>t_rows := rows\<rparr>"
      by (auto dest!: clamp_range_query_flags)
    with clamp_rows_other[OF this(1) assms(1)] 2 False show ?thesis
      by (simp add: exec_clamp_def has_current_filter del: set_filter)
  qed
qed

lemma exec_mod_commute:
  assumes "emod_id m \<noteq> i" and "bind_res (exec_mod m t) (end_version i b) = Inr t'"
  shows "bind_res (end_version i b t) (exec_mod m) = Inr t'"
proof -
  from assms(2) obtain t1 t2 where t: "exec_clamp m t = Inr t1" "exec_write m t1 = Inr t2"
    "end_version i b t2 = Inr t'"
    by (auto simp: bind_res_Inr_iff exec_mod_def)
  let ?r = "Remove \<lparr>key_type = [], key_id = i, key_causality_region = 0\<rparr> b :: 'a entity_modification"
  have "\<forall>w \<in> set (emod_writes [m]). w_id w \<noteq> emod_id ?r"
    using assms(1) emod_writes_id[of _ "[m]"] by fastforce
  from clamp_insert_commute[OF this, of t1 t'] t(2,3) obtain t3 where
    t3: "end_version i b t1 = Inr t3" "exec_write m t3 = Inr t'"
    by (auto simp: exec_write_eq clamp_one_def bind_res_Inr_iff)
  from exec_clamp_commute[OF assms(1), of t b t3] t(1) t3(1) obtain t4 where
    "end_version i b t = Inr t4" "exec_clamp m t4 = Inr t3"
    by (auto simp: bind_res_Inr_iff)
  with t3(2) show ?thesis by (simp add: exec_mod_def bind_res_Inr_iff)
qed

lemma exec_mods_commute:
  assumes "\<forall>m \<in> set ms. emod_id m \<noteq> i" and "bind_res (exec_mods ms t) (end_version i b) = Inr t'"
  shows "bind_res (end_version i b t) (exec_mods ms) = Inr t'"
  using assms
proof (induction ms arbitrary: t)
  case Nil
  then show ?case by (cases "end_version i b t") simp_all
next
  case (Cons m ms)
  from Cons.prems(2) obtain t1 where t1: "exec_mod m t = Inr t1"
    "bind_res (exec_mods ms t1) (end_version i b) = Inr t'"
    by (auto simp: bind_res_Inr_iff)
  with Cons obtain t2 where t2: "end_version i b t1 = Inr t2" "exec_mods ms t2 = Inr t'"
    by (auto simp: bind_res_Inr_iff)
  with exec_mod_commute[of m i t b t2] Cons.prems(1) t1(1) show ?case
    by (auto simp: bind_res_Inr_iff)
qed

text \<open>Ending the version that an open row has just made is running the closed row.\<close>

lemma exec_clamp_no_current:
  assumes "exec_clamp m t = Inr t'" and "emod_ok m" and "v \<in> set (t_rows t')" and "v_id v = emod_id m"
  shows "\<not> br_latest (v_range v)"
proof (cases "is_clamp m")
  case True
  with assms(1) obtain rows where "clamp_rows [emod_id m] (emod_block m) (t_rows t) = Inr rows"
    "t' = t\<lparr>t_rows := rows\<rparr>"
    by (auto simp: exec_clamp_def dest!: clamp_range_query_flags)
  with clamp_rows_not_current[OF this(1) emod_ok_block[OF assms(2)]] assms(3,4) show ?thesis by simp
next
  case False
  with assms(1,3,4) show ?thesis by (auto simp: exec_clamp_def split: if_splits)
qed

lemma exec_clamped:
  assumes "exec_mod m t = Inr t1" and "emod_clamp m b = Inr m'" and "emod_ok m" and "emod_block m < b"
    and "end_version (emod_id m) b t1 = Inr t2"
  shows "exec_mod m' t = Inr t2"
proof -
  note c = emod_clamp_facts[OF assms(2)]
  from assms(1) obtain t0 where t0: "exec_clamp m t = Inr t0" "exec_write m t0 = Inr t1"
    by (auto simp: exec_mod_def bind_res_Inr_iff)
  from assms(5) have mut: "\<not> t_immutable t1" by (auto dest: clamp_range_query_flags)
  from c(7) obtain w where w: "as_write m = Some w" by (auto simp: is_write_iff)
  from as_write_SomeD[OF w] c(4) have ws: "w_id w = emod_id m" "w_block w = emod_block m" "w_end w = None"
    by auto
  have w': "as_write m' = Some (w\<lparr>w_end := Some b\<rparr>)"
    using assms(2) w by (auto elim!: emod_clamp_InrE split: if_splits)
  let ?v = "\<lambda>e. \<lparr>v_id = w_id w, v_entity = w_entity w, v_causality_region = w_causality_region w,
               v_range = Mutable (Int4range (emod_block m) e)\<rparr>"
  from t0(2) w mut ws have t1: "\<not> t_immutable t0" "t_complete t0 (w_entity w)"
    "t1 = t0\<lparr>t_rows := t_rows t0 @ [?v None]\<rparr>"
    by (auto simp: exec_write_def insert_query_Inr_iff new_version_def bind_res_Inr_iff)
  have "clamp_rows [emod_id m] b (t_rows t0) = Inr (t_rows t0)"
    by (rule clamp_rows_unselected)
       (use exec_clamp_no_current[OF t0(1) assms(3)] in \<open>auto simp: clamp_selects_def\<close>)
  moreover have "clamp_rows [emod_id m] b [?v None] = Inr [?v (Some b)]"
    using emod_ok_block[OF assms(3)] assms(4) ws(1)
    by (simp add: clamp_rows_single clamp_selects_def clamp_version_def)
  ultimately have t2: "t2 = t0\<lparr>t_rows := t_rows t0 @ [?v (Some b)]\<rparr>"
    using assms(5) t1 by (auto simp: clamp_range_query_Inr_iff clamp_rows_append)
  have "exec_clamp m' t = exec_clamp m t" by (simp add: exec_clamp_def c)
  then have "exec_clamp m' t = Inr t0" using t0(1) by simp
  moreover have "exec_write m' t0 = Inr t2"
    using w' t1(1,2) t2 ws assms(4)
    by (simp add: exec_write_def insert_query_def new_version_def)
  ultimately show ?thesis by (simp add: exec_mod_def)
qed

lemma exec_mod_filter_other:
  assumes "exec_mod m t = Inr t'" and "emod_id m \<noteq> i"
  shows "filter (\<lambda>v. v_id v = i) (t_rows t') = filter (\<lambda>v. v_id v = i) (t_rows t)"
proof -
  from assms(1) obtain t1 where t1: "exec_clamp m t = Inr t1" "exec_write m t1 = Inr t'"
    by (auto simp: exec_mod_def bind_res_Inr_iff)
  have "filter (\<lambda>v. v_id v = i) (t_rows t1) = filter (\<lambda>v. v_id v = i) (t_rows t)"
    using t1(1) assms(2) clamp_rows_other[of "emod_id m" _ "t_rows t" _ i]
    by (auto simp: exec_clamp_def split: if_splits dest!: clamp_range_query_flags)
  moreover from t1(2) obtain vs where "t_rows t' = t_rows t1 @ vs" "\<forall>v \<in> set vs. v_id v = emod_id m"
    using as_write_SomeD[of m] new_version_id
    by (fastforce simp: exec_write_def insert_query_Inr_iff bind_res_Inr_iff split: option.splits)
  ultimately show ?thesis using assms(2) by (auto simp: filter_empty_conv)
qed

lemma exec_mods_filter_other:
  assumes "exec_mods ms t = Inr t'" and "\<forall>m \<in> set ms. emod_id m \<noteq> i"
  shows "filter (\<lambda>v. v_id v = i) (t_rows t') = filter (\<lambda>v. v_id v = i) (t_rows t)"
proof (rule fold_res_invariant[OF assms(1), where P = "\<lambda>u. filter (\<lambda>v. v_id v = i) (t_rows u) =
        filter (\<lambda>v. v_id v = i) (t_rows t)"])
  fix m u u'
  assume "m \<in> set ms" and u: "filter (\<lambda>v. v_id v = i) (t_rows u) = filter (\<lambda>v. v_id v = i) (t_rows t)"
    and "exec_mod m u = Inr u'"
  then have "filter (\<lambda>v. v_id v = i) (t_rows u') = filter (\<lambda>v. v_id v = i) (t_rows u)"
    using exec_mod_filter_other assms(2) by metis
  with u show "filter (\<lambda>v. v_id v = i) (t_rows u') = filter (\<lambda>v. v_id v = i) (t_rows t)" by simp
qed simp


text \<open>The main lemma: running the group after \<open>append_row\<close> is running the group and then the row.\<close>

lemma closed_exec:
  assumes "exec_mods (xs @ prev # zs) t = Inr t1" and "end_version (emod_id prev) b t1 = Inr t2"
    and "\<forall>z \<in> set zs. emod_id z \<noteq> emod_id prev" and "emod_ok prev" and "emod_block prev < b"
    and "emod_clamp prev b = Inr prev'"
  shows "exec_mods (xs @ prev' # zs) t = Inr t2"
proof -
  from assms(1) obtain tx tp where tx: "exec_mods xs t = Inr tx" "exec_mod prev tx = Inr tp"
    "exec_mods zs tp = Inr t1"
    by (auto simp: fold_res_append bind_res_Inr_iff)
  have "bind_res (exec_mods zs tp) (end_version (emod_id prev) b) = Inr t2"
    using tx(3) assms(2) by simp
  from exec_mods_commute[OF assms(3) this] obtain tc where
    tc: "end_version (emod_id prev) b tp = Inr tc" "exec_mods zs tc = Inr t2"
    by (auto simp: bind_res_Inr_iff)
  from exec_clamped[OF tx(2) assms(6,4,5) tc(1)] tx(1) tc(2) show ?thesis
    by (simp add: fold_res_append)
qed

lemma end_version_not_current:
  assumes "end_version i b t = Inr t'" and "b \<le> BLOCK_NUMBER_MAX" and "v \<in> set (t_rows t')"
    and "v_id v = i"
  shows "\<not> br_latest (v_range v)"
  using assms by (auto dest!: clamp_range_query_flags clamp_rows_not_current)

lemma append_row_exec:
  assumes "append_row row g = Inr g'" and "rows_inv (rg_rows g)" and "emod_ok row"
    and "exec_mods (rg_rows g @ [row]) t = Inr t'"
  shows "exec_mods (rg_rows g') t = Inr t'"
proof (cases "rg_immutable g")
  case True
  with append_row_immutable[OF assms(1)] assms(4) show ?thesis by (simp add: rg_push_row_def)
next
  case False
  from assms(4) obtain t1 where t1: "exec_mods (rg_rows g) t = Inr t1" "exec_mod row t1 = Inr t'"
    by (auto simp: fold_res_append bind_res_Inr_iff)
  from assms(1) False show ?thesis
  proof (cases rule: append_row_cases)
    case fresh
    with assms(4) show ?thesis by (simp add: rg_push_row_def)
  next
    case again
    with assms(4) show ?thesis by (simp add: rg_push_row_def)
  next
    case (ignored xs k b zs k' b')
    from t1(1) ignored(1) obtain tx tp where tx: "exec_mod (Remove k b) tx = Inr tp"
      "exec_mods zs tp = Inr t1"
      by (auto simp: fold_res_append bind_res_Inr_iff)
    from tx(1) have e: "end_version (key_id k) b tx = Inr tp"
      by (auto simp: exec_mod_def exec_clamp_def exec_write_def bind_res_Inr_iff)
    have b: "b \<le> BLOCK_NUMBER_MAX" using assms(2) ignored(1) by (simp add: rows_inv_middle)
    have "\<not> br_latest (v_range v)" if "v \<in> set (t_rows t1)" "v_id v = key_id k'" for v
    proof -
      have "v \<in> set (filter (\<lambda>v. v_id v = key_id k') (t_rows tp))"
        using exec_mods_filter_other[OF tx(2) ignored(3)] that by (metis (mono_tags, lifting) filter_set mem_Collect_eq set_filter)
      then show ?thesis using end_version_not_current[OF e b] ignored(2) by simp
    qed
    then have "clamp_rows [key_id k'] b' (t_rows t1) = Inr (t_rows t1)"
      by (intro clamp_rows_unselected) (simp add: clamp_selects_def)
    moreover have "end_version (key_id k') b' t1 = Inr t'"
      using t1(2) ignored(5) by (auto simp: exec_mod_def exec_clamp_def exec_write_def bind_res_Inr_iff)
    ultimately have "t' = t1" by (auto dest!: clamp_range_query_flags)
    with t1(1) ignored(6) show ?thesis by simp
  next
    case (closed xs prev prev' zs)
    from t1(2) closed(5) obtain t2 where t2: "end_version (emod_id row) (emod_block row) t1 = Inr t2"
      "exec_write row t2 = Inr t'"
      by (auto simp: exec_mod_def exec_clamp_def bind_res_Inr_iff)
    have "exec_mods (xs @ prev' # zs) t = Inr t2"
      using t1(1) t2(1) closed assms(2) closed_exec[of xs prev zs t t1 "emod_block row" t2 prev']
      by (simp add: rows_inv_middle)
    moreover have "exec_mods (replacement row) t2 = Inr t'"
    proof (cases row)
      case (Overwrite k d b e)
      have "\<not> (\<exists>v \<in> set (t_rows t2). v_id v = key_id k \<and> br_latest (v_range v))"
        using end_version_not_current[OF t2(1) emod_ok_block[OF assms(3)]] Overwrite by auto
      with Overwrite t2(2) show ?thesis by (simp add: exec_mod_def exec_clamp_def exec_write_def)
    qed (use t2(2) closed(5) in \<open>auto simp: exec_write_def\<close>)
    ultimately have "exec_mods ((xs @ prev' # zs) @ replacement row) t = Inr t'"
      unfolding fold_res_append by simp
    then show ?thesis using closed(7) by simp
  qed
qed

section \<open>Appending a group\<close>

text \<open>
  The rows of the later group come in an order in which each can be appended: none starts before
  the earlier versions of its entity have ended.
\<close>

definition in_order :: "'d entity_modification list \<Rightarrow> 'd entity_modification list \<Rightarrow> bool" where
  "in_order rows later \<longleftrightarrow> (\<forall>y \<in> set later. ended_by y rows)"

text \<open>All rows that can be in a group after appending \<open>row\<close> were there before or come from it.\<close>

lemma append_row_rows_from:
  assumes "append_row row g = Inr g'" and "x \<in> set (rg_rows g')"
  shows "(\<exists>y \<in> set (rg_rows g). emod_key x = emod_key y \<and> emod_block x = emod_block y \<and>
           (emod_end x = emod_end y \<or> emod_end x = Some (emod_block row) \<and> emod_id x = emod_id row)) \<or>
         emod_key x = emod_key row \<and> emod_block x = emod_block row \<and> emod_end x = emod_end row"
proof (cases "rg_immutable g")
  case True
  with append_row_immutable[OF assms(1)] assms(2) show ?thesis by (auto simp: rg_push_row_def)
next
  case False
  from assms(1) False show ?thesis
  proof (cases rule: append_row_cases)
    case (closed xs prev prev' zs)
    note c = emod_clamp_facts[OF closed(6)]
    from closed(7) assms(2) consider "x \<in> set xs \<or> x \<in> set zs" | "x = prev'" | "x \<in> set (replacement row)"
      by auto
    then show ?thesis
    proof cases
      case 1
      then show ?thesis using closed(1) by auto
    next
      case 2
      moreover have "prev \<in> set (rg_rows g)" using closed(1) by simp
      ultimately show ?thesis using c closed(2) by (intro disjI1 bexI[of _ prev]) auto
    next
      case 3
      then show ?thesis by (cases row) auto
    qed
  qed (use assms(2) in \<open>auto simp: rg_push_row_def\<close>)
qed

lemma append_row_in_order:
  assumes "append_row row g = Inr g'" and "in_order (rg_rows g) (row # later)" and "rows_inv (row # later)"
  shows "in_order (rg_rows g') later"
proof -
  have "emod_block x < emod_block y \<and> (\<forall>e. emod_end x = Some e \<longrightarrow> e \<le> emod_block y)"
    if x: "x \<in> set (rg_rows g')" and y: "y \<in> set later" and id: "emod_id x = emod_id y" for x y
  proof -
    have row: "emod_id row = emod_id y \<Longrightarrow> emod_block row < emod_block y \<and>
        (\<forall>e. emod_end row = Some e \<longrightarrow> e \<le> emod_block y)"
      using assms(3) y by (auto simp: rows_inv_def folds_into_def)
    have old: "emod_id z = emod_id y \<Longrightarrow> emod_block z < emod_block y \<and>
        (\<forall>e. emod_end z = Some e \<longrightarrow> e \<le> emod_block y)" if "z \<in> set (rg_rows g)" for z
      using assms(2) y that by (auto simp: in_order_def ended_by_def)
    from append_row_rows_from[OF assms(1) x] show ?thesis
    proof
      assume "\<exists>z \<in> set (rg_rows g). emod_key x = emod_key z \<and> emod_block x = emod_block z \<and>
        (emod_end x = emod_end z \<or> emod_end x = Some (emod_block row) \<and> emod_id x = emod_id row)"
      then obtain z where z: "z \<in> set (rg_rows g)" "emod_key x = emod_key z" "emod_block x = emod_block z"
        "emod_end x = emod_end z \<or> emod_end x = Some (emod_block row) \<and> emod_id x = emod_id row"
        by blast
      then have "emod_id z = emod_id y" using id by (simp add: emod_id_def)
      from old[OF z(1) this] z(3,4) row id show ?thesis by auto
    next
      assume a: "emod_key x = emod_key row \<and> emod_block x = emod_block row \<and> emod_end x = emod_end row"
      then have "emod_id row = emod_id y" using id by (simp add: emod_id_def)
      from row[OF this] a show ?thesis by simp
    qed
  qed
  then show ?thesis by (simp add: in_order_def ended_by_def)
qed

text \<open>In an immutable table every id that was written stays, and is written once.\<close>

lemma exec_mod_immutable:
  assumes "exec_mod m t = Inr t'" and "t_immutable t"
  shows "t_immutable t' \<and> set (t_rows t) \<subseteq> set (t_rows t') \<and>
     (\<exists>v \<in> set (t_rows t'). v_id v = emod_id m \<and> br_latest (v_range v))"
proof (cases m)
  case (Insert k d b e)
  with assms show ?thesis
    by (auto simp: exec_mod_def exec_clamp_def exec_write_def insert_query_Inr_iff new_version_def
        bind_res_Inr_iff split: if_splits)
qed (use assms in \<open>auto simp: exec_mod_def exec_clamp_def clamp_range_query_def\<close>)

lemma exec_mods_immutable:
  assumes "exec_mods ms t = Inr t'" and "t_immutable t"
  shows "t_immutable t' \<and> set (t_rows t) \<subseteq> set (t_rows t') \<and>
     (\<forall>m \<in> set ms. \<exists>v \<in> set (t_rows t'). v_id v = emod_id m \<and> br_latest (v_range v))"
  using assms
proof (induction ms arbitrary: t)
  case (Cons m ms)
  then obtain t1 where "exec_mod m t = Inr t1" "exec_mods ms t1 = Inr t'"
    by (auto simp: bind_res_Inr_iff)
  with Cons.IH[of t1] exec_mod_immutable[of m t t1] Cons.prems(2) show ?case by auto
qed simp

lemma append_row_distinct:
  assumes "append_row row g = Inr g'" and "rg_immutable g" and "t_immutable t"
    and "exec_mods (rg_rows g @ [row]) t = Inr t'" and "x \<in> set (rg_rows g)"
  shows "emod_id x \<noteq> emod_id row"
proof
  assume eq: "emod_id x = emod_id row"
  from assms(4) obtain t1 where t1: "exec_mods (rg_rows g) t = Inr t1" "exec_mod row t1 = Inr t'"
    by (auto simp: fold_res_append bind_res_Inr_iff)
  from exec_mods_immutable[OF t1(1) assms(3)] assms(5)
  have "\<exists>v \<in> set (t_rows t1). v_id v = emod_id x \<and> br_latest (v_range v)" by blast
  then have "\<exists>v \<in> set (t_rows t1). v_id v = emod_id row \<and> br_latest (v_range v)" unfolding eq .
  moreover have "\<not> is_clamp row" using append_row_immutable[OF assms(1,2)] by simp
  ultimately show False using t1(2) by (simp add: exec_mod_def exec_clamp_def)
qed

lemma append_rows_correct:
  assumes "fold_res append_row later g = Inr g'"
    and "rows_inv (rg_rows g)" and "rows_inv later" and "in_order (rg_rows g) later"
    and "rg_immutable g \<longrightarrow> t_immutable t" and "exec_mods (rg_rows g @ later) t = Inr t'"
  shows "rows_inv (rg_rows g') \<and> exec_mods (rg_rows g') t = Inr t'"
  using assms
proof (induction later arbitrary: g)
  case Nil
  then show ?case by simp
next
  case (Cons row later)
  from Cons.prems(1) obtain g1 where g1: "append_row row g = Inr g1" "fold_res append_row later g1 = Inr g'"
    by (auto simp: bind_res_Inr_iff)
  from Cons.prems(3) have row: "emod_ok row" "rows_inv later" by (auto simp: rows_inv_def)
  have "exec_mods ((rg_rows g @ [row]) @ later) t = Inr t'" using Cons.prems(6) by simp
  then obtain t1 where t1: "exec_mods (rg_rows g @ [row]) t = Inr t1" "exec_mods later t1 = Inr t'"
    unfolding fold_res_append[of _ "rg_rows g @ [row]"] bind_res_Inr_iff by blast
  have "ended_by row (rg_rows g)" using Cons.prems(4) by (simp add: in_order_def)
  from append_row_rows_inv[OF g1(1) Cons.prems(2) row(1) this]
    append_row_distinct[OF g1(1) _ _ t1(1)] Cons.prems(5)
  have inv: "rows_inv (rg_rows g1)" by auto
  have "exec_mods (rg_rows g1) t = Inr t1" by (rule append_row_exec[OF g1(1) Cons.prems(2) row(1) t1(1)])
  then have "exec_mods (rg_rows g1 @ later) t = Inr t'" using t1(2) by (simp add: fold_res_append)
  from Cons.IH[OF g1(2) inv row(2) append_row_in_order[OF g1(1) Cons.prems(4,3)] _ this]
  show ?case using Cons.prems(5) append_row_frame(2)[OF g1(1)] by simp
qed


lemma exec_mod_chunk_size: "exec_mod m t = Inr t' \<Longrightarrow> t_chunk_size t' = t_chunk_size t"
  by (auto simp: exec_mod_def exec_clamp_def exec_write_def bind_res_Inr_iff insert_query_Inr_iff
      split: if_splits option.splits dest!: clamp_range_query_flags)

lemma exec_mods_chunk_size: "exec_mods ms t = Inr t' \<Longrightarrow> t_chunk_size t' = t_chunk_size t"
  by (erule fold_res_invariant) (auto dest: exec_mod_chunk_size)

lemma rg_append_correct:
  assumes "rg_append other g = Inr g'" and "rows_inv (rg_rows g)" and "rows_inv (rg_rows other)"
    and "in_order (rg_rows g) (rg_rows other)" and "rg_immutable g \<longrightarrow> t_immutable t"
    and "exec_mods (rg_rows g) t = Inr t1" and "exec_mods (rg_rows other) t1 = Inr t2"
  shows "rows_inv (rg_rows g')" and "exec_mods (rg_rows g') t = Inr t2"
proof -
  have "fold_res append_row (rg_rows other) g = Inr g'"
    using assms(1) by (simp add: rg_append_def split: if_splits)
  moreover have "exec_mods (rg_rows g @ rg_rows other) t = Inr t2"
    using assms(6,7) by (simp add: fold_res_append)
  ultimately show "rows_inv (rg_rows g')" "exec_mods (rg_rows g') t = Inr t2"
    using append_rows_correct assms(2-5) by blast+
qed

end
