(* ===== verification/Group_Lookup.thy ===== *)
theory Group_Lookup
  imports Group_Refines
begin

text \<open>
  Reading through queued changes, and undoing them: what a lookup in the table finds after a
  group has been written is what \<open>last_op\<close> says about the group, with the table before the write
  where the group has nothing to say; and reverting the block after the head gives back the
  table from before the write.
\<close>

section \<open>Where versions stand relative to a block\<close>

text \<open>All versions of an entity start before a block and are over by then, or are current.\<close>

fun range_settled :: "block_number \<Rightarrow> block_range_value \<Rightarrow> bool" where
  "range_settled b (Immutable n) \<longleftrightarrow> n < b"
| "range_settled b (Mutable Empty_range) \<longleftrightarrow> True"
| "range_settled b (Mutable (Int4range l u)) \<longleftrightarrow> l < b \<and> (case u of None \<Rightarrow> True | Some u \<Rightarrow> u \<le> b)"

definition settled :: "id \<Rightarrow> block_number \<Rightarrow> 'd table \<Rightarrow> bool" where
  "settled i b t \<longleftrightarrow> (\<forall>v \<in> set (t_rows t). v_id v = i \<longrightarrow> range_settled b (v_range v))"

text \<open>The table is at a head block: nothing in it started or ended after the head.\<close>

fun range_at_head :: "block_number \<Rightarrow> block_range_value \<Rightarrow> bool" where
  "range_at_head h (Immutable n) \<longleftrightarrow> n \<le> h"
| "range_at_head h (Mutable Empty_range) \<longleftrightarrow> True"
| "range_at_head h (Mutable (Int4range l u)) \<longleftrightarrow> l \<le> h \<and> (case u of None \<Rightarrow> True | Some u \<Rightarrow> u \<le> h)"

definition at_head :: "block_number \<Rightarrow> 'd table \<Rightarrow> bool" where
  "at_head h t \<longleftrightarrow> (\<forall>v \<in> set (t_rows t). range_at_head h (v_range v))"

lemma range_at_head_settled: "range_at_head h r \<Longrightarrow> h < b \<Longrightarrow> range_settled b r"
  by (cases "(b, r)" rule: range_settled.cases) (auto split: option.splits)

lemma at_head_settled: "at_head h t \<Longrightarrow> h < b \<Longrightarrow> settled i b t"
  by (auto simp: at_head_def settled_def intro: range_at_head_settled)

lemma range_at_head_mono: "range_at_head h r \<Longrightarrow> h \<le> h' \<Longrightarrow> range_at_head h' r"
  by (cases "(h, r)" rule: range_at_head.cases) (auto split: option.splits)

text \<open>Visibility of a block range value at a block.\<close>

fun visible :: "block_number \<Rightarrow> block_range_value \<Rightarrow> bool" where
  "visible b (Mutable r) = range_contains r b"
| "visible b (Immutable n) = (b = BLOCK_NUMBER_MAX \<or> n \<le> b)"

lemma at_block_visible: "at_block t b v = visible b (v_range v)"
  by (cases "v_range v") (simp_all add: at_block_def br_contains_Mutable del: br_contains.simps(1))

lemma visible_max_latest: "b \<le> BLOCK_NUMBER_MAX \<Longrightarrow> range_settled b r \<Longrightarrow> visible at r \<Longrightarrow> b \<le> at \<Longrightarrow> br_latest r"
  by (cases "(b, r)" rule: range_settled.cases) (auto simp: range_contains_iff split: option.splits)

section \<open>One modification\<close>

definition selects :: "'d table \<Rightarrow> entity_key \<Rightarrow> block_number \<Rightarrow> 'd version \<Rightarrow> bool" where
  "selects t key at v \<longleftrightarrow> v_id v = key_id key \<and> visible at (v_range v)
     \<and> belongs_to_causality_region t (key_causality_region key) v"

lemma layout_find_selects: "layout_find t key at = map_option v_entity (find (selects t key at) (t_rows t))"
proof -
  have "(\<lambda>v. v_id v = key_id key \<and> at_block t at v \<and>
      belongs_to_causality_region t (key_causality_region key) v) = selects t key at"
    by (rule ext) (simp add: selects_def at_block_visible)
  then show ?thesis by (simp add: layout_find_def)
qed

lemma find_filter_id: "(\<And>v. P v \<Longrightarrow> Q v) \<Longrightarrow> find P (filter Q vs) = find P vs"
  by (induction vs) auto

lemma layout_find_other:
  assumes "exec_mod m t = Inr t'" and "emod_id m \<noteq> key_id key"
    and "t_has_causality_region t' = t_has_causality_region t"
  shows "layout_find t' key at = layout_find t key at"
proof -
  have s: "selects t' key at = selects t key at"
    using assms(3) by (auto simp: selects_def belongs_to_causality_region_def fun_eq_iff)
  have f: "find (selects t key at) (t_rows u) =
      find (selects t key at) (filter (\<lambda>v. v_id v = key_id key) (t_rows u))" for u :: "'a table"
    by (rule find_filter_id[symmetric]) (simp add: selects_def)
  show ?thesis
    unfolding layout_find_selects s f[of t'] f[of t] exec_mod_filter_other[OF assms(1,2)] ..
qed

lemma exec_clamp_flags:
  "exec_clamp m t = Inr t' \<Longrightarrow> t_has_causality_region t' = t_has_causality_region t
     \<and> t_immutable t' = t_immutable t \<and> t_complete t' = t_complete t"
  by (auto simp: exec_clamp_def split: if_splits dest!: clamp_range_query_flags)

lemma exec_mod_flags:
  "exec_mod m t = Inr t' \<Longrightarrow> t_has_causality_region t' = t_has_causality_region t
     \<and> t_immutable t' = t_immutable t"
  by (auto simp: exec_mod_def exec_write_def bind_res_Inr_iff insert_query_Inr_iff
      split: option.splits dest!: exec_clamp_flags)

text \<open>Clamping at \<open>b\<close> does not change what is seen before \<open>b\<close>.\<close>

lemma clamp_version_before:
  assumes "clamp_version b v = Inr v'" and "at < b" and "br_latest (v_range v)"
    and "at \<le> BLOCK_NUMBER_MAX"
  shows "visible at (v_range v') = visible at (v_range v) \<and> v_id v' = v_id v \<and> v_entity v' = v_entity v
     \<and> v_causality_region v' = v_causality_region v"
proof -
  from assms(1) obtain r where r: "br_clamp b (v_range v) = Inr r" "v' = v\<lparr>v_range := r\<rparr>"
    by (auto simp: clamp_version_def bind_res_Inr_iff)
  have "visible at r = visible at (v_range v)"
  proof (cases "v_range v")
    case (Mutable x)
    then show ?thesis using r(1) assms(2-4)
      by (cases x) (auto simp: bind_res_Inr_iff range_contains_iff split: if_splits option.splits)
  qed (use r(1) in simp)
  with r(2) show ?thesis by simp
qed

lemma clamp_rows_before:
  assumes "clamp_rows [i] b vs = Inr vs'" and "at < b" and "at \<le> BLOCK_NUMBER_MAX"
  shows "map_option v_entity (find (selects t key at) vs') = map_option v_entity (find (selects t key at) vs)"
  using assms(1)
proof (induction vs arbitrary: vs')
  case (Cons v vs)
  from Cons.prems obtain u ws where u: "clamp_rows [i] b [v] = Inr u" "clamp_rows [i] b vs = Inr ws"
    "vs' = u @ ws"
    unfolding clamp_rows_step[of _ _ v vs] bind_res_Inr_iff by auto
  with clamp_rows_single_result[OF u(1)] obtain w where w: "clamp_rows [i] b [v] = Inr [w]"
    "clamp_rows [i] b vs = Inr ws" "vs' = w # ws" by auto
  have "selects t key at w = selects t key at v \<and> v_entity w = v_entity v"
  proof (cases "clamp_selects [i] v")
    case True
    with w(1) have "clamp_version b v = Inr w" by (auto simp: clamp_rows_single bind_res_Inr_iff)
    from clamp_version_before[OF this assms(2) _ assms(3)] True show ?thesis
      by (simp add: clamp_selects_def selects_def belongs_to_causality_region_def)
  next
    case False
    with w(1) show ?thesis by (simp add: clamp_rows_single)
  qed
  with Cons.IH[OF w(2)] w(3) show ?case by simp
qed simp

lemma exec_clamp_before:
  assumes "exec_clamp m t = Inr t1" and "at < emod_block m" and "at \<le> BLOCK_NUMBER_MAX"
  shows "map_option v_entity (find (selects t key at) (t_rows t1)) = layout_find t key at"
proof (cases "is_clamp m")
  case True
  with assms(1) obtain rows where "clamp_rows [emod_id m] (emod_block m) (t_rows t) = Inr rows"
    "t1 = t\<lparr>t_rows := rows\<rparr>"
    by (auto simp: exec_clamp_def dest!: clamp_range_query_flags)
  with clamp_rows_before[OF this(1) assms(2,3)] show ?thesis by (simp add: layout_find_selects)
next
  case False
  with assms(1) show ?thesis by (auto simp: exec_clamp_def layout_find_selects split: if_splits)
qed

text \<open>Clamping keeps every version of the entity settled, and none is visible from then on.\<close>

lemma clamp_version_settled:
  assumes "clamp_version b v = Inr v'" and "range_settled c (v_range v)" and "b \<le> c"
  shows "range_settled c (v_range v')"
  using assms
  by (cases "(c, v_range v)" rule: range_settled.cases)
     (auto simp: clamp_version_def bind_res_Inr_iff split: if_splits)

lemma clamp_rows_settled:
  assumes "clamp_rows [i] b vs = Inr vs'" and "b \<le> c \<or> i \<noteq> j"
    and "\<forall>v \<in> set vs. v_id v = j \<longrightarrow> range_settled c (v_range v)"
    and "v \<in> set vs'" and "v_id v = j"
  shows "range_settled c (v_range v)"
proof -
  from assms(1,4) obtain u where u: "u \<in> set vs"
    "(if clamp_selects [i] u then clamp_version b u else Inr u) = Inr v"
    unfolding clamp_rows_def by (blast dest: map_res_in)
  show ?thesis
  proof (cases "clamp_selects [i] u")
    case True
    with u have c: "clamp_version b u = Inr v" by simp
    with True assms(5) have "i = j" "v_id u = j"
      using clamp_version_id[OF c] by (auto simp: clamp_selects_def)
    with clamp_version_settled[OF c] assms(2,3) u(1) show ?thesis by auto
  qed (use u assms(3,5) in auto)
qed

lemma exec_clamp_settled:
  assumes "exec_clamp m t = Inr t'" and "settled i c t" and "emod_id m = i \<Longrightarrow> emod_block m \<le> c"
  shows "settled i c t'"
proof (cases "is_clamp m")
  case True
  with assms(1) obtain rows where "clamp_rows [emod_id m] (emod_block m) (t_rows t) = Inr rows"
    "t' = t\<lparr>t_rows := rows\<rparr>"
    by (auto simp: exec_clamp_def dest!: clamp_range_query_flags)
  with clamp_rows_settled[OF this(1)] assms(2,3) show ?thesis by (fastforce simp: settled_def)
qed (use assms in \<open>auto simp: exec_clamp_def split: if_splits\<close>)

lemma exec_clamp_invisible:
  assumes "exec_clamp m t = Inr t1" and "emod_ok m" and "settled (emod_id m) (emod_block m) t"
    and "emod_block m \<le> at" and "v \<in> set (t_rows t1)" and "v_id v = emod_id m"
  shows "\<not> visible at (v_range v)"
  using visible_max_latest[OF emod_ok_block[OF assms(2)] _ _ assms(4)]
    exec_clamp_no_current[OF assms(1,2,5,6)] exec_clamp_settled[OF assms(1,3)] assms(5,6)
  by (auto simp: settled_def)

text \<open>The version that a write adds.\<close>

lemma exec_write_version:
  assumes "exec_write m t = Inr t'" and "as_write m = Some w" and "emod_ok m"
  obtains v where "t' = t\<lparr>t_rows := t_rows t @ [v]\<rparr>" and "v_id v = emod_id m" and "v_entity v = w_entity w"
    and "v_causality_region v = w_causality_region w"
    and "v_range v = (if t_immutable t then Immutable (emod_block m)
                      else Mutable (Int4range (emod_block m) (emod_end m)))"
proof -
  from as_write_SomeD[OF assms(2)] have w: "w_id w = emod_id m" "w_block w = emod_block m" "w_end w = emod_end m"
    by auto
  from assms(1,2) obtain v where v: "new_version (t_immutable t) w = Inr v" "t' = t\<lparr>t_rows := t_rows t @ [v]\<rparr>"
    by (auto simp: exec_write_def insert_query_Inr_iff bind_res_Inr_iff)
  have "make_int4range (emod_block m) (emod_end m) = Inr (Int4range (emod_block m) (emod_end m))"
    using assms(2,3) by (cases m) (auto split: option.splits)
  then show thesis using v w by (intro that) (auto simp: new_version_def bind_res_Inr_iff split: if_splits)
qed

definition op_result :: "'d entity_op \<Rightarrow> 'd option" where
  "op_result p = (case p of OpWrite key data \<Rightarrow> Some data | OpRemove key \<Rightarrow> None)"


text \<open>
  What a lookup finds after one modification: from its block on, what the modification says; before
  it, what the table said.
\<close>

lemma exec_mod_find:
  assumes "exec_mod m t = Inr t'" and "emod_ok m" and "settled (emod_id m) (emod_block m) t"
    and "emod_key m = key" and "at \<le> BLOCK_NUMBER_MAX" and "t_immutable t \<Longrightarrow> emod_end m = None"
  shows "layout_find t' key at =
     (if emod_block m \<le> at then op_result (as_entity_op m at) else layout_find t key at)"
proof -
  from assms(1) obtain t1 where t1: "exec_clamp m t = Inr t1" "exec_write m t1 = Inr t'"
    by (auto simp: exec_mod_def bind_res_Inr_iff)
  have id: "key_id key = emod_id m" using assms(4) by (simp add: emod_id_def)
  have f: "t_has_causality_region t' = t_has_causality_region t" "t_immutable t1 = t_immutable t"
    using exec_mod_flags[OF assms(1)] exec_clamp_flags[OF t1(1)] by auto
  have s: "selects t' key at = selects t key at"
    using f by (auto simp: selects_def belongs_to_causality_region_def fun_eq_iff)
  have before: "map_option v_entity (find (selects t key at) (t_rows t1)) = layout_find t key at"
    if "at < emod_block m"
    by (rule exec_clamp_before[OF t1(1) that assms(5)])
  have since: "find (selects t key at) (t_rows t1) = None" if "emod_block m \<le> at"
    using exec_clamp_invisible[OF t1(1) assms(2,3) that] id
    by (auto simp: find_None_iff selects_def)
  show ?thesis
  proof (cases "as_write m")
    case None
    then have m: "m = Remove key (emod_block m)" using assms(4) by (cases m) auto
    then have "op_result (as_entity_op m at) = None" by (cases m) (auto simp: op_result_def)
    moreover have "t' = t1" using t1(2) None by (simp add: exec_write_def)
    ultimately show ?thesis
      using before since unfolding layout_find_selects[of t'] s by (cases "emod_block m \<le> at") auto
  next
    case (Some w)
    obtain v where v: "t' = t1\<lparr>t_rows := t_rows t1 @ [v]\<rparr>" "v_id v = emod_id m" "v_entity v = w_entity w"
      "v_causality_region v = w_causality_region w"
      "v_range v = (if t_immutable t1 then Immutable (emod_block m)
                      else Mutable (Int4range (emod_block m) (emod_end m)))"
      by (rule exec_write_version[OF t1(2) Some assms(2)]) blast
    have cr: "v_causality_region v = key_causality_region key"
      using v(4) Some assms(4) by (cases m) auto
    have vis: "visible at (v_range v) \<longleftrightarrow>
        emod_block m \<le> at \<and> (case emod_end m of None \<Rightarrow> True | Some e \<Rightarrow> at < e)"
      using v(5) f(2) assms(5,6) emod_ok_block[OF assms(2)]
      by (auto simp: range_contains_iff split: option.splits)
    have sel: "selects t key at v \<longleftrightarrow> visible at (v_range v)"
      using v(2) cr id by (simp add: selects_def belongs_to_causality_region_def)
    have find': "layout_find t' key at =
        map_option v_entity (find (selects t key at) (t_rows t1 @ [v]))"
      by (simp only: layout_find_selects s) (simp add: v(1))
    show ?thesis
    proof (cases "emod_block m \<le> at")
      case True
      have "op_result (as_entity_op m at) =
          (if case emod_end m of None \<Rightarrow> True | Some e \<Rightarrow> at < e then Some (w_entity w) else None)"
        using Some by (cases "(m, at)" rule: as_entity_op.cases) (auto simp: op_result_def)
      then show ?thesis
        using True since[OF True] sel vis v(3) unfolding find' by (simp add: find_append)
    next
      case False
      then have "\<not> selects t key at v" using sel vis by simp
      then have "find (selects t key at) (t_rows t1 @ [v]) = find (selects t key at) (t_rows t1)"
        by (simp add: find_append split: option.splits)
      then show ?thesis using False before unfolding find' by simp
    qed
  qed
qed

lemma exec_mod_settled:
  assumes "exec_mod m t = Inr t'" and "emod_ok m" and "settled i c t"
    and "emod_id m = i \<Longrightarrow> emod_block m < c \<and> (\<forall>e. emod_end m = Some e \<longrightarrow> e \<le> c)"
  shows "settled i c t'"
proof -
  from assms(1) obtain t1 where t1: "exec_clamp m t = Inr t1" "exec_write m t1 = Inr t'"
    by (auto simp: exec_mod_def bind_res_Inr_iff)
  have s1: "settled i c t1" by (rule exec_clamp_settled[OF t1(1) assms(3)]) (use assms(4) in auto)
  show ?thesis
  proof (cases "as_write m")
    case None
    with t1(2) s1 show ?thesis by (simp add: exec_write_def)
  next
    case (Some w)
    obtain v where v: "t' = t1\<lparr>t_rows := t_rows t1 @ [v]\<rparr>" "v_id v = emod_id m"
      "v_range v = (if t_immutable t1 then Immutable (emod_block m)
                      else Mutable (Int4range (emod_block m) (emod_end m)))"
      by (rule exec_write_version[OF t1(2) Some assms(2)]) blast
    then show ?thesis using s1 assms(4) by (auto simp: settled_def split: option.splits)
  qed
qed

section \<open>Reading through a group\<close>

text \<open>Rows for one id carry one key, causality region included.\<close>

definition one_key :: "entity_key \<Rightarrow> 'd entity_modification list \<Rightarrow> bool" where
  "one_key key rows \<longleftrightarrow> (\<forall>m \<in> set rows. emod_id m = key_id key \<longrightarrow> emod_key m = key)"

definition no_end_if :: "bool \<Rightarrow> 'd entity_modification list \<Rightarrow> bool" where
  "no_end_if immutable rows \<longleftrightarrow> (immutable \<longrightarrow> (\<forall>m \<in> set rows. emod_end m = None))"

lemma exec_mods_settled:
  assumes "exec_mods rows t = Inr t'" and "\<forall>m \<in> set rows. emod_ok m" and "settled i c t"
    and "\<forall>m \<in> set rows. emod_id m = i \<longrightarrow> emod_block m < c \<and> (\<forall>e. emod_end m = Some e \<longrightarrow> e \<le> c)"
  shows "settled i c t'"
proof (rule fold_res_invariant[OF assms(1), where P = "settled i c"])
  show "settled i c t" by (rule assms(3))
next
  fix m u u'
  assume "m \<in> set rows" "settled i c u" "exec_mod m u = Inr u'"
  then show "settled i c u'" using exec_mod_settled[of m u u' i c] assms(2,4) by blast
qed

lemma exec_mods_flags:
  "exec_mods rows t = Inr t' \<Longrightarrow> t_has_causality_region t' = t_has_causality_region t
     \<and> t_immutable t' = t_immutable t"
  by (erule fold_res_invariant) (auto dest: exec_mod_flags)

definition rows_last_op :: "'d entity_modification list \<Rightarrow> entity_key \<Rightarrow> block_number \<Rightarrow> 'd entity_op option" where
  "rows_last_op rows key at =
     map_option (\<lambda>emod. as_entity_op emod at)
       (rfind (\<lambda>emod. emod_key emod = key \<and> emod_block emod \<le> at) rows)"

lemma rg_last_op_rows: "rg_last_op g key at = rows_last_op (rg_rows g) key at"
  by (simp add: rg_last_op_def rows_last_op_def)

lemma last_op_correct:
  assumes "exec_mods rows t = Inr t'" and "rows_inv rows" and "at_head h t"
    and "\<forall>m \<in> set rows. h < emod_block m" and "one_key key rows" and "no_end_if (t_immutable t) rows"
    and "at \<le> BLOCK_NUMBER_MAX"
  shows "layout_find t' key at =
     (case rows_last_op rows key at of Some p \<Rightarrow> op_result p | None \<Rightarrow> layout_find t key at)"
  using assms
proof (induction rows arbitrary: t' rule: rev_induct)
  case Nil
  then show ?case by (simp add: rows_last_op_def)
next
  case (snoc m rows)
  from snoc.prems(1) obtain t1 where t1: "exec_mods rows t = Inr t1" "exec_mod m t1 = Inr t'"
    by (auto simp: fold_res_append bind_res_Inr_iff)
  from snoc.prems(2) have inv: "rows_inv rows" "emod_ok m" "\<forall>x \<in> set rows. folds_into x m"
    by (auto simp: rows_inv_snoc)
  have IH: "layout_find t1 key at =
      (case rows_last_op rows key at of Some p \<Rightarrow> op_result p | None \<Rightarrow> layout_find t key at)"
    by (rule snoc.IH[OF t1(1) inv(1) snoc.prems(3)])
       (use snoc.prems(4-7) in \<open>auto simp: one_key_def no_end_if_def\<close>)
  show ?case
  proof (cases "emod_id m = key_id key")
    case False
    then have "emod_key m \<noteq> key" by (auto simp: emod_id_def)
    then have "rows_last_op (rows @ [m]) key at = rows_last_op rows key at"
      by (simp add: rows_last_op_def)
    moreover have "layout_find t' key at = layout_find t1 key at"
      by (rule layout_find_other[OF t1(2) False]) (use exec_mod_flags[OF t1(2)] in simp)
    ultimately show ?thesis using IH by simp
  next
    case True
    then have key: "emod_key m = key" using snoc.prems(5) by (simp add: one_key_def)
    have "settled (emod_id m) (emod_block m) t1"
      by (rule exec_mods_settled[OF t1(1) _ at_head_settled[OF snoc.prems(3)]])
         (use inv snoc.prems(4) in \<open>auto simp: rows_inv_def folds_into_def\<close>)
    from exec_mod_find[OF t1(2) inv(2) this key snoc.prems(7)]
    have "layout_find t' key at =
        (if emod_block m \<le> at then op_result (as_entity_op m at) else layout_find t1 key at)"
      using snoc.prems(6) exec_mods_flags[OF t1(1)] by (auto simp: no_end_if_def)
    with IH key show ?thesis by (simp add: rows_last_op_def)
  qed
qed

text \<open>The head moves with the rows.\<close>

lemma exec_mods_at_head:
  assumes "exec_mods rows t = Inr t'" and "\<forall>m \<in> set rows. emod_ok m" and "at_head h t" and "h \<le> h'"
    and "\<forall>m \<in> set rows. emod_block m \<le> h' \<and> (\<forall>e. emod_end m = Some e \<longrightarrow> e \<le> h')"
  shows "at_head h' t'"
proof -
  have conv: "at_head h' u \<longleftrightarrow> (\<forall>v \<in> set (t_rows u). range_at_head h' (v_range v))" for u :: "'a table"
    by (simp add: at_head_def)
  show ?thesis
  proof (rule fold_res_invariant[OF assms(1), where P = "at_head h'"])
    show "at_head h' t" using assms(3,4) range_at_head_mono by (auto simp: at_head_def)
  next
    fix m u u'
    assume m: "m \<in> set rows" and u: "at_head h' u" and ex: "exec_mod m u = Inr u'"
    from ex obtain u1 where u1: "exec_clamp m u = Inr u1" "exec_write m u1 = Inr u'"
      by (auto simp: exec_mod_def bind_res_Inr_iff)
    have "at_head h' u1"
    proof (cases "is_clamp m")
      case True
      with u1(1) obtain vs where vs: "clamp_rows [emod_id m] (emod_block m) (t_rows u) = Inr vs"
        "u1 = u\<lparr>t_rows := vs\<rparr>"
        by (auto simp: exec_clamp_def dest!: clamp_range_query_flags)
      have "range_at_head h' (v_range v')" if "clamp_version (emod_block m) v = Inr v'"
        "range_at_head h' (v_range v)" for v v' :: "'a version"
        using that m assms(5)
        by (cases "(h', v_range v)" rule: range_at_head.cases)
           (auto simp: clamp_version_def bind_res_Inr_iff split: if_splits)
      with vs u show ?thesis
        unfolding at_head_def clamp_rows_def by (fastforce dest!: map_res_in split: if_splits)
    qed (use u u1(1) in \<open>auto simp: exec_clamp_def split: if_splits\<close>)
    show "at_head h' u'"
    proof (cases "as_write m")
      case None
      with u1(2) \<open>at_head h' u1\<close> show ?thesis by (simp add: exec_write_def)
    next
      case (Some w)
      obtain v where v: "u' = u1\<lparr>t_rows := t_rows u1 @ [v]\<rparr>"
        "v_range v = (if t_immutable u1 then Immutable (emod_block m)
                        else Mutable (Int4range (emod_block m) (emod_end m)))"
        by (rule exec_write_version[OF u1(2) Some]) (use m assms(2) in auto)
      then show ?thesis using \<open>at_head h' u1\<close> m assms(5) by (auto simp: at_head_def split: option.splits)
    qed
  qed
qed


section \<open>Reverting\<close>

text \<open>The rows that \<open>revert_table\<close> leaves, row by row.\<close>

definition revert_row :: "bool \<Rightarrow> block_number \<Rightarrow> 'd version \<Rightarrow> 'd version list" where
  "revert_row immutable b v =
     (if br_changed_since b (v_range v) then []
      else if \<not> immutable \<and> revert_clamp_selects (b - 1) (v_range v)
      then [v\<lparr>v_range := unclamp (v_range v)\<rparr>] else [v])"

lemma revert_table_rows:
  "snd (revert_table b t) = t\<lparr>t_rows := concat (map (revert_row (t_immutable t) b) (t_rows t))\<rparr>"
proof -
  have "(if im then rows else map (\<lambda>v. if revert_clamp_selects (b - 1) (v_range v)
           then v\<lparr>v_range := unclamp (v_range v)\<rparr> else v) rows)
      = concat (map (revert_row im b) vs)"
    if "rows = filter (\<lambda>v. \<not> br_changed_since b (v_range v)) vs" for rows vs :: "'a version list" and im
    unfolding that by (induction vs) (auto simp: revert_row_def)
  from this[OF refl, of "t_immutable t" "t_rows t"] show ?thesis
    by (auto simp: revert_table_def revert_remove_def revert_clamp_def split: if_splits)
qed

lemma revert_row_at_head:
  "range_at_head h (v_range v) \<Longrightarrow> revert_row im (h + 1) v = [v]"
  by (cases "(h, v_range v)" rule: range_at_head.cases)
     (auto simp: revert_row_def range_contains_iff split: option.splits)

lemma revert_rows_at_head:
  "\<forall>v \<in> set vs. range_at_head h (v_range v) \<Longrightarrow> concat (map (revert_row im (h + 1)) vs) = vs"
  by (induction vs) (simp_all add: revert_row_at_head)

lemma revert_row_clamped:
  assumes "clamp_version b v = Inr v'" and "br_latest (v_range v)" and "range_settled b (v_range v)"
    and "h < b" and "b < BLOCK_NUMBER_MAX"
  shows "revert_row False (h + 1) v' = revert_row False (h + 1) v"
proof -
  from assms(1) obtain r where r: "br_clamp b (v_range v) = Inr r" "v' = v\<lparr>v_range := r\<rparr>"
    by (auto simp: clamp_version_def bind_res_Inr_iff)
  from r(1) obtain l u where lu: "v_range v = Mutable (Int4range l u)"
    using assms(2) by (cases "(b, v_range v)" rule: range_settled.cases) auto
  have u: "u = None" using assms(2,3,5) lu by (auto split: option.splits)
  have l: "l < b" using assms(3) lu by simp
  with r(1) lu have "r = Mutable (Int4range l (Some b))" by (auto split: if_splits)
  then show ?thesis using r(2) lu u l assms(4,5)
    by (auto simp: revert_row_def range_contains_iff coalesce_upper_def)
qed

lemma revert_rows_clamped:
  assumes "clamp_rows [i] b vs = Inr vs'" and "\<forall>v \<in> set vs. v_id v = i \<longrightarrow> range_settled b (v_range v)"
    and "h < b" and "b < BLOCK_NUMBER_MAX"
  shows "concat (map (revert_row False (h + 1)) vs') = concat (map (revert_row False (h + 1)) vs)"
  using assms(1,2)
proof (induction vs arbitrary: vs')
  case (Cons v vs)
  from Cons.prems(1) obtain u ws where u: "clamp_rows [i] b [v] = Inr u" "clamp_rows [i] b vs = Inr ws"
    "vs' = u @ ws"
    unfolding clamp_rows_step[of _ _ v vs] bind_res_Inr_iff by auto
  have "concat (map (revert_row False (h + 1)) u) = revert_row False (h + 1) v"
  proof (cases "clamp_selects [i] v")
    case True
    with u(1) obtain v' where v': "clamp_version b v = Inr v'" "u = [v']"
      by (auto simp: clamp_rows_single bind_res_Inr_iff)
    from revert_row_clamped[OF v'(1) _ _ assms(3,4)] True Cons.prems(2) v'(2) show ?thesis
      by (simp add: clamp_selects_def)
  next
    case False
    with u(1) show ?thesis by (auto simp: clamp_rows_single)
  qed
  with Cons.IH[OF u(2)] Cons.prems(2) u(3) show ?case by simp
qed simp

lemma exec_mod_reverted:
  assumes "exec_mod m u = Inr u'" and "emod_ok m" and "settled (emod_id m) (emod_block m) u"
    and "h < emod_block m" and "emod_block m < BLOCK_NUMBER_MAX"
  shows "snd (revert_table (h + 1) u') = snd (revert_table (h + 1) u)"
proof -
  from assms(1) obtain u1 where u1: "exec_clamp m u = Inr u1" "exec_write m u1 = Inr u'"
    by (auto simp: exec_mod_def bind_res_Inr_iff)
  have 1: "snd (revert_table (h + 1) u1) = snd (revert_table (h + 1) u)"
  proof (cases "is_clamp m")
    case True
    with u1(1) obtain vs where vs: "clamp_rows [emod_id m] (emod_block m) (t_rows u) = Inr vs"
      "u1 = u\<lparr>t_rows := vs\<rparr>" "\<not> t_immutable u"
      by (auto simp: exec_clamp_def dest!: clamp_range_query_flags)
    from revert_rows_clamped[OF vs(1) _ assms(4,5)] assms(3) vs(2,3) show ?thesis
      by (simp add: revert_table_rows settled_def)
  qed (use u1(1) in \<open>auto simp: exec_clamp_def split: if_splits\<close>)
  show ?thesis
  proof (cases "as_write m")
    case None
    with u1(2) 1 show ?thesis by (simp add: exec_write_def)
  next
    case (Some w)
    obtain v where v: "u' = u1\<lparr>t_rows := t_rows u1 @ [v]\<rparr>"
      "v_range v = (if t_immutable u1 then Immutable (emod_block m)
                      else Mutable (Int4range (emod_block m) (emod_end m)))"
      by (rule exec_write_version[OF u1(2) Some assms(2)]) blast
    then have "revert_row im (h + 1) v = []" for im using assms(4) by (simp add: revert_row_def)
    with 1 v(1) show ?thesis by (simp add: revert_table_rows)
  qed
qed

text \<open>Reverting the block after the head undoes everything that was run on top of the head.\<close>

lemma revert_exec_mods:
  assumes "exec_mods rows t = Inr t'" and "rows_inv rows" and "at_head h t"
    and "\<forall>m \<in> set rows. h < emod_block m \<and> emod_block m < BLOCK_NUMBER_MAX"
  shows "snd (revert_table (h + 1) t') = t"
  using assms
proof (induction rows arbitrary: t' rule: rev_induct)
  case Nil
  have "concat (map (revert_row (t_immutable t) (h + 1)) (t_rows t)) = t_rows t"
    by (rule revert_rows_at_head) (use assms(3) in \<open>simp add: at_head_def\<close>)
  with Nil show ?case by (simp add: revert_table_rows)
next
  case (snoc m rows)
  from snoc.prems(1) obtain t1 where t1: "exec_mods rows t = Inr t1" "exec_mod m t1 = Inr t'"
    by (auto simp: fold_res_append bind_res_Inr_iff)
  from snoc.prems(2) have inv: "rows_inv rows" "emod_ok m" "\<forall>x \<in> set rows. folds_into x m"
    by (auto simp: rows_inv_snoc)
  have "settled (emod_id m) (emod_block m) t1"
    by (rule exec_mods_settled[OF t1(1) _ at_head_settled[OF snoc.prems(3)]])
       (use inv snoc.prems(4) in \<open>auto simp: rows_inv_def folds_into_def\<close>)
  from exec_mod_reverted[OF t1(2) inv(2) this] snoc.IH[OF t1(1) inv(1) snoc.prems(3)] snoc.prems(4)
  show ?case by simp
qed

text \<open>
  A lookup after reverting to block \<open>n\<close> sees the table as it was at \<open>n\<close>, and \<open>n\<close> is the new head.
\<close>

definition same_version :: "'d version \<Rightarrow> 'd version \<Rightarrow> bool" where
  "same_version v v' \<longleftrightarrow> v_id v' = v_id v \<and> v_entity v' = v_entity v
     \<and> v_causality_region v' = v_causality_region v"

lemma revert_row_visible:
  assumes "range_at_head h (v_range v)" and "h < BLOCK_NUMBER_MAX" and "n < BLOCK_NUMBER_MAX"
    and "im \<longrightarrow> (\<exists>k. v_range v = Immutable k)"
  shows "revert_row im (n + 1) v = [] \<and> \<not> visible (min at n) (v_range v) \<or>
    (\<exists>v'. revert_row im (n + 1) v = [v'] \<and> same_version v v' \<and> range_at_head n (v_range v')
       \<and> visible at (v_range v') = visible (min at n) (v_range v)
       \<and> (im \<longrightarrow> (\<exists>k. v_range v' = Immutable k)))"
proof (cases "v_range v")
  case (Immutable k)
  then show ?thesis using assms(1-3) by (auto simp: revert_row_def min_def same_version_def)
next
  case (Mutable x)
  show ?thesis
  proof (cases x)
    case Empty_range
    then show ?thesis using Mutable assms(4) by (auto simp: revert_row_def same_version_def)
  next
    case (Int4range l u)
    show ?thesis
    proof (cases "u = None \<or> (\<exists>w. u = Some w \<and> w \<le> n)")
      case True
      then show ?thesis using Mutable Int4range assms
        by (auto simp: revert_row_def range_contains_iff min_def same_version_def)
    next
      case False
      then obtain w where "u = Some w" "n < w" by auto
      then show ?thesis using Mutable Int4range assms
        by (auto simp: revert_row_def range_contains_iff coalesce_upper_def min_def same_version_def)
    qed
  qed
qed

definition kinds_ok :: "'d table \<Rightarrow> bool" where
  "kinds_ok t \<longleftrightarrow> (t_immutable t \<longrightarrow> (\<forall>v \<in> set (t_rows t). \<exists>k. v_range v = Immutable k))"

lemma revert_find_rows:
  assumes "\<forall>v \<in> set vs. range_at_head h (v_range v) \<and> (im \<longrightarrow> (\<exists>k. v_range v = Immutable k))"
    and "h < BLOCK_NUMBER_MAX" and "n < BLOCK_NUMBER_MAX"
  shows "map_option v_entity (find (selects t key at) (concat (map (revert_row im (n + 1)) vs))) =
     map_option v_entity (find (selects t key (min at n)) vs)"
  using assms(1)
proof (induction vs)
  case (Cons v vs)
  then have IH: "map_option v_entity (find (selects t key at) (concat (map (revert_row im (n + 1)) vs))) =
     map_option v_entity (find (selects t key (min at n)) vs)" by simp
  from Cons.prems have "range_at_head h (v_range v)" "im \<longrightarrow> (\<exists>k. v_range v = Immutable k)" by auto
  from revert_row_visible[OF this(1) assms(2,3) this(2), of at] show ?case
  proof
    assume r: "revert_row im (n + 1) v = [] \<and> \<not> visible (min at n) (v_range v)"
    then have "\<not> selects t key (min at n) v" by (simp add: selects_def)
    with r IH show ?thesis by simp
  next
    assume "\<exists>v'. revert_row im (n + 1) v = [v'] \<and> same_version v v' \<and> range_at_head n (v_range v')
       \<and> visible at (v_range v') = visible (min at n) (v_range v)
       \<and> (im \<longrightarrow> (\<exists>k. v_range v' = Immutable k))"
    then obtain v' where r: "revert_row im (n + 1) v = [v']" "same_version v v'"
      "visible at (v_range v') = visible (min at n) (v_range v)" by blast
    then have "selects t key at v' = selects t key (min at n) v" "v_entity v' = v_entity v"
      by (auto simp: selects_def belongs_to_causality_region_def same_version_def)
    with IH r(1) show ?thesis by simp
  qed
qed simp

lemma revert_find:
  assumes "at_head h t" and "kinds_ok t" and "h < BLOCK_NUMBER_MAX" and "n < BLOCK_NUMBER_MAX"
  shows "layout_find (snd (revert_table (n + 1) t)) key at = layout_find t key (min at n)"
proof -
  have s: "selects (t\<lparr>t_rows := vs\<rparr>) key at = selects t key at" for vs
    by (auto simp: selects_def belongs_to_causality_region_def fun_eq_iff)
  show ?thesis
    unfolding revert_table_rows layout_find_selects s
    using revert_find_rows[OF _ assms(3,4), of "t_rows t" "t_immutable t" t key at] assms(1,2)
    by (simp add: at_head_def kinds_ok_def)
qed

lemma revert_at_head:
  assumes "at_head h t" and "kinds_ok t" and "h < BLOCK_NUMBER_MAX" and "n < BLOCK_NUMBER_MAX"
  shows "at_head n (snd (revert_table (n + 1) t)) \<and> kinds_ok (snd (revert_table (n + 1) t))"
proof -
  have "range_at_head n (v_range v') \<and> (t_immutable t \<longrightarrow> (\<exists>k. v_range v' = Immutable k))"
    if "v \<in> set (t_rows t)" "v' \<in> set (revert_row (t_immutable t) (n + 1) v)" for v v'
  proof -
    have "range_at_head h (v_range v)" "t_immutable t \<longrightarrow> (\<exists>k. v_range v = Immutable k)"
      using assms(1,2) that(1) by (auto simp: at_head_def kinds_ok_def)
    from revert_row_visible[OF this(1) assms(3,4) this(2), of 0] that(2) show ?thesis by auto
  qed
  then show ?thesis by (auto simp: revert_table_rows at_head_def kinds_ok_def)
qed

end
