(* ===== verification/Batch.thy ===== *)
theory Batch
  imports Group_Lookup "HOL-Library.Multiset"
begin

text \<open>
  \<open>RowGroups\<close>, \<open>DataSources\<close> and \<open>Batch\<close> of \<open>graph/src/components/store/write.rs\<close>: all
  changes of one or several blocks. Stored data sources and subgraph errors are opaque here
  (type parameters \<open>'ds\<close> and \<open>'e\<close>); \<open>is_immutable\<close> is what the input schema says of an entity
  type; \<open>weigh\<close> is the \<open>CacheWeight\<close> of the row groups, which depends on allocation sizes.
\<close>

section \<open>Row groups\<close>

type_synonym 'd row_groups = "'d row_group list"

definition groups_group :: "'d row_groups \<Rightarrow> entity_type \<Rightarrow> 'd row_group option" where
  "groups_group gs et = find (\<lambda>g. rg_entity_type g = et) gs"

text \<open>
  \<open>group_entry\<close> returns a mutable reference: the model returns the groups, with the new group if
  one was needed, and the index of the group.
\<close>

definition group_entry :: "(entity_type \<Rightarrow> bool) \<Rightarrow> entity_type \<Rightarrow> 'd row_groups
    \<Rightarrow> 'd row_groups \<times> nat" where
  "group_entry is_immutable et gs =
     (case find_index (\<lambda>g. rg_entity_type g = et) gs of
        Some pos \<Rightarrow> (gs, pos)
      | None \<Rightarrow> (gs @ [row_group_new et (is_immutable et)], length gs))"

definition groups_entity_count :: "'d row_groups \<Rightarrow> nat" where
  "groups_entity_count gs = sum_list (map row_count gs)"

text \<open>
  A loop with \<open>?\<close> over a structure that is mutated in place: at an error the changes made so far
  stay. \<open>append_row\<close> itself changes nothing when it fails.
\<close>

fun run_until :: "('a \<Rightarrow> 's \<Rightarrow> ('e, 's) result) \<Rightarrow> 'a list \<Rightarrow> 's \<Rightarrow> 'e option \<times> 's" where
  "run_until f [] s = (None, s)"
| "run_until f (x # xs) s = (case f x s of Inl e \<Rightarrow> (Some e, s) | Inr s' \<Rightarrow> run_until f xs s')"

definition rg_append_mut :: "'d row_group \<Rightarrow> 'd row_group \<Rightarrow> store_error option \<times> 'd row_group" where
  "rg_append_mut other g =
     (if rg_entity_type g \<noteq> rg_entity_type other then (Some (ConstraintViolation GroupTypeMismatch), g)
      else run_until append_row (rg_rows other) g)"

fun groups_append :: "(entity_type \<Rightarrow> bool) \<Rightarrow> 'd row_groups \<Rightarrow> 'd row_groups
    \<Rightarrow> store_error option \<times> 'd row_groups" where
  "groups_append is_immutable [] gs = (None, gs)"
| "groups_append is_immutable (other # others) gs =
     (let (gs1, pos) = group_entry is_immutable (rg_entity_type other) gs;
          (err, g) = rg_append_mut other (gs1 ! pos);
          gs2 = gs1[pos := g]
      in case err of Some e \<Rightarrow> (Some e, gs2) | None \<Rightarrow> groups_append is_immutable others gs2)"

text \<open>Pushing one modification for a block into the group of its type (the loop of \<open>Batch::new\<close>).\<close>

definition groups_push :: "(entity_type \<Rightarrow> bool) \<Rightarrow> block_number \<Rightarrow> 'd entity_modification
    \<Rightarrow> 'd row_groups \<Rightarrow> (store_error, 'd row_groups) result" where
  "groups_push is_immutable block m gs =
     (let (gs1, pos) = group_entry is_immutable (key_type (emod_key m)) gs
      in bind_res (push m block (gs1 ! pos)) (\<lambda>g. Inr (gs1[pos := g])))"

section \<open>Data sources\<close>

type_synonym 'ds data_sources = "(block_ptr \<times> 'ds list) list"

definition data_sources_new :: "block_ptr \<Rightarrow> 'ds list \<Rightarrow> 'ds data_sources" where
  "data_sources_new ptr entries = (if entries = [] then [] else [(ptr, entries)])"

definition data_sources_is_empty :: "'ds data_sources \<Rightarrow> bool" where
  "data_sources_is_empty dss = list_all (\<lambda>(_, ds). ds = []) dss"

section \<open>Batches\<close>

record ('d, 'ds, 'e) batch =
  b_block_ptr :: block_ptr
  b_block_times :: "(block_number \<times> int) list"
  b_first_block :: block_number
  b_firehose_cursor :: "string option"
  b_mods :: "'d row_groups"
  b_data_sources :: "'ds data_sources"
  b_deterministic_errors :: "'e list"
  b_offchain_to_remove :: "'ds data_sources"
  b_error :: "store_error option"
  b_is_non_fatal_errors_active :: bool
  b_indirect_weight :: nat

fun sort_rank :: "'d entity_modification \<Rightarrow> nat" where
  "sort_rank (Insert _ _ _ _) = 2"
| "sort_rank (Overwrite _ _ _ _) = 1"
| "sort_rank (Remove _ _) = 0"

text \<open>
  What \<open>sort_unstable_by_key\<close> promises: a permutation that is sorted by the key. The order of
  equal keys is not specified, so the sort is a parameter of \<open>batch_new\<close>.
\<close>

definition sorts_by_rank :: "('d entity_modification list \<Rightarrow> 'd entity_modification list) \<Rightarrow> bool" where
  "sorts_by_rank sort_mods \<longleftrightarrow>
     (\<forall>ms. mset (sort_mods ms) = mset ms \<and> sorted (map sort_rank (sort_mods ms)))"

definition batch_weigh :: "('d row_groups \<Rightarrow> nat) \<Rightarrow> ('d, 'ds, 'e) batch \<Rightarrow> ('d, 'ds, 'e) batch" where
  "batch_weigh weigh b = b\<lparr>b_indirect_weight := weigh (b_mods b)\<rparr>"

definition batch_new :: "(entity_type \<Rightarrow> bool) \<Rightarrow> ('d row_groups \<Rightarrow> nat)
    \<Rightarrow> ('d entity_modification list \<Rightarrow> 'd entity_modification list)
    \<Rightarrow> block_ptr \<Rightarrow> int \<Rightarrow> string option \<Rightarrow> 'd entity_modification list \<Rightarrow> 'ds list \<Rightarrow> 'e list
    \<Rightarrow> 'ds list \<Rightarrow> bool \<Rightarrow> (store_error, ('d, 'ds, 'e) batch) result" where
  "batch_new is_immutable weigh sort_mods block_ptr block_time cursor raw_mods data_sources errors
     offchain_to_remove non_fatal =
     (let block = number block_ptr
      in bind_res (fold_res (groups_push is_immutable block) (sort_mods raw_mods) [])
           (\<lambda>mods. Inr (batch_weigh weigh
              \<lparr>b_block_ptr = block_ptr, b_block_times = [(block, block_time)],
               b_first_block = number block_ptr, b_firehose_cursor = cursor, b_mods = mods,
               b_data_sources = data_sources_new block_ptr data_sources,
               b_deterministic_errors = errors,
               b_offchain_to_remove = data_sources_new block_ptr offchain_to_remove,
               b_error = None, b_is_non_fatal_errors_active = non_fatal, b_indirect_weight = 0\<rparr>)))"

text \<open>
  \<open>append_inner\<close> assigns the fields in order, so when appending the modifications fails the
  block pointer, times and cursor have already moved.
\<close>

definition append_inner :: "(entity_type \<Rightarrow> bool) \<Rightarrow> ('d, 'ds, 'e) batch \<Rightarrow> ('d, 'ds, 'e) batch
    \<Rightarrow> store_error option \<times> ('d, 'ds, 'e) batch" where
  "append_inner is_immutable other self =
     (if number (b_block_ptr other) \<le> number (b_block_ptr self)
      then (Some (ConstraintViolation BatchMustGoForward), self)
      else
        let self1 = self\<lparr>b_block_ptr := b_block_ptr other,
                         b_block_times := b_block_times self @ b_block_times other,
                         b_firehose_cursor := b_firehose_cursor other\<rparr>;
            (err, mods) = groups_append is_immutable (b_mods other) (b_mods self1);
            self2 = self1\<lparr>b_mods := mods\<rparr>
        in case err of
             Some e \<Rightarrow> (Some e, self2)
           | None \<Rightarrow>
               (None, self2\<lparr>b_data_sources := b_data_sources self @ b_data_sources other,
                            b_deterministic_errors :=
                              b_deterministic_errors self @ b_deterministic_errors other,
                            b_offchain_to_remove :=
                              b_offchain_to_remove self @ b_offchain_to_remove other\<rparr>))"

definition batch_append :: "(entity_type \<Rightarrow> bool) \<Rightarrow> ('d row_groups \<Rightarrow> nat) \<Rightarrow> ('d, 'ds, 'e) batch
    \<Rightarrow> ('d, 'ds, 'e) batch \<Rightarrow> store_error option \<times> ('d, 'ds, 'e) batch" where
  "batch_append is_immutable weigh other self =
     (let (err, self1) = append_inner is_immutable other self;
          self2 = (case err of Some e \<Rightarrow> self1\<lparr>b_error := Some e\<rparr> | None \<Rightarrow> self1)
      in (err, batch_weigh weigh self2))"

definition batch_entity_count :: "('d, 'ds, 'e) batch \<Rightarrow> nat" where
  "batch_entity_count b = groups_entity_count (b_mods b)"

definition batch_last_op :: "('d, 'ds, 'e) batch \<Rightarrow> entity_key \<Rightarrow> block_number \<Rightarrow> 'd entity_op option" where
  "batch_last_op b key block =
     (case groups_group (b_mods b) (key_type key) of None \<Rightarrow> None | Some g \<Rightarrow> rg_last_op g key block)"

definition batch_effective_ops :: "('d, 'ds, 'e) batch \<Rightarrow> entity_type \<Rightarrow> block_number
    \<Rightarrow> 'd entity_op list" where
  "batch_effective_ops b et at =
     (case groups_group (b_mods b) et of None \<Rightarrow> [] | Some g \<Rightarrow> rg_effective_ops g at)"

definition new_data_sources :: "('d, 'ds, 'e) batch \<Rightarrow> block_number \<Rightarrow> 'ds list" where
  "new_data_sources b at =
     filter (\<lambda>ds. \<not> list_ex (\<lambda>(_, entries). ds \<in> set entries) (b_offchain_to_remove b))
       (concat (map snd (filter (\<lambda>(ptr, _). number ptr \<le> at) (b_data_sources b))))"

section \<open>The rows of one entity type\<close>

definition rows_of :: "'d row_groups \<Rightarrow> entity_type \<Rightarrow> 'd entity_modification list" where
  "rows_of gs et = (case groups_group gs et of None \<Rightarrow> [] | Some g \<Rightarrow> rg_rows g)"

text \<open>
  Groups are well-formed when there is one per entity type, its rows are of that type and
  satisfy the invariant of row groups, and its flag is the one of the schema.
\<close>

definition groups_inv :: "(entity_type \<Rightarrow> bool) \<Rightarrow> 'd row_groups \<Rightarrow> bool" where
  "groups_inv is_immutable gs \<longleftrightarrow> distinct (map rg_entity_type gs) \<and>
     (\<forall>g \<in> set gs. rows_inv (rg_rows g) \<and> rg_immutable g = is_immutable (rg_entity_type g) \<and>
        (\<forall>m \<in> set (rg_rows g). key_type (emod_key m) = rg_entity_type g))"

lemma find_index_Some:
  "find_index P xs = Some i \<Longrightarrow> i < length xs \<and> P (xs ! i) \<and> find P xs = Some (xs ! i)"
  by (induction xs arbitrary: i) (auto split: if_splits)

lemma find_index_None: "find_index P xs = None \<longleftrightarrow> find P xs = None"
  by (induction xs) auto

lemma groups_inv_Nil [simp]: "groups_inv is_immutable []"
  by (simp add: groups_inv_def)

lemma rows_of_Nil [simp]: "rows_of [] et = []"
  by (simp add: rows_of_def groups_group_def)

lemma groups_group_SomeD: "groups_group gs et = Some g \<Longrightarrow> g \<in> set gs \<and> rg_entity_type g = et"
  by (auto simp: groups_group_def find_Some_iff)

lemma groups_group_unique:
  "distinct (map rg_entity_type gs) \<Longrightarrow> g \<in> set gs \<Longrightarrow> groups_group gs (rg_entity_type g) = Some g"
  unfolding groups_group_def by (induction gs) (auto simp: image_iff)


section \<open>Appending groups\<close>

lemma run_until_None_iff: "run_until f xs s = (None, s') \<longleftrightarrow> fold_res f xs s = Inr s'"
  by (induction xs arbitrary: s) (auto simp: bind_res_def split: sum.splits)

lemma rg_append_mut_None_iff: "rg_append_mut other g = (None, g') \<longleftrightarrow> rg_append other g = Inr g'"
  by (simp add: rg_append_mut_def rg_append_def run_until_None_iff)

text \<open>The group of a type, the empty group if the type has none yet.\<close>

definition group_of :: "(entity_type \<Rightarrow> bool) \<Rightarrow> 'd row_groups \<Rightarrow> entity_type \<Rightarrow> 'd row_group" where
  "group_of is_immutable gs et =
     (case groups_group gs et of Some g \<Rightarrow> g | None \<Rightarrow> row_group_new et (is_immutable et))"

lemma group_of_rows: "rg_rows (group_of im gs et) = rows_of gs et"
  by (simp add: group_of_def rows_of_def row_group_new_def split: option.splits)

lemma group_of_type: "rg_entity_type (group_of im gs et) = et"
  by (auto simp: group_of_def row_group_new_def dest: groups_group_SomeD split: option.splits)

lemma find_update_same:
  assumes "i < length gs" and "\<And>j. j < i \<Longrightarrow> \<not> P (gs ! j)" and "P g"
  shows "find P (gs[i := g]) = Some g"
  using assms
proof (induction gs arbitrary: i)
  case (Cons a gs)
  show ?case
  proof (cases i)
    case (Suc j)
    with Cons.prems have "\<not> P a" by fastforce
    moreover have "find P (gs[j := g]) = Some g"
      using Cons.prems Suc by (intro Cons.IH) fastforce+
    ultimately show ?thesis using Suc by simp
  qed (use Cons.prems in simp)
qed simp

lemma find_update_other:
  assumes "i < length gs" and "\<not> P (gs ! i)" and "\<not> P g"
  shows "find P (gs[i := g]) = find P gs"
  using assms by (induction gs arbitrary: i) (auto simp: nth_Cons split: nat.splits)

lemma rows_of_absent: "et \<notin> rg_entity_type ` set gs \<Longrightarrow> rows_of gs et = []"
  by (auto simp: rows_of_def dest!: groups_group_SomeD split: option.splits)

text \<open>What \<open>group_entry\<close> returns: groups that say the same, and where the group is.\<close>

lemma group_entry_facts:
  assumes "group_entry im et gs = (gs1, pos)" and "distinct (map rg_entity_type gs)"
  shows "pos < length gs1" and "gs1 ! pos = group_of im gs et" and "distinct (map rg_entity_type gs1)"
    and "set gs1 \<subseteq> set gs \<union> {group_of im gs et}" and "group_of im gs1 = group_of im gs"
proof -
  have *: "pos < length gs1 \<and> gs1 ! pos = group_of im gs et \<and> distinct (map rg_entity_type gs1)
     \<and> set gs1 \<subseteq> set gs \<union> {group_of im gs et} \<and> group_of im gs1 = group_of im gs"
  proof (cases "find_index (\<lambda>g. rg_entity_type g = et) gs")
    case None
    then have n: "groups_group gs et = None" by (simp add: groups_group_def find_index_None)
    with None assms(1) have e: "gs1 = gs @ [group_of im gs et]" "pos = length gs"
      by (simp_all add: group_entry_def group_of_def)
    have fresh: "\<forall>g \<in> set gs. rg_entity_type g \<noteq> et"
      using n by (simp add: groups_group_def find_None_iff)
    have "group_of im gs1 x = group_of im gs x" for x
      unfolding e by (cases "x = et")
        (use n in \<open>auto simp: group_of_def groups_group_def find_append row_group_new_def split: option.splits\<close>)
    then show ?thesis using e fresh assms(2) group_of_type[of im gs et] by auto
  next
    case (Some i)
    with find_index_Some[OF Some] assms show ?thesis
      by (auto simp: group_entry_def group_of_def groups_group_def)
  qed
  then show "pos < length gs1" "gs1 ! pos = group_of im gs et" "distinct (map rg_entity_type gs1)"
    "set gs1 \<subseteq> set gs \<union> {group_of im gs et}" "group_of im gs1 = group_of im gs" by auto
qed

lemma group_of_update:
  assumes "pos < length gs1" and "distinct (map rg_entity_type gs1)"
    and "rg_entity_type g = rg_entity_type (gs1 ! pos)"
  shows "group_of im (gs1[pos := g]) = (group_of im gs1)(rg_entity_type g := g)"
    and "distinct (map rg_entity_type (gs1[pos := g]))"
proof -
  have m: "map rg_entity_type (gs1[pos := g]) = map rg_entity_type gs1"
    by (simp add: map_update assms(1,3) list_update_same_conv)
  then show "distinct (map rg_entity_type (gs1[pos := g]))" using assms(2) by simp
  have "groups_group (gs1[pos := g]) et =
      (if et = rg_entity_type g then Some g else groups_group gs1 et)" for et
  proof (cases "et = rg_entity_type g")
    case True
    have "rg_entity_type (gs1 ! j) \<noteq> rg_entity_type (gs1 ! pos)" if "j < pos" for j
      using that assms(1,2) by (auto simp: distinct_conv_nth)
    then show ?thesis using True assms(1,3)
      unfolding groups_group_def by (auto intro!: find_update_same)
  next
    case False
    then show ?thesis using assms(1,3) unfolding groups_group_def
      by (auto intro!: find_update_other)
  qed
  then show "group_of im (gs1[pos := g]) = (group_of im gs1)(rg_entity_type g := g)"
    by (intro ext) (simp add: group_of_def)
qed

text \<open>One step of the loop of \<open>RowGroups::append\<close>, on success.\<close>

lemma groups_append_step:
  assumes "groups_append im (other # others) gs = (None, gs')" and "distinct (map rg_entity_type gs)"
  obtains gs2 g where "rg_append other (group_of im gs (rg_entity_type other)) = Inr g"
    and "group_of im gs2 = (group_of im gs)(rg_entity_type other := g)"
    and "distinct (map rg_entity_type gs2)" and "groups_append im others gs2 = (None, gs')"
proof -
  obtain gs1 pos where e: "group_entry im (rg_entity_type other) gs = (gs1, pos)" by fastforce
  note f = group_entry_facts[OF e assms(2)]
  obtain err g where g: "rg_append_mut other (gs1 ! pos) = (err, g)" by fastforce
  from assms(1) e g have "err = None" and rest: "groups_append im others (gs1[pos := g]) = (None, gs')"
    by (auto simp: Let_def split: option.splits)
  with g have a: "rg_append other (gs1 ! pos) = Inr g" by (simp add: rg_append_mut_None_iff)
  have fr: "rg_entity_type g = rg_entity_type (gs1 ! pos)" 
  proof -
    from a have "fold_res append_row (rg_rows other) (gs1 ! pos) = Inr g"
      by (simp add: rg_append_def split: if_splits)
    then show ?thesis
      by (rule fold_res_invariant[where P = "\<lambda>x. rg_entity_type x = rg_entity_type (gs1 ! pos)"])
        (auto dest: append_row_frame(1))
  qed
  then have t: "rg_entity_type g = rg_entity_type other" using f(2) by (simp add: group_of_type)
  show ?thesis
    using that[of g "gs1[pos := g]"] a f group_of_update(1)[OF f(1,3) fr, of im]
      group_of_update(2)[OF f(1,3) fr] rest t by simp
qed

lemma groups_append_rows:
  assumes "groups_append im others gs = (None, gs')" and "distinct (map rg_entity_type gs)"
    and "distinct (map rg_entity_type others)"
  shows "distinct (map rg_entity_type gs') \<and>
    fold_res append_row (rows_of others et) (group_of im gs et) = Inr (group_of im gs' et)"
  using assms
proof (induction others arbitrary: gs)
  case Nil
  then show ?case by simp
next
  case (Cons other others)
  obtain gs2 g where g: "rg_append other (group_of im gs (rg_entity_type other)) = Inr g"
    "group_of im gs2 = (group_of im gs)(rg_entity_type other := g)"
    "distinct (map rg_entity_type gs2)" "groups_append im others gs2 = (None, gs')"
    using groups_append_step[OF Cons.prems(1,2)] by blast
  have IH: "distinct (map rg_entity_type gs') \<and>
    fold_res append_row (rows_of others et) (group_of im gs2 et) = Inr (group_of im gs' et)"
    using Cons.IH[OF g(4,3)] Cons.prems(3) by simp
  show ?case
  proof (cases "et = rg_entity_type other")
    case True
    with Cons.prems(3) have "rows_of others et = []" by (simp add: rows_of_absent)
    then show ?thesis using IH g(1,2) True
      by (simp add: rows_of_def groups_group_def rg_append_def split: if_splits)
  next
    case False
    then show ?thesis using IH g(2) by (simp add: rows_of_def groups_group_def)
  qed
qed


text \<open>No types appear from nowhere.\<close>

lemma groups_append_types:
  assumes "groups_append im others gs = (None, gs')" and "distinct (map rg_entity_type gs)"
  shows "rg_entity_type ` set gs' \<subseteq> rg_entity_type ` set gs \<union> rg_entity_type ` set others"
  using assms
proof (induction others arbitrary: gs)
  case Nil
  then show ?case by simp
next
  case (Cons other others)
  obtain gs1 pos where e: "group_entry im (rg_entity_type other) gs = (gs1, pos)" by fastforce
  note f = group_entry_facts[OF e Cons.prems(2)]
  obtain err g where g: "rg_append_mut other (gs1 ! pos) = (err, g)" by fastforce
  from Cons.prems(1) e g have rest: "groups_append im others (gs1[pos := g]) = (None, gs')" and "err = None"
    by (auto simp: Let_def split: option.splits)
  with g have "fold_res append_row (rg_rows other) (gs1 ! pos) = Inr g"
    by (simp add: rg_append_mut_None_iff rg_append_def split: if_splits)
  then have "rg_entity_type g = rg_entity_type (gs1 ! pos)"
    by (rule fold_res_invariant[where P = "\<lambda>x. rg_entity_type x = rg_entity_type (gs1 ! pos)"])
      (auto dest: append_row_frame(1))
  note u = group_of_update(2)[OF f(1,3) this]
  have "rg_entity_type ` set (gs1[pos := g]) \<subseteq> rg_entity_type ` set gs \<union> {rg_entity_type other}"
    using f(1,2,4) set_update_subset_insert[of gs1 pos g] \<open>rg_entity_type g = rg_entity_type (gs1 ! pos)\<close>
      group_of_type[of im gs "rg_entity_type other"] by fastforce
  then have "rg_entity_type ` set gs' \<subseteq>
      (rg_entity_type ` set gs \<union> {rg_entity_type other}) \<union> rg_entity_type ` set others"
    by (rule order_trans[OF Cons.IH[OF rest u] Un_mono[OF _ order_refl]])
  then show ?case by (simp add: insert_commute Un_insert_right)
qed

section \<open>Appending batches\<close>

text \<open>The type of a row of a group is the group's, so a lookup never mixes types.\<close>

lemma groups_inv_rows:
  assumes "groups_inv im gs"
  shows "rows_inv (rows_of gs et)" and "\<forall>m \<in> set (rows_of gs et). key_type (emod_key m) = et"
    and "rg_immutable (group_of im gs et) = im et"
  using assms groups_group_SomeD[of gs et]
  by (cases "groups_group gs et"; force simp: groups_inv_def rows_of_def group_of_def row_group_new_def)+

lemma groups_invI:
  assumes "distinct (map rg_entity_type gs)"
    and "\<And>et. rows_inv (rows_of gs et) \<and> rg_immutable (group_of im gs et) = im et
           \<and> (\<forall>m \<in> set (rows_of gs et). key_type (emod_key m) = et)"
  shows "groups_inv im gs"
  unfolding groups_inv_def
proof (intro conjI ballI assms(1))
  fix g assume "g \<in> set gs"
  with groups_group_unique[OF assms(1)] have "groups_group gs (rg_entity_type g) = Some g" .
  then have e: "rows_of gs (rg_entity_type g) = rg_rows g" "group_of im gs (rg_entity_type g) = g"
    by (simp_all add: rows_of_def group_of_def)
  show "rows_inv (rg_rows g)" "rg_immutable g = im (rg_entity_type g)"
    using assms(2)[of "rg_entity_type g"] by (simp_all add: e)
  fix m assume "m \<in> set (rg_rows g)"
  then show "key_type (emod_key m) = rg_entity_type g"
    using assms(2)[of "rg_entity_type g"] by (simp add: e)
qed

text \<open>The database, one table per entity type, and the meaning of a batch on it.\<close>

type_synonym 'd db = "entity_type \<Rightarrow> 'd table"

definition exec_groups :: "'d row_groups \<Rightarrow> 'd db \<Rightarrow> 'd db \<Rightarrow> bool" where
  "exec_groups gs db db' \<longleftrightarrow> (\<forall>et. exec_mods (rows_of gs et) (db et) = Inr (db' et))"

text \<open>
  The blocks of a batch: everything in it starts and ends between its first block and its block
  pointer.
\<close>

definition row_between :: "block_number \<Rightarrow> block_number \<Rightarrow> 'd entity_modification \<Rightarrow> bool" where
  "row_between lo hi m \<longleftrightarrow> lo \<le> emod_block m \<and> emod_block m \<le> hi
     \<and> (\<forall>e. emod_end m = Some e \<longrightarrow> lo \<le> e \<and> e \<le> hi)"

definition batch_inv :: "(entity_type \<Rightarrow> bool) \<Rightarrow> ('d, 'ds, 'e) batch \<Rightarrow> bool" where
  "batch_inv is_immutable b \<longleftrightarrow> groups_inv is_immutable (b_mods b)
     \<and> b_first_block b \<le> number (b_block_ptr b)
     \<and> (\<forall>et. \<forall>m \<in> set (rows_of (b_mods b) et).
          row_between (b_first_block b) (number (b_block_ptr b)) m)"

lemma row_between_mono:
  "row_between lo hi m \<Longrightarrow> lo' \<le> lo \<Longrightarrow> hi \<le> hi' \<Longrightarrow> row_between lo' hi' m"
  by (force simp: row_between_def)

lemma row_between_in_order:
  assumes "\<forall>m \<in> set xs. row_between lo hi m" and "\<forall>m \<in> set ys. row_between lo' hi' m" and "hi < lo'"
  shows "in_order xs ys"
  using assms by (force simp: in_order_def ended_by_def row_between_def)

text \<open>The blocks and types of the rows after appending come from the two lists.\<close>

lemma append_row_between:
  assumes "append_row row g = Inr g'" and "\<forall>m \<in> set (rg_rows g). row_between lo hi m"
    and "row_between lo hi row"
  shows "\<forall>m \<in> set (rg_rows g'). row_between lo hi m"
proof
  fix m assume "m \<in> set (rg_rows g')"
  from append_row_rows_from[OF assms(1) this] show "row_between lo hi m"
    using assms(2,3) unfolding row_between_def by auto
qed

lemma append_rows_between:
  assumes "fold_res append_row rows g = Inr g'" and "\<forall>m \<in> set (rg_rows g). row_between lo hi m"
    and "\<forall>m \<in> set rows. row_between lo hi m"
  shows "\<forall>m \<in> set (rg_rows g'). row_between lo hi m"
  using assms(1,2)
  by (rule fold_res_invariant[where P = "\<lambda>g. \<forall>m \<in> set (rg_rows g). row_between lo hi m"])
     (use assms(3) append_row_between in blast)

lemma append_rows_keys:
  assumes "fold_res append_row rows g = Inr g'" and "\<forall>m \<in> set (rg_rows g). P (emod_key m)"
    and "\<forall>m \<in> set rows. P (emod_key m)"
  shows "\<forall>m \<in> set (rg_rows g'). P (emod_key m)"
  using assms(1,2)
proof (rule fold_res_invariant[where P = "\<lambda>g. \<forall>m \<in> set (rg_rows g). P (emod_key m)"])
  fix x and s s' :: "'a row_group"
  assume "x \<in> set rows" "\<forall>m \<in> set (rg_rows s). P (emod_key m)" "append_row x s = Inr s'"
  then show "\<forall>m \<in> set (rg_rows s'). P (emod_key m)"
    using append_row_rows_from[of x s s'] assms(3) by fastforce
qed

lemma append_rows_frame:
  assumes "fold_res append_row rows g = Inr g'"
  shows "rg_entity_type g' = rg_entity_type g \<and> rg_immutable g' = rg_immutable g"
  using assms
  by (rule fold_res_invariant[where P = "\<lambda>x. rg_entity_type x = rg_entity_type g
        \<and> rg_immutable x = rg_immutable g"]) (auto dest: append_row_frame)

text \<open>
  Appending one batch's groups to another's: the result is well-formed, stays between the
  blocks, and writing it is writing one and then the other.
\<close>

lemma groups_append_correct:
  assumes a: "groups_append im others gs = (None, gs')" and inv: "groups_inv im gs" "groups_inv im others"
    and b: "\<And>et. \<forall>m \<in> set (rows_of gs et). row_between lo hi m"
           "\<And>et. \<forall>m \<in> set (rows_of others et). row_between lo' hi' m"
    and o: "hi < lo'" "lo \<le> hi" "lo' \<le> hi'"
    and e: "exec_groups gs db db1" "exec_groups others db1 db2"
    and im: "\<And>et. rows_of gs et \<noteq> [] \<or> rows_of others et \<noteq> [] \<Longrightarrow> t_immutable (db et) = im et"
  shows "groups_inv im gs'" and "exec_groups gs' db db2"
    and "\<And>et. \<forall>m \<in> set (rows_of gs' et). row_between lo hi' m"
proof -
  from inv have d: "distinct (map rg_entity_type gs)" "distinct (map rg_entity_type others)"
    by (simp_all add: groups_inv_def)
  have per: "rows_inv (rows_of gs' et) \<and> exec_mods (rows_of gs' et) (db et) = Inr (db2 et)
     \<and> rg_immutable (group_of im gs' et) = im et
     \<and> (\<forall>m \<in> set (rows_of gs' et). key_type (emod_key m) = et)
     \<and> (\<forall>m \<in> set (rows_of gs' et). row_between lo hi' m)" for et
  proof -
    have f: "fold_res append_row (rows_of others et) (group_of im gs et) = Inr (group_of im gs' et)"
      using groups_append_rows[OF a d] by blast
    have x: "exec_mods (rg_rows (group_of im gs et) @ rows_of others et) (db et) = Inr (db2 et)"
      using e by (simp add: exec_groups_def fold_res_append group_of_rows)
    have "rows_inv (rg_rows (group_of im gs' et))
        \<and> exec_mods (rg_rows (group_of im gs' et)) (db et) = Inr (db2 et)"
    proof (cases "rows_of gs et = [] \<and> rows_of others et = []")
      case True
      then have "group_of im gs' et = group_of im gs et" using f by simp
      then have "rows_of gs' et = []" using True group_of_rows by metis
      then show ?thesis using x True by (simp add: group_of_rows)
    next
      case False
      then show ?thesis
        using append_rows_correct[OF f _ _ _ _ x] groups_inv_rows[OF inv(1)] groups_inv_rows[OF inv(2)]
          row_between_in_order[OF b(1,2) o(1)] im
        by (simp add: group_of_rows)
    qed
    moreover have "\<forall>m \<in> set (rg_rows (group_of im gs' et)). row_between lo hi' m"
    proof (rule append_rows_between[OF f])
      show "\<forall>m \<in> set (rg_rows (group_of im gs et)). row_between lo hi' m"
        unfolding group_of_rows using b(1) o by (blast intro: row_between_mono less_imp_le order_trans)
      show "\<forall>m \<in> set (rows_of others et). row_between lo hi' m"
        using b(2) o row_between_mono by (meson dual_order.trans less_imp_le order_refl)
    qed
    moreover have "\<forall>m \<in> set (rg_rows (group_of im gs' et)). key_type (emod_key m) = et"
      using append_rows_keys[OF f, of "\<lambda>k. key_type k = et"] groups_inv_rows(2)[OF inv(1)]
        groups_inv_rows(2)[OF inv(2)] by (simp add: group_of_rows)
    moreover have "rg_immutable (group_of im gs' et) = im et"
      using append_rows_frame[OF f] groups_inv_rows(3)[OF inv(1)] by simp
    ultimately show ?thesis by (simp add: group_of_rows)
  qed
  show "groups_inv im gs'"
    using per groups_append_rows[OF a d] by (intro groups_invI) auto
  show "exec_groups gs' db db2" using per by (simp add: exec_groups_def)
  show "\<forall>m \<in> set (rows_of gs' et). row_between lo hi' m" for et using per by blast
qed


text \<open>A batch and what became of the append: without an error the batch is well-formed again.\<close>

lemma batch_append_None:
  assumes "batch_append im weigh other self = (None, self')"
  shows "number (b_block_ptr self) < number (b_block_ptr other)"
    and "groups_append im (b_mods other) (b_mods self) = (None, b_mods self')"
    and "b_block_ptr self' = b_block_ptr other" and "b_first_block self' = b_first_block self"
    and "b_error self' = b_error self"
    and "b_data_sources self' = b_data_sources self @ b_data_sources other"
    and "b_offchain_to_remove self' = b_offchain_to_remove self @ b_offchain_to_remove other"
    and "b_deterministic_errors self' = b_deterministic_errors self @ b_deterministic_errors other"
    and "b_firehose_cursor self' = b_firehose_cursor other"
    and "b_block_times self' = b_block_times self @ b_block_times other"
    and "b_is_non_fatal_errors_active self' = b_is_non_fatal_errors_active self"
  using assms
  by (auto simp: batch_append_def append_inner_def batch_weigh_def Let_def
      split: prod.splits option.splits if_splits)

lemma batch_append_correct:
  assumes "batch_append im weigh other self = (None, self')"
    and "batch_inv im self" and "batch_inv im other" and "number (b_block_ptr self) < b_first_block other"
    and "exec_groups (b_mods self) db db1" and "exec_groups (b_mods other) db1 db2"
    and "\<And>et. rows_of (b_mods self) et \<noteq> [] \<or> rows_of (b_mods other) et \<noteq> []
           \<Longrightarrow> t_immutable (db et) = im et"
  shows "batch_inv im self'" and "exec_groups (b_mods self') db db2"
proof -
  note f = batch_append_None[OF assms(1)]
  from assms(2,3) have i: "groups_inv im (b_mods self)" "groups_inv im (b_mods other)"
    and le: "b_first_block self \<le> number (b_block_ptr self)" "b_first_block other \<le> number (b_block_ptr other)"
    and bt: "\<And>et. \<forall>m \<in> set (rows_of (b_mods self) et). row_between (b_first_block self) (number (b_block_ptr self)) m"
      "\<And>et. \<forall>m \<in> set (rows_of (b_mods other) et). row_between (b_first_block other) (number (b_block_ptr other)) m"
    by (simp_all add: batch_inv_def)
  note c = groups_append_correct[OF f(2) i bt assms(4) le assms(5,6,7)]
  from c(2) show "exec_groups (b_mods self') db db2" .
  show "batch_inv im self'"
    using c(1,3) le assms(4) by (simp add: batch_inv_def f)
qed

text \<open>An append that fails leaves its error in the batch, which \<open>Batch\<close> users check.\<close>

lemma batch_append_Some:
  "batch_append im weigh other self = (Some e, self') \<Longrightarrow> b_error self' = Some e"
  by (auto simp: batch_append_def batch_weigh_def split: prod.splits option.splits)

section \<open>A batch for one block\<close>

lemma distinct_map_sorted_wrt: "distinct (map f xs) \<longleftrightarrow> sorted_wrt (\<lambda>x y. f x \<noteq> f y) xs"
  by (induction xs) auto

lemma groups_push_step:
  assumes "groups_push im block m gs = Inr gs'" and "distinct (map rg_entity_type gs)"
  obtains g where "push m block (group_of im gs (key_type (emod_key m))) = Inr g"
    and "group_of im gs' = (group_of im gs)(key_type (emod_key m) := g)"
    and "distinct (map rg_entity_type gs')"
proof -
  obtain gs1 pos where e: "group_entry im (key_type (emod_key m)) gs = (gs1, pos)" by fastforce
  note f = group_entry_facts[OF e assms(2)]
  from assms(1) e obtain g where g: "push m block (gs1 ! pos) = Inr g" "gs' = gs1[pos := g]"
    by (auto simp: groups_push_def bind_res_Inr_iff)
  have "rg_entity_type g = rg_entity_type (gs1 ! pos)"
    using g(1) append_row_frame(1) by (fastforce simp: push_def split: list.splits if_splits)
  note u = group_of_update(1)[OF f(1,3) this, of im] group_of_update(2)[OF f(1,3) this]
  show ?thesis using that[of g] g f(2,5) u
    by (metis group_of_type \<open>rg_entity_type g = rg_entity_type (gs1 ! pos)\<close>)
qed

text \<open>
  The modifications of one block as the host produces them: at that block, not ended, one per
  entity, and nothing but inserts for immutable types.
\<close>

definition block_mods :: "(entity_type \<Rightarrow> bool) \<Rightarrow> block_number \<Rightarrow> 'd entity_modification list \<Rightarrow> bool" where
  "block_mods is_immutable block ms \<longleftrightarrow> block \<le> BLOCK_NUMBER_MAX \<and>
     distinct (map (\<lambda>m. (key_type (emod_key m), emod_id m)) ms) \<and>
     (\<forall>m \<in> set ms. emod_block m = block \<and> (is_write m \<longrightarrow> emod_end m = None)
        \<and> (is_immutable (key_type (emod_key m)) \<longrightarrow> creates_entity m))"

lemma append_row_fresh:
  assumes "\<forall>x \<in> set (rg_rows g). emod_id x \<noteq> emod_id m" and "rg_immutable g \<longrightarrow> creates_entity m"
  shows "append_row m g = Inr (rg_push_row m g)"
proof -
  have "prev_row_mut (emod_id m) g = None"
    using assms(1) by (simp add: prev_row_mut_def rfind_index_None_iff)
  then show ?thesis using assms(2) by (cases m) (auto simp: append_row_def)
qed

lemma push_fresh:
  assumes "\<forall>x \<in> set (rg_rows g). emod_id x \<noteq> emod_id m \<and> emod_block x \<le> block"
    and "rg_immutable g \<longrightarrow> creates_entity m"
  shows "push m block g = Inr (rg_push_row m g)"
  using append_row_fresh[of g m] assms by (auto simp: push_def split: list.splits)

lemma groups_push_all:
  assumes "block_mods im block ms" and "distinct (map rg_entity_type gs)"
    and "\<And>et. rg_immutable (group_of im gs et) = im et"
    and "\<And>et m. m \<in> set ms \<Longrightarrow> \<forall>x \<in> set (rows_of gs (key_type (emod_key m))).
           emod_id x \<noteq> emod_id m \<and> emod_block x \<le> block"
  shows "\<exists>gs'. fold_res (groups_push im block) ms gs = Inr gs' \<and> distinct (map rg_entity_type gs')
    \<and> (\<forall>et. rg_immutable (group_of im gs' et) = im et
         \<and> rows_of gs' et = rows_of gs et @ filter (\<lambda>m. key_type (emod_key m) = et) ms)"
  using assms
proof (induction ms arbitrary: gs)
  case Nil
  then show ?case by simp
next
  case (Cons m ms)
  let ?t = "key_type (emod_key m)"
  have p: "push m block (group_of im gs ?t) = Inr (rg_push_row m (group_of im gs ?t))"
    using Cons.prems by (intro push_fresh) (auto simp: group_of_rows block_mods_def)
  obtain gs1 pos where e: "group_entry im ?t gs = (gs1, pos)" by fastforce
  note f = group_entry_facts[OF e Cons.prems(2)]
  have s: "groups_push im block m gs = Inr (gs1[pos := rg_push_row m (group_of im gs ?t)])" (is "_ = Inr ?gs")
    using e p f(2) by (simp add: groups_push_def)
  obtain g where g: "push m block (group_of im gs ?t) = Inr g"
    "group_of im ?gs = (group_of im gs)(?t := g)" "distinct (map rg_entity_type ?gs)"
    using groups_push_step[OF s Cons.prems(2)] by blast
  have gv: "group_of im ?gs = (group_of im gs)(?t := rg_push_row m (group_of im gs ?t))"
  proof -
    have "g = rg_push_row m (group_of im gs ?t)" using g(1) p by simp
    then show ?thesis using g(2) by (simp only:)
  qed
  have r: "rows_of ?gs et = rows_of gs et @ (if et = ?t then [m] else [])" for et
    unfolding group_of_rows[of im, symmetric] gv by (simp add: rg_push_row_def)
  have i: "rg_immutable (group_of im ?gs et) = im et" for et
    unfolding gv using Cons.prems(3) by (simp add: rg_push_row_def)
  have b: "block_mods im block ms" using Cons.prems(1) by (simp add: block_mods_def)
  have n: "\<forall>x \<in> set (rows_of ?gs (key_type (emod_key y))). emod_id x \<noteq> emod_id y \<and> emod_block x \<le> block"
    if y: "y \<in> set ms" for y
  proof -
    have "(?t, emod_id m) \<notin> (\<lambda>m. (key_type (emod_key m), emod_id m)) ` set ms"
      using Cons.prems(1) by (simp add: block_mods_def)
    then have "emod_id m \<noteq> emod_id y" if "key_type (emod_key y) = ?t"
      using imageI[OF y, of "\<lambda>m. (key_type (emod_key m), emod_id m)"] that by auto
    moreover have "emod_block m = block" using Cons.prems(1) by (simp add: block_mods_def)
    ultimately show ?thesis using Cons.prems(4)[of y] y by (auto simp: r)
  qed
  show ?case using Cons.IH[OF b g(3) i n] s r by auto
qed

text \<open>The rows of each type of a fresh batch are the sorted modifications of that type.\<close>

lemma batch_new_correct:
  assumes "block_mods im (number ptr) raw_mods" and "sorts_by_rank sort_mods"
  shows "\<exists>b. batch_new im weigh sort_mods ptr time cursor raw_mods ds errs off nf = Inr b
     \<and> batch_inv im b \<and> b_block_ptr b = ptr \<and> b_first_block b = number ptr \<and> b_error b = None
     \<and> (\<forall>et. rows_of (b_mods b) et = filter (\<lambda>m. key_type (emod_key m) = et) (sort_mods raw_mods))"
proof -
  let ?ms = "sort_mods raw_mods" and ?k = "\<lambda>m. (key_type (emod_key m), emod_id m)"
  have ms: "mset ?ms = mset raw_mods" using assms(2) by (simp add: sorts_by_rank_def)
  have "mset (map ?k ?ms) = mset (map ?k raw_mods)" by (simp only: mset_map ms)
  then have d: "distinct (map ?k ?ms)"
    using assms(1) mset_eq_imp_distinct_iff unfolding block_mods_def by blast
  have set: "set ?ms = set raw_mods" using ms by (rule mset_eq_setD)
  have bm: "block_mods im (number ptr) ?ms"
    using assms(1) d unfolding block_mods_def set by blast
  obtain gs where gs: "fold_res (groups_push im (number ptr)) ?ms [] = Inr gs"
    "distinct (map rg_entity_type gs)" "\<And>et. rg_immutable (group_of im gs et) = im et"
    "\<And>et. rows_of gs et = filter (\<lambda>m. key_type (emod_key m) = et) ?ms"
    using groups_push_all[OF bm, of "[]"]
    by (auto simp: group_of_def groups_group_def row_group_new_def)
  have row: "emod_ok m \<and> row_between (number ptr) (number ptr) m" if "m \<in> set ?ms" for m
    using bm that by (cases m) (force simp: block_mods_def row_between_def)+
  have inv: "rows_inv (rows_of gs et)" for et
  proof -
    have "sorted_wrt (\<lambda>x y. emod_id x \<noteq> emod_id y) (rows_of gs et)"
    proof -
      have "distinct (map ?k (rows_of gs et))" using d by (simp add: gs(4) distinct_map_filter)
      moreover have "map ?k (rows_of gs et) = map (Pair et) (map emod_id (rows_of gs et))"
        by (simp add: gs(4))
      ultimately have "distinct (map emod_id (rows_of gs et))" by (metis distinct_map)
      then show ?thesis by (simp add: distinct_map_sorted_wrt)
    qed
    then have "sorted_wrt folds_into (rows_of gs et)"
      by (rule sorted_wrt_mono_rel[rotated]) (simp add: folds_into_def)
    then show ?thesis using row by (simp add: rows_inv_def gs(4))
  qed
  have "groups_inv im gs"
    using gs inv by (intro groups_invI) auto
  then show ?thesis using gs row
    by (auto simp: batch_new_def batch_weigh_def batch_inv_def Let_def)
qed

end
