(* ===== verification/Rollup.thy ===== *)
theory Rollup
  imports Prelude "HOL-Library.Sublist"
begin

text \<open>
  When aggregations are rolled up: the buckets of \<open>AggregationInterval\<close>
  (\<open>graph/src/schema/input/mod.rs\<close>), \<open>BlockTime::bucket\<close> (\<open>graph/src/blockchain/types.rs\<close>) and
  the loop of \<open>Layout::rollup\<close> (\<open>store/postgres/src/relational.rs\<close>). Times are nanoseconds since
  the epoch. The SQL that fills one bucket of one aggregation is the parameter \<open>ins\<close> (\<open>Rollup::insert\<close>).
\<close>

section \<open>Buckets\<close>

type_synonym block_time = int

datatype aggregation_interval = Hour | Day

fun as_duration :: "aggregation_interval \<Rightarrow> int" where
  "as_duration Hour = 3600 * 1000000000"
| "as_duration Day = 3600 * 24 * 1000000000"

definition timestamp_millis :: "block_time \<Rightarrow> int" where
  "timestamp_millis t = t div 1000000"

definition bucket :: "block_time \<Rightarrow> int \<Rightarrow> nat" where
  "bucket t len = nat (max (timestamp_millis t) 0 div (len div 1000000))"

text \<open>A half-open range of times; \<open>nr as u32\<close> keeps the low 32 bits.\<close>

definition bucket_range :: "aggregation_interval \<Rightarrow> nat \<Rightarrow> block_time \<times> block_time" where
  "bucket_range interval nr =
     (let start = as_duration interval * int (nr mod 2 ^ 32) in (start, start + as_duration interval))"

definition buckets :: "aggregation_interval \<Rightarrow> block_time \<Rightarrow> block_time
    \<Rightarrow> (block_time \<times> block_time) list" where
  "buckets interval from_time to_time =
     map (bucket_range interval)
       [bucket from_time (as_duration interval) ..< bucket to_time (as_duration interval)]"

section \<open>The loop\<close>

record 'r rollup =
  r_interval :: aggregation_interval
  r_query :: 'r

fun rollup_block :: "('r rollup \<Rightarrow> block_time \<times> block_time \<Rightarrow> block_number \<Rightarrow> 's \<Rightarrow> ('e, 's) result)
    \<Rightarrow> block_time \<Rightarrow> block_number \<Rightarrow> block_time \<Rightarrow> 'r rollup list \<Rightarrow> 's \<Rightarrow> ('e, 's) result" where
  "rollup_block ins last_rollup block time [] s = Inr s"
| "rollup_block ins last_rollup block time (r # rs) s =
     (case buckets (r_interval r) last_rollup time of
        [] \<Rightarrow> Inr s
      | b # _ \<Rightarrow> bind_res (ins r b block s) (rollup_block ins last_rollup block time rs))"

fun rollup_blocks :: "('r rollup \<Rightarrow> block_time \<times> block_time \<Rightarrow> block_number \<Rightarrow> 's \<Rightarrow> ('e, 's) result)
    \<Rightarrow> 'r rollup list \<Rightarrow> block_time \<Rightarrow> (block_number \<times> block_time) list \<Rightarrow> 's
    \<Rightarrow> ('e, 's) result" where
  "rollup_blocks ins rollups last_rollup [] s = Inr s"
| "rollup_blocks ins rollups last_rollup ((block, time) # rest) s =
     bind_res (rollup_block ins last_rollup block time rollups s)
       (rollup_blocks ins rollups time rest)"

definition layout_rollup :: "('r rollup \<Rightarrow> block_time \<times> block_time \<Rightarrow> block_number \<Rightarrow> 's \<Rightarrow> ('e, 's) result)
    \<Rightarrow> 'r rollup list \<Rightarrow> block_time option \<Rightarrow> (block_number \<times> block_time) list \<Rightarrow> 's
    \<Rightarrow> ('e, 's) result" where
  "layout_rollup ins rollups last_rollup block_times s =
     (if block_times = [] then Inr s
      else rollup_blocks ins rollups
             (case last_rollup of Some t \<Rightarrow> t | None \<Rightarrow> Min (snd ` set block_times)) block_times s)"

section \<open>What a bucket is\<close>

abbreviation bucket_nr :: "aggregation_interval \<Rightarrow> block_time \<Rightarrow> nat" where
  "bucket_nr i t \<equiv> bucket t (as_duration i)"

lemma bucket_nr_eq: "0 \<le> t \<Longrightarrow> int (bucket_nr i t) = t div as_duration i"
  by (cases i) (simp_all add: bucket_def timestamp_millis_def div_mult2_eq [symmetric] zdiv_zmult2_eq [symmetric])

text \<open>A time from the epoch on lies in the range of its bucket, as long as the number fits.\<close>

lemma bucket_range_contains:
  assumes "0 \<le> t" and "bucket_nr i t < 2 ^ 32"
  shows "fst (bucket_range i (bucket_nr i t)) \<le> t \<and> t < snd (bucket_range i (bucket_nr i t))"
proof -
  have d: "0 < as_duration i" by (cases i) simp_all
  have "bucket_range i (bucket_nr i t) = (as_duration i * (t div as_duration i),
      as_duration i * (t div as_duration i) + as_duration i)"
    using assms by (simp add: bucket_range_def bucket_nr_eq Let_def)
  moreover have "as_duration i * (t div as_duration i) + t mod as_duration i = t" by simp
  moreover have "0 \<le> t mod as_duration i" "t mod as_duration i < as_duration i" using d by simp_all
  ultimately show ?thesis by (simp only: fst_conv snd_conv) linarith
qed

lemma bucket_nr_mono: "t \<le> t' \<Longrightarrow> bucket_nr i t \<le> bucket_nr i t'"
  by (cases i) (auto simp: bucket_def timestamp_millis_def intro!: nat_mono zdiv_mono1 max.mono)

text \<open>Days are made of hours, so the day cannot change when the hour does not.\<close>

lemma day_of_hour: "bucket_nr Day t = bucket_nr Hour t div 24"
proof -
  have "max (timestamp_millis t) 0 div 86400000 = max (timestamp_millis t) 0 div 3600000 div 24"
    by (simp add: zdiv_zmult2_eq [symmetric])
  then show ?thesis by (simp add: bucket_def nat_div_distrib)
qed

lemma buckets_Nil_iff: "buckets i from to = [] \<longleftrightarrow> bucket_nr i to \<le> bucket_nr i from"
  by (auto simp: buckets_def)

lemma buckets_Cons:
  "bucket_nr i from < bucket_nr i to \<Longrightarrow>
     \<exists>bs. buckets i from to = bucket_range i (bucket_nr i from) # bs"
  by (simp add: buckets_def upt_conv_Cons)

section \<open>The schedule\<close>

text \<open>
  Which buckets the loop fills and under which block: for each write, the bucket of the write
  before it if this write is in a later one.
\<close>

fun schedule :: "'r rollup list \<Rightarrow> block_time \<Rightarrow> (block_number \<times> block_time) list
    \<Rightarrow> ('r rollup \<times> nat \<times> block_number) list" where
  "schedule rollups last_rollup [] = []"
| "schedule rollups last_rollup ((block, time) # rest) =
     map (\<lambda>r. (r, bucket_nr (r_interval r) last_rollup, block))
       (filter (\<lambda>r. bucket_nr (r_interval r) last_rollup < bucket_nr (r_interval r) time) rollups)
     @ schedule rollups time rest"

text \<open>The rollups are in the order of \<open>agg_mappings\<close>, shorter intervals first.\<close>

fun interval_rank :: "aggregation_interval \<Rightarrow> nat" where
  "interval_rank Hour = 0"
| "interval_rank Day = 1"

definition by_interval :: "'r rollup list \<Rightarrow> bool" where
  "by_interval rollups \<longleftrightarrow> sorted (map (\<lambda>r. interval_rank (r_interval r)) rollups)"

lemma longer_interval_unchanged:
  assumes "interval_rank i \<le> interval_rank j" and "bucket_nr i to \<le> bucket_nr i from"
  shows "bucket_nr j to \<le> bucket_nr j from"
proof (cases "i = j")
  case False
  with assms have "i = Hour" "j = Day" by (cases i; cases j; simp)+
  then show ?thesis using div_le_mono[of "bucket_nr Hour to" "bucket_nr Hour from" 24] assms(2)
    by (simp only: day_of_hour)
qed (use assms in simp)

lemma rollup_block_schedule:
  assumes "by_interval rs"
  shows "rollup_block ins prev block time rs s =
    fold_res (\<lambda>r. ins r (bucket_range (r_interval r) (bucket_nr (r_interval r) prev)) block)
      (filter (\<lambda>r. bucket_nr (r_interval r) prev < bucket_nr (r_interval r) time) rs) s"
  using assms
proof (induction rs arbitrary: s)
  case Nil
  then show ?case by simp
next
  case (Cons r rs)
  then have sorted: "by_interval rs" by (simp add: by_interval_def)
  show ?case
  proof (cases "bucket_nr (r_interval r) prev < bucket_nr (r_interval r) time")
    case True
    from buckets_Cons[OF True] obtain bs where
      "buckets (r_interval r) prev time =
         bucket_range (r_interval r) (bucket_nr (r_interval r) prev) # bs" by blast
    then show ?thesis using True Cons.IH[OF sorted]
      by (simp add: bind_res_def split: sum.splits)
  next
    case False
    have "\<not> bucket_nr (r_interval x) prev < bucket_nr (r_interval x) time" if "x \<in> set rs" for x
      using longer_interval_unchanged[of "r_interval r" "r_interval x" time prev] Cons.prems that False
      by (auto simp: by_interval_def)
    then have "filter (\<lambda>r. bucket_nr (r_interval r) prev < bucket_nr (r_interval r) time) rs = []"
      by (simp add: filter_empty_conv)
    moreover have "buckets (r_interval r) prev time = []"
      using False by (simp add: buckets_Nil_iff)
    ultimately show ?thesis using False by simp
  qed
qed

lemma rollup_blocks_schedule:
  assumes "by_interval rs"
  shows "rollup_blocks ins rs prev bts s =
    fold_res (\<lambda>(r, nr, block). ins r (bucket_range (r_interval r) nr) block) (schedule rs prev bts) s"
proof (induction bts arbitrary: prev s)
  case Nil
  then show ?case by simp
next
  case (Cons bt bts)
  obtain block time where bt: "bt = (block, time)" by fastforce
  show ?case
    unfolding bt rollup_blocks.simps schedule.simps fold_res_append fold_res_map
      rollup_block_schedule[OF assms] by (simp add: Cons.IH[abs_def] bind_res_def split: sum.splits)
qed

text \<open>
  With times that do not decrease, every bucket that holds a write and ends at or before the last
  write is filled exactly once, and nothing else is.
\<close>

lemma schedule_after:
  "sorted (prev # map snd bts) \<Longrightarrow> (r, nr, b) \<in> set (schedule rs prev bts)
     \<Longrightarrow> bucket_nr (r_interval r) prev \<le> nr"
proof (induction bts arbitrary: prev)
  case (Cons bt bts)
  obtain block time where bt: "bt = (block, time)" by fastforce
  have "bucket_nr (r_interval r) prev \<le> bucket_nr (r_interval r) time"
    using Cons.prems(1) by (simp add: bt bucket_nr_mono)
  moreover have "sorted (time # map snd bts)" using Cons.prems(1) by (simp add: bt)
  ultimately show ?case using Cons.IH[of time] Cons.prems(2) unfolding bt
    by (auto intro: order_trans)
qed simp

lemma schedule_covers:
  assumes "sorted (prev # map snd bts)"
  shows "(\<exists>b. (r, nr, b) \<in> set (schedule rs prev bts)) \<longleftrightarrow> r \<in> set rs \<and>
    (\<exists>w \<in> set (prev # map snd bts). nr = bucket_nr (r_interval r) w \<and>
       nr < bucket_nr (r_interval r) (List.last (prev # map snd bts)))"
  using assms
proof (induction bts arbitrary: prev)
  case Nil
  then show ?case by auto
next
  case (Cons bt bts)
  obtain block time where bt: "bt = (block, time)" by fastforce
  let ?b = "bucket_nr (r_interval r)" and ?stop = "List.last (time # map snd bts)"
  have so: "sorted (time # map snd bts)" "prev \<le> time" using Cons.prems by (simp_all add: bt)
  have "time \<le> ?stop" using so(1) by (cases "map snd bts") (auto)
  then have le: "?b prev \<le> ?b time" "?b time \<le> ?b ?stop" using so(2) bucket_nr_mono by blast+
  have IH: "(\<exists>b. (r, nr, b) \<in> set (schedule rs time bts)) \<longleftrightarrow> r \<in> set rs \<and>
     (\<exists>w \<in> set (time # map snd bts). nr = ?b w \<and> nr < ?b ?stop)"
    using Cons.IH[OF so(1)] .
  have "(\<exists>b. (r, nr, b) \<in> set (schedule rs prev (bt # bts))) \<longleftrightarrow>
      r \<in> set rs \<and> nr = ?b prev \<and> ?b prev < ?b time \<or> (\<exists>b. (r, nr, b) \<in> set (schedule rs time bts))"
    by (auto simp: bt)
  also have "\<dots> \<longleftrightarrow> r \<in> set rs \<and>
     (\<exists>w \<in> set (prev # time # map snd bts). nr = ?b w \<and> nr < ?b ?stop)"
    unfolding IH using le by (auto simp del: last.simps)
  finally show ?case by (simp add: bt)
qed

lemma schedule_distinct:
  assumes "distinct rs" and "sorted (prev # map snd bts)"
  shows "distinct (map (\<lambda>(r, nr, b). (r, nr)) (schedule rs prev bts))"
  using assms(2)
proof (induction bts arbitrary: prev)
  case Nil
  then show ?case by simp
next
  case (Cons bt bts)
  obtain block time where bt: "bt = (block, time)" by fastforce
  have so: "sorted (time # map snd bts)" using Cons.prems by (simp add: bt)
  let ?now = "filter (\<lambda>r. bucket_nr (r_interval r) prev < bucket_nr (r_interval r) time) rs"
  have "distinct (map (\<lambda>r. (r, bucket_nr (r_interval r) prev)) ?now)"
    using assms(1) by (auto simp: distinct_map intro!: inj_onI)
  moreover have "(r, bucket_nr (r_interval r) prev) \<notin> (\<lambda>(r, nr, b). (r, nr)) ` set (schedule rs time bts)"
    if "r \<in> set ?now" for r
    using schedule_after[OF so, of r "bucket_nr (r_interval r) prev"] that by force
  ultimately show ?case using Cons.IH[OF so]
    unfolding bt by (auto simp: comp_def simp del: as_duration.simps) force
qed

end
