(* ===== verification/Deployment_Store.thy ===== *)
theory Deployment_Store
  imports Batch Rollup
begin

text \<open>
  \<open>store/postgres/src/deployment_store.rs\<close> with the statements it runs in
  \<open>deployment.rs\<close> (head pointer, entity count, health), \<open>dynds/private.rs\<close> (dynamic data
  sources) and \<open>relational.rs\<close> (all tables of a layout): what one database transaction does to a
  deployment. A transaction is a function on the state of the deployment whose result is the new
  state or an error; an error leaves the old state. A \<open>panic!\<close> or \<open>unwrap\<close> of \<open>None\<close> is the
  error \<open>Panic\<close>.
\<close>

section \<open>State\<close>

datatype subgraph_health = Failed | Healthy | Unhealthy

record subgraph_error =
  se_message :: string
  se_handler :: "string option"
  se_block_ptr :: "block_ptr option"
  se_deterministic :: bool

text \<open>A row of \<open>subgraph_error\<close>; its block range is \<open>[er_block, \<infinity>)\<close>.\<close>

record error_row =
  er_id :: string
  er_message :: string
  er_handler :: "string option"
  er_deterministic :: bool
  er_block_hash :: "string option"
  er_block :: block_number

record stored_data_source =
  sd_manifest_idx :: nat
  sd_param :: "nat list option"
  sd_context :: "string option"
  sd_creation_block :: "block_number option"
  sd_done_at :: "int option"
  sd_causality_region :: causality_region

text \<open>
  The row of \<open>subgraph_deployment\<close> (the columns this code reads or writes), the entity tables, the
  table \<open>data_sources$\<close> in the order of \<open>vid\<close> and the rows of \<open>subgraph_error\<close> for the deployment.
  The block range of a data source is \<open>[sd_creation_block, \<infinity>)\<close>, so the row is the stored data
  source itself.
\<close>

record 'd deployment =
  d_latest :: "block_ptr option"
  d_firehose_cursor :: "string option"
  d_entity_count :: int
  d_current_reorg_depth :: int
  d_max_reorg_depth :: int
  d_reorg_count :: int
  d_earliest_block :: block_number
  d_failed :: bool
  d_health :: subgraph_health
  d_fatal_error :: "string option"
  d_non_fatal_errors :: "string list"
  d_graft_block :: "block_number option"
  d_tables :: "(entity_type \<times> 'd table) list"
  d_data_sources :: "stored_data_source list"
  d_errors :: "error_row list"

definition BLOCK_UNVERSIONED :: block_number where
  "BLOCK_UNVERSIONED = - 1"

section \<open>Entity modifications\<close>

definition table_for_entity :: "(entity_type \<times> 'd table) list \<Rightarrow> entity_type
    \<Rightarrow> (store_error, 'd table) result" where
  "table_for_entity ts et = (case map_of ts et of None \<Rightarrow> Inl (UnknownTable et) | Some t \<Rightarrow> Inr t)"

definition put_table :: "entity_type \<Rightarrow> 'd table \<Rightarrow> (entity_type \<times> 'd table) list
    \<Rightarrow> (entity_type \<times> 'd table) list" where
  "put_table et t = map (\<lambda>(et', t'). if et' = et then (et', t) else (et', t'))"

text \<open>
  \<open>ConflictingEntitiesQuery\<close>: \<open>union all\<close> of the rows with one of the group's ids in each of the
  tables, old versions included; \<open>pop\<close> takes the last.
\<close>

definition conflicting_entities :: "(entity_type \<times> 'd table) list \<Rightarrow> entity_type list \<Rightarrow> 'd row_group
    \<Rightarrow> (store_error, (entity_type \<times> id) option) result" where
  "conflicting_entities ts types g =
     bind_res (map_res (\<lambda>et. bind_res (table_for_entity ts et) (\<lambda>t. Inr (et, t))) types)
       (\<lambda>tables.
          let hits = concat (map (\<lambda>(et, t).
                map (\<lambda>v. (et, v_id v)) (filter (\<lambda>v. v_id v \<in> set (rg_ids g)) (t_rows t))) tables)
          in Inr (if hits = [] then None else Some (last hits)))"

definition check_intf_uniqueness :: "(entity_type \<Rightarrow> entity_type list)
    \<Rightarrow> (entity_type \<times> 'd table) list \<Rightarrow> 'd row_group \<Rightarrow> (store_error, unit) result" where
  "check_intf_uniqueness share_interfaces ts g =
     (let types = share_interfaces (rg_entity_type g)
      in if types = [] then Inr ()
         else bind_res (conflicting_entities ts types g)
                (\<lambda>c. case c of None \<Rightarrow> Inr ()
                   | Some (et, i) \<Rightarrow> Inl (ConflictingId (rg_entity_type g) i et)))"

text \<open>One round of the loop of \<open>apply_entity_modifications\<close>: clamp, check, insert.\<close>

definition apply_group :: "(entity_type \<Rightarrow> entity_type list) \<Rightarrow> 'd row_group
    \<Rightarrow> (int \<times> (entity_type \<times> 'd table) list)
    \<Rightarrow> (store_error, int \<times> (entity_type \<times> 'd table) list) result option" where
  "apply_group share_interfaces g st =
     (let (count, ts) = st; et = rg_entity_type g
      in bind_run (Some (table_for_entity ts et))
        (\<lambda>t. bind_run (Some (layout_delete g t))
        (\<lambda>t1. let ts1 = put_table et t1 ts in
           bind_run (Some (check_intf_uniqueness share_interfaces ts1 g))
        (\<lambda>_. bind_run (layout_insert g t1)
        (\<lambda>t2. Some (Inr (count + entity_count_change g, put_table et t2 ts1)))))))"

definition apply_entity_modifications :: "(entity_type \<Rightarrow> entity_type list) \<Rightarrow> 'd row_groups
    \<Rightarrow> (entity_type \<times> 'd table) list
    \<Rightarrow> (store_error, int \<times> (entity_type \<times> 'd table) list) result option" where
  "apply_entity_modifications share_interfaces gs ts =
     fold_run (apply_group share_interfaces) gs (0, ts)"

definition truncate_tables :: "(entity_type \<times> 'd table) list \<Rightarrow> (entity_type \<times> 'd table) list" where
  "truncate_tables = map (\<lambda>(et, t). (et, t\<lparr>t_rows := []\<rparr>))"

definition layout_revert_block :: "block_number \<Rightarrow> (entity_type \<times> 'd table) list
    \<Rightarrow> int \<times> (entity_type \<times> 'd table) list" where
  "layout_revert_block block ts =
     (sum_list (map (\<lambda>(et, t). fst (revert_table block t)) ts),
      map (\<lambda>(et, t). (et, snd (revert_table block t))) ts)"

section \<open>Dynamic data sources\<close>

fun dynds_insert_one :: "block_number \<Rightarrow> stored_data_source \<Rightarrow> stored_data_source list
    \<Rightarrow> (store_error, stored_data_source list) result" where
  "dynds_insert_one block ds rows =
     (if sd_causality_region ds = CR_ONCHAIN \<and> sd_creation_block ds \<noteq> Some block
      then Inl (ConstraintViolation (MismatchingCreationBlocks (sd_creation_block ds) block))
      else Inr (rows @ [ds]))"

definition dynds_insert :: "stored_data_source data_sources \<Rightarrow> stored_data_source list
    \<Rightarrow> (store_error, stored_data_source list) result" where
  "dynds_insert entries =
     fold_res (\<lambda>(ptr, dss). fold_res (dynds_insert_one (number ptr)) dss) entries"

text \<open>\<open>block_range &> int4range(b, null)\<close> is \<open>lower(block_range) >= b\<close>; an open lower bound is not.\<close>

definition dynds_revert :: "block_number \<Rightarrow> stored_data_source list \<Rightarrow> stored_data_source list" where
  "dynds_revert block rows =
     filter (\<lambda>ds. case sd_creation_block ds of None \<Rightarrow> True | Some b \<Rightarrow> b < block) rows"

text \<open>
  The \<open>unreachable!\<close> of \<open>load\<close> for a row whose range has no lower bound is the result \<open>None\<close>.
\<close>

definition dynds_load :: "block_number \<Rightarrow> stored_data_source list \<Rightarrow> stored_data_source list option" where
  "dynds_load block rows =
     (let live = filter (\<lambda>ds. case sd_creation_block ds of None \<Rightarrow> True | Some b \<Rightarrow> b \<le> block) rows
      in if \<exists>ds \<in> set live. sd_creation_block ds = None then None
         else Some (sort_key (\<lambda>ds. the (sd_creation_block ds)) live))"

definition update_offchain_one :: "stored_data_source \<Rightarrow> stored_data_source list
    \<Rightarrow> (store_error, stored_data_source list) result" where
  "update_offchain_one ds rows =
     (if length (filter (\<lambda>r. sd_causality_region r = sd_causality_region ds) rows) > 1
      then Inl (ConstraintViolation RemovesTooManyDataSources)
      else Inr (map (\<lambda>r. if sd_causality_region r = sd_causality_region ds
                         then r\<lparr>sd_done_at := sd_done_at ds\<rparr> else r) rows))"

definition update_offchain_status :: "stored_data_source data_sources \<Rightarrow> stored_data_source list
    \<Rightarrow> (store_error, stored_data_source list) result" where
  "update_offchain_status entries rows =
     (if data_sources_is_empty entries then Inr rows
      else fold_res update_offchain_one (concat (map snd entries)) rows)"

section \<open>Errors and health\<close>

text \<open>The id of an error is its stable hash, the parameter \<open>error_id\<close>.\<close>

definition insert_subgraph_error :: "(subgraph_error \<Rightarrow> string) \<Rightarrow> subgraph_error
    \<Rightarrow> error_row list \<Rightarrow> error_row list" where
  "insert_subgraph_error error_id e rows =
     (if \<exists>r \<in> set rows. er_id r = error_id e then rows
      else rows @ [\<lparr>er_id = error_id e, er_message = se_message e, er_handler = se_handler e,
                    er_deterministic = se_deterministic e,
                    er_block_hash = map_option hash (se_block_ptr e),
                    er_block = (case se_block_ptr e of None \<Rightarrow> BLOCK_UNVERSIONED
                                | Some ptr \<Rightarrow> number ptr)\<rparr>])"

definition has_deterministic_errors :: "'d deployment \<Rightarrow> block_number \<Rightarrow> bool" where
  "has_deterministic_errors d block \<longleftrightarrow>
     list_ex (\<lambda>r. er_deterministic r \<and> er_block r \<le> block) (d_errors d)"

definition update_deployment_status :: "subgraph_health \<Rightarrow> string option \<Rightarrow> string list option
    \<Rightarrow> 'd deployment \<Rightarrow> 'd deployment" where
  "update_deployment_status health fatal non_fatal d =
     d\<lparr>d_failed := (health = Failed), d_health := health, d_fatal_error := fatal,
       d_non_fatal_errors := (case non_fatal of None \<Rightarrow> [] | Some es \<Rightarrow> es)\<rparr>"

definition check_health :: "block_number \<Rightarrow> 'd deployment \<Rightarrow> 'd deployment" where
  "check_health block d =
     (let (new, old) = (if has_deterministic_errors d block then (Unhealthy, Healthy)
                        else (Healthy, Unhealthy))
      in if d_health d = old then d\<lparr>d_health := new\<rparr> else d)"

definition insert_subgraph_errors :: "(subgraph_error \<Rightarrow> string) \<Rightarrow> subgraph_error list
    \<Rightarrow> block_number \<Rightarrow> 'd deployment \<Rightarrow> 'd deployment" where
  "insert_subgraph_errors error_id es latest_block d =
     check_health latest_block (d\<lparr>d_errors := fold (insert_subgraph_error error_id) es (d_errors d)\<rparr>)"

definition update_non_fatal_errors :: "(subgraph_error \<Rightarrow> string) \<Rightarrow> subgraph_health
    \<Rightarrow> subgraph_error list option \<Rightarrow> 'd deployment \<Rightarrow> 'd deployment" where
  "update_non_fatal_errors error_id health es =
     update_deployment_status health None (map_option (map error_id) es)"

definition revert_subgraph_errors :: "block_number \<Rightarrow> 'd deployment \<Rightarrow> 'd deployment" where
  "revert_subgraph_errors reverted_block d =
     (let d1 = d\<lparr>d_errors := filter (\<lambda>r. \<not> er_block r \<ge> reverted_block) (d_errors d)\<rparr>;
          d2 = check_health (reverted_block - 1) d1
      in if d_failed d2 \<and> d_health d2 = Failed
         then d2\<lparr>d_failed := False, d_health := Healthy\<rparr> else d2)"

definition fail_deployment :: "(subgraph_error \<Rightarrow> string) \<Rightarrow> subgraph_error \<Rightarrow> 'd deployment
    \<Rightarrow> 'd deployment" where
  "fail_deployment error_id e d =
     update_deployment_status Failed (Some (error_id e)) None
       (d\<lparr>d_errors := insert_subgraph_error error_id e (d_errors d)\<rparr>)"

definition delete_error :: "string \<Rightarrow> 'd deployment \<Rightarrow> 'd deployment" where
  "delete_error eid d = d\<lparr>d_errors := filter (\<lambda>r. er_id r \<noteq> eid) (d_errors d)\<rparr>"

text \<open>\<open>ErrorDetail::fatal\<close>: the join of the deployment with the error its \<open>fatal_error\<close> names.\<close>

definition fatal_error :: "'d deployment \<Rightarrow> error_row option" where
  "fatal_error d = (case d_fatal_error d of None \<Rightarrow> None
     | Some eid \<Rightarrow> find (\<lambda>r. er_id r = eid) (d_errors d))"

section \<open>The head pointer and the entity count\<close>

definition transact_block :: "block_ptr \<Rightarrow> string option \<Rightarrow> int \<Rightarrow> 'd deployment
    \<Rightarrow> (store_error, block_number \<times> 'd deployment) result" where
  "transact_block ptr cursor delta d =
     (if (case d_latest d of None \<Rightarrow> False | Some from \<Rightarrow> number from \<ge> number ptr)
      then Inl (DuplicateBlockProcessing (number ptr))
      else Inr (d_earliest_block d,
                d\<lparr>d_latest := Some ptr, d_firehose_cursor := cursor,
                  d_entity_count := d_entity_count d + delta, d_current_reorg_depth := 0\<rparr>))"

definition forward_block_ptr :: "block_ptr \<Rightarrow> 'd deployment \<Rightarrow> (store_error, 'd deployment) result" where
  "forward_block_ptr ptr d =
     (case d_latest d of
        Some from \<Rightarrow>
          if number from < number ptr
          then Inr (d\<lparr>d_latest := Some ptr, d_current_reorg_depth := 0\<rparr>)
          else Inl (DuplicateBlockProcessing (number ptr))
      | None \<Rightarrow> Inr (d\<lparr>d_latest := Some ptr, d_current_reorg_depth := 0\<rparr>))"

text \<open>The expressions on the right of a \<open>set\<close> read the old row.\<close>

definition revert_block_ptr :: "block_number \<Rightarrow> block_ptr \<Rightarrow> string option \<Rightarrow> 'd deployment
    \<Rightarrow> (store_error, 'd deployment) result" where
  "revert_block_ptr reorg_threshold ptr cursor d =
     (if d_earliest_block d \<le> number ptr - reorg_threshold
      then Inr (d\<lparr>d_latest := Some ptr, d_firehose_cursor := cursor,
                  d_reorg_count := d_reorg_count d + 1,
                  d_current_reorg_depth := d_current_reorg_depth d + 1,
                  d_max_reorg_depth := max (d_current_reorg_depth d + 1) (d_max_reorg_depth d)\<rparr>)
      else Inl UnknownStoreError)"

definition initialize_block_ptr :: "block_ptr option \<Rightarrow> 'd deployment \<Rightarrow> 'd deployment" where
  "initialize_block_ptr start_block d =
     (if d_latest d = None
      then (case start_block of None \<Rightarrow> d | Some ptr \<Rightarrow> d\<lparr>d_latest := Some ptr\<rparr>) else d)"

definition update_entity_count :: "int \<Rightarrow> 'd deployment \<Rightarrow> 'd deployment" where
  "update_entity_count delta d =
     (if delta = 0 then d else d\<lparr>d_entity_count := d_entity_count d + delta\<rparr>)"

definition clear_entity_count :: "'d deployment \<Rightarrow> 'd deployment" where
  "clear_entity_count d = d\<lparr>d_entity_count := 0\<rparr>"

definition set_earliest_block :: "block_number \<Rightarrow> 'd deployment \<Rightarrow> 'd deployment" where
  "set_earliest_block earliest d =
     (if d_earliest_block d < earliest then d\<lparr>d_earliest_block := earliest\<rparr> else d)"


section \<open>Transactions\<close>

text \<open>
  What a store is configured with: the schema's shared interfaces, the rollups with the SQL that
  runs one of them, the stable hash of errors and the reorg threshold.
\<close>

record ('d, 'r) store_config =
  c_share_interfaces :: "entity_type \<Rightarrow> entity_type list"
  c_rollups :: "'r rollup list"
  c_rollup_insert :: "'r rollup \<Rightarrow> block_time \<times> block_time \<Rightarrow> block_number
     \<Rightarrow> (entity_type \<times> 'd table) list \<Rightarrow> (store_error, (entity_type \<times> 'd table) list) result"
  c_error_id :: "subgraph_error \<Rightarrow> string"
  c_reorg_threshold :: block_number

type_synonym 'd stored_batch = "('d, stored_data_source, subgraph_error) batch"

text \<open>The part of the transaction about errors: two calls guarded by flags of the batch.\<close>

definition transact_errors :: "(subgraph_error \<Rightarrow> string) \<Rightarrow> 'd stored_batch \<Rightarrow> 'd deployment
    \<Rightarrow> 'd deployment" where
  "transact_errors error_id b d =
     (if b_deterministic_errors b = [] then d
      else
        let d1 = insert_subgraph_errors error_id (b_deterministic_errors b) (number (b_block_ptr b)) d
        in if b_is_non_fatal_errors_active b
           then update_non_fatal_errors error_id Unhealthy (Some (b_deterministic_errors b)) d1
           else d1)"

definition transact_block_operations :: "('d, 'r) store_config \<Rightarrow> 'd stored_batch
    \<Rightarrow> block_time option \<Rightarrow> 'd deployment \<Rightarrow> (store_error, block_number \<times> 'd deployment) result option" where
  "transact_block_operations c b last_rollup d =
     bind_run (apply_entity_modifications (c_share_interfaces c) (b_mods b) (d_tables d))
       (\<lambda>(delta, ts).
          Some
            (bind_res (layout_rollup (c_rollup_insert c) (c_rollups c) last_rollup (b_block_times b) ts)
            (\<lambda>ts1. bind_res (dynds_insert (b_data_sources b) (d_data_sources d))
            (\<lambda>dss. bind_res (update_offchain_status (b_offchain_to_remove b) dss)
            (\<lambda>dss1. transact_block (b_block_ptr b) (b_firehose_cursor b) delta
                (transact_errors (c_error_id c) b
                   (d\<lparr>d_tables := ts1, d_data_sources := dss1\<rparr>)))))))"

text \<open>\<open>truncate\<close> selects between emptying the tables and reverting them.\<close>

definition rewind_or_truncate :: "block_number \<Rightarrow> block_ptr \<Rightarrow> string option \<Rightarrow> bool
    \<Rightarrow> 'd deployment \<Rightarrow> (store_error, 'd deployment) result" where
  "rewind_or_truncate reorg_threshold ptr_to cursor truncating d =
     (let block = number ptr_to + 1
      in bind_res (revert_block_ptr reorg_threshold ptr_to cursor d)
        (\<lambda>d1.
          let d2 = (if truncating then clear_entity_count (d1\<lparr>d_tables := truncate_tables (d_tables d1)\<rparr>)
                    else (let (delta, ts) = layout_revert_block block (d_tables d1)
                          in update_entity_count delta (d1\<lparr>d_tables := ts\<rparr>)));
              d3 = d2\<lparr>d_data_sources := dynds_revert block (d_data_sources d2)\<rparr>
          in Inr (revert_subgraph_errors block d3)))"

text \<open>
  In \<open>truncate\<close> and \<open>rewind\<close> the check that the pointer moves backwards builds an error and drops
  it, so the check has no effect; \<open>None \<le> Some n\<close> holds in Rust, and it would be dropped as well.
\<close>

definition store_truncate :: "block_number \<Rightarrow> block_ptr \<Rightarrow> 'd deployment
    \<Rightarrow> (store_error, 'd deployment) result" where
  "store_truncate reorg_threshold ptr_to = rewind_or_truncate reorg_threshold ptr_to None True"

definition rewind :: "block_number \<Rightarrow> block_ptr \<Rightarrow> 'd deployment
    \<Rightarrow> (store_error, 'd deployment) result" where
  "rewind reorg_threshold ptr_to = rewind_or_truncate reorg_threshold ptr_to None False"

definition revert_block_operations :: "block_number \<Rightarrow> block_ptr \<Rightarrow> string option \<Rightarrow> 'd deployment
    \<Rightarrow> (store_error, 'd deployment) result" where
  "revert_block_operations reorg_threshold ptr_to cursor d =
     (case d_latest d of
        None \<Rightarrow> Inl Panic
      | Some head \<Rightarrow>
          if number ptr_to \<ge> number head then Inl Panic
          else if (case d_graft_block d of None \<Rightarrow> False | Some g \<Rightarrow> g > number ptr_to)
          then Inl (ConstraintViolation PastGraftPoint)
          else rewind_or_truncate reorg_threshold ptr_to cursor False d)"

section \<open>Unfailing\<close>

datatype unfail_outcome = Noop | Unfailed

definition unfail_deterministic_error :: "block_number \<Rightarrow> block_ptr \<Rightarrow> block_ptr \<Rightarrow> 'd deployment
    \<Rightarrow> (store_error, unfail_outcome \<times> 'd deployment) result" where
  "unfail_deterministic_error reorg_threshold current_ptr parent_ptr d =
     (case fatal_error d of
        None \<Rightarrow> Inr (Noop, d)
      | Some e \<Rightarrow>
          if \<not> er_deterministic e then Inr (Noop, d)
          else
            let prev_health = (if has_deterministic_errors d (number parent_ptr)
                               then Unhealthy else Healthy)
            in if er_block_hash e = Some (hash current_ptr)
               then bind_res (revert_block_operations reorg_threshold parent_ptr None d)
                      (\<lambda>d1. Inr (Unfailed, update_deployment_status prev_health None None d1))
               else Inr (Noop, d))"

definition unfail_non_deterministic_error :: "block_ptr \<Rightarrow> 'd deployment \<Rightarrow> unfail_outcome \<times> 'd deployment" where
  "unfail_non_deterministic_error current_ptr d =
     (case fatal_error d of
        None \<Rightarrow> (Noop, d)
      | Some e \<Rightarrow>
          if er_deterministic e then (Noop, d)
          else if number current_ptr \<ge> er_block e
          then (Unfailed, delete_error (er_id e) (update_deployment_status Healthy None None d))
          else (Noop, d))"


section \<open>What the modifications do to the tables\<close>

definition db_of :: "(entity_type \<times> 'd table) list \<Rightarrow> 'd db" where
  "db_of ts et = the (map_of ts et)"

lemma map_of_put_table:
  "map_of (put_table et t ts) x = (if x = et then map_option (\<lambda>_. t) (map_of ts et) else map_of ts x)"
  by (induction ts) (auto simp: put_table_def)

lemma put_table_keys [simp]: "map fst (put_table et t ts) = map fst ts"
  by (induction ts) (auto simp: put_table_def)

lemma put_table_put_table [simp]: "put_table et t (put_table et t' ts) = put_table et t ts"
  by (induction ts) (auto simp: put_table_def)

lemma apply_group_correct:
  assumes "map_of ts (rg_entity_type g) = Some t" and "share_interfaces (rg_entity_type g) = []"
    and "rows_inv (rg_rows g)" and "0 < t_chunk_size t" and "exec_mods (rg_rows g) t = Inr t'"
  shows "apply_group share_interfaces g (n, ts) =
    Some (Inr (n + entity_count_change g, put_table (rg_entity_type g) t' ts))"
proof -
  have "write_group g t = Some (Inr t')" using write_group_correct[OF assms(3,4,5)] .
  then obtain t1 where "layout_delete g t = Inr t1" "layout_insert g t1 = Some (Inr t')"
    by (auto simp: write_group_def split: sum.splits)
  then show ?thesis using assms(1,2)
    by (simp add: apply_group_def table_for_entity_def check_intf_uniqueness_def Let_def)
qed

text \<open>
  Writing well-formed groups has the effect of their modifications one after the other, type by
  type, and reports the sum of their count changes.
\<close>

lemma apply_groups_correct:
  assumes "groups_inv im gs" and "\<forall>g \<in> set gs. share_interfaces (rg_entity_type g) = []"
    and "\<forall>g \<in> set gs. rg_entity_type g \<in> fst ` set ts" and "\<forall>(et, t) \<in> set ts. 0 < t_chunk_size t"
    and "exec_groups gs (db_of ts) db'"
  shows "\<exists>ts'. fold_run (apply_group share_interfaces) gs (n, ts)
      = Some (Inr (n + sum_list (map entity_count_change gs), ts'))
    \<and> map fst ts' = map fst ts \<and> (\<forall>et \<in> fst ` set ts. map_of ts' et = Some (db' et))"
  using assms
proof (induction gs arbitrary: n ts)
  case Nil
  then have "map_of ts et = Some (db' et)" if "et \<in> fst ` set ts" for et
    using that by (auto simp: exec_groups_def db_of_def dest!: map_of_SomeD
        simp: map_of_eq_None_iff split: option.splits)
      (metis map_of_eq_None_iff not_None_eq option.sel image_eqI fst_conv)
  then show ?case by simp
next
  case (Cons g gs)
  let ?et = "rg_entity_type g"
  obtain t where t: "map_of ts ?et = Some t"
    using Cons.prems(3) by (metis list.set_intros(1) map_of_eq_None_iff not_None_eq)
  have gi: "rows_inv (rg_rows g)" "groups_inv im gs" "?et \<notin> rg_entity_type ` set gs"
    using Cons.prems(1) by (auto simp: groups_inv_def)
  have rows: "rows_of (g # gs) ?et = rg_rows g" "rows_of gs ?et = []"
    "\<And>et. et \<noteq> ?et \<Longrightarrow> rows_of (g # gs) et = rows_of gs et"
    using rows_of_absent[OF gi(3)] by (simp_all add: rows_of_def groups_group_def)
  have ex: "exec_mods (rg_rows g) t = Inr (db' ?et)"
    using Cons.prems(5) rows(1) t by (metis db_of_def exec_groups_def option.sel)
  have cs: "0 < t_chunk_size t" using Cons.prems(4) map_of_SomeD[OF t] by auto
  let ?ts = "put_table ?et (db' ?et) ts"
  have s: "apply_group share_interfaces g (n, ts) = Some (Inr (n + entity_count_change g, ?ts))"
    using apply_group_correct[of ts g t share_interfaces] t Cons.prems(2) gi(1) cs ex by simp
  have db: "db_of ?ts et = (if et = ?et then db' ?et else db_of ts et)" for et
    using t by (simp add: db_of_def map_of_put_table)
  have e: "exec_groups gs (db_of ?ts) db'"
    unfolding exec_groups_def
  proof
    fix et show "exec_mods (rows_of gs et) (db_of ?ts et) = Inr (db' et)"
      using Cons.prems(5) rows(2) rows(3)[of et] unfolding exec_groups_def db
      by (cases "et = ?et") (simp, metis)
  qed
  have keys: "fst ` set ?ts = fst ` set ts" by (metis list.set_map put_table_keys)
  have c: "\<forall>(et, t) \<in> set ?ts. 0 < t_chunk_size t"
    using Cons.prems(4) exec_mods_chunk_size[OF ex] cs by (auto simp: put_table_def split: if_splits)
  have k: "\<forall>g \<in> set gs. rg_entity_type g \<in> fst ` set ?ts" using Cons.prems(3) keys by simp
  have sh: "\<forall>g \<in> set gs. share_interfaces (rg_entity_type g) = []" using Cons.prems(2) by simp
  obtain ts' where "fold_run (apply_group share_interfaces) gs (n + entity_count_change g, ?ts)
      = Some (Inr (n + entity_count_change g + sum_list (map entity_count_change gs), ts'))"
    "map fst ts' = map fst ?ts" "\<forall>et \<in> fst ` set ?ts. map_of ts' et = Some (db' et)"
    using Cons.IH[OF gi(2) sh k c e, of "n + entity_count_change g"] by blast
  then show ?case using s keys by (auto simp: add.assoc)
qed


section \<open>Reverting a transaction\<close>

definition store_at_head :: "block_number \<Rightarrow> 'd deployment \<Rightarrow> bool" where
  "store_at_head h d \<longleftrightarrow> distinct (map fst (d_tables d)) \<and> (\<forall>(et, t) \<in> set (d_tables d). at_head h t)
     \<and> (\<forall>ds \<in> set (d_data_sources d). \<exists>b. sd_creation_block ds = Some b \<and> b \<le> h)
     \<and> (\<forall>e \<in> set (d_errors d). er_block e \<le> h)"

lemma tables_eq:
  assumes "map fst ts' = map fst ts" and "distinct (map fst ts)"
    and "\<forall>et \<in> fst ` set ts. map_of ts' et = Some (f et)"
  shows "ts' = map (\<lambda>(et, t). (et, f et)) ts"
proof (rule nth_equalityI)
  show l: "length ts' = length (map (\<lambda>(et, t). (et, f et)) ts)" using assms(1) by (metis length_map)
  fix i assume i: "i < length ts'"
  then have i': "i < length ts" using l by simp
  have k: "fst (ts' ! i) = fst (ts ! i)" using assms(1) i i' by (metis nth_map)
  have "map_of ts' (fst (ts' ! i)) = Some (snd (ts' ! i))"
    using assms(1,2) i by (metis map_of_is_SomeI nth_mem prod.collapse)
  moreover have "map_of ts' (fst (ts ! i)) = Some (f (fst (ts ! i)))"
    using assms(3) i' nth_mem by blast
  ultimately have "snd (ts' ! i) = f (fst (ts ! i))" using k by simp
  then show "ts' ! i = map (\<lambda>(et, t). (et, f et)) ts ! i"
    using k i' by (simp add: prod_eq_iff case_prod_beta)
qed

lemma revert_tables:
  assumes "map fst ts' = map fst ts" and "distinct (map fst ts)"
    and "\<forall>et \<in> fst ` set ts. map_of ts' et = Some (db' et)"
    and "exec_groups gs (db_of ts) db'" and "groups_inv im gs" and "\<forall>(et, t) \<in> set ts. at_head h t"
    and "\<And>et. \<forall>m \<in> set (rows_of gs et). h < emod_block m \<and> emod_block m < BLOCK_NUMBER_MAX"
  shows "snd (layout_revert_block (h + 1) ts') = ts"
proof -
  have "snd (revert_table (h + 1) (db' et)) = t" if m: "(et, t) \<in> set ts" for et t
  proof -
    have "db_of ts et = t" using m assms(2) by (simp add: db_of_def)
    then have "exec_mods (rows_of gs et) t = Inr (db' et)"
      using assms(4) by (auto simp: exec_groups_def)
    then show ?thesis
      using revert_exec_mods[of "rows_of gs et" t "db' et" h] groups_inv_rows(1)[OF assms(5)]
        assms(6,7) m by blast
  qed
  then show ?thesis
    unfolding layout_revert_block_def tables_eq[OF assms(1,2,3)]
    by (auto simp: comp_def case_prod_beta intro!: map_idI)
qed

text \<open>Data sources.\<close>

lemma dynds_insert_rows:
  "dynds_insert entries rows = Inr rows' \<Longrightarrow> rows' = rows @ concat (map snd entries)
     \<and> (\<forall>(ptr, dss) \<in> set entries. \<forall>ds \<in> set dss.
          sd_causality_region ds = CR_ONCHAIN \<longrightarrow> sd_creation_block ds = Some (number ptr))"
proof (induction entries arbitrary: rows)
  case Nil
  then show ?case by (simp add: dynds_insert_def)
next
  case (Cons e entries)
  obtain ptr dss where e: "e = (ptr, dss)" by fastforce
  have one: "fold_res (dynds_insert_one b) dss rows = Inr r \<Longrightarrow> r = rows @ dss
     \<and> (\<forall>ds \<in> set dss. sd_causality_region ds = CR_ONCHAIN \<longrightarrow> sd_creation_block ds = Some b)" for b dss rows r
    by (induction dss arbitrary: rows) (fastforce simp: bind_res_Inr_iff split: if_splits)+
  from Cons.prems obtain r where r: "fold_res (dynds_insert_one (number ptr)) dss rows = Inr r"
    "dynds_insert entries r = Inr rows'"
    by (auto simp: dynds_insert_def e bind_res_Inr_iff)
  from Cons.IH[OF r(2)] one[OF r(1)] show ?case by (auto simp: e)
qed

lemma dynds_revert_new:
  assumes "\<forall>ds \<in> set rows. \<exists>b. sd_creation_block ds = Some b \<and> b < n"
    and "\<forall>ds \<in> set new. \<exists>b. sd_creation_block ds = Some b \<and> n \<le> b"
  shows "dynds_revert n (rows @ new) = rows"
  using assms by (induction rows) (auto simp: dynds_revert_def filter_empty_conv split: option.splits)

lemma insert_errors_rows:
  "\<exists>new. fold (insert_subgraph_error error_id) es rows = rows @ new
     \<and> (\<forall>r \<in> set new. \<exists>e \<in> set es. er_block r = (case se_block_ptr e of None \<Rightarrow> BLOCK_UNVERSIONED
            | Some ptr \<Rightarrow> number ptr))"
proof (induction es arbitrary: rows)
  case (Cons e es)
  obtain new where new: "fold (insert_subgraph_error error_id) es (insert_subgraph_error error_id e rows)
      = insert_subgraph_error error_id e rows @ new"
    "\<forall>r \<in> set new. \<exists>e \<in> set es. er_block r = (case se_block_ptr e of None \<Rightarrow> BLOCK_UNVERSIONED
            | Some ptr \<Rightarrow> number ptr)"
    using Cons.IH by blast
  show ?case
  proof (cases "\<exists>r \<in> set rows. er_id r = error_id e")
    case True
    then have "insert_subgraph_error error_id e rows = rows" by (simp add: insert_subgraph_error_def)
    then show ?thesis using new by auto
  next
    case False
    then obtain r where "insert_subgraph_error error_id e rows = rows @ [r]"
      "er_block r = (case se_block_ptr e of None \<Rightarrow> BLOCK_UNVERSIONED | Some ptr \<Rightarrow> number ptr)"
      by (auto simp: insert_subgraph_error_def)
    then show ?thesis using new by auto
  qed
qed simp

lemma transact_errors_frame:
  "d_tables (transact_errors eid b d) = d_tables d \<and> d_data_sources (transact_errors eid b d) = d_data_sources d
     \<and> d_latest (transact_errors eid b d) = d_latest d
     \<and> d_entity_count (transact_errors eid b d) = d_entity_count d
     \<and> d_earliest_block (transact_errors eid b d) = d_earliest_block d
     \<and> d_errors (transact_errors eid b d)
         = fold (insert_subgraph_error eid) (b_deterministic_errors b) (d_errors d)"
  by (simp add: transact_errors_def insert_subgraph_errors_def check_health_def Let_def
      update_non_fatal_errors_def update_deployment_status_def)

lemma check_health_frame:
  "check_health n d = d\<lparr>d_health := d_health (check_health n d)\<rparr>"
  by (simp add: check_health_def Let_def)

lemma revert_subgraph_errors_frame:
  "d_tables (revert_subgraph_errors n d) = d_tables d
     \<and> d_data_sources (revert_subgraph_errors n d) = d_data_sources d
     \<and> d_latest (revert_subgraph_errors n d) = d_latest d
     \<and> d_entity_count (revert_subgraph_errors n d) = d_entity_count d
     \<and> d_firehose_cursor (revert_subgraph_errors n d) = d_firehose_cursor d
     \<and> d_errors (revert_subgraph_errors n d) = filter (\<lambda>r. er_block r < n) (d_errors d)"
  by (simp add: revert_subgraph_errors_def check_health_def Let_def not_le)

text \<open>What a successful transaction has done.\<close>

lemma transact_Inr:
  assumes "transact_block_operations c b last_rollup d = Some (Inr (earliest, d'))"
  obtains delta ts ts1 where
    "apply_entity_modifications (c_share_interfaces c) (b_mods b) (d_tables d) = Some (Inr (delta, ts))"
    "layout_rollup (c_rollup_insert c) (c_rollups c) last_rollup (b_block_times b) ts = Inr ts1"
    "d_tables d' = ts1" "d_latest d' = Some (b_block_ptr b)"
    "case d_latest d of None \<Rightarrow> True | Some from \<Rightarrow> number from < number (b_block_ptr b)"
    "d_entity_count d' = d_entity_count d + delta"
    "\<exists>dss. dynds_insert (b_data_sources b) (d_data_sources d) = Inr dss
       \<and> update_offchain_status (b_offchain_to_remove b) dss = Inr (d_data_sources d')"
    "d_errors d' = fold (insert_subgraph_error (c_error_id c)) (b_deterministic_errors b) (d_errors d)"
    "d_earliest_block d' = d_earliest_block d" "earliest = d_earliest_block d"
  using assms transact_errors_frame[of "c_error_id c" b]
  by (fastforce simp: transact_block_operations_def bind_run_Inr_iff bind_res_Inr_iff transact_block_def
      not_le split: if_splits option.splits)


lemma rewind_Inr:
  assumes "rewind_or_truncate thr ptr cursor False d = Inr d2"
  shows "d_tables d2 = snd (layout_revert_block (number ptr + 1) (d_tables d))
    \<and> d_data_sources d2 = dynds_revert (number ptr + 1) (d_data_sources d)
    \<and> d_errors d2 = filter (\<lambda>r. er_block r < number ptr + 1) (d_errors d)
    \<and> d_latest d2 = Some ptr \<and> d_firehose_cursor d2 = cursor
    \<and> d_entity_count d2 = d_entity_count d + fst (layout_revert_block (number ptr + 1) (d_tables d))
    \<and> d_earliest_block d \<le> number ptr - thr"
proof -
  have u: "d_tables (update_entity_count n x) = d_tables x
      \<and> d_data_sources (update_entity_count n x) = d_data_sources x
      \<and> d_errors (update_entity_count n x) = d_errors x \<and> d_latest (update_entity_count n x) = d_latest x
      \<and> d_firehose_cursor (update_entity_count n x) = d_firehose_cursor x
      \<and> d_entity_count (update_entity_count n x) = d_entity_count x + n" for n and x :: "'a deployment"
    by (simp add: update_entity_count_def)
  show ?thesis using assms
    by (auto simp: rewind_or_truncate_def Let_def revert_block_ptr_def u revert_subgraph_errors_frame
        case_prod_beta split: if_splits)
qed

lemma transact_tables:
  assumes "transact_block_operations c b last_rollup d = Some (Inr (earliest, d'))"
    and "groups_inv im (b_mods b)" and "exec_groups (b_mods b) (db_of (d_tables d)) db'"
    and "\<forall>g \<in> set (b_mods b). c_share_interfaces c (rg_entity_type g) = []"
    and "\<forall>g \<in> set (b_mods b). rg_entity_type g \<in> fst ` set (d_tables d)"
    and "\<forall>(et, t) \<in> set (d_tables d). 0 < t_chunk_size t" and "c_rollups c = []"
  obtains ts' where "d_tables d' = ts'" and "map fst ts' = map fst (d_tables d)"
    and "\<forall>et \<in> fst ` set (d_tables d). map_of ts' et = Some (db' et)"
    and "d_entity_count d' = d_entity_count d + sum_list (map entity_count_change (b_mods b))"
proof -
  obtain delta ts ts1 where f:
    "apply_entity_modifications (c_share_interfaces c) (b_mods b) (d_tables d) = Some (Inr (delta, ts))"
    "layout_rollup (c_rollup_insert c) (c_rollups c) last_rollup (b_block_times b) ts = Inr ts1"
    "d_tables d' = ts1" "d_entity_count d' = d_entity_count d + delta"
    using transact_Inr[OF assms(1)] by metis
  have no_rollups: "rollup_blocks ins [] l bts s = Inr s" for ins l bts and s :: "(entity_type \<times> 'a table) list"
    by (induction bts arbitrary: l) auto
  have ts: "d_tables d' = ts"
    using f(2,3) by (simp add: layout_rollup_def assms(7) no_rollups split: if_splits)
  obtain ts' where ts': "fold_run (apply_group (c_share_interfaces c)) (b_mods b) (0, d_tables d)
      = Some (Inr (0 + sum_list (map entity_count_change (b_mods b)), ts'))"
    "map fst ts' = map fst (d_tables d)"
    "\<forall>et \<in> fst ` set (d_tables d). map_of ts' et = Some (db' et)"
    using apply_groups_correct[OF assms(2,4,5,6,3), of 0] by blast
  then have "ts' = ts" "delta = sum_list (map entity_count_change (b_mods b))"
    using f(1) by (simp_all add: apply_entity_modifications_def)
  then show ?thesis using that[of ts'] ts ts'(2,3) f(4) by simp
qed

text \<open>
  Reverting to the block before the batch gives back the entity tables, the data sources, the
  error rows and the head, provided that nothing in the batch is dated before it.
\<close>

definition batch_after :: "block_number \<Rightarrow> 'd stored_batch \<Rightarrow> bool" where
  "batch_after h b \<longleftrightarrow>
     (\<forall>et. \<forall>m \<in> set (rows_of (b_mods b) et). h < emod_block m \<and> emod_block m < BLOCK_NUMBER_MAX)
     \<and> (\<forall>ds \<in> set (concat (map snd (b_data_sources b))). \<exists>n. sd_creation_block ds = Some n \<and> h < n)
     \<and> (\<forall>e \<in> set (b_deterministic_errors b). \<exists>ptr. se_block_ptr e = Some ptr \<and> h < number ptr)"

lemma revert_after_transact:
  assumes "transact_block_operations c b last_rollup d = Some (Inr (earliest, d'))"
    and "groups_inv im (b_mods b)" and "exec_groups (b_mods b) (db_of (d_tables d)) db'"
    and "store_at_head h d" and "batch_after h b"
    and "\<forall>g \<in> set (b_mods b). c_share_interfaces c (rg_entity_type g) = []
           \<and> rg_entity_type g \<in> fst ` set (d_tables d)"
    and "\<forall>(et, t) \<in> set (d_tables d). 0 < t_chunk_size t"
    and "c_rollups c = []" and "data_sources_is_empty (b_offchain_to_remove b)"
    and "rewind_or_truncate thr ptr cursor False d' = Inr d2" and "number ptr = h"
  shows "d_tables d2 = d_tables d \<and> d_data_sources d2 = d_data_sources d \<and> d_errors d2 = d_errors d
    \<and> d_latest d2 = Some ptr \<and> d_firehose_cursor d2 = cursor"
proof -
  obtain ts' where ts': "d_tables d' = ts'" "map fst ts' = map fst (d_tables d)"
    "\<forall>et \<in> fst ` set (d_tables d). map_of ts' et = Some (db' et)"
    using transact_tables[OF assms(1,2,3) _ _ assms(7,8)] assms(6) by blast
  have f:
    "\<exists>dss. dynds_insert (b_data_sources b) (d_data_sources d) = Inr dss
       \<and> update_offchain_status (b_offchain_to_remove b) dss = Inr (d_data_sources d')"
    "d_errors d' = fold (insert_subgraph_error (c_error_id c)) (b_deterministic_errors b) (d_errors d)"
    using transact_Inr[OF assms(1)] by metis+
  have dist: "distinct (map fst (d_tables d))" and ah: "\<forall>(et, t) \<in> set (d_tables d). at_head h t"
    using assms(4) by (simp_all add: store_at_head_def)
  have mods: "\<And>et. \<forall>m \<in> set (rows_of (b_mods b) et). h < emod_block m \<and> emod_block m < BLOCK_NUMBER_MAX"
    using assms(5) by (simp add: batch_after_def)
  have tabs: "snd (layout_revert_block (h + 1) (d_tables d')) = d_tables d"
    unfolding ts'(1) by (rule revert_tables[OF ts'(2) dist ts'(3) assms(3,2) ah mods])
  have dss: "dynds_revert (h + 1) (d_data_sources d') = d_data_sources d"
  proof -
    from f(1) assms(9) have "dynds_insert (b_data_sources b) (d_data_sources d) = Inr (d_data_sources d')"
      by (simp add: update_offchain_status_def)
    then have "d_data_sources d' = d_data_sources d @ concat (map snd (b_data_sources b))"
      using dynds_insert_rows by blast
    moreover have "\<forall>ds \<in> set (d_data_sources d). \<exists>n. sd_creation_block ds = Some n \<and> n < h + 1"
      using assms(4) by (fastforce simp: store_at_head_def)
    moreover have "\<forall>ds \<in> set (concat (map snd (b_data_sources b))). \<exists>n. sd_creation_block ds = Some n \<and> h + 1 \<le> n"
      using assms(5) unfolding batch_after_def by fastforce
    ultimately show ?thesis using dynds_revert_new by metis
  qed
  have errs: "filter (\<lambda>r. er_block r < h + 1) (d_errors d') = d_errors d"
  proof -
    obtain new where new: "d_errors d' = d_errors d @ new"
      "\<forall>r \<in> set new. \<exists>e \<in> set (b_deterministic_errors b). er_block r =
          (case se_block_ptr e of None \<Rightarrow> BLOCK_UNVERSIONED | Some ptr \<Rightarrow> number ptr)"
      using insert_errors_rows f(2) by metis
    have "\<forall>r \<in> set new. h < er_block r" using new(2) assms(5) by (fastforce simp: batch_after_def)
    moreover have "\<forall>r \<in> set (d_errors d). er_block r \<le> h" using assms(4) by (simp add: store_at_head_def)
    ultimately have "filter (\<lambda>r. er_block r < h + 1) (d_errors d) = d_errors d"
      "filter (\<lambda>r. er_block r < h + 1) new = []"
      by (auto simp: filter_empty_conv filter_id_conv)
    then show ?thesis unfolding new(1) by simp
  qed
  from assms(10) show ?thesis
    using rewind_Inr[OF assms(10)] tabs dss errs by (simp add: assms(11))
qed

section \<open>Invariants of the deployment row\<close>

text \<open>\<open>failed\<close> is kept in step with \<open>health\<close>.\<close>

definition status_inv :: "'d deployment \<Rightarrow> bool" where
  "status_inv d \<longleftrightarrow> (d_failed d \<longleftrightarrow> d_health d = Failed)"

lemma status_inv_update [simp]: "status_inv (update_deployment_status h f n d)"
  by (simp add: status_inv_def update_deployment_status_def)

lemma status_inv_check_health: "status_inv d \<Longrightarrow> status_inv (check_health n d)"
  by (auto simp: status_inv_def check_health_def Let_def)

lemma status_inv_revert_errors: "status_inv d \<Longrightarrow> status_inv (revert_subgraph_errors n d)"
  by (auto simp: status_inv_def revert_subgraph_errors_def check_health_def Let_def)

lemma status_inv_transact_errors:
  assumes "status_inv d"
  shows "status_inv (transact_errors eid b d)"
proof -
  have "status_inv (d\<lparr>d_errors := x\<rparr>)" for x using assms by (simp add: status_inv_def)
  then show ?thesis using assms
    by (simp add: transact_errors_def update_non_fatal_errors_def insert_subgraph_errors_def Let_def
        status_inv_check_health)
qed

text \<open>
  After a revert a deployment is not failed, whatever errors are left; and one that was not
  failed is unhealthy exactly if there are deterministic errors left.
\<close>

lemma revert_errors_health:
  assumes "status_inv d"
  shows "d_health (revert_subgraph_errors n d) \<noteq> Failed"
    and "\<not> d_failed d \<Longrightarrow> d_health (revert_subgraph_errors n d) =
       (if has_deterministic_errors (revert_subgraph_errors n d) (n - 1) then Unhealthy else Healthy)"
    and "d_failed d \<Longrightarrow> d_health (revert_subgraph_errors n d) = Healthy"
  using assms
  by (cases "d_health d"; simp add: status_inv_def revert_subgraph_errors_def check_health_def Let_def
      has_deterministic_errors_def)+

end
