(* ===== verification/Bounded_Queue.thy ===== *)
theory Bounded_Queue
  imports Prelude
begin

text \<open>
  \<open>graph/src/util/bounded_queue.rs\<close>: a queue of bounded size guarded by a mutex and two counting
  semaphores. Every await point separates two atomic steps, so an operation is a sequence of
  steps: acquiring a permit, changing the queue under the mutex, and handing a permit to the other
  semaphore. Operations of several tasks interleave at these steps. A semaphore is the number of
  its available permits; the state also counts the tasks between two steps of an operation.
\<close>

section \<open>State and steps\<close>

record 'a bounded_queue =
  bq_capacity :: nat
  bq_queue :: "'a list"
  bq_push_permits :: nat
  bq_pop_permits :: nat
  bq_pushing :: nat      \<comment> \<open>\<open>push\<close> with a push permit, item not in the queue yet\<close>
  bq_pushed :: nat       \<comment> \<open>\<open>push\<close> after \<open>push_back\<close>, pop permit not added yet\<close>
  bq_popping :: nat      \<comment> \<open>\<open>pop\<close> or \<open>try_pop\<close> with a pop permit, item still in the queue\<close>
  bq_popped :: nat       \<comment> \<open>\<open>pop\<close> or \<open>try_pop\<close> after \<open>pop_front\<close>, push permit not added yet\<close>
  bq_peeking :: nat      \<comment> \<open>\<open>peek\<close> or \<open>peek_with\<close> holding a pop permit\<close>
  bq_emptied :: nat      \<comment> \<open>\<open>wait_empty\<close> holding all push permits\<close>

definition with_capacity :: "nat \<Rightarrow> 'a bounded_queue" where
  "with_capacity capacity =
     \<lparr>bq_capacity = capacity, bq_queue = [], bq_push_permits = capacity, bq_pop_permits = 0,
      bq_pushing = 0, bq_pushed = 0, bq_popping = 0, bq_popped = 0, bq_peeking = 0, bq_emptied = 0\<rparr>"

text \<open>
  \<open>push\<close>: acquire a push permit, push the item and forget the permit, add a pop permit.
\<close>

definition push_acquire :: "'a bounded_queue \<Rightarrow> 'a bounded_queue option" where
  "push_acquire q = (if bq_push_permits q = 0 then None
     else Some (q\<lparr>bq_push_permits := bq_push_permits q - 1, bq_pushing := bq_pushing q + 1\<rparr>))"

definition push_insert :: "'a \<Rightarrow> 'a bounded_queue \<Rightarrow> 'a bounded_queue" where
  "push_insert x q = q\<lparr>bq_queue := bq_queue q @ [x], bq_pushing := bq_pushing q - 1,
                       bq_pushed := bq_pushed q + 1\<rparr>"

definition push_release :: "'a bounded_queue \<Rightarrow> 'a bounded_queue" where
  "push_release q = q\<lparr>bq_pushed := bq_pushed q - 1, bq_pop_permits := bq_pop_permits q + 1\<rparr>"

text \<open>
  \<open>pop\<close> and \<open>try_pop\<close>: acquire a pop permit, take the front and forget the permit, add a push
  permit. The \<open>expect\<close> on an empty queue is the result \<open>None\<close> of \<open>pop_take\<close>.
\<close>

definition pop_acquire :: "'a bounded_queue \<Rightarrow> 'a bounded_queue option" where
  "pop_acquire q = (if bq_pop_permits q = 0 then None
     else Some (q\<lparr>bq_pop_permits := bq_pop_permits q - 1, bq_popping := bq_popping q + 1\<rparr>))"

definition pop_take :: "'a bounded_queue \<Rightarrow> ('a \<times> 'a bounded_queue) option" where
  "pop_take q = (case bq_queue q of [] \<Rightarrow> None
     | x # xs \<Rightarrow> Some (x, q\<lparr>bq_queue := xs, bq_popping := bq_popping q - 1,
                            bq_popped := bq_popped q + 1\<rparr>))"

definition pop_release :: "'a bounded_queue \<Rightarrow> 'a bounded_queue" where
  "pop_release q = q\<lparr>bq_popped := bq_popped q - 1, bq_push_permits := bq_push_permits q + 1\<rparr>"

text \<open>\<open>peek\<close> and \<open>peek_with\<close>: the permit is given back when the guard is dropped.\<close>

definition peek_acquire :: "'a bounded_queue \<Rightarrow> 'a bounded_queue option" where
  "peek_acquire q = (if bq_pop_permits q = 0 then None
     else Some (q\<lparr>bq_pop_permits := bq_pop_permits q - 1, bq_peeking := bq_peeking q + 1\<rparr>))"

definition peek_front :: "('a \<Rightarrow> 'a) \<Rightarrow> 'a bounded_queue \<Rightarrow> ('a \<times> 'a bounded_queue) option" where
  "peek_front f q = (case bq_queue q of [] \<Rightarrow> None
     | x # xs \<Rightarrow> Some (f x, q\<lparr>bq_queue := f x # xs, bq_peeking := bq_peeking q - 1,
                              bq_pop_permits := bq_pop_permits q + 1\<rparr>))"

definition wait_empty_acquire :: "'a bounded_queue \<Rightarrow> 'a bounded_queue option" where
  "wait_empty_acquire q = (if bq_push_permits q < bq_capacity q then None
     else Some (q\<lparr>bq_push_permits := bq_push_permits q - bq_capacity q,
                  bq_emptied := bq_emptied q + 1\<rparr>))"

definition wait_empty_release :: "'a bounded_queue \<Rightarrow> 'a bounded_queue" where
  "wait_empty_release q = q\<lparr>bq_push_permits := bq_push_permits q + bq_capacity q,
                            bq_emptied := bq_emptied q - 1\<rparr>"

text \<open>The operations that only look at the queue, newest entry first.\<close>

fun find_map_list :: "('a \<Rightarrow> 'b option) \<Rightarrow> 'a list \<Rightarrow> 'b option" where
  "find_map_list f [] = None"
| "find_map_list f (x # xs) = (case f x of Some y \<Rightarrow> Some y | None \<Rightarrow> find_map_list f xs)"

definition bq_find_map :: "('a \<Rightarrow> 'b option) \<Rightarrow> 'a bounded_queue \<Rightarrow> 'b option" where
  "bq_find_map f q = find_map_list f (rev (bq_queue q))"

definition bq_fold :: "('b \<Rightarrow> 'a \<Rightarrow> 'b) \<Rightarrow> 'b \<Rightarrow> 'a bounded_queue \<Rightarrow> 'b" where
  "bq_fold f init q = foldl f init (rev (bq_queue q))"

definition bq_map_newest :: "('a option \<Rightarrow> 'b) \<Rightarrow> 'a bounded_queue \<Rightarrow> 'b" where
  "bq_map_newest f q = f (if bq_queue q = [] then None else Some (last (bq_queue q)))"

definition bq_len :: "'a bounded_queue \<Rightarrow> nat" where
  "bq_len q = length (bq_queue q)"

definition bq_is_empty :: "'a bounded_queue \<Rightarrow> bool" where
  "bq_is_empty q \<longleftrightarrow> bq_queue q = []"

text \<open>An operation without interruption: what it does when no other task runs between its steps.\<close>

definition bq_push :: "'a \<Rightarrow> 'a bounded_queue \<Rightarrow> 'a bounded_queue option" where
  "bq_push x q = map_option (\<lambda>q1. push_release (push_insert x q1)) (push_acquire q)"

definition try_pop :: "'a bounded_queue \<Rightarrow> ('a option \<times> 'a bounded_queue) option" where
  "try_pop q = (case pop_acquire q of
       None \<Rightarrow> Some (None, q)
     | Some q1 \<Rightarrow> map_option (\<lambda>(x, q2). (Some x, pop_release q2)) (pop_take q1))"

partial_function (option) bq_clear :: "'a bounded_queue \<Rightarrow> 'a bounded_queue option" where
  "bq_clear q = Option.bind (try_pop q) (\<lambda>(r, q1). case r of None \<Rightarrow> Some q1 | Some _ \<Rightarrow> bq_clear q1)"

inductive bq_step :: "'a bounded_queue \<Rightarrow> 'a bounded_queue \<Rightarrow> bool" where
  push_acquire: "push_acquire q = Some q' \<Longrightarrow> bq_step q q'"
| push_insert: "0 < bq_pushing q \<Longrightarrow> bq_step q (push_insert x q)"
| push_release: "0 < bq_pushed q \<Longrightarrow> bq_step q (push_release q)"
| pop_acquire: "pop_acquire q = Some q' \<Longrightarrow> bq_step q q'"
| pop_take: "0 < bq_popping q \<Longrightarrow> pop_take q = Some (x, q') \<Longrightarrow> bq_step q q'"
| pop_release: "0 < bq_popped q \<Longrightarrow> bq_step q (pop_release q)"
| peek_acquire: "peek_acquire q = Some q' \<Longrightarrow> bq_step q q'"
| peek_front: "0 < bq_peeking q \<Longrightarrow> peek_front f q = Some (x, q') \<Longrightarrow> bq_step q q'"
| wait_empty_acquire: "wait_empty_acquire q = Some q' \<Longrightarrow> bq_step q q'"
| wait_empty_release: "0 < bq_emptied q \<Longrightarrow> bq_step q (wait_empty_release q)"

inductive bq_reachable :: "nat \<Rightarrow> 'a bounded_queue \<Rightarrow> bool" for capacity where
  start: "bq_reachable capacity (with_capacity capacity)"
| step: "bq_reachable capacity q \<Longrightarrow> bq_step q q' \<Longrightarrow> bq_reachable capacity q'"

section \<open>The permits add up\<close>

text \<open>
  The doc comments of the fields say \<open>capacity - queue.len()\<close> and \<open>queue.len()\<close> permits; that is
  so between operations, and during operations up to the permits they hold.
\<close>

definition permits_ok :: "'a bounded_queue \<Rightarrow> bool" where
  "permits_ok q \<longleftrightarrow>
     length (bq_queue q) = bq_pop_permits q + bq_pushed q + bq_popping q + bq_peeking q
     \<and> bq_capacity q = bq_push_permits q + bq_pushing q + length (bq_queue q) + bq_popped q
         + bq_emptied q * bq_capacity q"

lemmas bq_step_defs = push_acquire_def push_insert_def push_release_def pop_acquire_def pop_take_def
  pop_release_def peek_acquire_def peek_front_def wait_empty_acquire_def wait_empty_release_def

lemma permits_ok_start: "permits_ok (with_capacity n)"
  by (simp add: permits_ok_def with_capacity_def)

lemma permits_ok_step:
  assumes "bq_step q q'" and "permits_ok q"
  shows "permits_ok q' \<and> bq_capacity q' = bq_capacity q"
  using assms
proof cases
  case wait_empty_acquire
  then have le: "bq_capacity q \<le> bq_push_permits q"
    by (simp add: wait_empty_acquire_def split: if_splits)
  with assms(2) have "bq_emptied q * bq_capacity q = 0" and "bq_push_permits q = bq_capacity q"
    unfolding permits_ok_def by linarith+
  then show ?thesis using wait_empty_acquire assms(2) le
    by (auto simp: permits_ok_def wait_empty_acquire_def)
next
  case wait_empty_release
  then obtain n where "bq_emptied q = Suc n" using gr0_implies_Suc by blast
  then show ?thesis using wait_empty_release assms(2)
    by (auto simp: permits_ok_def wait_empty_release_def)
qed (auto simp: permits_ok_def bq_step_defs split: if_splits list.splits)

lemma reachable_permits_ok:
  "bq_reachable n q \<Longrightarrow> permits_ok q \<and> bq_capacity q = n"
  by (induction rule: bq_reachable.induct)
     (use permits_ok_start permits_ok_step in \<open>fastforce simp: with_capacity_def\<close>)+

text \<open>So the queue never holds more than its capacity, and no \<open>expect\<close> fails.\<close>

lemma permits_bound: "permits_ok q \<Longrightarrow> length (bq_queue q) \<le> bq_capacity q"
  by (simp add: permits_ok_def)

lemma permits_not_empty:
  "permits_ok q \<Longrightarrow> 0 < bq_popping q \<or> 0 < bq_peeking q \<Longrightarrow> bq_queue q \<noteq> []"
  by (auto simp: permits_ok_def)

lemma wait_empty_empty:
  assumes "permits_ok q" and "wait_empty_acquire q = Some q'"
  shows "bq_queue q = []"
proof -
  have "bq_capacity q \<le> bq_push_permits q"
    using assms(2) by (simp add: wait_empty_acquire_def split: if_splits)
  with assms(1) have "length (bq_queue q) = 0" unfolding permits_ok_def by linarith
  then show ?thesis by simp
qed

text \<open>Between operations.\<close>

definition quiet :: "'a bounded_queue \<Rightarrow> bool" where
  "quiet q \<longleftrightarrow> bq_pushing q = 0 \<and> bq_pushed q = 0 \<and> bq_popping q = 0 \<and> bq_popped q = 0
     \<and> bq_peeking q = 0 \<and> bq_emptied q = 0"

lemma quiet_permits:
  "permits_ok q \<Longrightarrow> quiet q \<Longrightarrow> bq_pop_permits q = length (bq_queue q)
     \<and> bq_push_permits q = bq_capacity q - length (bq_queue q)"
  by (simp add: permits_ok_def quiet_def)

lemma bq_push_quiet:
  assumes "permits_ok q" and "quiet q"
  shows "bq_push x q = (if length (bq_queue q) = bq_capacity q then None
     else Some (q\<lparr>bq_queue := bq_queue q @ [x], bq_push_permits := bq_push_permits q - 1,
                  bq_pop_permits := bq_pop_permits q + 1\<rparr>))"
  using assms quiet_permits[OF assms] permits_bound[OF assms(1)]
  by (auto simp: bq_push_def push_acquire_def push_insert_def push_release_def quiet_def)

lemma try_pop_quiet:
  assumes "permits_ok q" and "quiet q"
  shows "try_pop q = Some (case bq_queue q of [] \<Rightarrow> (None, q)
     | x # xs \<Rightarrow> (Some x, q\<lparr>bq_queue := xs, bq_push_permits := bq_push_permits q + 1,
                            bq_pop_permits := bq_pop_permits q - 1\<rparr>))"
  using assms quiet_permits[OF assms]
  by (auto simp: try_pop_def pop_acquire_def pop_take_def pop_release_def quiet_def split: list.splits)

lemma quiet_update [simp]:
  "quiet (q\<lparr>bq_queue := xs, bq_push_permits := a, bq_pop_permits := b\<rparr>) = quiet q"
  by (simp add: quiet_def)

text \<open>\<open>clear\<close> ends, with an empty queue and all push permits.\<close>

lemma bq_clear_quiet:
  assumes "permits_ok q" and "quiet q"
  shows "\<exists>q'. bq_clear q = Some q' \<and> bq_queue q' = [] \<and> permits_ok q' \<and> quiet q'
     \<and> bq_push_permits q' = bq_capacity q \<and> bq_capacity q' = bq_capacity q"
  using assms
proof (induction "bq_queue q" arbitrary: q)
  case Nil
  then show ?case using quiet_permits[OF Nil(2,3)]
    by (subst bq_clear.simps) (simp add: try_pop_quiet)
next
  case (Cons x xs)
  let ?q = "q\<lparr>bq_queue := xs, bq_push_permits := bq_push_permits q + 1,
              bq_pop_permits := bq_pop_permits q - 1\<rparr>"
  have "try_pop q = Some (Some x, ?q)"
    using try_pop_quiet[OF Cons.prems] Cons.hyps(2)[symmetric] by simp
  then have e: "bq_clear q = bq_clear ?q" by (subst bq_clear.simps) simp
  have "permits_ok ?q" using Cons.prems Cons.hyps(2)[symmetric] by (auto simp: permits_ok_def quiet_def)
  moreover have "quiet ?q" using Cons.prems(2) by simp
  ultimately show ?case using Cons.hyps(1)[of ?q] unfolding e by simp
qed

end
