(* ===== verification/Write_Queue.thy ===== *)
theory Write_Queue
  imports Deployment_Store Bounded_Queue
begin

text \<open>
  The asynchronous writer of \<open>store/postgres/src/writable.rs\<close>: requests, the queue of requests,
  the reads that combine the queue with the database, and the background task. The queue is the
  list of its requests, oldest (front) first, as \<open>Bounded_Queue\<close> holds it; \<open>newest\<close> lists are the
  same requests from the back. Clocks and locks are inputs: \<open>young\<close> is
  \<open>queued.elapsed() < write_batch_duration\<close>, \<open>lock_free\<close> the success of \<open>try_write\<close>.
\<close>

section \<open>Requests\<close>

datatype 'b request =
    ReqWrite 'b bool
  | ReqRevertTo block_ptr "string option" bool
  | ReqStop

definition request_write :: "'b \<Rightarrow> 'b request" where
  "request_write b = ReqWrite b False"

definition request_revert :: "block_ptr \<Rightarrow> string option \<Rightarrow> 'b request" where
  "request_revert ptr cursor = ReqRevertTo ptr cursor False"

fun start_process :: "'b request \<Rightarrow> 'b request" where
  "start_process (ReqWrite b processed) = ReqWrite b True"
| "start_process (ReqRevertTo ptr cursor processed) = ReqRevertTo ptr cursor True"
| "start_process ReqStop = ReqStop"

fun req_processed :: "'b request \<Rightarrow> bool" where
  "req_processed (ReqWrite b processed) = processed"
| "req_processed (ReqRevertTo ptr cursor processed) = processed"
| "req_processed ReqStop = False"

fun req_is_write :: "'b request \<Rightarrow> bool" where
  "req_is_write (ReqWrite b processed) = True"
| "req_is_write (ReqRevertTo ptr cursor processed) = False"
| "req_is_write ReqStop = False"

datatype exec_result = Continue | StopWriter

text \<open>
  \<open>Request::execute\<close>: \<open>transact\<close> and \<open>revert\<close> are the two methods of the store it calls, on a
  store state \<open>'s\<close>.
\<close>

fun req_execute :: "(('d, 'ds, 'e) batch \<Rightarrow> 's \<Rightarrow> (store_error, 's) result)
    \<Rightarrow> (block_ptr \<Rightarrow> string option \<Rightarrow> 's \<Rightarrow> (store_error, 's) result)
    \<Rightarrow> ('d, 'ds, 'e) batch request \<Rightarrow> 's \<Rightarrow> (store_error, exec_result \<times> 's) result" where
  "req_execute transact revert (ReqWrite b _) s =
     (case b_error b of
        Some e \<Rightarrow> Inl e
      | None \<Rightarrow> bind_res (transact b s) (\<lambda>s'. Inr (Continue, s')))"
| "req_execute transact revert (ReqRevertTo ptr cursor _) s =
     bind_res (revert ptr cursor s) (\<lambda>s'. Inr (Continue, s'))"
| "req_execute transact revert ReqStop s = Inr (StopWriter, s)"

record queue_config =
  qc_write_batch_size :: nat
  qc_write_batch_duration_is_zero :: bool

text \<open>\<open>weight\<close> of a batch, from \<open>CacheWeight\<close>, is a parameter; \<open>old\<close> is the negation of \<open>young\<close>.\<close>

fun should_process :: "queue_config \<Rightarrow> ('b \<Rightarrow> nat) \<Rightarrow> bool \<Rightarrow> 'b request \<Rightarrow> bool" where
  "should_process c weight old (ReqWrite b _) \<longleftrightarrow> weight b \<ge> qc_write_batch_size c \<or> old"
| "should_process c weight old (ReqRevertTo _ _ _) = True"
| "should_process c weight old ReqStop = True"

section \<open>Walking the queue\<close>

record block_tracker =
  bt_revert :: block_number
  bt_block :: block_number

definition tracker_new :: block_tracker where
  "tracker_new = \<lparr>bt_revert = BLOCK_NUMBER_MAX, bt_block = BLOCK_NUMBER_MAX\<rparr>"

definition tracker_write :: "block_ptr \<Rightarrow> block_tracker \<Rightarrow> block_tracker" where
  "tracker_write ptr t = t\<lparr>bt_block := min (bt_block t) (number ptr - 1)\<rparr>"

definition tracker_revert :: "block_ptr \<Rightarrow> block_tracker \<Rightarrow> block_tracker" where
  "tracker_revert ptr t = t\<lparr>bt_revert := min (bt_revert t) (number ptr),
                           bt_block := min (bt_block t) (number ptr)\<rparr>"

definition query_block :: "block_tracker \<Rightarrow> block_number" where
  "query_block t = bt_block t"

text \<open>\<open>find_map\<close> and \<open>fold\<close> from the newest request on; the closure mutates the tracker.\<close>

fun track_find :: "(('d, 'ds, 'e) batch \<Rightarrow> block_number \<Rightarrow> 'r option)
    \<Rightarrow> ('d, 'ds, 'e) batch request list \<Rightarrow> block_tracker \<Rightarrow> 'r option \<times> block_tracker" where
  "track_find f [] t = (None, t)"
| "track_find f (ReqWrite b _ # rs) t =
     (let t1 = tracker_write (b_block_ptr b) t;
          res = (if b_first_block b \<le> bt_revert t1 then f b (bt_revert t1) else None)
      in case res of Some r \<Rightarrow> (Some r, t1) | None \<Rightarrow> track_find f rs t1)"
| "track_find f (ReqRevertTo ptr _ _ # rs) t = track_find f rs (tracker_revert ptr t)"
| "track_find f (ReqStop # rs) t = track_find f rs t"

definition tracker_find_map :: "(('d, 'ds, 'e) batch \<Rightarrow> block_number \<Rightarrow> 'r option)
    \<Rightarrow> ('d, 'ds, 'e) batch request list \<Rightarrow> 'r option \<times> block_number" where
  "tracker_find_map f reqs =
     (let (res, t) = track_find f (rev reqs) tracker_new in (res, query_block t))"

fun track_fold :: "('r \<Rightarrow> ('d, 'ds, 'e) batch \<Rightarrow> block_number \<Rightarrow> 'r)
    \<Rightarrow> ('d, 'ds, 'e) batch request list \<Rightarrow> 'r \<times> block_tracker \<Rightarrow> 'r \<times> block_tracker" where
  "track_fold f [] acc = acc"
| "track_fold f (ReqWrite b _ # rs) (a, t) =
     (let t1 = tracker_write (b_block_ptr b) t
      in track_fold f rs (if b_first_block b \<le> bt_revert t1 then f a b (bt_revert t1) else a, t1))"
| "track_fold f (ReqRevertTo ptr _ _ # rs) (a, t) = track_fold f rs (a, tracker_revert ptr t)"
| "track_fold f (ReqStop # rs) (a, t) = track_fold f rs (a, t)"

definition tracker_fold :: "('r \<Rightarrow> ('d, 'ds, 'e) batch \<Rightarrow> block_number \<Rightarrow> 'r) \<Rightarrow> 'r
    \<Rightarrow> ('d, 'ds, 'e) batch request list \<Rightarrow> 'r \<times> block_number" where
  "tracker_fold f init reqs =
     (let (res, t) = track_fold f (rev reqs) (init, tracker_new) in (res, query_block t))"

section \<open>Reading\<close>

text \<open>\<open>store_get\<close> and its siblings are the methods of \<open>SyncStore\<close>, on the committed state.\<close>

definition queue_get :: "(entity_key \<Rightarrow> block_number \<Rightarrow> (store_error, 'd option) result)
    \<Rightarrow> ('d, 'ds, 'e) batch request list \<Rightarrow> entity_key \<Rightarrow> (store_error, 'd option) result" where
  "queue_get store_get reqs key =
     (let (op, qb) = tracker_find_map (\<lambda>b at. batch_last_op b key at) reqs
      in case op of
           Some (OpWrite _ entity) \<Rightarrow> Inr (Some entity)
         | Some (OpRemove _) \<Rightarrow> Inr None
         | None \<Rightarrow> store_get key qb)"

text \<open>
  \<open>get_many\<close>: a \<open>BTreeMap\<close> is a partial map, the \<open>BTreeSet\<close> of keys the list of its elements.
  The \<open>assert!(!overwrite)\<close> is the error \<open>Panic\<close>.
\<close>

definition many_from_batch :: "entity_key list \<Rightarrow> (entity_key \<rightharpoonup> 'd option) \<Rightarrow> ('d, 'ds, 'e) batch
    \<Rightarrow> block_number \<Rightarrow> (entity_key \<rightharpoonup> 'd option)" where
  "many_from_batch keys m b at =
     fold (\<lambda>key m. if m key \<noteq> None then m
             else case batch_last_op b key at of
                    Some (OpWrite _ entity) \<Rightarrow> m(key \<mapsto> Some entity)
                  | Some (OpRemove _) \<Rightarrow> m(key \<mapsto> None)
                  | None \<Rightarrow> m) keys m"

definition queue_get_many :: "(entity_key list \<Rightarrow> block_number \<Rightarrow> (store_error, entity_key \<rightharpoonup> 'd) result)
    \<Rightarrow> ('d, 'ds, 'e) batch request list \<Rightarrow> entity_key list \<Rightarrow> (store_error, entity_key \<rightharpoonup> 'd) result" where
  "queue_get_many store_get_many reqs keys =
     (let (in_queue, qb) = tracker_fold (many_from_batch keys) Map.empty reqs
      in bind_res (store_get_many (filter (\<lambda>k. in_queue k = None) keys) qb)
        (\<lambda>m. if \<exists>k. (\<exists>e. in_queue k = Some (Some e)) \<and> m k \<noteq> None then Inl Panic
             else Inr (\<lambda>k. case in_queue k of Some (Some e) \<Rightarrow> Some e | _ \<Rightarrow> m k)))"

text \<open>
  \<open>get_derived\<close>: \<open>is_related\<close> is the comparison of the entity's field with the value of the query,
  \<open>et\<close> the type that the query is for.
\<close>

definition derived_ops :: "('d \<Rightarrow> bool) \<Rightarrow> entity_type \<Rightarrow> ('d, 'ds, 'e) batch \<Rightarrow> block_number
    \<Rightarrow> (entity_key \<times> 'd option) list" where
  "derived_ops is_related et b at =
     List.map_filter
       (\<lambda>op. case op of
          OpWrite key entity \<Rightarrow> if is_related entity then Some (key, Some entity) else None
        | OpRemove key \<Rightarrow> Some (key, None))
       (batch_effective_ops b et at)"

definition derived_from_batch :: "('d \<Rightarrow> bool) \<Rightarrow> entity_type \<Rightarrow> (entity_key \<times> 'd option) list
    \<Rightarrow> ('d, 'ds, 'e) batch \<Rightarrow> block_number \<Rightarrow> (entity_key \<times> 'd option) list" where
  "derived_from_batch is_related et m b at =
     fold (\<lambda>(k, v) m. if map_of m k = None then m @ [(k, v)] else m) (derived_ops is_related et b at) m"

definition queue_get_derived ::
  "(block_number \<Rightarrow> entity_key list \<Rightarrow> (store_error, entity_key \<rightharpoonup> 'd) result)
    \<Rightarrow> ('d \<Rightarrow> bool) \<Rightarrow> entity_type \<Rightarrow> ('d, 'ds, 'e) batch request list
    \<Rightarrow> (store_error, entity_key \<rightharpoonup> 'd) result" where
  "queue_get_derived store_get_derived is_related et reqs =
     (let (in_queue, qb) = tracker_fold (derived_from_batch is_related et) [] reqs
      in bind_res (store_get_derived qb (map fst in_queue))
        (\<lambda>m. Inr (\<lambda>k. case map_of in_queue k of Some (Some e) \<Rightarrow> Some e | _ \<Rightarrow> m k)))"

text \<open>
  \<open>FindDerivedQuery\<close> (\<open>relational_queries.rs\<close>) and \<open>Layout::find_derived\<close>. The exclusion clause
  is \<open>id != any(..)\<close>, which holds as soon as one of the ids is different; with an empty list it
  is left out. \<open>key_of\<close> makes the key of a row from its data.
\<close>

definition derived_selects :: "'d table \<Rightarrow> ('d \<Rightarrow> bool) \<Rightarrow> causality_region \<Rightarrow> block_number \<Rightarrow> id list
    \<Rightarrow> 'd version \<Rightarrow> bool" where
  "derived_selects t is_related cr block excluded v \<longleftrightarrow>
     (excluded = [] \<or> (\<exists>i \<in> set excluded. v_id v \<noteq> i))
     \<and> is_related (v_entity v) \<and> belongs_to_causality_region t cr v \<and> at_block t block v"

definition find_derived :: "entity_type \<Rightarrow> 'd table \<Rightarrow> ('d \<Rightarrow> bool) \<Rightarrow> causality_region \<Rightarrow> block_number
    \<Rightarrow> entity_key list \<Rightarrow> (entity_key \<rightharpoonup> 'd)" where
  "find_derived et t is_related cr block excluded =
     map_of (rev (map (\<lambda>v. (\<lparr>key_type = et, key_id = v_id v,
                              key_causality_region = v_causality_region v\<rparr>, v_entity v))
       (filter (derived_selects t is_related cr block (map key_id excluded)) (t_rows t))))"

text \<open>\<open>load_dynamic_data_sources\<close>: \<open>sort_by_key\<close> is stable and puts \<open>None\<close> first.\<close>

definition creation_rank :: "stored_data_source \<Rightarrow> int" where
  "creation_rank ds = (case sd_creation_block ds of None \<Rightarrow> - 2147483649 | Some b \<Rightarrow> b)"

definition queue_load_data_sources ::
  "(block_number \<Rightarrow> (store_error, stored_data_source list) result)
    \<Rightarrow> ('d, stored_data_source, 'e) batch request list
    \<Rightarrow> (store_error, stored_data_source list) result" where
  "queue_load_data_sources store_load reqs =
     (let (queue_dds, qb) = tracker_fold (\<lambda>dds b at. dds @ new_data_sources b at) [] reqs
      in bind_res (store_load qb) (\<lambda>dds. Inr (dds @ sort_key creation_rank queue_dds)))"

section \<open>The queue and its client operations\<close>

datatype writer_phase = Waiting | Executing | Executed | WriterFinished

text \<open>
  \<open>wq_phase\<close> is where the background task is in its loop; \<open>wq_store\<close> is the committed state of the
  store.
\<close>

record ('b, 's) write_queue =
  wq_capacity :: nat
  wq_requests :: "'b request list"
  wq_write_err :: "store_error option"
  wq_poisoned :: bool
  wq_batch_writes :: bool
  wq_phase :: writer_phase
  wq_store :: 's

definition queue_start :: "nat \<Rightarrow> 's \<Rightarrow> ('b, 's) write_queue" where
  "queue_start capacity s =
     \<lparr>wq_capacity = capacity, wq_requests = [], wq_write_err = None, wq_poisoned = False,
      wq_batch_writes = True, wq_phase = Waiting, wq_store = s\<rparr>"

text \<open>\<open>check_err\<close> takes the error out, so it is reported once and \<open>Poisoned\<close> from then on.\<close>

definition check_err :: "('b, 's) write_queue \<Rightarrow> store_error option \<times> ('b, 's) write_queue" where
  "check_err q =
     (case wq_write_err q of
        Some e \<Rightarrow> (Some e, q\<lparr>wq_write_err := None\<rparr>)
      | None \<Rightarrow> (if wq_poisoned q then Some Poisoned else None, q))"

definition stop_batching :: "('b, 's) write_queue \<Rightarrow> ('b, 's) write_queue" where
  "stop_batching q = q\<lparr>wq_batch_writes := False\<rparr>"

definition start_batching :: "('b, 's) write_queue \<Rightarrow> ('b, 's) write_queue" where
  "start_batching q = q\<lparr>wq_batch_writes := True\<rparr>"

definition record_err :: "store_error \<Rightarrow> ('b, 's) write_queue \<Rightarrow> ('b, 's) write_queue" where
  "record_err e q = q\<lparr>wq_write_err := Some e, wq_poisoned := True, wq_requests := []\<rparr>"

text \<open>\<open>push\<close> waits while the queue is full: then it has no result yet, \<open>None\<close>.\<close>

definition queue_push :: "'b request \<Rightarrow> ('b, 's) write_queue
    \<Rightarrow> (store_error option \<times> ('b, 's) write_queue) option" where
  "queue_push req q =
     (let (err, q1) = check_err q
      in case err of
           Some e \<Rightarrow> Some (Some e, q1)
         | None \<Rightarrow>
             let q2 = (if req_is_write req then q1 else stop_batching q1)
             in if length (wq_requests q2) < wq_capacity q2
                then Some (None, q2\<lparr>wq_requests := wq_requests q2 @ [req]\<rparr>) else None)"

text \<open>
  The closure that \<open>push_write\<close> runs on the newest request. Its result is the batch if it has to be
  pushed, \<open>None\<close> if it was appended, or the error of \<open>append\<close>; and the newest request afterwards.
\<close>

definition try_append :: "queue_config \<Rightarrow> ('b \<Rightarrow> nat) \<Rightarrow> ('b \<Rightarrow> 'b \<Rightarrow> store_error option \<times> 'b)
    \<Rightarrow> bool \<Rightarrow> bool \<Rightarrow> 'b \<Rightarrow> 'b request option
    \<Rightarrow> (store_error, 'b option) result \<times> 'b request option" where
  "try_append c weight append_batch young lock_free batch newest =
     (case newest of
        None \<Rightarrow> (Inr (Some batch), None)
      | Some req \<Rightarrow>
          if req_processed req then (Inr (Some batch), Some req)
          else
            (case req of
               ReqWrite existing p \<Rightarrow>
                 if young \<and> lock_free \<and> weight existing < qc_write_batch_size c
                 then (case append_batch batch existing of
                         (Some e, existing') \<Rightarrow> (Inl e, Some (ReqWrite existing' p))
                       | (None, existing') \<Rightarrow> (Inr None, Some (ReqWrite existing' p)))
                 else (Inr (Some batch), Some req)
             | ReqRevertTo _ _ _ \<Rightarrow> (Inr (Some batch), Some req)
             | ReqStop \<Rightarrow> (Inr (Some batch), Some req)))"

definition put_newest :: "'a list \<Rightarrow> 'a option \<Rightarrow> 'a list" where
  "put_newest xs newest = (case newest of None \<Rightarrow> xs | Some x \<Rightarrow> butlast xs @ [x])"

definition push_write :: "queue_config \<Rightarrow> ('b \<Rightarrow> nat) \<Rightarrow> ('b \<Rightarrow> 'b \<Rightarrow> store_error option \<times> 'b)
    \<Rightarrow> bool \<Rightarrow> bool \<Rightarrow> 'b \<Rightarrow> ('b, 's) write_queue
    \<Rightarrow> (store_error option \<times> ('b, 's) write_queue) option" where
  "push_write c weight append_batch young lock_free batch q =
     (let (res, q1) =
        (if qc_write_batch_size c = 0 \<or> qc_write_batch_duration_is_zero c \<or> \<not> wq_batch_writes q
         then (Inr (Some batch), q)
         else
           let (r, newest) = try_append c weight append_batch young lock_free batch
                 (if wq_requests q = [] then None else Some (last (wq_requests q)))
           in (r, q\<lparr>wq_requests := put_newest (wq_requests q) newest\<rparr>))
      in case res of
           Inl e \<Rightarrow> Some (Some e, q1)
         | Inr None \<Rightarrow> Some (None, q1)
         | Inr (Some b) \<Rightarrow> queue_push (request_write b) q1)"

definition queue_stop :: "('b, 's) write_queue \<Rightarrow> (store_error option \<times> ('b, 's) write_queue) option" where
  "queue_stop q = queue_push ReqStop (stop_batching q)"

text \<open>
  \<open>flush\<close> before and after it waits for the queue to become empty; \<open>batching\<close> is the flag that it
  restores.
\<close>

definition flush_begin :: "('b, 's) write_queue \<Rightarrow> store_error option \<times> bool \<times> ('b, 's) write_queue" where
  "flush_begin q =
     (let (err, q1) = check_err q
      in case err of
           Some e \<Rightarrow> (Some e, wq_batch_writes q1, q1)
         | None \<Rightarrow> (None, wq_batch_writes q1, stop_batching q1))"

definition flush_end :: "bool \<Rightarrow> ('b, 's) write_queue \<Rightarrow> (store_error option \<times> ('b, 's) write_queue) option" where
  "flush_end batching q =
     (if wq_requests q = [] then Some (check_err (q\<lparr>wq_batch_writes := batching\<rparr>)) else None)"

section \<open>The background writer\<close>

text \<open>
  The writer waits at the front while the inner loop of \<open>start_writer\<close> says so, marks the request,
  executes it, and then removes it, or records the error and ends.
\<close>

definition keeps_waiting :: "queue_config \<Rightarrow> ('b \<Rightarrow> nat) \<Rightarrow> bool \<Rightarrow> ('b, 's) write_queue \<Rightarrow> bool" where
  "keeps_waiting c weight old q \<longleftrightarrow>
     wq_batch_writes q \<and> length (wq_requests q) \<le> 1 \<and>
     (case wq_requests q of [] \<Rightarrow> True | req # _ \<Rightarrow> \<not> should_process c weight old req)"

definition writer_start :: "('b, 's) write_queue \<Rightarrow> ('b, 's) write_queue option" where
  "writer_start q =
     (case (wq_phase q, wq_requests q) of
        (Waiting, req # reqs) \<Rightarrow>
          Some (q\<lparr>wq_requests := start_process req # reqs, wq_phase := Executing\<rparr>)
      | _ \<Rightarrow> None)"

definition writer_execute ::
  "('b request \<Rightarrow> 's \<Rightarrow> (store_error, exec_result \<times> 's) result) \<Rightarrow> ('b, 's) write_queue
    \<Rightarrow> ('b, 's) write_queue option" where
  "writer_execute execute q =
     (case (wq_phase q, wq_requests q) of
        (Executing, req # reqs) \<Rightarrow>
          (case execute req (wq_store q) of
             Inr (_, s) \<Rightarrow> Some (q\<lparr>wq_store := s, wq_phase := Executed\<rparr>)
           | Inl e \<Rightarrow> Some ((record_err (if e = Panic then WriterPanic else e) q)\<lparr>wq_phase := WriterFinished\<rparr>))
      | _ \<Rightarrow> None)"

definition writer_pop :: "('b, 's) write_queue \<Rightarrow> ('b, 's) write_queue option" where
  "writer_pop q =
     (case (wq_phase q, wq_requests q) of
        (Executed, req # reqs) \<Rightarrow>
          Some (q\<lparr>wq_requests := reqs,
                  wq_phase := (case req of ReqStop \<Rightarrow> WriterFinished | _ \<Rightarrow> Waiting)\<rparr>)
      | _ \<Rightarrow> None)"

section \<open>The writable store\<close>

text \<open>\<open>WritableStore\<close> keeps the head that the subgraph has reached, queued writes included.\<close>

record ('b, 's) writable_store =
  ws_block_ptr :: "block_ptr option"
  ws_block_cursor :: "string option"
  ws_is_deployment_synced :: bool
  ws_queue :: "('b, 's) write_queue"

definition check_queue_running :: "('b, 's) write_queue \<Rightarrow> store_error option \<times> ('b, 's) write_queue" where
  "check_queue_running q =
     (let (err, q1) = check_err q
      in case err of
           Some e \<Rightarrow> (Some e, q1)
         | None \<Rightarrow> (if wq_phase q1 = WriterFinished then Some (ConstraintViolation WriterNotRunning) else None, q1))"

definition writer_write :: "('b \<Rightarrow> ('b, 's) write_queue \<Rightarrow> (store_error option \<times> ('b, 's) write_queue) option)
    \<Rightarrow> 'b \<Rightarrow> ('b, 's) write_queue \<Rightarrow> (store_error option \<times> ('b, 's) write_queue) option" where
  "writer_write do_push batch q =
     (let (err, q1) = check_queue_running q
      in case err of Some e \<Rightarrow> Some (Some e, q1) | None \<Rightarrow> do_push batch q1)"

definition writer_revert :: "block_ptr \<Rightarrow> string option \<Rightarrow> ('b, 's) write_queue
    \<Rightarrow> (store_error option \<times> ('b, 's) write_queue) option" where
  "writer_revert ptr cursor q =
     (let (err, q1) = check_queue_running q
      in case err of Some e \<Rightarrow> Some (Some e, q1) | None \<Rightarrow> queue_push (request_revert ptr cursor) q1)"

definition ws_revert_block_operations :: "block_ptr \<Rightarrow> string option \<Rightarrow> ('b, 's) writable_store
    \<Rightarrow> (store_error option \<times> ('b, 's) writable_store) option" where
  "ws_revert_block_operations ptr cursor w =
     map_option (\<lambda>(err, q). (err, w\<lparr>ws_block_ptr := Some ptr, ws_block_cursor := cursor, ws_queue := q\<rparr>))
       (writer_revert ptr cursor (ws_queue w))"

definition ws_write ::
  "('b \<Rightarrow> ('b, 's) write_queue \<Rightarrow> (store_error option \<times> ('b, 's) write_queue) option)
    \<Rightarrow> (store_error, 'b) result \<Rightarrow> block_ptr \<Rightarrow> string option \<Rightarrow> ('b, 's) writable_store
    \<Rightarrow> (store_error option \<times> ('b, 's) writable_store) option" where
  "ws_write do_push new_batch ptr cursor w =
     (case new_batch of
        Inl e \<Rightarrow> Some (Some e, w)
      | Inr batch \<Rightarrow>
          map_option
            (\<lambda>(err, q). case err of
               Some e \<Rightarrow> (Some e, w\<lparr>ws_queue := q\<rparr>)
             | None \<Rightarrow> (None, w\<lparr>ws_queue := q, ws_block_ptr := Some ptr, ws_block_cursor := cursor\<rparr>))
            (writer_write do_push batch (ws_queue w)))"

text \<open>
  \<open>deployment_synced\<close>: \<open>store_synced\<close> is the result of the method of \<open>SyncStore\<close> that promotes the
  deployment in the primary database.
\<close>

definition ws_deployment_synced :: "(store_error, unit) result \<Rightarrow> ('b, 's) writable_store
    \<Rightarrow> store_error option \<times> ('b, 's) writable_store" where
  "ws_deployment_synced store_synced w =
     (let w1 = w\<lparr>ws_queue := stop_batching (ws_queue w)\<rparr>
      in if ws_is_deployment_synced w1 then (None, w1)
         else case store_synced of
                Inl e \<Rightarrow> (Some e, w1)
              | Inr _ \<Rightarrow> (None, w1\<lparr>ws_is_deployment_synced := True\<rparr>))"

text \<open>
  \<open>transact_block_operations\<close>: \<open>do_push\<close> is \<open>push_write\<close> with its inputs, \<open>new_batch\<close> is
  \<open>Batch::new\<close> applied to the arguments of the call.
\<close>

definition ws_transact_block_operations ::
  "('b \<Rightarrow> ('b, 's) write_queue \<Rightarrow> (store_error option \<times> ('b, 's) write_queue) option)
    \<Rightarrow> (store_error, 'b) result \<Rightarrow> (store_error, unit) result \<Rightarrow> bool \<Rightarrow> block_ptr \<Rightarrow> string option
    \<Rightarrow> ('b, 's) writable_store \<Rightarrow> (store_error option \<times> ('b, 's) writable_store) option" where
  "ws_transact_block_operations do_push new_batch store_synced caught_up ptr cursor w =
     (let (err, w1) = (if caught_up then ws_deployment_synced store_synced w
                       else (None, w\<lparr>ws_queue := start_batching (ws_queue w)\<rparr>))
      in case err of
           Some e \<Rightarrow> Some (Some e, w1)
         | None \<Rightarrow>
             (case ws_block_ptr w1 of
                Some head \<Rightarrow>
                  if number ptr \<le> number head
                  then Some (Some (ConstraintViolation (HeadIsAlreadyAt ptr head)), w1)
                  else ws_write do_push new_batch ptr cursor w1
              | None \<Rightarrow> ws_write do_push new_batch ptr cursor w1))"

end
