(* ===== verification/Write_Queue_Refines.thy ===== *)
theory Write_Queue_Refines
  imports Write_Queue
begin

text \<open>
  What the write queue promises: a client that reads through it sees the state that a synchronous
  store would have after all requests, whatever the background writer has done so far. The proofs
  are in two locales, for the laws of lookups (\<open>batch_store\<close>) and for the laws of appending and
  executing (\<open>batch_queue\<close>); both are interpreted on the tables of a deployment.
\<close>

section \<open>Requests on an abstract store\<close>

text \<open>
  Executing requests one after the other, with the heads they start from and lead to: a write goes
  forward, a revert goes backward.
\<close>

fun exec_reqs :: "(('d, 'ds, 'e) batch \<Rightarrow> 's \<Rightarrow> 's \<Rightarrow> bool) \<Rightarrow> (block_number \<Rightarrow> 's \<Rightarrow> 's \<Rightarrow> bool)
    \<Rightarrow> ('d, 'ds, 'e) batch request list \<Rightarrow> block_number \<Rightarrow> 's \<Rightarrow> 's \<Rightarrow> block_number \<Rightarrow> bool" where
  "exec_reqs do_write revert [] h s s' h' \<longleftrightarrow> s' = s \<and> h' = h"
| "exec_reqs do_write revert (ReqWrite b _ # rs) h s s' h' \<longleftrightarrow>
     (\<exists>s1. do_write b s s1 \<and> h < b_first_block b
        \<and> exec_reqs do_write revert rs (number (b_block_ptr b)) s1 s' h')"
| "exec_reqs do_write revert (ReqRevertTo ptr _ _ # rs) h s s' h' \<longleftrightarrow>
     (\<exists>s1. revert (number ptr) s s1 \<and> number ptr \<le> h \<and> exec_reqs do_write revert rs (number ptr) s1 s' h')"
| "exec_reqs do_write revert (ReqStop # rs) h s s' h' \<longleftrightarrow> exec_reqs do_write revert rs h s s' h'"

lemma exec_reqs_append:
  "exec_reqs do_write revert (xs @ ys) h s s' h' \<longleftrightarrow>
     (\<exists>s1 h1. exec_reqs do_write revert xs h s s1 h1 \<and> exec_reqs do_write revert ys h1 s1 s' h')"
  by (induction "do_write" revert xs h s s' h' rule: exec_reqs.induct) auto

lemma exec_reqs_start_process [simp]:
  "exec_reqs do_write revert (start_process r # rs) = exec_reqs do_write revert (r # rs)"
  by (intro ext, cases r) simp_all

lemma exec_reqs_Cons:
  "exec_reqs do_write revert (r # rs) h s s' h' \<longleftrightarrow>
     (\<exists>s1 h1. exec_reqs do_write revert [r] h s s1 h1 \<and> exec_reqs do_write revert rs h1 s1 s' h')"
  using exec_reqs_append[of do_write revert "[r]" rs] by simp

lemma batch_last_op_earlier:
  assumes "batch_last_op b key at = None" and "at' \<le> at"
  shows "batch_last_op b key at' = None"
  using assms
  by (auto simp: batch_last_op_def rg_last_op_def rfind_None_iff split: option.splits)

section \<open>Looking up through the queue\<close>

locale batch_store =
  fixes lookup :: "'s \<Rightarrow> block_number \<Rightarrow> 'd option"
    and key :: entity_key
    and head_at :: "block_number \<Rightarrow> 's \<Rightarrow> bool"
    and do_write :: "('d, 'ds, 'e) batch \<Rightarrow> 's \<Rightarrow> 's \<Rightarrow> bool"
    and revert :: "block_number \<Rightarrow> 's \<Rightarrow> 's \<Rightarrow> bool"
  assumes write_lookup: "do_write b s s' \<Longrightarrow> head_at h s \<Longrightarrow> h < b_first_block b \<Longrightarrow> at \<le> BLOCK_NUMBER_MAX \<Longrightarrow>
      lookup s' at = (case batch_last_op b key at of Some p \<Rightarrow> op_result p | None \<Rightarrow> lookup s at)"
    and write_head: "do_write b s s' \<Longrightarrow> head_at h s \<Longrightarrow> h < b_first_block b \<Longrightarrow>
      head_at (number (b_block_ptr b)) s'"
    and write_blocks: "do_write b s s' \<Longrightarrow> b_first_block b \<le> number (b_block_ptr b)"
    and last_op_start: "do_write b s s' \<Longrightarrow> at < b_first_block b \<Longrightarrow> batch_last_op b key at = None"
    and revert_lookup: "revert n s s' \<Longrightarrow> head_at h s \<Longrightarrow> n \<le> h \<Longrightarrow> lookup s' at = lookup s (min at n)"
    and revert_head: "revert n s s' \<Longrightarrow> head_at h s \<Longrightarrow> n \<le> h \<Longrightarrow> head_at n s'"
    and lookup_from_head: "head_at h s \<Longrightarrow> h \<le> at \<Longrightarrow> at \<le> BLOCK_NUMBER_MAX \<Longrightarrow> lookup s at = lookup s h"
begin

abbreviation exec :: "('d, 'ds, 'e) batch request list \<Rightarrow> block_number \<Rightarrow> 's \<Rightarrow> 's \<Rightarrow> block_number \<Rightarrow> bool" where
  "exec \<equiv> exec_reqs do_write revert"

lemma exec_head: "exec rs h s s' h' \<Longrightarrow> head_at h s \<Longrightarrow> head_at h' s'"
proof (induction rs arbitrary: h s)
  case (Cons r rs)
  then show ?case by (cases r) (auto dest: write_head revert_head)
qed simp

text \<open>
  The invariant of the walk: the state after all requests, seen at \<open>BLOCK_NUMBER_MAX\<close>, is the state
  reached so far seen at the tracker's \<open>revert\<close>; and the tracker's \<open>block\<close> is not below both
  that and the head.
\<close>

lemma track_find_exec:
  assumes "exec (rev ns) h s s' h'" and "head_at h s"
    and "track_find (\<lambda>b at. batch_last_op b key at) ns t = (res, t')"
    and "bt_revert t \<le> BLOCK_NUMBER_MAX" and "bt_block t \<le> bt_revert t" and "min h' (bt_revert t) \<le> bt_block t"
  shows "case res of Some p \<Rightarrow> lookup s' (bt_revert t) = op_result p
    | None \<Rightarrow> lookup s' (bt_revert t) = lookup s (bt_revert t') \<and> bt_revert t' \<le> BLOCK_NUMBER_MAX
        \<and> bt_block t' \<le> bt_revert t' \<and> min h (bt_revert t') \<le> bt_block t'"
  using assms
proof (induction ns arbitrary: s' h' t)
  case Nil
  then show ?case by auto
next
  case (Cons r ns)
  from Cons.prems(1) obtain s1 h1 where e: "exec (rev ns) h s s1 h1" "exec [r] h1 s1 s' h'"
    by (auto simp: exec_reqs_append)
  have h1: "head_at h1 s1" using exec_head[OF e(1) Cons.prems(2)] .
  show ?case
  proof (cases r)
    case (ReqWrite b p)
    with e(2) have w: "do_write b s1 s'" "h1 < b_first_block b" "h' = number (b_block_ptr b)" by auto
    let ?t = "tracker_write (b_block_ptr b) t"
    have bl: "bt_block ?t \<le> bt_revert ?t" "min h1 (bt_revert ?t) \<le> bt_block ?t" "bt_revert ?t = bt_revert t"
      using Cons.prems(5,6) w(2,3) write_blocks[OF w(1)] by (auto simp: tracker_write_def)
    have l: "lookup s' (bt_revert t) =
        (case batch_last_op b key (bt_revert t) of Some p \<Rightarrow> op_result p | None \<Rightarrow> lookup s1 (bt_revert t))"
      using write_lookup[OF w(1) h1 w(2) Cons.prems(4)] .
    show ?thesis
    proof (cases "b_first_block b \<le> bt_revert t \<and> batch_last_op b key (bt_revert t) \<noteq> None")
      case True
      then obtain p where "batch_last_op b key (bt_revert t) = Some p" by blast
      then show ?thesis using Cons.prems(3) True l bl(3) by (auto simp: ReqWrite Let_def)
    next
      case False
      then have n: "batch_last_op b key (bt_revert t) = None"
        using last_op_start[OF w(1), of "bt_revert t"] by (cases "b_first_block b \<le> bt_revert t") auto
      then have "track_find (\<lambda>b at. batch_last_op b key at) ns ?t = (res, t')"
        using Cons.prems(3) bl(3) by (simp add: ReqWrite Let_def split: if_splits)
      from Cons.IH[OF e(1) Cons.prems(2) this _ bl(1,2)] Cons.prems(4)
      show ?thesis using l n bl(3) by (simp split: option.splits)
    qed
  next
    case (ReqRevertTo ptr c p)
    with e(2) have w: "revert (number ptr) s1 s'" "number ptr \<le> h1" "h' = number ptr" by auto
    let ?t = "tracker_revert ptr t"
    have bl: "bt_block ?t \<le> bt_revert ?t" "min h1 (bt_revert ?t) \<le> bt_block ?t"
      "bt_revert ?t = min (bt_revert t) (number ptr)" "bt_revert ?t \<le> BLOCK_NUMBER_MAX"
      using Cons.prems(4,5,6) w(2,3) by (auto simp: tracker_revert_def)
    have l: "lookup s' (bt_revert t) = lookup s1 (bt_revert ?t)"
      using revert_lookup[OF w(1) h1 w(2)] bl(3) by simp
    have "track_find (\<lambda>b at. batch_last_op b key at) ns ?t = (res, t')"
      using Cons.prems(3) by (simp add: ReqRevertTo)
    from Cons.IH[OF e(1) Cons.prems(2) this bl(4) bl(1,2)] show ?thesis
      unfolding l .
  next
    case ReqStop
    with e(2) Cons.prems(3) have "s1 = s'" "h1 = h'"
      "track_find (\<lambda>b at. batch_last_op b key at) ns t = (res, t')" by auto
    with Cons.IH[OF e(1) Cons.prems(2) _ Cons.prems(4,5)] Cons.prems(6) show ?thesis by blast
  qed
qed

text \<open>At the end of the walk it does not matter which of the two blocks is used.\<close>

lemma lookup_query_block:
  assumes "head_at h s" and "r \<le> BLOCK_NUMBER_MAX" and "b \<le> r" and "min h r \<le> b"
  shows "lookup s b = lookup s r"
proof (cases "h \<le> r")
  case True
  then show ?thesis
    using assms lookup_from_head[OF assms(1), of b] lookup_from_head[OF assms(1), of r] by simp
next
  case False
  then show ?thesis using assms by simp
qed

text \<open>The oldest request may have been executed already: the lookup at the end does not see it.\<close>

lemma track_find_append:
  "track_find f (xs @ ys) t = (None, t') \<Longrightarrow>
     \<exists>t1. track_find f xs t = (None, t1) \<and> track_find f ys t1 = (None, t')"
  by (induction f xs t rule: track_find.induct) (auto simp: Let_def split: option.splits)

lemma lookup_after_front:
  assumes "exec [r] h s u h1" and "head_at h s"
    and "track_find (\<lambda>b at. batch_last_op b key at) (ns @ [r]) t = (None, t')"
    and "bt_revert t' \<le> BLOCK_NUMBER_MAX" and "bt_block t' \<le> bt_revert t'"
  shows "lookup u (bt_block t') = lookup s (bt_block t')"
proof -
  from track_find_append[OF assms(3)] obtain t1 where
    t1: "track_find (\<lambda>b at. batch_last_op b key at) [r] t1 = (None, t')" by blast
  show ?thesis
  proof (cases r)
    case (ReqWrite b p)
    with assms(1) have w: "do_write b s u" "h < b_first_block b" by auto
    have "batch_last_op b key (bt_revert t') = None"
    proof (cases "b_first_block b \<le> bt_revert t'")
      case True
      then show ?thesis using t1 by (auto simp: ReqWrite Let_def split: option.splits if_splits)
    next
      case False
      then show ?thesis using last_op_start[OF w(1)] by simp
    qed
    then have "batch_last_op b key (bt_block t') = None"
      using batch_last_op_earlier assms(5) by blast
    then show ?thesis using write_lookup[OF w(1) assms(2) w(2), of "bt_block t'"] assms(4,5) by simp
  next
    case (ReqRevertTo ptr c p)
    with assms(1) have "revert (number ptr) s u" "number ptr \<le> h" by auto
    moreover have "bt_block t' \<le> number ptr"
      using t1 by (auto simp: ReqRevertTo tracker_revert_def)
    ultimately show ?thesis using revert_lookup[OF _ assms(2)] by (simp add: min_absorb1)
  next
    case ReqStop
    then show ?thesis using assms(1) by simp
  qed
qed

theorem get_sees_all_requests:
  assumes "exec reqs h s d h'" and "head_at h s"
    and "u = s \<or> (\<exists>r rs h1. reqs = r # rs \<and> exec [r] h s u h1)"
  shows "queue_get (\<lambda>_ at. Inr (lookup u at)) reqs key = Inr (lookup d BLOCK_NUMBER_MAX)"
proof -
  let ?f = "\<lambda>b at. batch_last_op b key at"
  obtain res t where w: "track_find ?f (rev reqs) tracker_new = (res, t)" by fastforce
  have x: "exec (rev (rev reqs)) h s d h'" using assms(1) by simp
  have c: "case res of Some p \<Rightarrow> lookup d (bt_revert tracker_new) = op_result p
    | None \<Rightarrow> lookup d (bt_revert tracker_new) = lookup s (bt_revert t) \<and> bt_revert t \<le> BLOCK_NUMBER_MAX
        \<and> bt_block t \<le> bt_revert t \<and> min h (bt_revert t) \<le> bt_block t"
    by (rule track_find_exec[OF x assms(2) w]) (simp_all add: tracker_new_def)
  show ?thesis
  proof (cases res)
    case (Some p)
    then show ?thesis using c w
      by (auto simp: queue_get_def tracker_find_map_def op_result_def tracker_new_def split: entity_op.splits)
  next
    case None
    with c have f: "lookup d BLOCK_NUMBER_MAX = lookup s (bt_revert t)" "bt_revert t \<le> BLOCK_NUMBER_MAX"
      "bt_block t \<le> bt_revert t" "min h (bt_revert t) \<le> bt_block t" by (simp_all add: tracker_new_def)
    have "lookup u (bt_block t) = lookup s (bt_block t)"
      using assms(3) lookup_after_front[OF _ assms(2) _ f(2,3)] w None by auto
    also have "\<dots> = lookup s (bt_revert t)" using lookup_query_block[OF assms(2) f(2,3,4)] .
    finally show ?thesis using w None f(1)
      by (simp add: queue_get_def tracker_find_map_def query_block_def)
  qed
qed

end


section \<open>The queue and its writer, step by step\<close>

inductive writer_step :: "('b request \<Rightarrow> 's \<Rightarrow> (store_error, exec_result \<times> 's) result)
    \<Rightarrow> ('b, 's) write_queue \<Rightarrow> ('b, 's) write_queue \<Rightarrow> bool" for execute where
  start: "writer_start q = Some q' \<Longrightarrow> writer_step execute q q'"
| execute: "writer_execute execute q = Some q' \<Longrightarrow> writer_step execute q q'"
| pop: "writer_pop q = Some q' \<Longrightarrow> writer_step execute q q'"

text \<open>
  The states that client calls and the writer reach in any order, each with the state that a
  synchronous store would be in after the calls that returned without an error (\<open>d\<close>) and its
  head. The relations \<open>do_write\<close> and \<open>do_revert\<close> say what a call does to that store, \<open>view\<close> what is
  compared of a store, and \<open>ok\<close> what holds of the store at the start. The writer may start on a
  request at any moment: \<open>keeps_waiting\<close> only delays it.
\<close>

inductive queue_run ::
  "queue_config \<Rightarrow> (('d, 'ds, 'e) batch \<Rightarrow> nat)
    \<Rightarrow> (('d, 'ds, 'e) batch \<Rightarrow> ('d, 'ds, 'e) batch \<Rightarrow> store_error option \<times> ('d, 'ds, 'e) batch)
    \<Rightarrow> (('d, 'ds, 'e) batch request \<Rightarrow> 'c \<Rightarrow> (store_error, exec_result \<times> 'c) result)
    \<Rightarrow> (('d, 'ds, 'e) batch \<Rightarrow> 's \<Rightarrow> 's \<Rightarrow> bool) \<Rightarrow> (block_number \<Rightarrow> 's \<Rightarrow> 's \<Rightarrow> bool)
    \<Rightarrow> ('c \<Rightarrow> 's) \<Rightarrow> (block_number \<Rightarrow> 'c \<Rightarrow> bool)
    \<Rightarrow> (('d, 'ds, 'e) batch, 'c) write_queue \<Rightarrow> 's \<Rightarrow> block_number \<Rightarrow> bool"
  for c weight append_batch execute do_write do_revert view ok where
  start: "ok h s \<Longrightarrow> queue_run c weight append_batch execute do_write do_revert view ok
      (queue_start capacity s) (view s) h"
| write_call: "queue_run c weight append_batch execute do_write do_revert view ok q d h \<Longrightarrow>
    do_write b d d' \<Longrightarrow> h < b_first_block b \<Longrightarrow>
    push_write c weight append_batch young lock_free b q = Some (None, q') \<Longrightarrow>
    queue_run c weight append_batch execute do_write do_revert view ok q' d' (number (b_block_ptr b))"
| revert_call: "queue_run c weight append_batch execute do_write do_revert view ok q d h \<Longrightarrow>
    do_revert (number ptr) d d' \<Longrightarrow> number ptr \<le> h \<Longrightarrow>
    queue_push (request_revert ptr cursor) q = Some (None, q') \<Longrightarrow>
    queue_run c weight append_batch execute do_write do_revert view ok q' d' (number ptr)"
| stop_call: "queue_run c weight append_batch execute do_write do_revert view ok q d h \<Longrightarrow>
    queue_stop q = Some (None, q') \<Longrightarrow>
    queue_run c weight append_batch execute do_write do_revert view ok q' d h"
| batching: "queue_run c weight append_batch execute do_write do_revert view ok q d h \<Longrightarrow>
    queue_run c weight append_batch execute do_write do_revert view ok (q\<lparr>wq_batch_writes := flag\<rparr>) d h"
| check: "queue_run c weight append_batch execute do_write do_revert view ok q d h \<Longrightarrow>
    queue_run c weight append_batch execute do_write do_revert view ok (snd (check_err q)) d h"
| writer: "queue_run c weight append_batch execute do_write do_revert view ok q d h \<Longrightarrow>
    writer_step execute q q' \<Longrightarrow>
    queue_run c weight append_batch execute do_write do_revert view ok q' d h"

text \<open>The request that the writer works on is marked, or it is a stop request.\<close>

definition phase_ok :: "('b, 's) write_queue \<Rightarrow> bool" where
  "phase_ok q \<longleftrightarrow> (wq_phase q \<in> {Executing, Executed} \<longrightarrow>
     (\<exists>r rs. wq_requests q = r # rs \<and> (req_processed r \<or> r = ReqStop)))"

lemma check_err_fine: "wq_write_err q = None \<Longrightarrow> \<not> wq_poisoned q \<Longrightarrow> check_err q = (None, q)"
  by (simp add: check_err_def)

lemma check_err_poisoned: "wq_poisoned q \<Longrightarrow> wq_poisoned (snd (check_err q)) \<and> fst (check_err q) \<noteq> None"
  by (simp add: check_err_def split: option.splits)

lemma queue_push_fine:
  assumes "queue_push req q = Some (None, q')" and "wq_write_err q = None" and "\<not> wq_poisoned q"
  shows "\<exists>flag. q' = q\<lparr>wq_batch_writes := flag, wq_requests := wq_requests q @ [req]\<rparr>"
  using assms
  by (cases "req_is_write req")
     (auto simp: queue_push_def check_err_fine stop_batching_def Let_def split: if_splits
       intro: exI[of _ "wq_batch_writes q"])

lemma queue_push_poisoned: "queue_push req q = Some (err, q') \<Longrightarrow> wq_poisoned q \<Longrightarrow> wq_poisoned q'"
  using check_err_poisoned[of q]
  by (auto simp: queue_push_def Let_def split: prod.splits option.splits)

text \<open>What a successful \<open>push_write\<close> did: it pushed a request, or appended to the newest one.\<close>

lemma push_write_cases:
  assumes "push_write c weight append_batch young lock_free b q = Some (None, q')"
    and "wq_write_err q = None" and "\<not> wq_poisoned q"
  obtains (pushed) flag where
      "q' = q\<lparr>wq_batch_writes := flag, wq_requests := wq_requests q @ [ReqWrite b False]\<rparr>"
  | (appended) xs existing existing' where "wq_requests q = xs @ [ReqWrite existing False]"
      "append_batch b existing = (None, existing')"
      "q' = q\<lparr>wq_requests := xs @ [ReqWrite existing' False]\<rparr>"
proof -
  consider "queue_push (request_write b) q = Some (None, q')"
    | r newest q1 where "try_append c weight append_batch young lock_free b
            (if wq_requests q = [] then None else Some (last (wq_requests q))) = (r, newest)"
        "q1 = q\<lparr>wq_requests := put_newest (wq_requests q) newest\<rparr>"
        "r = Inr None \<and> q' = q1 \<or> (\<exists>x. r = Inr (Some x) \<and> queue_push (request_write x) q1 = Some (None, q'))"
    using assms(1) by (auto simp: push_write_def Let_def split: if_splits prod.splits sum.splits option.splits)
  then show thesis
  proof cases
    case 1
    from queue_push_fine[OF this assms(2,3)] show thesis
      using pushed by (auto simp: request_write_def)
  next
    case 2
    show thesis
    proof (cases "wq_requests q = []")
      case True
      with 2 have "r = Inr (Some b)" "q1 = q" by (simp_all add: try_append_def put_newest_def)
      with 2(3) have "queue_push (request_write b) q = Some (None, q')" by simp
      from queue_push_fine[OF this assms(2,3)] show thesis
        using pushed by (auto simp: request_write_def)
    next
      case False
      then obtain xs req where xs: "wq_requests q = xs @ [req]" by (metis rev_exhaust)
      show thesis
      proof (cases "r = Inr None")
        case True
        with 2(1) xs obtain existing existing' where e: "req = ReqWrite existing False"
          "append_batch b existing = (None, existing')" "newest = Some (ReqWrite existing' False)"
          by (auto simp: try_append_def split: if_splits request.splits prod.splits option.splits)
        with 2 xs True show thesis by (intro appended) (auto simp: put_newest_def)
      next
        case f: False
        have n: "r = Inr (Some b) \<and> newest = Some req"
          using 2 xs f
          by (auto simp: try_append_def split: if_splits request.splits prod.splits option.splits)
        then have "q1 = q" using 2(2) xs by (simp add: put_newest_def)
        with 2(3) n have "queue_push (request_write b) q = Some (None, q')" by simp
        from queue_push_fine[OF this assms(2,3)] show thesis
          using pushed by (auto simp: request_write_def)
      qed
    qed
  qed
qed

lemma push_write_poisoned:
  assumes "push_write c weight append_batch young lock_free b q = Some (err, q')" and "wq_poisoned q"
  shows "wq_poisoned q'"
  using assms
  by (auto simp: push_write_def Let_def split: if_splits prod.splits sum.splits option.splits
      dest: queue_push_poisoned)


section \<open>The queue keeps step with the synchronous store\<close>

locale batch_queue = batch_store lookup key head_at do_write do_revert
  for lookup :: "'s \<Rightarrow> block_number \<Rightarrow> 'd option" and key :: entity_key
    and head_at :: "block_number \<Rightarrow> 's \<Rightarrow> bool"
    and do_write :: "('d, 'ds, 'e) batch \<Rightarrow> 's \<Rightarrow> 's \<Rightarrow> bool"
    and do_revert :: "block_number \<Rightarrow> 's \<Rightarrow> 's \<Rightarrow> bool" +
  fixes view :: "'c \<Rightarrow> 's"
    and ok :: "block_number \<Rightarrow> 'c \<Rightarrow> bool"
    and append_batch :: "('d, 'ds, 'e) batch \<Rightarrow> ('d, 'ds, 'e) batch \<Rightarrow> store_error option \<times> ('d, 'ds, 'e) batch"
    and execute :: "('d, 'ds, 'e) batch request \<Rightarrow> 'c \<Rightarrow> (store_error, exec_result \<times> 'c) result"
  assumes ok_head: "ok h st \<Longrightarrow> head_at h (view st)"
    and write_fun: "do_write b s s1 \<Longrightarrow> do_write b s s2 \<Longrightarrow> s2 = s1"
    and revert_fun: "do_revert n s s1 \<Longrightarrow> do_revert n s s2 \<Longrightarrow> s2 = s1"
    and append_write: "append_batch b2 b1 = (None, b) \<Longrightarrow> do_write b1 s s1 \<Longrightarrow> do_write b2 s1 s2 \<Longrightarrow>
      head_at h s \<Longrightarrow> h < b_first_block b1 \<Longrightarrow> number (b_block_ptr b1) < b_first_block b2 \<Longrightarrow>
      do_write b s s2 \<and> b_first_block b = b_first_block b1 \<and> b_block_ptr b = b_block_ptr b2"
    and execute_write: "execute (ReqWrite b p) st = Inr (x, st') \<Longrightarrow> ok h st \<Longrightarrow> do_write b (view st) d \<Longrightarrow>
      h < b_first_block b \<Longrightarrow> view st' = d \<and> ok (number (b_block_ptr b)) st'"
    and execute_revert: "execute (ReqRevertTo ptr cursor p) st = Inr (x, st') \<Longrightarrow> ok h st \<Longrightarrow>
      do_revert (number ptr) (view st) d \<Longrightarrow> number ptr \<le> h \<Longrightarrow> view st' = d \<and> ok (number ptr) st'"
    and execute_stop: "execute ReqStop st = Inr (x, st') \<Longrightarrow> st' = st"
begin

lemma exec_fun: "exec rs h s s1 h1 \<Longrightarrow> exec rs h s s2 h2 \<Longrightarrow> s2 = s1 \<and> h2 = h1"
proof (induction rs arbitrary: h s)
  case (Cons r rs)
  show ?case
  proof (cases r)
    case (ReqWrite b p)
    with Cons.prems obtain m1 m2 where m: "do_write b s m1" "do_write b s m2"
      "exec rs (number (b_block_ptr b)) m1 s1 h1" "exec rs (number (b_block_ptr b)) m2 s2 h2" by auto
    have "m2 = m1" using m(1,2) by (rule write_fun)
    with m Cons.IH show ?thesis by blast
  next
    case (ReqRevertTo ptr c p)
    with Cons.prems obtain m1 m2 where m: "do_revert (number ptr) s m1" "do_revert (number ptr) s m2"
      "exec rs (number ptr) m1 s1 h1" "exec rs (number ptr) m2 s2 h2" by auto
    have "m2 = m1" using m(1,2) by (rule revert_fun)
    with m Cons.IH show ?thesis by blast
  next
    case ReqStop
    with Cons show ?thesis by auto
  qed
qed simp

text \<open>One request, executed by the writer.\<close>

lemma execute_one:
  assumes "execute r s = Inr (x, s')" and "ok h s" and "exec [r] h (view s) d h1"
  shows "view s' = d \<and> ok h1 s'"
proof (cases r)
  case (ReqWrite b p)
  with assms(3) have "do_write b (view s) d" "h < b_first_block b" "h1 = number (b_block_ptr b)" by auto
  then show ?thesis using execute_write[of b p s x s' h d] assms(1,2) ReqWrite by simp
next
  case (ReqRevertTo ptr c p)
  with assms(3) have "do_revert (number ptr) (view s) d" "number ptr \<le> h" "h1 = number ptr" by auto
  then show ?thesis using execute_revert[of ptr c p s x s' h d] assms(1,2) ReqRevertTo by simp
next
  case ReqStop
  with assms execute_stop show ?thesis by auto
qed

text \<open>
  The simulation: from some state \<open>s0\<close>, the requests in the queue lead to \<open>d\<close>; the store is at
  \<open>s0\<close>, or already past the front request.
\<close>

definition sim :: "(('d, 'ds, 'e) batch, 'c) write_queue \<Rightarrow> 's \<Rightarrow> block_number \<Rightarrow> bool" where
  "sim q d h \<longleftrightarrow> wq_poisoned q \<or>
     wq_write_err q = None \<and> phase_ok q \<and>
     (\<exists>h0 s0. head_at h0 s0 \<and> exec (wq_requests q) h0 s0 d h \<and>
        (if wq_phase q = Executed
         then \<exists>r rs h1. wq_requests q = r # rs \<and> exec [r] h0 s0 (view (wq_store q)) h1 \<and> ok h1 (wq_store q)
         else view (wq_store q) = s0 \<and> ok h0 (wq_store q)))"

lemma sim_ExecutedI:
  assumes "wq_phase q = Executed" and "wq_requests q = r # rs" and "head_at h0 s0"
    and "exec (r # rs) h0 s0 d h" and "exec [r] h0 s0 (view (wq_store q)) h1" and "ok h1 (wq_store q)"
    and "wq_write_err q = None" and "phase_ok q"
  shows "sim q d h"
  unfolding sim_def using assms by metis

lemma sim_batching: "sim (q\<lparr>wq_batch_writes := flag\<rparr>) d h = sim q d h"
  by (cases q) (simp only: sim_def phase_ok_def write_queue.simps)

text \<open>Requests at the back leave the front alone.\<close>

lemma sim_extend:
  assumes "sim q d h" and "\<not> wq_poisoned q"
    and "q' = q\<lparr>wq_batch_writes := flag, wq_requests := wq_requests q @ [r]\<rparr>" and "exec [r] h d d' h'"
  shows "sim q' d' h'"
  using assms unfolding sim_def phase_ok_def by (auto simp: exec_reqs_append split: if_splits) blast+

lemma sim_replace_newest:
  assumes "sim q d h" and "\<not> wq_poisoned q" and "wq_requests q = xs @ [ReqWrite e False]"
    and "append_batch b e = (None, e')" and "do_write b d d'" and "h < b_first_block b"
  shows "sim (q\<lparr>wq_requests := xs @ [ReqWrite e' False]\<rparr>) d' (number (b_block_ptr b))"
proof -
  from assms(1,2) obtain h0 s0 where s: "wq_write_err q = None" "phase_ok q" "head_at h0 s0"
    "exec (wq_requests q) h0 s0 d h"
    "if wq_phase q = Executed
     then \<exists>r rs h1. wq_requests q = r # rs \<and> exec [r] h0 s0 (view (wq_store q)) h1 \<and> ok h1 (wq_store q)
     else view (wq_store q) = s0 \<and> ok h0 (wq_store q)" by (auto simp: sim_def)
  from s(4) assms(3) obtain s1 h1 where x: "exec xs h0 s0 s1 h1" "do_write e s1 d" "h1 < b_first_block e"
    "h = number (b_block_ptr e)" by (auto simp: exec_reqs_append)
  have "head_at h1 s1" using exec_head[OF x(1) s(3)] .
  from append_write[OF assms(4) x(2) assms(5) this x(3)] assms(6) x(4)
  have a: "do_write e' s1 d'" "b_first_block e' = b_first_block e" "b_block_ptr e' = b_block_ptr b" by auto
  have "exec (xs @ [ReqWrite e' False]) h0 s0 d' (number (b_block_ptr b))"
    using x a by (auto simp: exec_reqs_append)
  moreover have "xs \<noteq> []" if "wq_phase q \<in> {Executing, Executed}"
    using s(2) that assms(3) by (auto simp: phase_ok_def)
  ultimately show ?thesis using s assms(3)
    unfolding sim_def phase_ok_def by (cases xs) (auto split: if_splits)
qed

lemma sim_push_write:
  assumes "sim q d h" and "push_write c weight append_batch young lock_free b q = Some (None, q')"
    and "do_write b d d'" and "h < b_first_block b"
  shows "sim q' d' (number (b_block_ptr b))"
proof (cases "wq_poisoned q")
  case True
  then show ?thesis using push_write_poisoned[OF assms(2) True] by (simp add: sim_def)
next
  case False
  with assms(1) have e: "wq_write_err q = None" by (simp add: sim_def)
  from assms(2) e False show ?thesis
  proof (cases rule: push_write_cases)
    case (pushed flag)
    then show ?thesis using sim_extend[OF assms(1) False pushed] assms(3,4) by simp
  next
    case (appended xs existing existing')
    then show ?thesis using sim_replace_newest[OF assms(1) False appended(1,2) assms(3,4)] by simp
  qed
qed

lemma sim_push:
  assumes "sim q d h" and "queue_push r q = Some (None, q')" and "exec [r] h d d' h'"
  shows "sim q' d' h'"
proof (cases "wq_poisoned q")
  case True
  then show ?thesis using queue_push_poisoned[OF assms(2) True] by (simp add: sim_def)
next
  case False
  with assms(1) have "wq_write_err q = None" by (simp add: sim_def)
  from queue_push_fine[OF assms(2) this False] obtain flag where
    "q' = q\<lparr>wq_batch_writes := flag, wq_requests := wq_requests q @ [r]\<rparr>" by blast
  then show ?thesis using sim_extend[OF assms(1) False _ assms(3)] by blast
qed

lemma sim_writer_start:
  assumes "sim q d h" and "writer_start q = Some q'"
  shows "sim q' d h"
proof -
  from assms(2) obtain r rs where r: "wq_phase q = Waiting" "wq_requests q = r # rs"
    "q' = q\<lparr>wq_requests := start_process r # rs, wq_phase := Executing\<rparr>"
    by (auto simp: writer_start_def split: writer_phase.splits list.splits)
  have "req_processed (start_process r) \<or> start_process r = ReqStop" by (cases r) simp_all
  then show ?thesis using assms(1) r by (auto simp: sim_def phase_ok_def)
qed

lemma sim_writer_execute:
  assumes "sim q d h" and "writer_execute execute q = Some q'"
  shows "sim q' d h"
proof (cases "wq_poisoned q")
  case True
  then show ?thesis using assms(2)
    by (auto simp: sim_def writer_execute_def record_err_def
        split: writer_phase.splits list.splits sum.splits prod.splits)
next
  case False
  from assms(2) obtain r rs where r: "wq_phase q = Executing" "wq_requests q = r # rs"
    by (auto simp: writer_execute_def split: writer_phase.splits list.splits)
  show ?thesis
  proof (cases "execute r (wq_store q)")
    case (Inl e)
    then show ?thesis using assms(2) r by (auto simp: sim_def writer_execute_def record_err_def)
  next
    case (Inr y)
    obtain x s' where y: "y = (x, s')" by fastforce
    with assms(2) r Inr have q': "q' = q\<lparr>wq_store := s', wq_phase := Executed\<rparr>"
      by (auto simp: writer_execute_def)
    from assms(1) False r obtain h0 where s: "wq_write_err q = None" "phase_ok q"
      "head_at h0 (view (wq_store q))" "exec (r # rs) h0 (view (wq_store q)) d h" "ok h0 (wq_store q)"
      by (auto simp: sim_def)
    from s(4) obtain s1 h1 where x: "exec [r] h0 (view (wq_store q)) s1 h1"
      by (subst (asm) exec_reqs_Cons) blast
    from execute_one[OF _ s(5) x] Inr y have "view s' = s1" "ok h1 s'" by auto
    then have "exec [r] h0 (view (wq_store q)) (view s') h1" "ok h1 s'" using x by simp_all
    moreover have "phase_ok q'" using s(2) r by (auto simp: phase_ok_def q')
    ultimately show ?thesis using s(1,3,4) r(2)
      by (intro sim_ExecutedI[of q' r rs h0 "view (wq_store q)" d h h1]) (simp_all add: q')
  qed
qed

lemma sim_writer_pop:
  assumes "sim q d h" and "writer_pop q = Some q'"
  shows "sim q' d h"
proof -
  from assms(2) obtain r rs ph where r: "wq_phase q = Executed" "wq_requests q = r # rs"
    "q' = q\<lparr>wq_requests := rs, wq_phase := ph\<rparr>" "ph \<in> {Waiting, WriterFinished}"
    by (auto simp: writer_pop_def split: writer_phase.splits list.splits request.splits)
  show ?thesis
  proof (cases "wq_poisoned q")
    case True
    then show ?thesis using r by (simp add: sim_def)
  next
    case False
    with assms(1) r obtain h0 s0 h1 where s: "wq_write_err q = None" "head_at h0 s0"
      "exec (r # rs) h0 s0 d h" "exec [r] h0 s0 (view (wq_store q)) h1" "ok h1 (wq_store q)"
      by (auto simp: sim_def)
    from s(3) obtain s1 h1' where x: "exec [r] h0 s0 s1 h1'" "exec rs h1' s1 d h"
      by (subst (asm) exec_reqs_Cons) blast
    from exec_fun[OF s(4) x(1)] have e: "s1 = view (wq_store q)" "h1' = h1" by auto
    have "exec rs h1 (view (wq_store q)) d h" using x(2) unfolding e .
    moreover have "phase_ok q'" using r by (auto simp: phase_ok_def)
    ultimately show ?thesis unfolding sim_def using r s(1,5) ok_head[OF s(5)] by auto
  qed
qed

theorem run_simulates:
  assumes "queue_run c weight append_batch execute do_write do_revert view ok q d h"
  shows "sim q d h"
  using assms
proof (induction rule: queue_run.induct)
  case (start h s capacity)
  then show ?case using ok_head[OF start] by (auto simp: sim_def queue_start_def phase_ok_def)
next
  case (write_call q d h b d' young lock_free q')
  then show ?case using sim_push_write by blast
next
  case (revert_call q d h ptr d' cursor q')
  have "exec [request_revert ptr cursor] h d d' (number ptr)"
    using revert_call.hyps(2,3) by (simp add: request_revert_def)
  with revert_call.IH revert_call.hyps(4) show ?case by (rule sim_push)
next
  case (stop_call q d h q')
  have "sim (stop_batching q) d h" using stop_call.IH by (simp add: sim_batching stop_batching_def)
  then show ?case using sim_push[of "stop_batching q" d h ReqStop q' d h] stop_call.hyps(2)
    by (simp add: queue_stop_def)
next
  case (batching q d h flag)
  then show ?case by (simp add: sim_batching)
next
  case (check q d h)
  show ?case
  proof (cases "wq_poisoned q")
    case True
    then show ?thesis using check_err_poisoned[OF True] by (simp add: sim_def)
  next
    case False
    with check.IH have "check_err q = (None, q)" by (auto simp: sim_def check_err_fine)
    then show ?thesis using check.IH by simp
  qed
next
  case (writer q d h q')
  from writer.hyps(2) show ?case
    by cases (use writer.IH sim_writer_start sim_writer_execute sim_writer_pop in blast)+
qed

theorem run_get:
  assumes "queue_run c weight append_batch execute do_write do_revert view ok q d h"
    and "\<not> wq_poisoned q"
  shows "queue_get (\<lambda>_ at. Inr (lookup (view (wq_store q)) at)) (wq_requests q) key
    = Inr (lookup d BLOCK_NUMBER_MAX)"
proof -
  from run_simulates[OF assms(1)] assms(2) obtain h0 s0 where s: "head_at h0 s0"
    "exec (wq_requests q) h0 s0 d h"
    "view (wq_store q) = s0 \<or> (\<exists>r rs h1. wq_requests q = r # rs \<and> exec [r] h0 s0 (view (wq_store q)) h1)"
    by (auto simp: sim_def split: if_splits)
  then show ?thesis using get_sees_all_requests by blast
qed

end

end
