(* ===== verification/Queue_On_Store.thy ===== *)
theory Queue_On_Store
  imports Write_Queue_Refines
begin

text \<open>
  The locales of \<open>Write_Queue_Refines\<close> on the model of the store: batches are the batches of
  \<open>Batch\<close>, the synchronous store is the tables of a deployment, and executing a request is the
  transaction of \<open>Deployment_Store\<close>.
\<close>

section \<open>The tables as an abstract store\<close>

text \<open>\<open>types\<close> are the entity types that have a table, \<open>key\<close> is the key that is looked up.\<close>

definition batch_fits :: "(entity_type \<Rightarrow> bool) \<Rightarrow> entity_type set \<Rightarrow> entity_key
    \<Rightarrow> ('d, 'ds, 'e) batch \<Rightarrow> bool" where
  "batch_fits im types key b \<longleftrightarrow> batch_inv im b \<and> b_error b = None
     \<and> number (b_block_ptr b) < BLOCK_NUMBER_MAX
     \<and> (\<forall>g \<in> set (b_mods b). rg_entity_type g \<in> types)
     \<and> (\<forall>et. no_end_if (im et) (rows_of (b_mods b) et)) \<and> one_key key (rows_of (b_mods b) (key_type key))"

definition db_write :: "(entity_type \<Rightarrow> bool) \<Rightarrow> entity_type set \<Rightarrow> entity_key
    \<Rightarrow> ('d, 'ds, 'e) batch \<Rightarrow> 'd db \<Rightarrow> 'd db \<Rightarrow> bool" where
  "db_write im types key b db db' \<longleftrightarrow> batch_fits im types key b \<and> exec_groups (b_mods b) db db'"

definition db_revert :: "entity_type set \<Rightarrow> block_number \<Rightarrow> 'd db \<Rightarrow> 'd db \<Rightarrow> bool" where
  "db_revert types n db db' \<longleftrightarrow>
     db' = (\<lambda>et. if et \<in> types then snd (revert_table (n + 1) (db et)) else db et)"

definition db_at_head :: "(entity_type \<Rightarrow> bool) \<Rightarrow> entity_type set \<Rightarrow> block_number \<Rightarrow> 'd db \<Rightarrow> bool" where
  "db_at_head im types h db \<longleftrightarrow> h < BLOCK_NUMBER_MAX
     \<and> (\<forall>et \<in> types. at_head h (db et) \<and> kinds_ok (db et) \<and> t_immutable (db et) = im et)"

definition db_lookup :: "entity_type set \<Rightarrow> entity_key \<Rightarrow> 'd db \<Rightarrow> block_number \<Rightarrow> 'd option" where
  "db_lookup types key db at =
     (if key_type key \<in> types then layout_find (db (key_type key)) key at else None)"

lemma batch_last_op_rows: "batch_last_op b key at = rows_last_op (rows_of (b_mods b) (key_type key)) key at"
  by (auto simp: batch_last_op_def rows_of_def rg_last_op_rows rows_last_op_def split: option.splits)

lemma batch_fits_rows:
  assumes "batch_fits im types key b"
  shows "rows_inv (rows_of (b_mods b) et)"
    and "\<forall>m \<in> set (rows_of (b_mods b) et). row_between (b_first_block b) (number (b_block_ptr b)) m"
    and "et \<notin> types \<Longrightarrow> rows_of (b_mods b) et = []"
    and "b_first_block b \<le> number (b_block_ptr b)" and "number (b_block_ptr b) < BLOCK_NUMBER_MAX"
    and "no_end_if (im et) (rows_of (b_mods b) et)"
proof -
  have i: "batch_inv im b" using assms by (simp add: batch_fits_def)
  then show "rows_inv (rows_of (b_mods b) et)" using groups_inv_rows(1) by (auto simp: batch_inv_def)
  show "\<forall>m \<in> set (rows_of (b_mods b) et). row_between (b_first_block b) (number (b_block_ptr b)) m"
    using i by (simp add: batch_inv_def)
  show "b_first_block b \<le> number (b_block_ptr b)" using i by (simp add: batch_inv_def)
  show "et \<notin> types \<Longrightarrow> rows_of (b_mods b) et = []"
    using assms by (intro rows_of_absent) (auto simp: batch_fits_def)
  show "number (b_block_ptr b) < BLOCK_NUMBER_MAX" "no_end_if (im et) (rows_of (b_mods b) et)"
    using assms by (simp_all add: batch_fits_def)
qed

text \<open>What the table of an immutable type holds stays of its kind.\<close>

lemma exec_mod_kinds_ok:
  assumes "exec_mod m t = Inr t'" and "kinds_ok t"
  shows "kinds_ok t'"
proof (cases "t_immutable t")
  case False
  then show ?thesis using exec_mod_flags[OF assms(1)] by (simp add: kinds_ok_def)
next
  case True
  from assms(1) obtain t1 where t1: "exec_clamp m t = Inr t1" "exec_write m t1 = Inr t'"
    by (auto simp: exec_mod_def bind_res_Inr_iff)
  have "t1 = t" using t1(1) True by (auto simp: exec_clamp_def clamp_range_query_def split: if_splits)
  then have "\<forall>v \<in> set (t_rows t'). v \<in> set (t_rows t) \<or> (\<exists>k. v_range v = Immutable k)"
    using t1(2) True
    by (auto simp: exec_write_def insert_query_Inr_iff new_version_def bind_res_Inr_iff split: option.splits)
  then show ?thesis using assms(2) True by (auto simp: kinds_ok_def)
qed

lemma exec_mods_kinds_ok: "exec_mods ms t = Inr t' \<Longrightarrow> kinds_ok t \<Longrightarrow> kinds_ok t'"
  by (rule fold_res_invariant[where P = kinds_ok]) (auto intro: exec_mod_kinds_ok)

text \<open>A table at a head looks the same from the head on.\<close>

lemma visible_from_head:
  "range_at_head h r \<Longrightarrow> h \<le> at \<Longrightarrow> h < BLOCK_NUMBER_MAX \<Longrightarrow> visible at r = visible h r"
  by (cases "(h, r)" rule: range_at_head.cases) (auto simp: range_contains_iff split: option.splits)

lemma layout_find_from_head:
  assumes "at_head h t" and "h \<le> at" and "h < BLOCK_NUMBER_MAX"
  shows "layout_find t key at = layout_find t key h"
proof -
  have "find (selects t key at) (t_rows t) = find (selects t key h) (t_rows t)"
    by (rule find_cong) (use assms visible_from_head in \<open>auto simp: selects_def at_head_def\<close>)
  then show ?thesis by (simp add: layout_find_selects)
qed

text \<open>The laws of \<open>batch_store\<close>.\<close>

lemma db_write_lookup:
  assumes "db_write im types key b db db'" and "db_at_head im types h db" and "h < b_first_block b"
    and "at \<le> BLOCK_NUMBER_MAX"
  shows "db_lookup types key db' at =
    (case batch_last_op b key at of Some p \<Rightarrow> op_result p | None \<Rightarrow> db_lookup types key db at)"
proof -
  let ?et = "key_type key"
  from assms(1) have f: "batch_fits im types key b" and e: "exec_groups (b_mods b) db db'"
    by (simp_all add: db_write_def)
  note r = batch_fits_rows[OF f]
  show ?thesis
  proof (cases "?et \<in> types")
    case True
    have "\<forall>m \<in> set (rows_of (b_mods b) ?et). h < emod_block m"
      using r(2) assms(3) by (fastforce simp: row_between_def)
    moreover have "exec_mods (rows_of (b_mods b) ?et) (db ?et) = Inr (db' ?et)"
      using e by (simp add: exec_groups_def)
    moreover have "at_head h (db ?et)" "t_immutable (db ?et) = im ?et"
      using assms(2) True by (simp_all add: db_at_head_def)
    ultimately show ?thesis
      using last_op_correct[of "rows_of (b_mods b) ?et" "db ?et" "db' ?et" h key at] r(1,6)[of ?et] f
        assms(4) True
      by (simp add: batch_last_op_rows db_lookup_def batch_fits_def split: option.splits)
  next
    case False
    then show ?thesis using r(3) by (simp add: batch_last_op_rows db_lookup_def rows_last_op_def)
  qed
qed

lemma db_write_head:
  assumes "db_write im types key b db db'" and "db_at_head im types h db" and "h < b_first_block b"
  shows "db_at_head im types (number (b_block_ptr b)) db'"
proof -
  from assms(1) have f: "batch_fits im types key b" and e: "exec_groups (b_mods b) db db'"
    by (simp_all add: db_write_def)
  have "at_head (number (b_block_ptr b)) (db' et) \<and> kinds_ok (db' et) \<and> t_immutable (db' et) = im et"
    if et: "et \<in> types" for et
  proof -
    note r = batch_fits_rows[OF f]
    have x: "exec_mods (rows_of (b_mods b) et) (db et) = Inr (db' et)"
      using e by (simp add: exec_groups_def)
    have "at_head (number (b_block_ptr b)) (db' et)"
    proof (rule exec_mods_at_head[OF x])
      show "\<forall>m \<in> set (rows_of (b_mods b) et). emod_ok m" using r(1) by (simp add: rows_inv_def)
      show "at_head h (db et)" using assms(2) et by (simp add: db_at_head_def)
      show "h \<le> number (b_block_ptr b)" using assms(3) r(4) by linarith
      show "\<forall>m \<in> set (rows_of (b_mods b) et). emod_block m \<le> number (b_block_ptr b)
          \<and> (\<forall>e. emod_end m = Some e \<longrightarrow> e \<le> number (b_block_ptr b))"
        using r(2) by (fastforce simp: row_between_def)
    qed
    then show ?thesis using exec_mods_kinds_ok[OF x] exec_mods_flags[OF x] assms(2) et
      by (simp add: db_at_head_def)
  qed
  then show ?thesis using batch_fits_rows(5)[OF f] by (simp add: db_at_head_def)
qed

lemma db_last_op_start:
  assumes "db_write im types key b db db'" and "at < b_first_block b"
  shows "batch_last_op b key at = None"
proof -
  have "batch_fits im types key b" using assms(1) by (simp add: db_write_def)
  then have "\<forall>m \<in> set (rows_of (b_mods b) (key_type key)). b_first_block b \<le> emod_block m"
    using batch_fits_rows(2) by (fastforce simp: row_between_def)
  then show ?thesis using assms(2)
    by (force simp: batch_last_op_rows rows_last_op_def rfind_None_iff)
qed

lemma db_revert_lookup:
  assumes "db_revert types n db db'" and "db_at_head im types h db" and "n \<le> h"
  shows "db_lookup types key db' at = db_lookup types key db (min at n)"
  using assms revert_find[of h "db (key_type key)" n key at]
  by (auto simp: db_lookup_def db_revert_def db_at_head_def)

lemma db_revert_head:
  assumes "db_revert types n db db'" and "db_at_head im types h db" and "n \<le> h"
  shows "db_at_head im types n db'"
proof -
  have "t_immutable (snd (revert_table k t)) = t_immutable t" for k and t :: "'a table"
    by (simp add: revert_table_rows)
  then show ?thesis using assms revert_at_head[of h _ n] by (auto simp: db_revert_def db_at_head_def)
qed

lemma db_lookup_from_head:
  assumes "db_at_head im types h db" and "h \<le> at"
  shows "db_lookup types key db at = db_lookup types key db h"
  using assms layout_find_from_head[of h "db (key_type key)" at key]
  by (simp add: db_lookup_def db_at_head_def)

interpretation tables: batch_store "db_lookup types key" key "db_at_head im types"
  "db_write im types key" "db_revert types"
  for types key im
proof (unfold_locales, goal_cases)
  case (1 b s s' h at)
  then show ?case by (rule db_write_lookup)
next
  case (2 b s s' h)
  then show ?case by (rule db_write_head)
next
  case (3 b s s')
  then show ?case by (auto simp: db_write_def dest: batch_fits_rows(4))
next
  case (4 b s s' at)
  then show ?case by (rule db_last_op_start)
next
  case (5 n s s' h at)
  then show ?case by (rule db_revert_lookup)
next
  case (6 n s s' h)
  then show ?case by (rule db_revert_head)
next
  case (7 h s at)
  then show ?case using db_lookup_from_head by blast
qed


section \<open>Appending and executing\<close>

lemma append_rows_immutable:
  assumes "fold_res append_row rows g = Inr g'" and "rg_immutable g"
  shows "rg_rows g' = rg_rows g @ rows"
  using assms
proof (induction rows arbitrary: g)
  case (Cons r rows)
  from Cons.prems(1) obtain g1 where g1: "append_row r g = Inr g1" "fold_res append_row rows g1 = Inr g'"
    by (auto simp: bind_res_Inr_iff)
  from append_row_immutable[OF g1(1) Cons.prems(2)] have "rg_rows g1 = rg_rows g @ [r]" "rg_immutable g1"
    using Cons.prems(2) by (auto simp: rg_push_row_def)
  then show ?case using Cons.IH[OF g1(2)] by simp
qed simp

lemma batch_append_fits:
  assumes "batch_append im weigh b2 b1 = (None, b)" and "db_write im types key b1 s s1"
    and "db_write im types key b2 s1 s2" and "db_at_head im types h s"
    and "number (b_block_ptr b1) < b_first_block b2"
  shows "db_write im types key b s s2"
proof -
  from assms(2,3) have f: "batch_fits im types key b1" "batch_fits im types key b2"
    and e: "exec_groups (b_mods b1) s s1" "exec_groups (b_mods b2) s1 s2" by (simp_all add: db_write_def)
  note a = batch_append_None[OF assms(1)]
  have i: "batch_inv im b1" "batch_inv im b2" using f by (simp_all add: batch_fits_def)
  then have d: "distinct (map rg_entity_type (b_mods b1))" "distinct (map rg_entity_type (b_mods b2))"
    and gi: "groups_inv im (b_mods b1)" "groups_inv im (b_mods b2)"
    by (simp_all add: batch_inv_def groups_inv_def)
  have imm: "t_immutable (s et) = im et" if "rows_of (b_mods b1) et \<noteq> [] \<or> rows_of (b_mods b2) et \<noteq> []" for et
    using that batch_fits_rows(3)[OF f(1)] batch_fits_rows(3)[OF f(2)] assms(4)
    by (auto simp: db_at_head_def)
  note c = batch_append_correct[OF assms(1) i assms(5) e imm]
  have rows: "fold_res append_row (rows_of (b_mods b2) et) (group_of im (b_mods b1) et)
      = Inr (group_of im (b_mods b) et)" for et
    using groups_append_rows[OF a(2) d] by blast
  have types: "\<forall>g \<in> set (b_mods b). rg_entity_type g \<in> types"
  proof
    fix g assume g: "g \<in> set (b_mods b)"
    have "rg_entity_type ` set (b_mods b) \<subseteq> rg_entity_type ` set (b_mods b1) \<union> rg_entity_type ` set (b_mods b2)"
      using groups_append_types[OF a(2) d(1)] .
    then show "rg_entity_type g \<in> types" using g f by (fastforce simp: batch_fits_def)
  qed
  have no_end: "no_end_if (im et) (rows_of (b_mods b) et)" for et
  proof (cases "im et")
    case True
    then have "rg_immutable (group_of im (b_mods b1) et)" using groups_inv_rows(3)[OF gi(1)] by simp
    from append_rows_immutable[OF rows this]
    show ?thesis using batch_fits_rows(6)[OF f(1), of et] batch_fits_rows(6)[OF f(2), of et]
      by (auto simp: group_of_rows no_end_if_def)
  qed (simp add: no_end_if_def)
  have one: "one_key key (rows_of (b_mods b) (key_type key))"
  proof -
    have "\<forall>m \<in> set (rows_of (b_mods x) (key_type key)).
        key_id (emod_key m) = key_id key \<longrightarrow> emod_key m = key" if "batch_fits im types key x" for x
        :: "('a, 'b, 'c) batch"
      using that by (auto simp: batch_fits_def one_key_def emod_id_def)
    from this[OF f(1)] this[OF f(2)] have "\<forall>m \<in> set (rg_rows (group_of im (b_mods b) (key_type key))).
        key_id (emod_key m) = key_id key \<longrightarrow> emod_key m = key"
      by (intro append_rows_keys[OF rows, where P = "\<lambda>k. key_id k = key_id key \<longrightarrow> k = key"])
         (simp_all add: group_of_rows)
    then show ?thesis by (simp add: one_key_def emod_id_def group_of_rows)
  qed
  have "batch_fits im types key b"
    using c(1) a(3,5) f types no_end one by (simp add: batch_fits_def)
  then show ?thesis using c(2) by (simp add: db_write_def)
qed

text \<open>The store behind the writer: the two methods of \<open>SyncStore\<close> that \<open>Request::execute\<close> calls.\<close>

definition exec_transact :: "('d, 'r) store_config \<Rightarrow> 'd stored_batch \<Rightarrow> 'd deployment
    \<Rightarrow> (store_error, 'd deployment) result" where
  "exec_transact c b d =
     (case transact_block_operations c b None d of
        Some (Inr (_, d')) \<Rightarrow> Inr d' | Some (Inl e) \<Rightarrow> Inl e | None \<Rightarrow> Inl Panic)"

definition exec_revert :: "('d, 'r) store_config \<Rightarrow> block_ptr \<Rightarrow> string option \<Rightarrow> 'd deployment
    \<Rightarrow> (store_error, 'd deployment) result" where
  "exec_revert c ptr cursor = revert_block_operations (c_reorg_threshold c) ptr cursor"

definition view_tables :: "'d deployment \<Rightarrow> 'd db" where
  "view_tables d = db_of (d_tables d)"

text \<open>
  No aggregations and no interfaces with several implementations; every table of the layout is at
  the head and its insert statements have room for a row.
\<close>

definition deployment_ok :: "('d, 'r) store_config \<Rightarrow> (entity_type \<Rightarrow> bool) \<Rightarrow> entity_type set
    \<Rightarrow> block_number \<Rightarrow> 'd deployment \<Rightarrow> bool" where
  "deployment_ok c im types h d \<longleftrightarrow> c_rollups c = [] \<and> (\<forall>et. c_share_interfaces c et = [])
     \<and> distinct (map fst (d_tables d)) \<and> fst ` set (d_tables d) = types
     \<and> (\<forall>(et, t) \<in> set (d_tables d). 0 < t_chunk_size t) \<and> db_at_head im types h (view_tables d)"

lemma db_of_in: "distinct (map fst ts) \<Longrightarrow> (et, t) \<in> set ts \<Longrightarrow> db_of ts et = t"
  by (simp add: db_of_def)

lemma db_of_out: "et \<notin> fst ` set ts \<Longrightarrow> db_of ts et = the None"
  by (simp add: db_of_def map_of_eq_None_iff[THEN iffD2])

lemma exec_transact_write:
  assumes "req_execute (exec_transact c) (exec_revert c) (ReqWrite b p) d = Inr (x, d')"
    and "deployment_ok c im types h d" and "db_write im types key b (view_tables d) db'"
    and "h < b_first_block b"
  shows "view_tables d' = db' \<and> deployment_ok c im types (number (b_block_ptr b)) d'"
proof -
  from assms(3) have f: "batch_fits im types key b" and e: "exec_groups (b_mods b) (db_of (d_tables d)) db'"
    by (simp_all add: db_write_def view_tables_def)
  from assms(2) have k: "c_rollups c = []" "\<And>et. c_share_interfaces c et = []" "distinct (map fst (d_tables d))"
    "fst ` set (d_tables d) = types" "\<forall>(et, t) \<in> set (d_tables d). 0 < t_chunk_size t"
    "db_at_head im types h (view_tables d)" by (auto simp: deployment_ok_def)
  from assms(1) obtain earliest where t: "transact_block_operations c b None d = Some (Inr (earliest, d'))"
    by (auto simp: bind_res_Inr_iff exec_transact_def split: option.splits sum.splits)
  obtain ts' where ts: "d_tables d' = ts'" "map fst ts' = map fst (d_tables d)"
    "\<forall>et \<in> fst ` set (d_tables d). map_of ts' et = Some (db' et)"
    using transact_tables[OF t _ e _ _ k(5,1)] f k(2,4) by (auto simp: batch_fits_def batch_inv_def)
  have keys: "fst ` set ts' = types" using ts(2) k(4) by (metis list.set_map)
  have v: "view_tables d' = db'"
  proof
    fix et show "view_tables d' et = db' et"
    proof (cases "et \<in> types")
      case True
      then show ?thesis using ts(1,3) k(4) by (simp add: view_tables_def db_of_def)
    next
      case False
      have "db' et = db_of (d_tables d) et"
        using e[unfolded exec_groups_def, THEN spec, of et] batch_fits_rows(3)[OF f False] by simp
      then show ?thesis using False keys k(4) ts(1) db_of_out[of et ts'] db_of_out[of et "d_tables d"]
        by (simp add: view_tables_def)
    qed
  qed
  have chunk: "0 < t_chunk_size t" if "(et, t) \<in> set ts'" for et t
  proof -
    have et: "et \<in> types" using that keys by force
    have "t = db' et"
      using ts(2,3) that k(3,4) et by (metis map_of_is_SomeI option.inject)
    moreover have "exec_mods (rows_of (b_mods b) et) (db_of (d_tables d) et) = Inr (db' et)"
      using e by (simp add: exec_groups_def)
    moreover obtain t0 where "(et, t0) \<in> set (d_tables d)" using et k(4) by force
    ultimately show ?thesis using exec_mods_chunk_size k(3,5) db_of_in by fastforce
  qed
  have "db_at_head im types (number (b_block_ptr b)) db'"
    using db_write_head[OF assms(3) k(6) assms(4)] .
  then show ?thesis using v chunk keys ts(1,2) k(1,2,3) by (auto simp: deployment_ok_def)
qed


lemma exec_revert_tables:
  assumes "req_execute (exec_transact c) (exec_revert c) (ReqRevertTo ptr cursor p) d = Inr (x, d')"
    and "deployment_ok c im types h d" and "db_revert types (number ptr) (view_tables d) db'"
    and "number ptr \<le> h"
  shows "view_tables d' = db' \<and> deployment_ok c im types (number ptr) d'"
proof -
  from assms(2) have k: "c_rollups c = []" "\<forall>et. c_share_interfaces c et = []" "distinct (map fst (d_tables d))"
    "fst ` set (d_tables d) = types" "\<forall>(et, t) \<in> set (d_tables d). 0 < t_chunk_size t"
    "db_at_head im types h (view_tables d)" by (simp_all add: deployment_ok_def)
  from assms(1) have "rewind_or_truncate (c_reorg_threshold c) ptr cursor False d = Inr d'"
    by (auto simp: bind_res_Inr_iff exec_revert_def revert_block_operations_def split: option.splits if_splits)
  then have t: "d_tables d' = map (\<lambda>(et, t). (et, snd (revert_table (number ptr + 1) t))) (d_tables d)"
    by (drule_tac rewind_Inr) (simp add: layout_revert_block_def)
  have keys: "map fst (d_tables d') = map fst (d_tables d)" unfolding t by (induction "d_tables d") auto
  have m: "map_of (d_tables d') et = map_option (\<lambda>t. snd (revert_table (number ptr + 1) t)) (map_of (d_tables d) et)" for et
    unfolding t by (induction "d_tables d" arbitrary: d) (auto simp: map_of_map)
  have v: "view_tables d' = db'"
  proof
    fix et show "view_tables d' et = db' et"
    proof (cases "et \<in> types")
      case True
      then obtain t where "map_of (d_tables d) et = Some t"
        using k(4) by (metis map_of_eq_None_iff not_None_eq)
      then show ?thesis using assms(3) m[of et] True by (simp add: view_tables_def db_of_def db_revert_def)
    next
      case False
      then have "map_of (d_tables d) et = None" using k(4) by (simp add: map_of_eq_None_iff)
      then show ?thesis using assms(3) m[of et] False by (simp add: view_tables_def db_of_def db_revert_def)
    qed
  qed
  have "db_at_head im types (number ptr) db'" using db_revert_head[OF assms(3) k(6) assms(4)] .
  moreover have "\<forall>(et, t) \<in> set (d_tables d'). 0 < t_chunk_size t"
    using k(5) by (auto simp: t revert_table_rows)
  moreover have "fst ` set (d_tables d') = types" using keys k(4) by (metis list.set_map)
  ultimately show ?thesis using v keys k(1,2,3) by (simp add: deployment_ok_def)
qed

interpretation writer: batch_queue "db_lookup types key" key "db_at_head im types"
  "db_write im types key" "db_revert types" view_tables "deployment_ok c im types"
  "batch_append im weigh" "req_execute (exec_transact c) (exec_revert c)"
  for types key im c weigh
proof (unfold_locales, goal_cases)
  case (1 h st)
  then show ?case by (simp add: deployment_ok_def)
next
  case (2 b s s1 s2)
  then have "s2 et = s1 et" for et unfolding db_write_def exec_groups_def by (metis sum.inject(2))
  then show ?case by blast
next
  case (3 n s s1 s2)
  then show ?case by (simp add: db_revert_def)
next
  case (4 b2 b1 b s s1 s2 h)
  show ?case using batch_append_fits[OF 4(1,2,3,4,6)] batch_append_None(3,4)[OF 4(1)] by simp
next
  case (5 b p st x st' h d)
  show ?case by (rule exec_transact_write[OF 5])
next
  case (6 ptr cursor p st x st' h d)
  show ?case by (rule exec_revert_tables[OF 6])
next
  case (7 st x st')
  then show ?case by simp
qed

end
