(* ===== verification/Store_Properties.thy ===== *)
theory Store_Properties
  imports Queue_On_Store
begin

text \<open>
  The properties of the store: row groups, batches, tables, rollups and deployments, and their
  witnesses. The example that the witnesses share is a table of tokens, \<open>tokens\<close>, with one token
  whose current version is from block 1, and changes to it at the blocks 5 and 8.
\<close>

section \<open>The example\<close>

definition token_key :: entity_key where
  "token_key = \<lparr>key_type = ''Token'', key_id = IdString ''a'', key_causality_region = CR_ONCHAIN\<rparr>"

definition tokens :: "nat table" where
  "tokens = \<lparr>t_immutable = False, t_has_causality_region = False, t_is_account_like = False,
     t_complete = (\<lambda>_. True), t_chunk_size = 2,
     t_rows = [\<lparr>v_id = IdString ''a'', v_entity = 1, v_causality_region = CR_ONCHAIN,
                v_range = Mutable (Int4range 1 None)\<rparr>]\<rparr>"

text \<open>The token changes at block 5 and is removed at block 8; and the same after folding.\<close>

definition token_changes :: "nat entity_modification list" where
  "token_changes = [Overwrite token_key 2 5 None, Remove token_key 8]"

definition token_group :: "nat row_group" where
  "token_group = \<lparr>rg_entity_type = ''Token'', rg_rows = [Overwrite token_key 2 5 (Some 8)],
     rg_immutable = False\<rparr>"

definition tokens_after :: "nat table" where
  "tokens_after = tokens\<lparr>t_rows :=
     [\<lparr>v_id = IdString ''a'', v_entity = 1, v_causality_region = CR_ONCHAIN,
       v_range = Mutable (Int4range 1 (Some 5))\<rparr>,
      \<lparr>v_id = IdString ''a'', v_entity = 2, v_causality_region = CR_ONCHAIN,
       v_range = Mutable (Int4range 5 (Some 8))\<rparr>]\<rparr>"

lemmas tokens_defs = token_key_def tokens_def token_changes_def token_group_def tokens_after_def
  CR_ONCHAIN_def BLOCK_NUMBER_MAX_def

lemmas exec_defs = exec_mod_def exec_clamp_def exec_write_def clamp_range_query_def clamp_rows_def
  clamp_selects_def clamp_version_def insert_query_def new_version_def

lemma token_exec: "exec_mods (rg_rows token_group) tokens = Inr tokens_after"
  by (simp add: tokens_defs exec_defs)

lemma token_exec_changes: "exec_mods token_changes tokens = Inr tokens_after"
  by (simp add: tokens_defs exec_defs)

lemma token_rows_inv: "rows_inv (rg_rows token_group)" "rows_inv [Overwrite token_key 2 5 None]"
  "rows_inv [Remove token_key 8]"
  by (simp_all add: rows_inv_def tokens_defs)

lemma tokens_at_head: "at_head 1 tokens"
  by (simp add: at_head_def tokens_defs)

section \<open>Row groups\<close>

text \<open>
  C9: \<open>Layout::delete\<close> followed by \<open>Layout::insert\<close> (all clamps in runs of one block and in pieces
  of \<open>DELETE_OPERATION_CHUNK_SIZE\<close> ids, then all versions in chunks) has the effect of the
  modifications of the group one after the other, whenever those succeed.
\<close>

theorem two_sweeps_refine_modifications:
  assumes "rows_inv (rg_rows g)" and "0 < t_chunk_size t" and "exec_mods (rg_rows g) t = Inr t'"
  shows "write_group g t = Some (Inr t')"
  using assms by (rule write_group_correct)

theorem two_sweeps_refine_modifications_witness:
  "write_group token_group tokens = Some (Inr tokens_after)"
  using two_sweeps_refine_modifications[of token_group tokens tokens_after] token_rows_inv(1) token_exec
  by (simp add: tokens_defs)

text \<open>
  C11: folding the rows of a later group into a group with \<open>RowGroup::append\<close> loses nothing: it
  keeps the invariant of the rows, and running the folded rows is running the rows of the first
  group and then those of the second.
\<close>

theorem append_group_refines_sequence:
  assumes "rg_append other g = Inr g'" and "rows_inv (rg_rows g)" and "rows_inv (rg_rows other)"
    and "in_order (rg_rows g) (rg_rows other)" and "rg_immutable g \<longrightarrow> t_immutable t"
    and "exec_mods (rg_rows g) t = Inr t1" and "exec_mods (rg_rows other) t1 = Inr t2"
  shows "rows_inv (rg_rows g') \<and> exec_mods (rg_rows g') t = Inr t2"
  using rg_append_correct[OF assms] by blast

theorem append_group_refines_sequence_witness:
  "rows_inv (rg_rows token_group) \<and> exec_mods (rg_rows token_group) tokens = Inr tokens_after"
proof -
  let ?g = "token_group\<lparr>rg_rows := [Overwrite token_key 2 5 None]\<rparr>"
  let ?other = "token_group\<lparr>rg_rows := [Remove token_key 8]\<rparr>"
  obtain t1 where t1: "exec_mods (rg_rows ?g) tokens = Inr t1" "exec_mods (rg_rows ?other) t1 = Inr tokens_after"
    using token_exec_changes by (auto simp: token_changes_def bind_res_Inr_iff)
  have "rg_append ?other ?g = Inr token_group"
    by (simp add: rg_append_def append_row_def prev_row_mut_def tokens_defs)
  moreover have "in_order (rg_rows ?g) (rg_rows ?other)"
    by (simp add: in_order_def ended_by_def tokens_defs)
  ultimately show ?thesis
    using append_group_refines_sequence[of ?other ?g token_group tokens t1 tokens_after] t1 token_rows_inv
    by (simp add: tokens_defs(4))
qed

text \<open>
  \<open>RowGroup::append_row\<close> keeps the invariant of a group: rows of one entity start one after
  the other, each is over when the next starts, and only the first of them clamps. The row must
  not start before the versions that the group has already ended.
\<close>

lemma append_row_keeps_invariant:
  assumes "append_row row g = Inr g'" and "rows_inv (rg_rows g)" and "emod_ok row"
    and "ended_by row (rg_rows g)" and "rg_immutable g \<Longrightarrow> \<forall>x \<in> set (rg_rows g). emod_id x \<noteq> emod_id row"
  shows "rows_inv (rg_rows g')"
  using assms by (rule append_row_rows_inv)

text \<open>
  C10: reading through a group. After its rows have been written to a table whose head is before
  them, \<open>Layout::find\<close> at any block finds what \<open>RowGroup::last_op\<close> says for that block; where the
  group says nothing, it finds what it found before.
\<close>

theorem last_op_agrees_with_find:
  assumes "exec_mods (rg_rows g) t = Inr t'" and "rows_inv (rg_rows g)" and "at_head h t"
    and "\<forall>m \<in> set (rg_rows g). h < emod_block m" and "one_key key (rg_rows g)"
    and "no_end_if (t_immutable t) (rg_rows g)" and "at \<le> BLOCK_NUMBER_MAX"
  shows "layout_find t' key at =
    (case rg_last_op g key at of
       Some (OpWrite k data) \<Rightarrow> Some data | Some (OpRemove k) \<Rightarrow> None | None \<Rightarrow> layout_find t key at)"
  using last_op_correct[OF assms]
  by (simp add: rg_last_op_rows op_result_def split: option.splits entity_op.splits)

theorem last_op_agrees_with_find_witness:
  "layout_find tokens_after token_key 4 = Some 1 \<and> layout_find tokens_after token_key 7 = Some 2
    \<and> layout_find tokens_after token_key 8 = None"
proof -
  have a: "at \<le> BLOCK_NUMBER_MAX \<Longrightarrow> layout_find tokens_after token_key at =
      (case rg_last_op token_group token_key at of Some (OpWrite k data) \<Rightarrow> Some data
       | Some (OpRemove k) \<Rightarrow> None | None \<Rightarrow> layout_find tokens token_key at)" for at
    using token_exec token_rows_inv(1) tokens_at_head
    by (rule last_op_agrees_with_find) (simp_all add: one_key_def no_end_if_def token_group_def tokens_def)
  note evaluate = rg_last_op_def layout_find_def at_block_def belongs_to_causality_region_def tokens_defs rfind_def
  have "layout_find tokens_after token_key 4 = Some 1" by (rule trans[OF a]) (simp_all add: evaluate)
  moreover have "layout_find tokens_after token_key 7 = Some 2" by (rule trans[OF a]) (simp_all add: evaluate)
  moreover have "layout_find tokens_after token_key 8 = None" by (rule trans[OF a]) (simp_all add: evaluate)
  ultimately show ?thesis by blast
qed

text \<open>
  C12: reverting is time travel. In a table whose head is \<open>h\<close>, \<open>Layout::revert_block\<close> to block \<open>n\<close>
  (that is, of the block \<open>n + 1\<close>) makes a lookup at any block find what it found before at that
  block or at \<open>n\<close>, whichever is earlier, and \<open>n\<close> is the new head.
\<close>

theorem revert_is_time_travel:
  assumes "at_head h t" and "kinds_ok t" and "h < BLOCK_NUMBER_MAX" and "n < BLOCK_NUMBER_MAX"
  shows "layout_find (snd (revert_table (n + 1) t)) key at = layout_find t key (min at n)
    \<and> at_head n (snd (revert_table (n + 1) t))"
  using revert_find[OF assms] revert_at_head[OF assms] by blast

theorem revert_is_time_travel_witness:
  "layout_find (snd (revert_table (6 + 1) tokens_after)) token_key 100 = Some 2"
proof -
  have "at_head 8 tokens_after" "kinds_ok tokens_after"
    by (simp_all add: at_head_def kinds_ok_def tokens_defs)
  from revert_is_time_travel[OF this, of 6 token_key 100] show ?thesis
    by (simp add: layout_find_def at_block_def belongs_to_causality_region_def tokens_defs)
qed

text \<open>
  C13: writing and reverting is a round trip. If the rows of a group were run on a table whose head
  is \<open>h\<close>, all of them after \<open>h\<close>, then \<open>Layout::revert_block\<close> to \<open>h\<close> gives back the same table,
  row for row.
\<close>

theorem revert_undoes_group:
  assumes "exec_mods (rg_rows g) t = Inr t'" and "rows_inv (rg_rows g)" and "at_head h t"
    and "\<forall>m \<in> set (rg_rows g). h < emod_block m \<and> emod_block m < BLOCK_NUMBER_MAX"
  shows "snd (revert_table (h + 1) t') = t"
  using assms by (rule revert_exec_mods)

theorem revert_undoes_group_witness: "snd (revert_table (1 + 1) tokens_after) = tokens"
  using token_exec token_rows_inv(1) tokens_at_head
  by (rule revert_undoes_group) (simp add: tokens_defs)

section \<open>The statements of a group\<close>

text \<open>
  \<open>clamps_by_block\<close> partitions the clamps of a group: its runs, put together, are the clamps in
  order, and every run is a non-empty run of clamps of the block it is labelled with.
\<close>

lemma clamps_by_block_partition:
  "concat (map snd (clamps_by_block g)) = filter is_clamp (rg_rows g) \<and>
   (\<forall>(b, run) \<in> set (clamps_by_block g). run \<noteq> [] \<and> (\<forall>m \<in> set run. is_clamp m \<and> emod_block m = b))"
  unfolding clamps_by_block_def by (rule clamps_from_correct)

text \<open>
  With a positive chunk size the iterator over write chunks ends; its chunks hold every write of
  the group exactly once and in order, and none has more writes than the chunk size, which is what
  keeps an insert statement below the limit of bind variables.
\<close>

lemma write_chunks_total:
  assumes "0 < n"
  shows "\<exists>cs. write_chunks n g = Some cs \<and> concat (map (chunk_iter n) cs) = emod_writes (rg_rows g)
    \<and> (\<forall>c \<in> set cs. length (chunk_iter n c) \<le> n)"
  unfolding write_chunks_def using assms by (rule write_chunks_from_total)

text \<open>
  The clause that \<open>BlockRangeColumn::contains\<close> adds for account-like tables, so that the
  BRIN index is used, never changes which rows the query returns.
\<close>

lemma brin_clause_redundant:
  "br_contains account_like filters_by_id use_brin_all block r
    = br_contains False filters_by_id use_brin_all block r"
  by (cases r) (simp_all only: br_contains_Mutable br_contains.simps)

section \<open>Batches\<close>

text \<open>
  C8: \<open>Batch::append\<close> loses nothing: if it reports no error, the batch is well-formed again, has
  the blocks of both with their times, and writing its rows is writing the rows of the first batch and then those of the second. It has
  the data sources, the deterministic errors and the file data sources to remove of both, the first ones first, the pointer and the cursor of
  the second one, and no new error. Whether non-fatal errors are active is a property of the deployment and stays that of the first.
\<close>

theorem append_batch_refines_sequence:
  assumes "batch_append im weigh other self = (None, self')"
    and "batch_inv im self" and "batch_inv im other" and "number (b_block_ptr self) < b_first_block other"
    and "exec_groups (b_mods self) db db1" and "exec_groups (b_mods other) db1 db2"
    and "\<And>et. rows_of (b_mods self) et \<noteq> [] \<or> rows_of (b_mods other) et \<noteq> []
           \<Longrightarrow> t_immutable (db et) = im et"
  shows "batch_inv im self' \<and> exec_groups (b_mods self') db db2
    \<and> b_first_block self' = b_first_block self \<and> b_block_ptr self' = b_block_ptr other
    \<and> b_block_times self' = b_block_times self @ b_block_times other
    \<and> b_firehose_cursor self' = b_firehose_cursor other
    \<and> b_data_sources self' = b_data_sources self @ b_data_sources other
    \<and> b_deterministic_errors self' = b_deterministic_errors self @ b_deterministic_errors other
    \<and> b_offchain_to_remove self' = b_offchain_to_remove self @ b_offchain_to_remove other
    \<and> b_is_non_fatal_errors_active self' = b_is_non_fatal_errors_active self \<and> b_error self' = b_error self"
  using batch_append_correct[OF assms] batch_append_None(3-)[OF assms(1)] by blast

text \<open>
  A batch for one block can always be made from the modifications of that block, at most one
  per entity and only inserts for immutable types: \<open>Batch::new\<close> succeeds, the batch is
  well-formed, and each group holds the modifications of its type, sorted.
\<close>

lemma batch_new_succeeds:
  assumes "block_mods im (number ptr) raw_mods" and "sorts_by_rank sort_mods"
  shows "\<exists>b. batch_new im weigh sort_mods ptr time cursor raw_mods ds errs off nf = Inr b
    \<and> batch_inv im b \<and> b_block_ptr b = ptr \<and> b_first_block b = number ptr \<and> b_error b = None
    \<and> (\<forall>et. rows_of (b_mods b) et = filter (\<lambda>m. key_type (emod_key m) = et) (sort_mods raw_mods))"
  using assms by (rule batch_new_correct)

definition block_five :: block_ptr where "block_five = \<lparr>hash = ''five'', number = 5\<rparr>"
definition block_eight :: block_ptr where "block_eight = \<lparr>hash = ''eight'', number = 8\<rparr>"

text \<open>\<open>sort_key\<close> is a sort that the specification of \<open>sort_unstable_by_key\<close> allows.\<close>

lemma sort_key_sorts_by_rank: "sorts_by_rank (sort_key sort_rank)"
  by (simp add: sorts_by_rank_def)

definition token_batch :: "block_ptr \<Rightarrow> nat entity_modification list \<Rightarrow> (nat, stored_data_source, subgraph_error) batch" where
  "token_batch ptr rows =
     \<lparr>b_block_ptr = ptr, b_block_times = [(number ptr, 0)], b_first_block = number ptr,
      b_firehose_cursor = None,
      b_mods = [\<lparr>rg_entity_type = ''Token'', rg_rows = rows, rg_immutable = False\<rparr>],
      b_data_sources = [], b_deterministic_errors = [], b_offchain_to_remove = [], b_error = None,
      b_is_non_fatal_errors_active = False, b_indirect_weight = 0\<rparr>"

text \<open>The batch for the two blocks, and the tables before, between and after.\<close>

definition folded_batch :: "(nat, stored_data_source, subgraph_error) batch" where
  "folded_batch = (token_batch block_five [Overwrite token_key 2 5 (Some 8)])
     \<lparr>b_block_ptr := block_eight, b_block_times := [(5, 0), (8, 0)]\<rparr>"

lemmas batch_defs = token_batch_def folded_batch_def block_five_def block_eight_def tokens_defs

lemma rows_of_token_batch:
  "rows_of (b_mods (token_batch ptr rows)) et = (if et = ''Token'' then rows else [])"
  by (auto simp: rows_of_def groups_group_def token_batch_def)

lemma token_batch_inv:
  assumes "\<forall>m \<in> set rows. key_type (emod_key m) = ''Token'' \<and> row_between (number ptr) (number ptr) m"
    and "rows_inv rows"
  shows "batch_inv (\<lambda>_. False) (token_batch ptr rows)"
  using assms unfolding batch_inv_def rows_of_token_batch by (simp add: groups_inv_def token_batch_def)

lemma token_batches_inv:
  "batch_inv (\<lambda>_. False) (token_batch block_five [Overwrite token_key 2 5 None])"
  "batch_inv (\<lambda>_. False) (token_batch block_eight [Remove token_key 8])"
  by (rule token_batch_inv; simp add: row_between_def batch_defs rows_inv_def)+

lemma token_batches_append:
  "batch_append (\<lambda>_. False) (\<lambda>_. 0) (token_batch block_eight [Remove token_key 8])
     (token_batch block_five [Overwrite token_key 2 5 None]) = (None, folded_batch)"
  by (simp add: batch_append_def append_inner_def group_entry_def rg_append_mut_def append_row_def
      prev_row_mut_def batch_weigh_def Let_def batch_defs)

lemma token_batches_exec:
  obtains db1 where "exec_groups (b_mods (token_batch block_five [Overwrite token_key 2 5 None])) (\<lambda>_. tokens) db1"
    and "exec_groups (b_mods (token_batch block_eight [Remove token_key 8])) db1
           ((\<lambda>_. tokens)(''Token'' := tokens_after))"
proof -
  obtain t1 where "exec_mods [Overwrite token_key 2 5 None] tokens = Inr t1"
    "exec_mods [Remove token_key 8] t1 = Inr tokens_after"
    using token_exec_changes by (auto simp: token_changes_def bind_res_Inr_iff)
  then show thesis
    by (intro that[of "(\<lambda>_. tokens)(''Token'' := t1)"]) (simp_all add: exec_groups_def rows_of_token_batch)
qed

theorem append_batch_refines_sequence_witness:
  "exec_groups (b_mods folded_batch) (\<lambda>_. tokens) ((\<lambda>_. tokens)(''Token'' := tokens_after))"
proof -
  obtain db1 where db1: "exec_groups (b_mods (token_batch block_five [Overwrite token_key 2 5 None])) (\<lambda>_. tokens) db1"
    "exec_groups (b_mods (token_batch block_eight [Remove token_key 8])) db1
       ((\<lambda>_. tokens)(''Token'' := tokens_after))" by (rule token_batches_exec)
  have "number (b_block_ptr (token_batch block_five [Overwrite token_key 2 5 None]))
      < b_first_block (token_batch block_eight [Remove token_key 8])" by (simp add: batch_defs)
  from append_batch_refines_sequence[OF token_batches_append token_batches_inv this db1]
  show ?thesis by (simp add: tokens_def)
qed

end
