(* ===== verification/Deployment_Properties.thy ===== *)
theory Deployment_Properties
  imports Store_Properties
begin

text \<open>
  The properties of what one transaction does to a deployment: rollups, dynamic data sources, the
  head pointer, the entity count and the health, with their witnesses.
\<close>

section \<open>Rollups\<close>

text \<open>
  C34: if block times do not decrease, \<open>Layout::rollup\<close> fills exactly the buckets that hold the
  previous block or one of the blocks of the batch and that are over by the last of them, and it
  fills each of them once per aggregation.
\<close>

theorem rollup_fills_each_bucket_once:
  assumes "by_interval rs" and "distinct rs" and "sorted (prev # map snd bts)"
  shows "rollup_blocks ins rs prev bts s =
      fold_res (\<lambda>(r, nr, block). ins r (bucket_range (r_interval r) nr) block) (schedule rs prev bts) s
    \<and> distinct (map (\<lambda>(r, nr, b). (r, nr)) (schedule rs prev bts))
    \<and> (\<forall>r nr. (\<exists>b. (r, nr, b) \<in> set (schedule rs prev bts)) \<longleftrightarrow> r \<in> set rs \<and>
        (\<exists>w \<in> set (prev # map snd bts). nr = bucket w (as_duration (r_interval r)) \<and>
           nr < bucket (last (prev # map snd bts)) (as_duration (r_interval r))))"
  by (intro conjI allI rollup_blocks_schedule[OF assms(1)] schedule_distinct[OF assms(2,3)]
      schedule_covers[OF assms(3)])

theorem rollup_fills_each_bucket_once_witness:
  "schedule [\<lparr>r_interval = Hour, r_query = ''sum''\<rparr>, \<lparr>r_interval = Day, r_query = ''sum''\<rparr>] 0
      [(5, 3600 * 1000000000), (6, 3601 * 1000000000)] = [(\<lparr>r_interval = Hour, r_query = ''sum''\<rparr>, 0, 5)]
    \<and> rollup_blocks (\<lambda>r b block s. Inr (s @ [(r_interval r, fst b, block)]) :: (unit, _) result)
      [\<lparr>r_interval = Hour, r_query = ''sum''\<rparr>, \<lparr>r_interval = Day, r_query = ''sum''\<rparr>] 0
      [(5, 3600 * 1000000000), (6, 3601 * 1000000000)] [] = Inr [(Hour, 0, 5)]"
proof -
  let ?rs = "[\<lparr>r_interval = Hour, r_query = ''sum''\<rparr>, \<lparr>r_interval = Day, r_query = ''sum''\<rparr>]"
  have s: "schedule ?rs 0 [(5, 3600 * 1000000000), (6, 3601 * 1000000000)]
      = [(\<lparr>r_interval = Hour, r_query = ''sum''\<rparr>, 0, 5)]"
    by (simp add: bucket_def timestamp_millis_def)
  have "by_interval ?rs" "distinct ?rs"
    "sorted (0 # map snd [(5 :: int, 3600 * 1000000000), (6, 3601 * 1000000000 :: int)])"
    by (simp_all add: by_interval_def)
  note p = rollup_fills_each_bucket_once[OF this, THEN conjunct1, unfolded s]
  show ?thesis unfolding s p by (simp add: bucket_range_def)
qed

text \<open>
  Every time from the epoch on, up to year 491000, lies in the half-open range of its bucket.
\<close>

lemma time_in_its_bucket:
  assumes "0 \<le> t" and "bucket t (as_duration i) < 2 ^ 32"
  shows "fst (bucket_range i (bucket t (as_duration i))) \<le> t
    \<and> t < snd (bucket_range i (bucket t (as_duration i)))"
  using assms by (rule bucket_range_contains)

section \<open>The head of a deployment\<close>

text \<open>
  C35: a transaction that succeeds moves the head forward to the batch's block; a batch that is not
  after the head is never committed.
\<close>

theorem transaction_moves_forward:
  assumes "transact_block_operations c b last_rollup d = Some (Inr (earliest, d'))"
  shows "d_latest d' = Some (b_block_ptr b) \<and> earliest = d_earliest_block d
    \<and> (\<forall>head. d_latest d = Some head \<longrightarrow> number head < number (b_block_ptr b))"
  using assms by (rule transact_Inr) (auto split: option.splits)

text \<open>The example: a deployment with the table of tokens, at block 1.\<close>

definition deployment :: "nat deployment" where
  "deployment = \<lparr>d_latest = Some \<lparr>hash = ''one'', number = 1\<rparr>, d_firehose_cursor = None,
     d_entity_count = 1, d_current_reorg_depth = 0, d_max_reorg_depth = 0, d_reorg_count = 0,
     d_earliest_block = 0, d_failed = False, d_health = Healthy, d_fatal_error = None,
     d_non_fatal_errors = [], d_graft_block = None, d_tables = [(''Token'', tokens)],
     d_data_sources = [], d_errors = []\<rparr>"

definition config :: "(nat, unit) store_config" where
  "config = \<lparr>c_share_interfaces = (\<lambda>_. []), c_rollups = [], c_rollup_insert = (\<lambda>_ _ _. Inr),
     c_error_id = se_message, c_reorg_threshold = 0\<rparr>"

definition deployment_after :: "nat deployment" where
  "deployment_after = deployment\<lparr>d_latest := Some block_eight, d_entity_count := 0,
     d_tables := [(''Token'', tokens_after)]\<rparr>"

lemmas deployment_defs = deployment_def config_def deployment_after_def batch_defs

lemma folded_batch_rows: "rows_of (b_mods folded_batch) et = (if et = ''Token'' then rg_rows token_group else [])"
  by (auto simp: rows_of_def groups_group_def batch_defs)

lemma transact_folded_batch:
  "transact_block_operations config folded_batch None deployment = Some (Inr (0, deployment_after))"
proof -
  have g: "b_mods folded_batch = [token_group]" by (simp add: batch_defs)
  have "apply_group (c_share_interfaces config) token_group (0, d_tables deployment)
      = Some (Inr (0 + entity_count_change token_group,
          put_table (rg_entity_type token_group) tokens_after (d_tables deployment)))"
    using token_exec token_rows_inv(1)
    by (intro apply_group_correct[where t = tokens])
      (simp_all add: deployment_def config_def token_group_def tokens_def)
  then have "apply_entity_modifications (c_share_interfaces config) [token_group] (d_tables deployment)
      = Some (Inr (-1, [(''Token'', tokens_after)]))"
    by (simp add: apply_entity_modifications_def)
      (simp add: entity_count_change_def put_table_def deployment_def token_group_def)
  then show ?thesis
    by (simp add: transact_block_operations_def g layout_rollup_def transact_errors_def dynds_insert_def
        update_offchain_status_def data_sources_is_empty_def transact_block_def)
      (simp add: deployment_defs)
qed

theorem transaction_moves_forward_witness:
  "d_latest deployment_after = Some block_eight \<and> number \<lparr>hash = ''one'', number = 1\<rparr> < number block_eight"
  using transaction_moves_forward[OF transact_folded_batch] by (simp add: deployment_defs)

text \<open>
  C36: when \<open>revert_block_operations\<close> succeeds. It needs a head after the block, a block that is not
  below the graft point, and one that is at least the reorg threshold above the earliest block; a
  head that is not after the block, or none, is a panic.
\<close>

theorem revert_succeeds_iff:
  "(\<exists>d'. revert_block_operations thr ptr cursor d = Inr d') \<longleftrightarrow>
     (\<exists>head. d_latest d = Some head \<and> number ptr < number head)
     \<and> (\<forall>g. d_graft_block d = Some g \<longrightarrow> g \<le> number ptr) \<and> d_earliest_block d \<le> number ptr - thr"
  by (auto simp: revert_block_operations_def rewind_or_truncate_def revert_block_ptr_def Let_def
      split: option.splits prod.splits)

theorem revert_succeeds_iff_witness:
  "\<exists>d'. revert_block_operations 0 block_five None deployment_after = Inr d'"
  unfolding revert_succeeds_iff by (simp add: deployment_defs)

text \<open>
  \<open>rewind\<close> and \<open>truncate\<close> do not check that they go backwards: they succeed on the reorg
  threshold alone, so a deployment at block 1 can be rewound to block 8. The check in the code
  builds an error and drops it.
\<close>

lemma rewind_does_not_check_head:
  "((\<exists>d'. rewind thr ptr d = Inr d') \<longleftrightarrow> d_earliest_block d \<le> number ptr - thr)
    \<and> ((\<exists>d'. store_truncate thr ptr d = Inr d') \<longleftrightarrow> d_earliest_block d \<le> number ptr - thr)
    \<and> map_option number (d_latest deployment) = Some 1
    \<and> (case rewind 0 block_eight deployment of Inl _ \<Rightarrow> False | Inr d' \<Rightarrow> d_latest d' = Some block_eight)"
proof -
  have r: "(\<exists>d'. rewind_or_truncate thr ptr cursor tr d = Inr d') \<longleftrightarrow> d_earliest_block d \<le> number ptr - thr"
    for thr ptr cursor tr and d :: "'x deployment"
    by (auto simp: rewind_or_truncate_def revert_block_ptr_def Let_def split: prod.splits)
  obtain d' where d': "rewind_or_truncate 0 block_eight None False deployment = Inr d'"
    using r[of 0 block_eight None False deployment] by (auto simp: deployment_defs)
  then have l: "d_latest d' = Some block_eight" by (drule_tac rewind_Inr) simp
  show ?thesis
    unfolding rewind_def store_truncate_def d'
    by (intro conjI r) (simp_all add: l, simp add: deployment_def)
qed

text \<open>
  C7: A transaction on a deployment whose head is the block \<open>ptr\<close> and the revert to that block are a round trip: the entity tables, the
  dynamic data sources, the error rows and the head pointer are as before, and the cursor is the one given. This is for a batch with everything dated after that
  block that marks no file data source as done, of entity types without shared interfaces, in a deployment without rollups.
\<close>

theorem revert_undoes_transaction:
  assumes "transact_block_operations c b last_rollup d = Some (Inr (earliest, d'))"
    and "groups_inv im (b_mods b)" and "exec_groups (b_mods b) (db_of (d_tables d)) db'"
    and "store_at_head h d" and "batch_after h b"
    and "\<forall>g \<in> set (b_mods b). c_share_interfaces c (rg_entity_type g) = []
           \<and> rg_entity_type g \<in> fst ` set (d_tables d)"
    and "\<forall>(et, t) \<in> set (d_tables d). 0 < t_chunk_size t"
    and "c_rollups c = []" and "data_sources_is_empty (b_offchain_to_remove b)"
    and "rewind_or_truncate thr ptr cursor False d' = Inr d2" and "number ptr = h" and "d_latest d = Some ptr"
  shows "d_tables d2 = d_tables d \<and> d_data_sources d2 = d_data_sources d \<and> d_errors d2 = d_errors d
    \<and> d_latest d2 = d_latest d \<and> d_firehose_cursor d2 = cursor"
  using revert_after_transact[OF assms(1-11)] assms(12) by simp

theorem revert_undoes_transaction_witness:
  "\<exists>d2. rewind_or_truncate 0 \<lparr>hash = ''one'', number = 1\<rparr> None False deployment_after = Inr d2
    \<and> d_tables d2 = d_tables deployment"
proof -
  obtain d2 where d2: "rewind_or_truncate 0 \<lparr>hash = ''one'', number = 1\<rparr> None False deployment_after = Inr d2"
    by (auto simp: rewind_or_truncate_def revert_block_ptr_def Let_def deployment_defs split: prod.splits)
  have "groups_inv (\<lambda>_. False) (b_mods folded_batch)"
    using token_rows_inv(1) by (simp add: groups_inv_def batch_defs)
  moreover have "exec_groups (b_mods folded_batch) (db_of (d_tables deployment))
      (db_of [(''Token'', tokens_after)])"
    using token_exec unfolding exec_groups_def folded_batch_rows by (auto simp: deployment_def db_of_def)
  moreover have "store_at_head 1 deployment"
    using tokens_at_head by (simp add: store_at_head_def deployment_def)
  moreover have "batch_after 1 folded_batch"
    unfolding batch_after_def folded_batch_rows by (simp add: batch_defs)
  ultimately have "d_tables d2 = d_tables deployment"
    using revert_undoes_transaction[OF transact_folded_batch _ _ _ _ _ _ _ _ d2, of "\<lambda>_. False" _ 1]
    by (simp add: deployment_def config_def tokens_def folded_batch_def token_batch_def data_sources_is_empty_def)
  then show ?thesis using d2 by blast
qed

text \<open>The example: no tokens, and a token that was there from block 5 to block 8.\<close>

definition no_tokens :: "nat deployment" where
  "no_tokens = deployment\<lparr>d_entity_count := 0, d_tables := [(''Token'', tokens\<lparr>t_rows := []\<rparr>)]\<rparr>"

definition short_lived :: "nat deployment" where
  "short_lived = no_tokens\<lparr>d_latest := Some block_eight,
     d_tables := [(''Token'', tokens\<lparr>t_rows := [\<lparr>v_id = IdString ''a'', v_entity = 2,
        v_causality_region = CR_ONCHAIN, v_range = Mutable (Int4range 5 (Some 8))\<rparr>]\<rparr>)]\<rparr>"

text \<open>
  The entity count is not reverted exactly when several blocks are reverted at once: an entity
  that appeared at block 5 and was removed at block 8 adds nothing to the count, but reverting to
  block 4 takes one away.
\<close>

lemma entity_count_after_deep_revert:
  "transact_block_operations config (folded_batch\<lparr>b_mods :=
       [token_group\<lparr>rg_rows := [Insert token_key 2 5 (Some 8)]\<rparr>]\<rparr>) None no_tokens = Some (Inr (0, short_lived))
    \<and> (case rewind 0 \<lparr>hash = ''four'', number = 4\<rparr> short_lived of Inl _ \<Rightarrow> False
       | Inr d \<Rightarrow> d_tables d = d_tables no_tokens \<and> d_entity_count no_tokens = 0 \<and> d_entity_count d = - 1)"
proof -
  let ?g = "token_group\<lparr>rg_rows := [Insert token_key 2 5 (Some 8)]\<rparr>"
  let ?t = "tokens\<lparr>t_rows := []\<rparr>"
  have "apply_group (c_share_interfaces config) ?g (0, d_tables no_tokens)
      = Some (Inr (0 + entity_count_change ?g,
          put_table (rg_entity_type ?g) (snd (hd (d_tables short_lived))) (d_tables no_tokens)))"
    by (intro apply_group_correct[where t = ?t])
      (simp_all add: no_tokens_def short_lived_def rows_inv_def exec_defs deployment_defs)
  then have "apply_entity_modifications (c_share_interfaces config) [?g] (d_tables no_tokens)
      = Some (Inr (0, d_tables short_lived))"
    by (simp add: apply_entity_modifications_def)
      (simp add: entity_count_change_def put_table_def no_tokens_def short_lived_def token_group_def)
  then have t: "transact_block_operations config (folded_batch\<lparr>b_mods := [?g]\<rparr>) None no_tokens
      = Some (Inr (0, short_lived))"
    by (simp add: transact_block_operations_def layout_rollup_def transact_errors_def dynds_insert_def
        update_offchain_status_def data_sources_is_empty_def transact_block_def)
      (simp add: no_tokens_def short_lived_def deployment_defs)
  have "d_earliest_block short_lived \<le> number \<lparr>hash = ''four'', number = 4\<rparr> - 0"
    by (simp add: short_lived_def no_tokens_def deployment_def)
  then obtain d where d: "rewind_or_truncate 0 \<lparr>hash = ''four'', number = 4\<rparr> None False short_lived = Inr d"
    by (auto simp: rewind_or_truncate_def revert_block_ptr_def Let_def split: prod.splits)
  have "layout_revert_block 5 (d_tables short_lived) = (- 1, d_tables no_tokens)"
    by (simp add: layout_revert_block_def revert_table_def revert_remove_def revert_clamp_def
        set_difference_count_def short_lived_def no_tokens_def deployment_defs)
  then show ?thesis using t d rewind_Inr[OF d] by (simp add: rewind_def) (simp add: no_tokens_def short_lived_def)
qed

section \<open>Dynamic data sources\<close>

text \<open>
  Data sources that were created after block \<open>h\<close> are there after the insert and gone after a
  revert to \<open>h\<close>; the others stay, in their order. Loading at a block gives the ones that exist then,
  in the order of insertion if that is the order of their blocks.
\<close>

lemma dynamic_data_sources_round_trip:
  assumes "dynds_insert entries rows = Inr rows'"
    and "\<forall>ds \<in> set rows. \<exists>b. sd_creation_block ds = Some b \<and> b \<le> h"
    and "\<forall>(ptr, dss) \<in> set entries. h < number ptr \<and> (\<forall>ds \<in> set dss. sd_creation_block ds = Some (number ptr))"
    and "sorted (map (\<lambda>ds. the (sd_creation_block ds)) rows')"
  shows "rows' = rows @ concat (map snd entries)
    \<and> dynds_revert (h + 1) rows' = rows
    \<and> dynds_load at rows' = Some (filter (\<lambda>ds. the (sd_creation_block ds) \<le> at) rows')"
proof -
  have r: "rows' = rows @ concat (map snd entries)" using dynds_insert_rows[OF assms(1)] by blast
  have new: "\<exists>b. sd_creation_block ds = Some b \<and> h + 1 \<le> b" if "ds \<in> set (concat (map snd entries))" for ds
    using that assms(3) by fastforce
  have old: "\<exists>b. sd_creation_block ds = Some b \<and> b < h + 1" if "ds \<in> set rows" for ds
    using that assms(2) by fastforce
  have all: "sd_creation_block ds \<noteq> None" if "ds \<in> set rows'" for ds
    using that new old unfolding r by fastforce
  have v: "dynds_revert (h + 1) rows' = rows"
    unfolding r by (rule dynds_revert_new) (use old new in blast)+
  have f: "filter (\<lambda>ds. case sd_creation_block ds of None \<Rightarrow> True | Some b \<Rightarrow> b \<le> at) rows'
      = filter (\<lambda>ds. the (sd_creation_block ds) \<le> at) rows'"
    using all by (intro filter_cong refl) (fastforce split: option.splits)
  have "sorted (map (\<lambda>ds. the (sd_creation_block ds)) (filter (\<lambda>ds. the (sd_creation_block ds) \<le> at) rows'))"
    using assms(4) by (rule sorted_filter)
  then have "dynds_load at rows' = Some (filter (\<lambda>ds. the (sd_creation_block ds) \<le> at) rows')"
    unfolding dynds_load_def Let_def f using all by (auto simp: sorted_sort_id sort_key_id_if_sorted)
  then show ?thesis using r v by blast
qed

definition data_source_at :: "nat \<Rightarrow> block_number \<Rightarrow> stored_data_source" where
  "data_source_at i n = \<lparr>sd_manifest_idx = i, sd_param = None, sd_context = None,
     sd_creation_block = Some n, sd_done_at = None, sd_causality_region = CR_ONCHAIN\<rparr>"

section \<open>Health\<close>

text \<open>
  \<open>failed\<close> is true exactly when \<open>health\<close> is \<open>failed\<close>: every transaction, revert, failure and
  unfailing of a deployment keeps it so.
\<close>

lemma status_invariant:
  assumes "status_inv d"
  shows "(transact_block_operations c b last_rollup d = Some (Inr (earliest, d1)) \<longrightarrow> status_inv d1)
    \<and> (rewind_or_truncate thr ptr cursor truncating d = Inr d2 \<longrightarrow> status_inv d2)
    \<and> (revert_block_operations thr ptr cursor d = Inr d3 \<longrightarrow> status_inv d3)
    \<and> status_inv (fail_deployment error_id e d)
    \<and> (unfail_deterministic_error thr current parent d = Inr (outcome, d4) \<longrightarrow> status_inv d4)
    \<and> status_inv (snd (unfail_non_deterministic_error current d))"
proof (intro conjI impI)
  have frame: "d_failed d1 = d_failed d0 \<Longrightarrow> d_health d1 = d_health d0 \<Longrightarrow> status_inv d0 \<Longrightarrow> status_inv d1"
    for d0 d1 :: "'a deployment" by (simp add: status_inv_def)
  have r: "status_inv d2" if "rewind_or_truncate thr ptr cursor truncating d0 = Inr d2" "status_inv d0"
    for thr ptr cursor truncating and d0 d2 :: "'a deployment"
  proof -
    from that(1) obtain d5 where d5: "d2 = revert_subgraph_errors (number ptr + 1) d5"
      "d_failed d5 = d_failed d0" "d_health d5 = d_health d0"
      by (auto simp: rewind_or_truncate_def revert_block_ptr_def Let_def clear_entity_count_def
          update_entity_count_def split: prod.splits if_splits)
    show ?thesis unfolding d5(1) by (rule status_inv_revert_errors) (use frame d5 that(2) in blast)
  qed
  show "status_inv d2" if "rewind_or_truncate thr ptr cursor truncating d = Inr d2"
    using r[OF that assms] .
  have rev: "status_inv d3" if "revert_block_operations thr ptr cursor d = Inr d3" for thr ptr cursor d3
    using r assms that by (auto simp: revert_block_operations_def split: option.splits if_splits)
  show "status_inv d3" if "revert_block_operations thr ptr cursor d = Inr d3" using rev that by blast
  show "status_inv d1" if "transact_block_operations c b last_rollup d = Some (Inr (earliest, d1))"
  proof -
    from that obtain ts dss where d1: "d_failed d1 = d_failed (transact_errors (c_error_id c) b
          (d\<lparr>d_tables := ts, d_data_sources := dss\<rparr>))"
      "d_health d1 = d_health (transact_errors (c_error_id c) b (d\<lparr>d_tables := ts, d_data_sources := dss\<rparr>))"
      by (auto simp: transact_block_operations_def bind_run_Inr_iff bind_res_Inr_iff transact_block_def
          split: if_splits)
    have "status_inv (d\<lparr>d_tables := ts, d_data_sources := dss\<rparr>)" using assms by (simp add: status_inv_def)
    then show ?thesis using frame[OF d1] status_inv_transact_errors by blast
  qed
  show "status_inv (fail_deployment error_id e d)" by (simp add: fail_deployment_def)
  show "status_inv d4" if "unfail_deterministic_error thr current parent d = Inr (outcome, d4)"
    using that assms
    by (auto simp: unfail_deterministic_error_def bind_res_Inr_iff Let_def split: option.splits if_splits)
  show "status_inv (snd (unfail_non_deterministic_error current d))"
    using assms by (auto simp: unfail_non_deterministic_error_def delete_error_def status_inv_def
        update_deployment_status_def split: option.splits)
qed

text \<open>
  The health after a revert. A deployment that had not failed is unhealthy exactly if a
  deterministic error is left at or before the new head; one that had failed is healthy, even if
  deterministic errors are left.
\<close>

lemma health_after_revert:
  assumes "status_inv d"
  shows "d_health (revert_subgraph_errors n d) =
    (if \<not> d_failed d \<and> has_deterministic_errors (revert_subgraph_errors n d) (n - 1) then Unhealthy
     else Healthy)"
  using revert_errors_health[OF assms, of n] by (cases "d_failed d") simp_all

definition failed_deployment :: "nat deployment" where
  "failed_deployment = fail_deployment se_message
     \<lparr>se_message = ''late'', se_handler = None, se_block_ptr = Some block_eight, se_deterministic = True\<rparr>
     (deployment_after\<lparr>d_health := Unhealthy, d_errors := [\<lparr>er_id = ''early'', er_message = ''early'',
        er_handler = None, er_deterministic = True, er_block_hash = None, er_block = 1\<rparr>]\<rparr>)"

end
