(* ===== verification/Queue_Properties.thy ===== *)
theory Queue_Properties
  imports Deployment_Properties
begin

text \<open>
  The properties of the asynchronous writer and of the bounded queue under it, with their
  witnesses.
\<close>

section \<open>The bounded queue\<close>

text \<open>
  C31: however the steps of concurrent operations interleave, the queue never holds more than its
  capacity, and no operation that has acquired a pop permit meets an empty queue, so no \<open>expect\<close>
  fails.
\<close>

theorem queue_bounded_and_never_stuck:
  assumes "bq_reachable n q"
  shows "length (bq_queue q) \<le> n
    \<and> (0 < bq_popping q \<longrightarrow> pop_take q \<noteq> None) \<and> (0 < bq_peeking q \<longrightarrow> peek_front f q \<noteq> None)"
proof -
  have p: "permits_ok q" "bq_capacity q = n" using reachable_permits_ok[OF assms] by auto
  have "0 < bq_popping q \<or> 0 < bq_peeking q \<longrightarrow> bq_queue q \<noteq> []" using permits_not_empty[OF p(1)] by blast
  then show ?thesis using permits_bound[OF p(1)] p(2)
    by (cases "bq_queue q") (auto simp: pop_take_def peek_front_def)
qed

theorem queue_bounded_and_never_stuck_witness:
  "pop_take (\<lparr>bq_capacity = 1, bq_queue = [7], bq_push_permits = 0, bq_pop_permits = 0, bq_pushing = 0,
     bq_pushed = 0, bq_popping = 1, bq_popped = 0, bq_peeking = 0, bq_emptied = 0\<rparr> :: nat bounded_queue) \<noteq> None"
proof -
  let ?q0 = "with_capacity 1 :: nat bounded_queue"
  have p: "push_acquire ?q0 = Some (?q0\<lparr>bq_push_permits := 0, bq_pushing := 1\<rparr>)" (is "_ = Some ?q1")
    by (simp add: push_acquire_def with_capacity_def)
  have "bq_reachable 1 ?q1" using bq_reachable.start bq_step.push_acquire[OF p] by (rule bq_reachable.step)
  then have "bq_reachable 1 (push_insert 7 ?q1)" by (rule bq_reachable.step) (rule bq_step.push_insert, simp)
  then have "bq_reachable 1 (push_release (push_insert 7 ?q1))"
    by (rule bq_reachable.step) (rule bq_step.push_release, simp add: push_insert_def)
  then have "bq_reachable 1 (push_release (push_insert 7 ?q1)\<lparr>bq_pop_permits := 0, bq_popping := 1\<rparr>)"
    by (rule bq_reachable.step)
      (rule bq_step.pop_acquire, simp add: pop_acquire_def push_insert_def push_release_def with_capacity_def)
  then have "bq_reachable 1 (\<lparr>bq_capacity = 1, bq_queue = [7], bq_push_permits = 0, bq_pop_permits = 0,
     bq_pushing = 0, bq_pushed = 0, bq_popping = 1, bq_popped = 0, bq_peeking = 0, bq_emptied = 0\<rparr> :: nat bounded_queue)"
    by (simp add: push_insert_def push_release_def with_capacity_def)
  from queue_bounded_and_never_stuck[OF this] show ?thesis by simp
qed

text \<open>
  When \<open>wait_empty\<close> has got its permits, the queue is empty, and it stays empty until they are
  given back: no push can get a permit.
\<close>

lemma wait_empty_means_empty:
  assumes "bq_reachable n q" and "wait_empty_acquire q = Some q'" and "0 < n"
  shows "bq_queue q' = [] \<and> push_acquire q' = None"
proof -
  have p: "permits_ok q" "bq_capacity q = n" using reachable_permits_ok[OF assms(1)] by auto
  have e: "bq_queue q = []" using wait_empty_empty[OF p(1) assms(2)] .
  have "bq_push_permits q \<le> n" using p by (simp add: permits_ok_def)
  then show ?thesis using assms(2) e p(2)
    by (auto simp: wait_empty_acquire_def push_acquire_def split: if_splits)
qed

text \<open>
  \<open>clear\<close> ends, and leaves an empty queue with all push permits, if no other operation is under
  way.
\<close>

lemma clear_terminates:
  assumes "bq_reachable n q" and "quiet q"
  shows "\<exists>q'. bq_clear q = Some q' \<and> bq_queue q' = [] \<and> bq_push_permits q' = n"
  using bq_clear_quiet[of q] reachable_permits_ok[OF assms(1)] assms(2) by auto

section \<open>Reading several entities\<close>

text \<open>What one batch adds to the answer of \<open>get_many\<close>, and what the walk adds.\<close>

lemma many_from_batch_at:
  "many_from_batch keys m b at k =
     (if m k \<noteq> None \<or> k \<notin> set keys then m k else map_option op_result (batch_last_op b k at))"
proof -
  let ?f = "\<lambda>key m. if m key \<noteq> None then m
     else case batch_last_op b key at of Some (OpWrite _ entity) \<Rightarrow> m(key \<mapsto> Some entity)
        | Some (OpRemove _) \<Rightarrow> m(key \<mapsto> None) | None \<Rightarrow> m"
  have step: "?f key m k = (if key = k \<and> m k = None then map_option op_result (batch_last_op b k at) else m k)"
    for key and m :: "entity_key \<Rightarrow> 'a option option"
    by (auto simp: op_result_def split: option.splits entity_op.splits)
  have "fold ?f keys m k = (if m k \<noteq> None \<or> k \<notin> set keys then m k else map_option op_result (batch_last_op b k at))"
  proof (induction keys arbitrary: m)
    case (Cons key keys)
    show ?case unfolding fold.simps comp_apply Cons.IH step by (auto simp del: not_None_eq)
  qed simp
  then show ?thesis unfolding many_from_batch_def .
qed

lemma track_fold_many:
  assumes "track_fold (many_from_batch keys) ns (m, t) = (m', t')"
  shows "(m k \<noteq> None \<or> k \<notin> set keys \<longrightarrow> m' k = m k) \<and>
    (m k = None \<and> k \<in> set keys \<longrightarrow>
      (case track_find (\<lambda>b at. batch_last_op b k at) ns t of
         (Some p, _) \<Rightarrow> m' k = Some (op_result p)
       | (None, t1) \<Rightarrow> m' k = None \<and> t1 = t'))"
  using assms
proof (induction ns arbitrary: m t)
  case (Cons r ns)
  show ?case
  proof (cases r)
    case (ReqWrite b p)
    let ?t = "tracker_write (b_block_ptr b) t"
    let ?m = "if b_first_block b \<le> bt_revert ?t then many_from_batch keys m b (bt_revert ?t) else m"
    have w: "track_fold (many_from_batch keys) ns (?m, ?t) = (m', t')"
      using Cons.prems by (simp add: ReqWrite Let_def)
    have at: "?m k = (if m k \<noteq> None \<or> k \<notin> set keys \<or> \<not> b_first_block b \<le> bt_revert ?t then m k
        else map_option op_result (batch_last_op b k (bt_revert ?t)))"
      by (simp add: many_from_batch_at)
    show ?thesis
      using Cons.IH[OF w] at
      by (cases "batch_last_op b k (bt_revert ?t)") (auto simp: ReqWrite Let_def split: if_splits)
  next
    case (ReqRevertTo ptr c p)
    then show ?thesis using Cons.IH[of m "tracker_revert ptr t"] Cons.prems by simp
  next
    case ReqStop
    then show ?thesis using Cons.IH[of m t] Cons.prems by simp
  qed
qed simp

text \<open>
  C30: \<open>get_many\<close> agrees with \<open>get\<close>. If the store answers both consistently, then with any requests in the
  queue \<open>get_many\<close> does not panic and returns, for each of its keys, what \<open>get\<close> returns for it.
\<close>

theorem get_many_agrees_with_get:
  "\<exists>m. queue_get_many (\<lambda>ks at. Inr (\<lambda>k. if k \<in> set ks then find_entity k at else None)) reqs keys = Inr m
    \<and> (\<forall>k \<in> set keys. queue_get (\<lambda>k at. Inr (find_entity k at)) reqs k = Inr (m k))"
proof -
  obtain in_queue t where w: "track_fold (many_from_batch keys) (rev reqs) (Map.empty, tracker_new) = (in_queue, t)"
    by fastforce
  let ?rest = "filter (\<lambda>k. in_queue k = None) keys"
  let ?m = "\<lambda>k. case in_queue k of Some (Some e) \<Rightarrow> Some e
     | _ \<Rightarrow> if k \<in> set ?rest then find_entity k (query_block t) else None"
  have "queue_get_many (\<lambda>ks at. Inr (\<lambda>k. if k \<in> set ks then find_entity k at else None)) reqs keys = Inr ?m"
    using w by (auto simp: queue_get_many_def tracker_fold_def)
  moreover have "queue_get (\<lambda>k at. Inr (find_entity k at)) reqs k = Inr (?m k)" if "k \<in> set keys" for k
    using track_fold_many[OF w, of k] that
    by (cases "track_find (\<lambda>b at. batch_last_op b k at) (rev reqs) tracker_new")
       (auto simp: queue_get_def tracker_find_map_def op_result_def split: option.splits entity_op.splits)
  ultimately show ?thesis by blast
qed

theorem get_many_agrees_with_get_witness:
  "\<exists>m. queue_get_many (\<lambda>ks at. Inr (\<lambda>k. if k \<in> set ks then None else None))
      [ReqWrite (token_batch block_five [Overwrite token_key 2 5 None]) False] [token_key] = Inr m
    \<and> queue_get (\<lambda>k at. Inr None) [ReqWrite (token_batch block_five [Overwrite token_key 2 5 None]) False] token_key
        = Inr (m token_key)"
  using get_many_agrees_with_get[of "\<lambda>_ _. None"
      "[ReqWrite (token_batch block_five [Overwrite token_key 2 5 None]) False]" "[token_key]"] by simp

text \<open>
  A query for derived entities that excludes two or more ids excludes none: the condition
  \<open>id != any(..)\<close> holds for every row as soon as two different ids are listed.
\<close>

lemma derived_exclusion_of_two_ids:
  assumes "k \<in> set keys" and "l \<in> set keys" and "key_id k \<noteq> key_id l"
  shows "find_derived et t is_related cr block keys = find_derived et t is_related cr block []"
proof -
  have "\<exists>i \<in> set (map key_id keys). v_id v \<noteq> i" for v :: "'a version"
    using assms by (metis image_eqI set_map)
  then have "derived_selects t is_related cr block (map key_id keys) = derived_selects t is_related cr block []"
    unfolding derived_selects_def by (intro ext) blast
  then show ?thesis unfolding find_derived_def list.map(1) by simp
qed

section \<open>The background writer\<close>

text \<open>The three steps for one request.\<close>

lemma writer_request:
  assumes "wq_phase q = Waiting" and "r \<noteq> ReqStop" and "execute (start_process r) s0 = Inr (x, s1)"
  shows "(writer_step execute ^^ 3) (q\<lparr>wq_requests := r # rs, wq_store := s0\<rparr>)
    (q\<lparr>wq_requests := rs, wq_store := s1\<rparr>)"
proof -
  let ?q1 = "q\<lparr>wq_requests := start_process r # rs, wq_store := s0, wq_phase := Executing\<rparr>"
  let ?q2 = "q\<lparr>wq_requests := start_process r # rs, wq_store := s1, wq_phase := Executed\<rparr>"
  have q: "q\<lparr>wq_requests := rs, wq_store := s1\<rparr> = q\<lparr>wq_requests := rs, wq_store := s1, wq_phase := Waiting\<rparr>"
    using assms(1) by (cases q) simp
  have "writer_step execute (q\<lparr>wq_requests := r # rs, wq_store := s0\<rparr>) ?q1"
    by (rule writer_step.start) (simp add: writer_start_def assms(1))
  moreover have "writer_step execute ?q1 ?q2"
    by (rule writer_step.execute) (simp add: writer_execute_def assms(3))
  moreover have "writer_step execute ?q2 (q\<lparr>wq_requests := rs, wq_store := s1, wq_phase := Waiting\<rparr>)"
    using assms(2) by (intro writer_step.pop) (cases r; simp add: writer_pop_def)
  ultimately have "(writer_step execute ^^ 3) (q\<lparr>wq_requests := r # rs, wq_store := s0\<rparr>)
      (q\<lparr>wq_requests := rs, wq_store := s1, wq_phase := Waiting\<rparr>)"
    unfolding numeral_3_eq_3 by (blast intro: relpowp_Suc_I relpowp_0_I)
  then show ?thesis by (simp only: q[symmetric])
qed

lemma writer_requests:
  assumes "wq_phase q = Waiting" and "ReqStop \<notin> set rs"
    and "fold_res (\<lambda>r s. bind_res (execute (start_process r) s) (\<lambda>(_, s'). Inr s')) rs s0 = Inr s"
  shows "(writer_step execute ^^ (3 * length rs)) (q\<lparr>wq_requests := rs, wq_store := s0\<rparr>)
    (q\<lparr>wq_requests := [], wq_store := s\<rparr>)"
  using assms(2,3)
proof (induction rs arbitrary: s0)
  case (Cons r rs)
  then obtain x s1 where "execute (start_process r) s0 = Inr (x, s1)"
    "fold_res (\<lambda>r s. bind_res (execute (start_process r) s) (\<lambda>(_, s'). Inr s')) rs s1 = Inr s"
    by (auto simp: bind_res_Inr_iff)
  moreover have "r \<noteq> ReqStop" "ReqStop \<notin> set rs" using Cons.prems(1) by auto
  ultimately have "(writer_step execute ^^ 3 OO writer_step execute ^^ (3 * length rs))
      (q\<lparr>wq_requests := r # rs, wq_store := s0\<rparr>) (q\<lparr>wq_requests := [], wq_store := s\<rparr>)"
    using writer_request[OF assms(1)] Cons.IH by blast
  then have "(writer_step execute ^^ (3 + 3 * length rs))
      (q\<lparr>wq_requests := r # rs, wq_store := s0\<rparr>) (q\<lparr>wq_requests := [], wq_store := s\<rparr>)"
    by (simp only: relpowp_add)
  moreover have "3 * length (r # rs) = 3 + 3 * length rs" by simp
  ultimately show ?case by (simp only:)
qed simp

text \<open>
  C17: the writer drains the queue. If executing the queued requests one after the other succeeds
  and none of them is a stop request, three steps of the writer per request (start, execute, pop)
  empty the queue, in the order of the queue, and the store is the result of all of them.
\<close>

theorem writer_drains_queue:
  assumes "wq_phase q = Waiting" and "ReqStop \<notin> set (wq_requests q)"
    and "fold_res (\<lambda>r s. bind_res (execute (start_process r) s) (\<lambda>(_, s'). Inr s')) (wq_requests q) (wq_store q)
      = Inr s"
  shows "(writer_step execute ^^ (3 * length (wq_requests q))) q (q\<lparr>wq_requests := [], wq_store := s\<rparr>)"
  using writer_requests[OF assms] by simp

text \<open>The example: the writer of the deployment with a request for the batch of two blocks.\<close>

definition token_queue :: "(nat stored_batch, nat deployment) write_queue" where
  "token_queue = queue_start 5 deployment \<lparr>wq_requests := [request_write folded_batch]\<rparr>"

abbreviation execute_on_store :: "nat stored_batch request \<Rightarrow> nat deployment
    \<Rightarrow> (store_error, exec_result \<times> nat deployment) result" where
  "execute_on_store \<equiv> req_execute (exec_transact config) (exec_revert config)"

lemma execute_folded_batch:
  "execute_on_store (ReqWrite folded_batch p) deployment = Inr (Continue, deployment_after)"
proof -
  have "b_error folded_batch = None" by (simp add: batch_defs)
  then show ?thesis by (simp add: exec_transact_def transact_folded_batch)
qed

theorem writer_drains_queue_witness:
  "(writer_step execute_on_store ^^ 3) token_queue (token_queue\<lparr>wq_requests := [], wq_store := deployment_after\<rparr>)"
  using writer_drains_queue[of token_queue execute_on_store deployment_after] execute_folded_batch
  by (simp add: token_queue_def queue_start_def request_write_def)



text \<open>
  An append that failed is found out. The batch keeps the error, and executing the request it
  is in returns it without touching the store.
\<close>

lemma failed_append_is_reported:
  assumes "batch_append im weigh other self = (Some e, self')"
  shows "b_error self' = Some e
    \<and> req_execute transact revert (ReqWrite self' p) s = Inl e"
  using batch_append_Some[OF assms] by simp

section \<open>The writable store\<close>

text \<open>
  A block is accepted only after the current head, and the head moves only when the write was
  accepted: an error leaves it where it was.
\<close>

lemma accepted_blocks_go_forward:
  assumes "ws_transact_block_operations do_push new_batch store_synced caught_up ptr cursor w = Some (err, w')"
  shows "(err = None \<longrightarrow> ws_block_ptr w' = Some ptr \<and> ws_block_cursor w' = cursor
      \<and> (\<forall>head. ws_block_ptr w = Some head \<longrightarrow> number head < number ptr))
    \<and> (err \<noteq> None \<longrightarrow> ws_block_ptr w' = ws_block_ptr w \<and> ws_block_cursor w' = ws_block_cursor w)"
proof -
  obtain err1 w1 where w1: "(if caught_up then ws_deployment_synced store_synced w
      else (None, w\<lparr>ws_queue := start_batching (ws_queue w)\<rparr>)) = (err1, w1)" by fastforce
  have f: "ws_block_ptr w1 = ws_block_ptr w \<and> ws_block_cursor w1 = ws_block_cursor w"
    using w1 by (cases caught_up; cases store_synced) (auto simp: ws_deployment_synced_def Let_def split: if_splits)
  have wr: "(err = None \<longrightarrow> ws_block_ptr w' = Some ptr \<and> ws_block_cursor w' = cursor)
      \<and> (err \<noteq> None \<longrightarrow> ws_block_ptr w' = ws_block_ptr w \<and> ws_block_cursor w' = ws_block_cursor w)"
    if written: "ws_write do_push new_batch ptr cursor w1 = Some (err, w')"
  proof (cases new_batch)
    case (Inl e)
    then show ?thesis using written f by (auto simp: ws_write_def)
  next
    case (Inr batch)
    then obtain p where p: "(case p of (err2, q) \<Rightarrow> case err2 of Some e \<Rightarrow> (Some e, w1\<lparr>ws_queue := q\<rparr>)
       | None \<Rightarrow> (None, w1\<lparr>ws_queue := q, ws_block_ptr := Some ptr, ws_block_cursor := cursor\<rparr>)) = (err, w')"
      using written unfolding ws_write_def by (simp only: sum.case map_option_eq_Some) blast
    obtain err2 q where "p = (err2, q)" by fastforce
    then show ?thesis using f p by (cases err2) auto
  qed
  show ?thesis
  proof (cases err1)
    case (Some e)
    then have "err = Some e \<and> w' = w1" using assms w1 by (simp add: ws_transact_block_operations_def)
    then show ?thesis using f by simp
  next
    case None
    then have "(case ws_block_ptr w1 of
          Some head \<Rightarrow> if number ptr \<le> number head
            then Some (Some (ConstraintViolation (HeadIsAlreadyAt ptr head)), w1)
            else ws_write do_push new_batch ptr cursor w1
        | None \<Rightarrow> ws_write do_push new_batch ptr cursor w1) = Some (err, w')"
      using assms w1 by (simp add: ws_transact_block_operations_def)
    then consider "ws_write do_push new_batch ptr cursor w1 = Some (err, w')"
        "\<forall>head. ws_block_ptr w1 = Some head \<longrightarrow> number head < number ptr"
      | "err \<noteq> None" "w' = w1"
      by (cases "ws_block_ptr w1") (auto split: if_splits)
    then show ?thesis using wr f by cases auto
  qed
qed

end
