(* ===== verification/Block_Stream.thy ===== *)
theory Block_Stream
  imports Prelude Complex_Main
begin

text \<open>
  \<open>graph/src/blockchain/polling_block_stream.rs\<close>: the stream of blocks that a subgraph processes.
  The chain is seen through the methods of \<open>TriggersAdapterWrapper\<close>, whose answers are the fields
  of a record. Numbers of type \<open>f64\<close> are rational; \<open>round64\<close> is the rounding of IEEE 754 to
  double precision, which the model leaves open. Errors of the adapter carry a message.
\<close>

section \<open>Types\<close>

record trigger_block =
  tb_ptr :: block_ptr
  tb_parent_hash :: "string option"
  tb_trigger_count :: nat

record chain_adapter =
  a_chain_head_ptr :: "(string, block_ptr option) result"
  a_is_on_main_chain :: "block_ptr \<Rightarrow> (string, bool) result"
  a_parent_ptr :: "block_ptr \<Rightarrow> (string, block_ptr option) result"
  a_scan_triggers :: "block_number \<Rightarrow> block_number \<Rightarrow> (string, trigger_block list \<times> block_number) result"
  a_ancestor_block :: "block_ptr \<Rightarrow> int \<Rightarrow> string option \<Rightarrow> (string, trigger_block option) result"
  a_triggers_in_block :: "trigger_block \<Rightarrow> (string, trigger_block) result"

datatype reconciliation_step =
    RevertTo block_ptr
  | ProcessDescendantBlocks "trigger_block list" block_number
  | Retry
  | ReconciliationDone

datatype next_blocks =
    NextBlocks "trigger_block list" block_number
  | NextRevert block_ptr
  | NextDone

definition STARTING_PREVIOUS_TRIGGERS_PER_BLOCK :: rat where
  "STARTING_PREVIOUS_TRIGGERS_PER_BLOCK = 1000000"

record stream_context =
  sc_reorg_threshold :: block_number
  sc_start_blocks :: "block_number list"
  sc_previous_triggers_per_block :: rat
  sc_previous_block_range_size :: block_number
  sc_max_block_range_size :: block_number
  sc_target_triggers_per_block_range :: nat
  sc_current_block :: "block_ptr option"

datatype block_stream_state =
    BeginReconciliation
  | Reconciliation
  | YieldingBlocks "trigger_block list"
  | RetryAfterDelay int
  | Idle

record polling_block_stream =
  ps_state :: block_stream_state
  ps_consecutive_err_count :: nat
  ps_ctx :: stream_context

definition stream_new :: "block_number list \<Rightarrow> block_number \<Rightarrow> block_number \<Rightarrow> nat
    \<Rightarrow> block_ptr option \<Rightarrow> polling_block_stream" where
  "stream_new start_blocks reorg_threshold max_block_range_size target start_block =
     \<lparr>ps_state = BeginReconciliation, ps_consecutive_err_count = 0,
      ps_ctx = \<lparr>sc_reorg_threshold = reorg_threshold, sc_start_blocks = start_blocks,
                sc_previous_triggers_per_block = STARTING_PREVIOUS_TRIGGERS_PER_BLOCK,
                sc_previous_block_range_size = 1, sc_max_block_range_size = max_block_range_size,
                sc_target_triggers_per_block_range = target, sc_current_block = start_block\<rparr>\<rparr>"

section \<open>The next step\<close>

definition stream_parent_ptr :: "chain_adapter \<Rightarrow> block_ptr \<Rightarrow> (string, block_ptr) result" where
  "stream_parent_ptr a ptr =
     bind_res (a_parent_ptr a ptr)
       (\<lambda>p. case p of None \<Rightarrow> Inl ''Failed to get parent pointer'' | Some parent \<Rightarrow> Inr parent)"

text \<open>
  The size of the next range: \<open>x as BlockNumber\<close> truncates, and \<open>x\<close> is not negative here.
\<close>

definition range_size_upper_limit :: "stream_context \<Rightarrow> block_number" where
  "range_size_upper_limit c = min (sc_max_block_range_size c) (wrap_i32 (sc_previous_block_range_size c * 10))"

definition target_range_size :: "(rat \<Rightarrow> rat) \<Rightarrow> stream_context \<Rightarrow> block_number" where
  "target_range_size round64 c =
     (if sc_previous_triggers_per_block c = 0 then range_size_upper_limit c
      else \<lfloor>min (max (round64 (round64 (of_nat (sc_target_triggers_per_block_range c))
                               / sc_previous_triggers_per_block c)) 1)
                (round64 (of_int (range_size_upper_limit c)))\<rfloor>)"

definition next_start_block :: "stream_context \<Rightarrow> block_number \<Rightarrow> block_number" where
  "next_start_block c from_block =
     (case filter (\<lambda>b. b > from_block) (sc_start_blocks c) of
        [] \<Rightarrow> BLOCK_NUMBER_MAX | bs \<Rightarrow> Min (set bs))"

text \<open>The range of blocks that is scanned when the subgraph is far behind.\<close>

definition scan_from :: "stream_context \<Rightarrow> block_number" where
  "scan_from c = (case sc_current_block c of None \<Rightarrow> 0 | Some ptr \<Rightarrow> number ptr + 1)"

definition scan_to :: "(rat \<Rightarrow> rat) \<Rightarrow> stream_context \<Rightarrow> block_number \<Rightarrow> block_number \<Rightarrow> block_number" where
  "scan_to round64 c head reorg_threshold =
     (let from_block = scan_from c;
          to_limit = min (head - reorg_threshold) (next_start_block c from_block - 1)
      in min (wrap_i32 (wrap_i32 (from_block + target_range_size round64 c) - 1)) to_limit)"

text \<open>The branch for a subgraph that is more than the reorg threshold behind the head.\<close>

definition step_beyond_threshold :: "(rat \<Rightarrow> rat) \<Rightarrow> chain_adapter \<Rightarrow> stream_context \<Rightarrow> block_ptr
    \<Rightarrow> block_number \<Rightarrow> (string, reconciliation_step) result" where
  "step_beyond_threshold round64 a c head_ptr reorg_threshold =
     bind_res (case sc_current_block c of None \<Rightarrow> Inr True | Some ptr \<Rightarrow> a_is_on_main_chain a ptr)
       (\<lambda>is_on_main_chain.
          if \<not> is_on_main_chain then
            (case sc_current_block c of
               None \<Rightarrow> Inl ''unwrap on None''
             | Some from_ptr \<Rightarrow> bind_res (stream_parent_ptr a from_ptr) (\<lambda>p. Inr (RevertTo p)))
          else
            let from_block = scan_from c;
                to_block = scan_to round64 c (number head_ptr) reorg_threshold
            in bind_res (a_scan_triggers a from_block to_block)
                 (\<lambda>(blocks, to_block').
                    let range_size = to_block' - from_block + 1
                    in if to_block' > number head_ptr - reorg_threshold then Inr Retry
                       else Inr (ProcessDescendantBlocks blocks range_size)))"

text \<open>The branch for a subgraph that is close to the head.\<close>

definition step_within_threshold :: "chain_adapter \<Rightarrow> block_ptr \<Rightarrow> block_ptr
    \<Rightarrow> (string, reconciliation_step) result" where
  "step_within_threshold a head_ptr subgraph_ptr =
     bind_res (a_ancestor_block a head_ptr (number head_ptr - number subgraph_ptr - 1)
                 (Some (hash subgraph_ptr)))
       (\<lambda>head_ancestor_opt. case head_ancestor_opt of
          None \<Rightarrow> Inr Retry
        | Some head_ancestor \<Rightarrow>
            if tb_parent_hash head_ancestor = Some (hash subgraph_ptr)
            then bind_res (a_triggers_in_block a head_ancestor)
                   (\<lambda>block. Inr (ProcessDescendantBlocks [block] 1))
            else bind_res (stream_parent_ptr a subgraph_ptr) (\<lambda>p. Inr (RevertTo p)))"

definition get_next_step :: "(rat \<Rightarrow> rat) \<Rightarrow> chain_adapter \<Rightarrow> stream_context
    \<Rightarrow> (string, reconciliation_step) result" where
  "get_next_step round64 a c =
     bind_res (a_chain_head_ptr a)
       (\<lambda>head_ptr_opt. case head_ptr_opt of
          None \<Rightarrow> Inr ReconciliationDone
        | Some head_ptr \<Rightarrow>
            let reorg_threshold = min (sc_reorg_threshold c) (number head_ptr)
            in if (case sc_current_block c of None \<Rightarrow> False | Some ptr \<Rightarrow> number ptr \<ge> number head_ptr)
               then Inr ReconciliationDone
               else
                 (case sc_current_block c of
                    None \<Rightarrow> step_beyond_threshold round64 a c head_ptr reorg_threshold
                  | Some subgraph_ptr \<Rightarrow>
                      if number head_ptr - number subgraph_ptr > reorg_threshold
                      then step_beyond_threshold round64 a c head_ptr reorg_threshold
                      else step_within_threshold a head_ptr subgraph_ptr))"

text \<open>
  \<open>next_blocks\<close> retries at once. The answers of the chain change over time: the list holds the
  adapter as it is at each round, and \<open>None\<close> means that the loop is still running at its end.
\<close>

fun stream_next_blocks :: "(rat \<Rightarrow> rat) \<Rightarrow> stream_context \<Rightarrow> chain_adapter list
    \<Rightarrow> (string, next_blocks) result option" where
  "stream_next_blocks round64 c [] = None"
| "stream_next_blocks round64 c (a # as) =
     (case get_next_step round64 a c of
        Inl e \<Rightarrow> Some (Inl e)
      | Inr (ProcessDescendantBlocks blocks range_size) \<Rightarrow> Some (Inr (NextBlocks blocks range_size))
      | Inr Retry \<Rightarrow> stream_next_blocks round64 c as
      | Inr ReconciliationDone \<Rightarrow> Some (Inr NextDone)
      | Inr (RevertTo ptr) \<Rightarrow> Some (Inr (NextRevert ptr)))"

section \<open>Polling\<close>

datatype stream_item =
    ProcessBlock trigger_block
  | Revert block_ptr
  | StreamError string

text \<open>
  What one round of the loop of \<open>poll_next\<close> sees: the future of the reconciliation, the delay and
  the stream of chain head updates; \<open>None\<close> is \<open>Poll::Pending\<close>.
\<close>

record poll_input =
  pi_next_blocks :: "(string, next_blocks) result option"
  pi_delay_over :: bool
  pi_head_update :: "unit option option"

datatype poll_result = PollContinue | PollPending | PollReady stream_item

definition after_blocks :: "(rat \<Rightarrow> rat) \<Rightarrow> trigger_block list \<Rightarrow> block_number \<Rightarrow> polling_block_stream
    \<Rightarrow> polling_block_stream" where
  "after_blocks round64 blocks block_range_size s =
     (let c = ps_ctx s;
          max_size = (if ps_consecutive_err_count s = 1
                      then max (wrap_i32 (sc_max_block_range_size c * 9) div 10) 10
                      else sc_max_block_range_size c);
          total_triggers = sum_list (map tb_trigger_count blocks)
      in s\<lparr>ps_state := YieldingBlocks blocks, ps_consecutive_err_count := 0,
           ps_ctx := c\<lparr>sc_max_block_range_size := max_size,
                       sc_previous_triggers_per_block :=
                         round64 (round64 (of_nat total_triggers) / of_int block_range_size),
                       sc_previous_block_range_size := block_range_size\<rparr>\<rparr>)"

definition retry_delay :: "nat \<Rightarrow> int" where
  "retry_delay consecutive_err_count = max (5 * int consecutive_err_count) 120"

definition after_error :: "polling_block_stream \<Rightarrow> polling_block_stream" where
  "after_error s =
     (let n = ps_consecutive_err_count s + 1
      in s\<lparr>ps_state := RetryAfterDelay (retry_delay n), ps_consecutive_err_count := n,
           ps_ctx := (ps_ctx s)\<lparr>sc_previous_triggers_per_block :=
                                  STARTING_PREVIOUS_TRIGGERS_PER_BLOCK\<rparr>\<rparr>)"

definition poll_round :: "(rat \<Rightarrow> rat) \<Rightarrow> poll_input \<Rightarrow> polling_block_stream
    \<Rightarrow> poll_result \<times> polling_block_stream" where
  "poll_round round64 i s =
     (case ps_state s of
        BeginReconciliation \<Rightarrow> (PollContinue, s\<lparr>ps_state := Reconciliation\<rparr>)
      | Reconciliation \<Rightarrow>
          (case pi_next_blocks i of
             None \<Rightarrow> (PollPending, s)
           | Some (Inr (NextBlocks blocks range_size)) \<Rightarrow>
               (PollContinue, after_blocks round64 blocks range_size s)
           | Some (Inr NextDone) \<Rightarrow>
               (PollContinue, s\<lparr>ps_consecutive_err_count := 0, ps_state := Idle\<rparr>)
           | Some (Inr (NextRevert ptr)) \<Rightarrow>
               (PollReady (Revert ptr),
                s\<lparr>ps_ctx := (ps_ctx s)\<lparr>sc_current_block := Some ptr\<rparr>, ps_state := BeginReconciliation\<rparr>)
           | Some (Inl e) \<Rightarrow> (PollReady (StreamError e), after_error s))
      | YieldingBlocks blocks \<Rightarrow>
          (case blocks of
             [] \<Rightarrow> (PollContinue, s\<lparr>ps_state := BeginReconciliation\<rparr>)
           | b # rest \<Rightarrow>
               (PollReady (ProcessBlock b),
                s\<lparr>ps_state := YieldingBlocks rest,
                  ps_ctx := (ps_ctx s)\<lparr>sc_current_block := Some (tb_ptr b)\<rparr>\<rparr>))
      | RetryAfterDelay secs \<Rightarrow>
          if pi_delay_over i then (PollContinue, s\<lparr>ps_state := BeginReconciliation\<rparr>) else (PollPending, s)
      | Idle \<Rightarrow>
          (case pi_head_update i of
             None \<Rightarrow> (PollPending, s)
           | Some (Some _) \<Rightarrow> (PollContinue, s\<lparr>ps_state := BeginReconciliation\<rparr>)
           | Some None \<Rightarrow>
               (PollReady (StreamError ''chain head update stream ended unexpectedly''), s)))"

text \<open>\<open>poll_next\<close> loops until a round does not continue; \<open>None\<close> if the inputs end before that.\<close>

fun poll_next :: "(rat \<Rightarrow> rat) \<Rightarrow> poll_input list \<Rightarrow> polling_block_stream
    \<Rightarrow> (poll_result \<times> polling_block_stream) option" where
  "poll_next round64 [] s = None"
| "poll_next round64 (i # is) s =
     (case poll_round round64 i s of
        (PollContinue, s') \<Rightarrow> poll_next round64 is s'
      | r \<Rightarrow> Some r)"

section \<open>The range that is scanned\<close>

text \<open>What the rounding of \<open>f64\<close> does on the block range sizes that occur.\<close>

definition rounds_like_f64 :: "(rat \<Rightarrow> rat) \<Rightarrow> bool" where
  "rounds_like_f64 round64 \<longleftrightarrow> (\<forall>x y. x \<le> y \<longrightarrow> round64 x \<le> round64 y)
     \<and> (\<forall>n. \<bar>n\<bar> \<le> 2 ^ 53 \<longrightarrow> round64 (of_int n) = of_int n)"

lemma target_range_size_bounds:
  assumes "rounds_like_f64 round64" and "1 \<le> range_size_upper_limit c"
    and "range_size_upper_limit c \<le> 2147483647"
  shows "1 \<le> target_range_size round64 c \<and> target_range_size round64 c \<le> range_size_upper_limit c"
proof -
  have r: "round64 (of_int (range_size_upper_limit c)) = of_int (range_size_upper_limit c)"
    using assms by (simp add: rounds_like_f64_def)
  show ?thesis
    unfolding target_range_size_def r using assms(2)
    by (auto simp: le_floor_iff min_def max_def) linarith+
qed

lemma next_start_block_after: "from_block < BLOCK_NUMBER_MAX \<Longrightarrow> from_block < next_start_block c from_block"
proof -
  assume a: "from_block < BLOCK_NUMBER_MAX"
  show ?thesis
  proof (cases "filter (\<lambda>b. b > from_block) (sc_start_blocks c)")
    case Nil
    then show ?thesis using a by (simp add: next_start_block_def)
  next
    case (Cons b bs)
    have "\<forall>x \<in> set (b # bs). from_block < x" unfolding Cons[symmetric] by simp
    then show ?thesis by (simp add: next_start_block_def Cons)
  qed
qed

lemma next_start_block_least:
  "b \<in> set (sc_start_blocks c) \<Longrightarrow> from_block < b \<Longrightarrow> next_start_block c from_block \<le> b"
proof -
  assume a: "b \<in> set (sc_start_blocks c)" "from_block < b"
  then have b: "b \<in> set (filter (\<lambda>b. b > from_block) (sc_start_blocks c))" by simp
  then show ?thesis
    by (cases "filter (\<lambda>b. b > from_block) (sc_start_blocks c)")
       (auto simp: next_start_block_def simp del: filter.simps)
qed

text \<open>
  Far behind the head, the scanned range starts right after the current block, is not empty, stays
  at least the reorg threshold behind the head, is no longer than the limits allow, and no data
  source starts inside it other than at its first block.
\<close>

text \<open>The sizes and the current block are such that no \<open>i32\<close> overflows.\<close>

definition range_fits :: "stream_context \<Rightarrow> bool" where
  "range_fits c \<longleftrightarrow> 1 \<le> sc_max_block_range_size c
     \<and> 1 \<le> sc_previous_block_range_size c \<and> sc_previous_block_range_size c * 10 \<le> 2147483647
     \<and> 0 \<le> scan_from c \<and> scan_from c + min (sc_max_block_range_size c) (sc_previous_block_range_size c * 10) \<le> 2147483647"

lemma range_fits_upper_limit:
  assumes "range_fits c"
  shows "range_size_upper_limit c = min (sc_max_block_range_size c) (sc_previous_block_range_size c * 10)"
    and "1 \<le> range_size_upper_limit c" and "scan_from c + range_size_upper_limit c \<le> 2147483647"
proof -
  have "wrap_i32 (sc_previous_block_range_size c * 10) = sc_previous_block_range_size c * 10"
    using assms by (intro wrap_i32_id) (simp add: range_fits_def i32_range_def)
  then show *: "range_size_upper_limit c = min (sc_max_block_range_size c) (sc_previous_block_range_size c * 10)"
    by (simp add: range_size_upper_limit_def)
  show "1 \<le> range_size_upper_limit c" "scan_from c + range_size_upper_limit c \<le> 2147483647"
    using assms unfolding * range_fits_def by linarith+
qed

lemma scan_to_fits:
  assumes "rounds_like_f64 round64" and "range_fits c"
  shows "1 \<le> target_range_size round64 c \<and> target_range_size round64 c \<le> range_size_upper_limit c"
    and "scan_to round64 c head threshold = min (scan_from c + target_range_size round64 c - 1)
       (min (head - threshold) (next_start_block c (scan_from c) - 1))"
proof -
  note u = range_fits_upper_limit[OF assms(2)]
  have s: "0 \<le> scan_from c" using assms(2) by (simp add: range_fits_def)
  show t: "1 \<le> target_range_size round64 c \<and> target_range_size round64 c \<le> range_size_upper_limit c"
    by (rule target_range_size_bounds[OF assms(1) u(2)]) (use u(3) s in linarith)
  have "i32_range (scan_from c + target_range_size round64 c)" "i32_range (scan_from c + target_range_size round64 c - 1)"
    using t u(3) s unfolding i32_range_def by linarith+
  then show "scan_to round64 c head threshold = min (scan_from c + target_range_size round64 c - 1)
       (min (head - threshold) (next_start_block c (scan_from c) - 1))"
    by (simp add: scan_to_def Let_def wrap_i32_id)
qed

lemma scan_range:
  assumes "rounds_like_f64 round64" and "range_fits c" and "scan_from c \<le> head - threshold"
  shows "scan_from c \<le> scan_to round64 c head threshold"
    and "scan_to round64 c head threshold \<le> head - threshold"
    and "scan_to round64 c head threshold - scan_from c + 1
       \<le> min (sc_max_block_range_size c) (sc_previous_block_range_size c * 10)"
    and "\<forall>b \<in> set (sc_start_blocks c). b \<le> scan_from c \<or> scan_to round64 c head threshold < b"
proof -
  note u = range_fits_upper_limit[OF assms(2)] and t = scan_to_fits[OF assms(1,2)]
  have "scan_from c < BLOCK_NUMBER_MAX" using u(2,3) by (simp add: BLOCK_NUMBER_MAX_def)
  note n = next_start_block_after[OF this, of c]
  show "scan_from c \<le> scan_to round64 c head threshold"
    using t(1) n assms(3) unfolding t(2) by linarith
  show "scan_to round64 c head threshold \<le> head - threshold" unfolding t(2) by linarith
  show "scan_to round64 c head threshold - scan_from c + 1
     \<le> min (sc_max_block_range_size c) (sc_previous_block_range_size c * 10)"
    using t(1) unfolding t(2) u(1)[symmetric] by linarith
  show "\<forall>b \<in> set (sc_start_blocks c). b \<le> scan_from c \<or> scan_to round64 c head threshold < b"
  proof
    fix b assume "b \<in> set (sc_start_blocks c)"
    then show "b \<le> scan_from c \<or> scan_to round64 c head threshold < b"
      using next_start_block_least[of b c "scan_from c"] unfolding t(2) by linarith
  qed
qed


section \<open>Which step is taken\<close>

text \<open>Near the head the stream moves to a child of the current block, or back to its parent.\<close>

lemma near_head_step:
  assumes "get_next_step round64 a c = Inr step" and "sc_current_block c = Some ptr"
    and "a_chain_head_ptr a = Inr (Some head)" and "number head - number ptr \<le> min (sc_reorg_threshold c) (number head)"
  shows "step = ReconciliationDone \<and> number head \<le> number ptr \<or> step = Retry
    \<or> (\<exists>child block. step = ProcessDescendantBlocks [block] 1 \<and> a_triggers_in_block a child = Inr block
         \<and> tb_parent_hash child = Some (hash ptr))
    \<or> (\<exists>parent. step = RevertTo parent \<and> a_parent_ptr a ptr = Inr (Some parent))"
  using assms
  by (auto simp: get_next_step_def Let_def step_within_threshold_def stream_parent_ptr_def bind_res_def
      split: if_splits option.splits sum.splits)

text \<open>
  Far from the head it asks for the range of \<open>scan_range\<close>; what it takes from the answer ends at
  least the reorg threshold behind the head.
\<close>

lemma far_from_head_step:
  assumes "get_next_step round64 a c = Inr (ProcessDescendantBlocks blocks size')"
    and "a_chain_head_ptr a = Inr (Some head)"
    and "case sc_current_block c of None \<Rightarrow> True
         | Some ptr \<Rightarrow> number head - number ptr > min (sc_reorg_threshold c) (number head)"
  shows "\<exists>to'. a_scan_triggers a (scan_from c)
        (scan_to round64 c (number head) (min (sc_reorg_threshold c) (number head))) = Inr (blocks, to')
      \<and> size' = to' - scan_from c + 1 \<and> to' \<le> number head - min (sc_reorg_threshold c) (number head)"
  using assms
  by (auto simp: get_next_step_def Let_def step_beyond_threshold_def bind_res_Inr_iff not_less
      split: if_splits option.splits)

section \<open>The state machine\<close>

text \<open>
  The comments on the states list the states that may follow; a failed reconciliation also leads to
  \<open>RetryAfterDelay\<close>.
\<close>

fun may_follow :: "block_stream_state \<Rightarrow> block_stream_state \<Rightarrow> bool" where
  "may_follow BeginReconciliation s \<longleftrightarrow> s = Reconciliation"
| "may_follow Reconciliation s \<longleftrightarrow>
     s = Idle \<or> s = BeginReconciliation \<or> (\<exists>bs. s = YieldingBlocks bs) \<or> (\<exists>n. s = RetryAfterDelay n)"
| "may_follow (YieldingBlocks bs) s \<longleftrightarrow>
     (case bs of [] \<Rightarrow> s = BeginReconciliation | b # rest \<Rightarrow> s = YieldingBlocks rest)"
| "may_follow (RetryAfterDelay n) s \<longleftrightarrow> s = BeginReconciliation"
| "may_follow Idle s \<longleftrightarrow> s = BeginReconciliation"

lemma poll_round_state:
  assumes "poll_round round64 i s = (r, s')"
  shows "ps_state s' = ps_state s \<or> may_follow (ps_state s) (ps_state s')"
    and "ps_state s' = ps_state s \<Longrightarrow> r \<noteq> PollContinue"
  using assms
  by (auto simp: poll_round_def after_blocks_def after_error_def Let_def
      split: block_stream_state.splits option.splits sum.splits next_blocks.splits list.splits if_splits)

text \<open>
  The limits that \<open>scan_range\<close> assumes hold in every state that the stream gets to, as long as the
  reconciliation only delivers ranges that are not empty and not so large that the limit overflows.
\<close>

definition limits_ok :: "polling_block_stream \<Rightarrow> bool" where
  "limits_ok s \<longleftrightarrow> 1 \<le> sc_max_block_range_size (ps_ctx s) \<and> 1 \<le> sc_previous_block_range_size (ps_ctx s)
     \<and> sc_previous_block_range_size (ps_ctx s) * 10 \<le> 2147483647"

lemma limits_upper: "limits_ok s \<Longrightarrow> 1 \<le> range_size_upper_limit (ps_ctx s)"
  by (simp add: limits_ok_def range_size_upper_limit_def wrap_i32_id i32_range_def)

lemma poll_round_limits:
  assumes "poll_round round64 i s = (r, s')" and "limits_ok s"
    and "\<forall>bs n. pi_next_blocks i = Some (Inr (NextBlocks bs n)) \<longrightarrow> 1 \<le> n \<and> n * 10 \<le> 2147483647"
  shows "limits_ok s'"
  using assms
  by (auto simp: poll_round_def after_blocks_def after_error_def Let_def limits_ok_def
      split: block_stream_state.splits option.splits sum.splits next_blocks.splits list.splits if_splits)

inductive stream_reachable :: "(rat \<Rightarrow> rat) \<Rightarrow> polling_block_stream \<Rightarrow> polling_block_stream \<Rightarrow> bool"
  for round64 s0 where
  here: "stream_reachable round64 s0 s0"
| round: "stream_reachable round64 s0 s \<Longrightarrow>
    \<forall>bs n. pi_next_blocks i = Some (Inr (NextBlocks bs n)) \<longrightarrow> 1 \<le> n \<and> n * 10 \<le> 2147483647 \<Longrightarrow>
    poll_round round64 i s = (r, s') \<Longrightarrow> stream_reachable round64 s0 s'"

lemma reachable_limits: "stream_reachable round64 s0 s \<Longrightarrow> limits_ok s0 \<Longrightarrow> limits_ok s"
  by (induction rule: stream_reachable.induct) (auto intro: poll_round_limits)

text \<open>The blocks of a range come out one per poll, in order, and move the current block along.\<close>

fun poll_all :: "(rat \<Rightarrow> rat) \<Rightarrow> poll_input list \<Rightarrow> polling_block_stream
    \<Rightarrow> poll_result list \<times> polling_block_stream" where
  "poll_all round64 [] s = ([], s)"
| "poll_all round64 (i # is) s =
     (let (r, s1) = poll_round round64 i s; (rs, s2) = poll_all round64 is s1 in (r # rs, s2))"

lemma poll_yields_blocks:
  assumes "ps_state s = YieldingBlocks bs" and "length is = length bs"
  shows "fst (poll_all round64 is s) = map (\<lambda>b. PollReady (ProcessBlock b)) bs
    \<and> ps_state (snd (poll_all round64 is s)) = YieldingBlocks []
    \<and> sc_current_block (ps_ctx (snd (poll_all round64 is s))) =
        (if bs = [] then sc_current_block (ps_ctx s) else Some (tb_ptr (last bs)))"
  using assms
proof (induction bs arbitrary: s "is")
  case (Cons b bs)
  then obtain i is' where i: "is = i # is'" "length is' = length bs" by (cases "is") auto
  let ?s = "s\<lparr>ps_state := YieldingBlocks bs, ps_ctx := (ps_ctx s)\<lparr>sc_current_block := Some (tb_ptr b)\<rparr>\<rparr>"
  have r: "poll_round round64 i s = (PollReady (ProcessBlock b), ?s)"
    using Cons.prems(1) by (simp add: poll_round_def)
  show ?case using Cons.IH[of ?s is'] i r by (simp add: case_prod_beta)
qed simp

end
