(* ===== verification/Stream_Properties.thy ===== *)
theory Stream_Properties
  imports Block_Stream
begin

text \<open>
  The properties of the polling block stream, with their witnesses. The rounding of \<open>f64\<close> is
  instantiated with the identity.
\<close>

definition context_at :: "block_ptr option \<Rightarrow> stream_context" where
  "context_at current = \<lparr>sc_reorg_threshold = 50, sc_start_blocks = [7, 120],
     sc_previous_triggers_per_block = 1, sc_previous_block_range_size = 10, sc_max_block_range_size = 1000,
     sc_target_triggers_per_block_range = 100, sc_current_block = current\<rparr>"

lemma exact_arithmetic: "rounds_like_f64 id"
  by (simp add: rounds_like_f64_def)

section \<open>The range that is scanned\<close>

text \<open>
  C32: far behind the head, the range that the stream scans starts right after the current block,
  is not empty, stays the reorg threshold behind the head, is within both size limits, and no data
  source starts inside it other than at its first block; as long as ten times the previous size and the largest block that
  the limits allow fit into an \<open>i32\<close>.
\<close>

theorem scanned_range_bounds:
  assumes "rounds_like_f64 round64" and "range_fits c" and "scan_from c \<le> head - threshold"
  shows "scan_from c \<le> scan_to round64 c head threshold \<and> scan_to round64 c head threshold \<le> head - threshold
    \<and> scan_to round64 c head threshold - scan_from c + 1
        \<le> min (sc_max_block_range_size c) (sc_previous_block_range_size c * 10)
    \<and> (\<forall>b \<in> set (sc_start_blocks c). b \<le> scan_from c \<or> scan_to round64 c head threshold < b)"
  using scan_range[OF assms] by blast

theorem scanned_range_bounds_witness:
  "scan_to id (context_at (Some \<lparr>hash = ''b'', number = 99\<rparr>)) 1000 50 < 120"
proof -
  let ?c = "context_at (Some \<lparr>hash = ''b'', number = 99\<rparr>)"
  have "range_fits ?c" "scan_from ?c \<le> 1000 - 50"
    by (simp_all add: range_fits_def context_at_def scan_from_def)
  from scanned_range_bounds[OF exact_arithmetic this] show ?thesis
    by (simp add: context_at_def scan_from_def)
qed

text \<open>
  Without that the limit wraps around: after a range of 300 million blocks ten times its size is negative, and
  the end of the next range would lie before its start.
\<close>

lemma range_limit_overflows:
  "range_size_upper_limit ((context_at None)\<lparr>sc_max_block_range_size := 2000000000, sc_previous_block_range_size := 300000000\<rparr>) = - 1294967296"
  by (simp add: range_size_upper_limit_def wrap_i32_def)

text \<open>
  C33: what the stream takes from the scan is an answer for exactly that range, and it ends at least
  the reorg threshold behind the head, so the blocks it processes far from the head are final.
\<close>

theorem far_from_head_is_final:
  assumes "get_next_step round64 a c = Inr (ProcessDescendantBlocks blocks size')"
    and "a_chain_head_ptr a = Inr (Some head)"
    and "case sc_current_block c of None \<Rightarrow> True
         | Some ptr \<Rightarrow> number head - number ptr > min (sc_reorg_threshold c) (number head)"
  shows "\<exists>to'. a_scan_triggers a (scan_from c)
        (scan_to round64 c (number head) (min (sc_reorg_threshold c) (number head))) = Inr (blocks, to')
      \<and> size' = to' - scan_from c + 1 \<and> to' \<le> number head - min (sc_reorg_threshold c) (number head)"
  using assms by (rule far_from_head_step)

text \<open>An adapter of a chain without forks, whose blocks have no triggers.\<close>

definition straight_block :: "block_number \<Rightarrow> trigger_block" where
  "straight_block n = \<lparr>tb_ptr = \<lparr>hash = [char_of (nat n)], number = n\<rparr>,
     tb_parent_hash = Some [char_of (nat (n - 1))], tb_trigger_count = 0\<rparr>"

definition straight_chain :: "block_number \<Rightarrow> chain_adapter" where
  "straight_chain head =
     \<lparr>a_chain_head_ptr = Inr (Some (tb_ptr (straight_block head))), a_is_on_main_chain = (\<lambda>_. Inr True),
      a_parent_ptr = (\<lambda>ptr. Inr (Some (tb_ptr (straight_block (number ptr - 1))))),
      a_scan_triggers = (\<lambda>lo hi. Inr (map straight_block [lo..hi], hi)),
      a_ancestor_block = (\<lambda>ptr n _. Inr (Some (straight_block (number ptr - n)))),
      a_triggers_in_block = Inr\<rparr>"

theorem far_from_head_is_final_witness:
  "get_next_step id (straight_chain 100) (context_at (Some (tb_ptr (straight_block 47))))
     = Inr (ProcessDescendantBlocks (map straight_block [48..50]) 3)
   \<and> (\<exists>to'. 3 = to' - 48 + 1 \<and> to' \<le> 100 - (50 :: int))"
proof -
  let ?c = "context_at (Some (tb_ptr (straight_block 47)))"
  have s: "scan_to id ?c 100 50 = 50"
    by (simp add: scan_to_def scan_from_def target_range_size_def range_size_upper_limit_def wrap_i32_def
        next_start_block_def context_at_def straight_block_def)
  have g: "get_next_step id (straight_chain 100) ?c = Inr (ProcessDescendantBlocks (map straight_block [48..50]) 3)"
    using s by (simp add: get_next_step_def step_beyond_threshold_def straight_chain_def straight_block_def
        context_at_def scan_from_def)
  have "\<exists>to'. a_scan_triggers (straight_chain 100) (scan_from ?c) (scan_to id ?c (number (tb_ptr (straight_block 100)))
        (min (sc_reorg_threshold ?c) (number (tb_ptr (straight_block 100))))) = Inr (map straight_block [48..50], to')
      \<and> 3 = to' - scan_from ?c + 1
      \<and> to' \<le> number (tb_ptr (straight_block 100)) - min (sc_reorg_threshold ?c) (number (tb_ptr (straight_block 100)))"
    by (rule far_from_head_is_final[OF g])
      (simp_all add: straight_chain_def context_at_def straight_block_def)
  then show ?thesis using g by (auto simp: context_at_def scan_from_def straight_block_def)
qed

text \<open>
  Near the head the stream moves one block at a time: forward to a block whose parent is the
  current block, or back to the parent of the current block; otherwise it is done or retries.
\<close>

lemma near_head_moves_by_one:
  assumes "get_next_step round64 a c = Inr step" and "sc_current_block c = Some ptr"
    and "a_chain_head_ptr a = Inr (Some head)" and "number head - number ptr \<le> min (sc_reorg_threshold c) (number head)"
  shows "step = ReconciliationDone \<and> number head \<le> number ptr \<or> step = Retry
    \<or> (\<exists>child block. step = ProcessDescendantBlocks [block] 1 \<and> a_triggers_in_block a child = Inr block
         \<and> tb_parent_hash child = Some (hash ptr))
    \<or> (\<exists>parent. step = RevertTo parent \<and> a_parent_ptr a ptr = Inr (Some parent))"
  using assms by (rule near_head_step)

section \<open>The state machine\<close>

text \<open>
  A round of polling stays in its state or moves to a state that the comments on the states
  allow; and it never stays where it is and goes round again, so the loop makes progress.
\<close>

lemma poll_round_follows_state_machine:
  assumes "poll_round round64 i s = (r, s')"
  shows "(ps_state s' = ps_state s \<or> may_follow (ps_state s) (ps_state s'))
    \<and> (ps_state s' = ps_state s \<longrightarrow> r \<noteq> PollContinue)"
  using poll_round_state[OF assms] by blast

definition new_stream :: polling_block_stream where
  "new_stream = stream_new [7] 50 1000 100 None"

text \<open>
  In every state that a stream gets to, the limits on the next range are positive, as the
  bounds of the scanned range require, if they are at the start and the chain only delivers
  non-empty ranges.
\<close>

lemma stream_limits_stay_positive:
  assumes "stream_reachable round64 s0 s" and "limits_ok s0"
  shows "1 \<le> range_size_upper_limit (ps_ctx s)"
  using reachable_limits[OF assms] by (rule limits_upper)

text \<open>
  The blocks of a range are handed out one per poll, all of them and in their order, and the
  current block is the last of them.
\<close>

lemma blocks_yielded_in_order:
  assumes "ps_state s = YieldingBlocks bs" and "length inputs = length bs"
  shows "fst (poll_all round64 inputs s) = map (\<lambda>b. PollReady (ProcessBlock b)) bs
    \<and> ps_state (snd (poll_all round64 inputs s)) = YieldingBlocks []
    \<and> sc_current_block (ps_ctx (snd (poll_all round64 inputs s))) =
        (if bs = [] then sc_current_block (ps_ctx s) else Some (tb_ptr (last bs)))"
  using assms by (rule poll_yields_blocks)

text \<open>
  After an error the stream waits at least two minutes, however few errors there were: the
  \<open>max\<close> in the code bounds the delay from below, and nothing bounds it from above.
\<close>

lemma retry_delay_bounds:
  "120 \<le> retry_delay n \<and> (n \<le> 24 \<longrightarrow> retry_delay n = 120) \<and> (\<forall>bound. \<exists>m. bound \<le> retry_delay m)"
proof (intro conjI impI allI)
  show "\<exists>m. bound \<le> retry_delay m" for bound
    by (rule exI[of _ "nat bound"]) (simp add: retry_delay_def le_max_iff_disj)
qed (simp_all add: retry_delay_def)

end
