(* ===== verification/Eth_Data_Source.thy ===== *)
theory Eth_Data_Source
  imports Prelude "HOL-Library.Word" "HOL-Library.Sublist"
begin

text \<open>
  The data sources of an Ethereum subgraph, \<open>chain/ethereum/src/data_source.rs\<close>: their handlers
  and which handler a log, a call or a block runs. \<open>H160\<close> and \<open>H256\<close> are words of their width;
  a function selector is the list of its four bytes. Keccak-256 is the parameter \<open>keccak\<close>, from
  the bytes it hashes to the 32 bytes of the digest. The fields that only carry code, names and
  ABIs are left out.
\<close>

section \<open>Types\<close>

type_synonym address = "160 word"
type_synonym h256 = "256 word"
type_synonym bytes = "8 word list"

record eth_log =
  log_address :: address
  log_topics :: "h256 list"
  log_data :: bytes
  log_transaction_hash :: "h256 option"
  log_transaction_index :: "nat option"
  log_log_index :: "nat option"

record eth_call =
  call_to :: address
  call_input :: bytes
  call_output :: bytes
  call_transaction_hash :: "h256 option"
  call_transaction_index :: nat

record event_handler =
  eh_event :: string
  eh_topic0 :: "h256 option"
  eh_topic1 :: "h256 list option"
  eh_topic2 :: "h256 list option"
  eh_topic3 :: "h256 list option"
  eh_receipt :: bool
  eh_handler :: string

record call_handler =
  ch_function :: string
  ch_handler :: string

text \<open>The interval of a polling handler is a \<open>NonZeroU32\<close>, its value a positive number below \<open>2 ^ 32\<close>.\<close>

datatype block_handler_filter = CallFilter | OnceFilter | PollingFilter nat

record block_handler =
  bh_handler :: string
  bh_filter :: "block_handler_filter option"

record mapping =
  m_block_handlers :: "block_handler list"
  m_call_handlers :: "call_handler list"
  m_event_handlers :: "event_handler list"

record data_source =
  ds_address :: "address option"
  ds_start_block :: block_number
  ds_mapping :: mapping

definition has_call_handler :: "mapping \<Rightarrow> bool" where
  "has_call_handler m \<longleftrightarrow> m_call_handlers m \<noteq> []"

definition has_block_handler_with_call_filter :: "mapping \<Rightarrow> bool" where
  "has_block_handler_with_call_filter m \<longleftrightarrow>
     list_ex (\<lambda>h. bh_filter h = Some CallFilter) (m_block_handlers m)"

section \<open>Signatures\<close>

text \<open>\<open>str::replace\<close> with an empty replacement, for a pattern that is not empty.\<close>

function remove_all :: "string \<Rightarrow> string \<Rightarrow> string" where
  "remove_all pat [] = []"
| "remove_all pat (c # s) =
     (if pat \<noteq> [] \<and> prefix pat (c # s) then remove_all pat (drop (length pat) (c # s))
      else c # remove_all pat s)"
  by pat_completeness auto
termination
  by (relation "measure (length \<circ> snd)") (auto simp: length_greater_0_conv[symmetric] simp del: length_greater_0_conv)

definition string_bytes :: "string \<Rightarrow> bytes" where
  "string_bytes s = map of_char s"

definition string_to_h256 :: "(bytes \<Rightarrow> bytes) \<Rightarrow> string \<Rightarrow> h256" where
  "string_to_h256 keccak s = word_rcat (keccak (string_bytes (filter (\<lambda>c. c \<noteq> CHR '' '') s)))"

definition topic0 :: "(bytes \<Rightarrow> bytes) \<Rightarrow> event_handler \<Rightarrow> h256" where
  "topic0 keccak h = (case eh_topic0 h of Some t \<Rightarrow> t
     | None \<Rightarrow> string_to_h256 keccak (remove_all ''indexed '' (eh_event h)))"

text \<open>The first four bytes of the hash of the signature.\<close>

definition call_selector :: "(bytes \<Rightarrow> bytes) \<Rightarrow> call_handler \<Rightarrow> bytes" where
  "call_selector keccak h = take 4 (keccak (string_bytes (ch_function h)))"

section \<open>Matching\<close>

definition topic_matches :: "h256 list \<Rightarrow> nat \<Rightarrow> h256 list option \<Rightarrow> bool" where
  "topic_matches topics index topic_opt \<longleftrightarrow>
     (case topic_opt of None \<Rightarrow> True
      | Some ts \<Rightarrow> index < length topics \<and> topics ! index \<in> set ts)"

definition handler_matches :: "(bytes \<Rightarrow> bytes) \<Rightarrow> event_handler \<Rightarrow> eth_log \<Rightarrow> bool" where
  "handler_matches keccak h log \<longleftrightarrow>
     (case log_topics log of [] \<Rightarrow> False
      | t0 # _ \<Rightarrow> topic0 keccak h = t0
          \<and> topic_matches (log_topics log) 1 (eh_topic1 h)
          \<and> topic_matches (log_topics log) 2 (eh_topic2 h)
          \<and> topic_matches (log_topics log) 3 (eh_topic3 h))"

definition has_additional_topics :: "event_handler \<Rightarrow> bool" where
  "has_additional_topics h \<longleftrightarrow>
     (case eh_topic1 h of None \<Rightarrow> False | Some v \<Rightarrow> v \<noteq> [])
     \<or> (case eh_topic2 h of None \<Rightarrow> False | Some v \<Rightarrow> v \<noteq> [])
     \<or> (case eh_topic3 h of None \<Rightarrow> False | Some v \<Rightarrow> v \<noteq> [])"

definition handlers_for_log :: "(bytes \<Rightarrow> bytes) \<Rightarrow> data_source \<Rightarrow> eth_log \<Rightarrow> event_handler list" where
  "handlers_for_log keccak ds log =
     filter (\<lambda>h. handler_matches keccak h log) (m_event_handlers (ds_mapping ds))"

text \<open>\<open>Inl\<close> is the \<open>ensure!\<close> on the length of the input.\<close>

definition handler_for_call :: "(bytes \<Rightarrow> bytes) \<Rightarrow> data_source \<Rightarrow> eth_call
    \<Rightarrow> (unit, call_handler option) result" where
  "handler_for_call keccak ds call =
     (if length (call_input call) < 4 then Inl ()
      else Inr (find (\<lambda>h. take 4 (call_input call) = call_selector keccak h)
                  (m_call_handlers (ds_mapping ds))))"

datatype block_trigger_type = StartTrigger | EndTrigger | WithCallTo address

text \<open>
  \<open>n as i32\<close> for a \<open>u32\<close>; and \<open>a % b == 0\<close> on \<open>i32\<close>, which truncates, is divisibility.
\<close>

definition as_i32 :: "nat \<Rightarrow> int" where
  "as_i32 n = (if n < 2 ^ 31 then int n else int n - 2 ^ 32)"

fun handler_for_block :: "data_source \<Rightarrow> block_trigger_type \<Rightarrow> block_number \<Rightarrow> block_handler option" where
  "handler_for_block ds StartTrigger block =
     find (\<lambda>h. case bh_filter h of Some OnceFilter \<Rightarrow> block = ds_start_block ds | _ \<Rightarrow> False)
       (m_block_handlers (ds_mapping ds))"
| "handler_for_block ds EndTrigger block =
     find (\<lambda>h. case bh_filter h of
             Some (PollingFilter every) \<Rightarrow> as_i32 every dvd block - ds_start_block ds
           | None \<Rightarrow> True | _ \<Rightarrow> False)
       (m_block_handlers (ds_mapping ds))"
| "handler_for_block ds (WithCallTo _) block =
     find (\<lambda>h. bh_filter h = Some CallFilter) (m_block_handlers (ds_mapping ds))"

datatype eth_trigger =
    BlockTrigger block_ptr block_trigger_type
  | CallTrigger eth_call
  | LogTrigger eth_log

fun trigger_address :: "eth_trigger \<Rightarrow> address option" where
  "trigger_address (BlockTrigger _ (WithCallTo a)) = Some a"
| "trigger_address (CallTrigger call) = Some (call_to call)"
| "trigger_address (LogTrigger log) = Some (log_address log)"
| "trigger_address (BlockTrigger _ EndTrigger) = None"
| "trigger_address (BlockTrigger _ StartTrigger) = None"

definition matches_trigger_address :: "data_source \<Rightarrow> eth_trigger \<Rightarrow> bool" where
  "matches_trigger_address ds t \<longleftrightarrow>
     (case ds_address ds of None \<Rightarrow> True
      | Some a \<Rightarrow> (case trigger_address t of None \<Rightarrow> True | Some b \<Rightarrow> a = b))"

text \<open>
  The guards of \<open>match_and_decode\<close>: whether the data source has a handler for the trigger.
  Decoding the parameters with the contract ABI, which may still drop the trigger, is in the theory of the chain.
\<close>

definition wants_trigger :: "(bytes \<Rightarrow> bytes) \<Rightarrow> data_source \<Rightarrow> block_number \<Rightarrow> eth_trigger \<Rightarrow> bool" where
  "wants_trigger keccak ds block t \<longleftrightarrow>
     matches_trigger_address ds t \<and> ds_start_block ds \<le> block \<and>
     (case t of
        BlockTrigger _ ty \<Rightarrow> handler_for_block ds ty block \<noteq> None
      | LogTrigger log \<Rightarrow> handlers_for_log keccak ds log \<noteq> []
      | CallTrigger call \<Rightarrow>
          (case handler_for_call keccak ds call of Inr (Some _) \<Rightarrow> True | _ \<Rightarrow> False))"

section \<open>Validation\<close>

text \<open>
  The two checks of \<open>validate\<close> on handlers: an address is required by call and block handlers, and
  how many block handlers of each kind there may be.
\<close>

datatype manifest_error = SourceAddressRequired | RestrictedCombination | DuplicatedBlockHandlers

definition count_handlers :: "(block_handler_filter option \<Rightarrow> bool) \<Rightarrow> mapping \<Rightarrow> nat" where
  "count_handlers P m = length (filter (\<lambda>h. P (bh_filter h)) (m_block_handlers m))"

definition is_polling :: "block_handler_filter option \<Rightarrow> bool" where
  "is_polling f \<longleftrightarrow> (case f of Some (PollingFilter _) \<Rightarrow> True | _ \<Rightarrow> False)"

definition validate_handlers :: "data_source \<Rightarrow> manifest_error list" where
  "validate_handlers ds =
     (let m = ds_mapping ds;
          non_filtered = count_handlers (\<lambda>f. f = None) m;
          call_filtered = count_handlers (\<lambda>f. f = Some CallFilter) m;
          initialization = count_handlers (\<lambda>f. f = Some OnceFilter) m;
          polling = count_handlers is_polling m
      in (if ds_address ds = None \<and> (m_call_handlers m \<noteq> [] \<or> m_block_handlers m \<noteq> [])
          then [SourceAddressRequired] else [])
       @ (if non_filtered > 0 \<and> (polling > 0 \<or> initialization > 0) then [RestrictedCombination] else [])
       @ (if non_filtered > 1 \<or> call_filtered > 1 \<or> initialization > 1 \<or> polling > 1
          then [DuplicatedBlockHandlers] else []))"

lemma find_not_None: "find P xs \<noteq> None \<longleftrightarrow> (\<exists>x \<in> set xs. P x)"
  by (induction xs) auto

lemma handler_for_call_Some:
  "(case handler_for_call keccak ds call of Inr (Some _) \<Rightarrow> True | _ \<Rightarrow> False) \<longleftrightarrow>
     4 \<le> length (call_input call) \<and>
     (\<exists>h \<in> set (m_call_handlers (ds_mapping ds)). take 4 (call_input call) = call_selector keccak h)"
proof -
  have f: "(case find P xs of None \<Rightarrow> False | Some _ \<Rightarrow> True) \<longleftrightarrow> (\<exists>x \<in> set xs. P x)" for P and xs :: "call_handler list"
    by (induction xs) auto
  show ?thesis by (simp add: handler_for_call_def f not_le)
qed

lemma handler_for_block_iff:
  "handler_for_block ds StartTrigger n \<noteq> None \<longleftrightarrow>
     (\<exists>h \<in> set (m_block_handlers (ds_mapping ds)). bh_filter h = Some OnceFilter \<and> n = ds_start_block ds)"
  "handler_for_block ds EndTrigger n \<noteq> None \<longleftrightarrow>
     (\<exists>h \<in> set (m_block_handlers (ds_mapping ds)). bh_filter h = None \<or>
        (\<exists>every. bh_filter h = Some (PollingFilter every) \<and> as_i32 every dvd n - ds_start_block ds))"
  "handler_for_block ds (WithCallTo a) n \<noteq> None \<longleftrightarrow>
     (\<exists>h \<in> set (m_block_handlers (ds_mapping ds)). bh_filter h = Some CallFilter)"
  unfolding handler_for_block.simps find_not_None
  by (intro bex_cong refl; auto split: option.splits block_handler_filter.splits)+

end
