(* ===== verification/Eth_Log_Filter.thy ===== *)
theory Eth_Log_Filter
  imports Eth_Data_Source "HOL-Library.AList"
begin

text \<open>
  \<open>EthereumLogFilter\<close> of \<open>chain/ethereum/src/adapter.rs\<close>: which logs a subgraph is interested in,
  and the \<open>eth_getLogs\<close> calls that find them. A \<open>HashMap\<close> is an association list without
  duplicate keys, in the order in which it is iterated, which no result depends on. The graph is a
  \<open>GraphMap\<close> of the crate \<open>petgraph\<close>; its methods are the fields of a record, which the
  definitions take as their first argument, and \<open>graph_map_laws\<close> states its documented behaviour.
\<close>

section \<open>The graph\<close>

datatype log_filter_node = Contract address | Event h256

record 'g graph_map =
  gm_empty :: 'g
  gm_add_edge :: "log_filter_node \<Rightarrow> log_filter_node \<Rightarrow> bool \<Rightarrow> 'g \<Rightarrow> 'g"
  gm_all_edges :: "'g \<Rightarrow> (log_filter_node \<times> log_filter_node \<times> bool) list"
  gm_nodes :: "'g \<Rightarrow> log_filter_node list"
  gm_neighbors :: "'g \<Rightarrow> log_filter_node \<Rightarrow> log_filter_node list"
  gm_remove_node :: "log_filter_node \<Rightarrow> 'g \<Rightarrow> 'g"

text \<open>An edge of an undirected graph is listed in one of its two directions.\<close>

definition edge :: "'g graph_map \<Rightarrow> 'g \<Rightarrow> log_filter_node \<Rightarrow> log_filter_node \<Rightarrow> bool \<Rightarrow> bool" where
  "edge G g a b w \<longleftrightarrow> (a, b, w) \<in> set (gm_all_edges G g) \<or> (b, a, w) \<in> set (gm_all_edges G g)"

definition graph_map_laws :: "'g graph_map \<Rightarrow> bool" where
  "graph_map_laws G \<longleftrightarrow>
     gm_all_edges G (gm_empty G) = []
     \<and> (\<forall>g a b w x y v. edge G (gm_add_edge G a b w g) x y v \<longleftrightarrow>
          (if x = a \<and> y = b \<or> x = b \<and> y = a then v = w else edge G g x y v))
     \<and> (\<forall>g a b. b \<in> set (gm_neighbors G g a) \<longleftrightarrow> (\<exists>w. edge G g a b w))
     \<and> (\<forall>g a b w. edge G g a b w \<longrightarrow> a \<in> set (gm_nodes G g))
     \<and> (\<forall>g v x y w. edge G (gm_remove_node G v g) x y w \<longleftrightarrow> x \<noteq> v \<and> y \<noteq> v \<and> edge G g x y w)"

section \<open>Filters\<close>

record event_with_topics =
  et_address :: "address option"
  et_signature :: h256
  et_topic1 :: "h256 list option"
  et_topic2 :: "h256 list option"
  et_topic3 :: "h256 list option"

definition event_with_topics_matches :: "event_with_topics \<Rightarrow> address option \<Rightarrow> h256 \<Rightarrow> h256 list \<Rightarrow> bool" where
  "event_with_topics_matches e address sig topics \<longleftrightarrow>
     (case et_address e of Some self_addr \<Rightarrow> address = Some self_addr | None \<Rightarrow> True)
     \<and> et_signature e = sig
     \<and> topic_matches topics 1 (et_topic1 e)
     \<and> topic_matches topics 2 (et_topic2 e)
     \<and> topic_matches topics 3 (et_topic3 e)"

record 'g log_filter =
  lf_graph :: 'g
  lf_wildcard_events :: "(h256 \<times> bool) list"
  lf_events_with_topics :: "(event_with_topics \<times> bool) list"

definition log_filter_default :: "'g graph_map \<Rightarrow> 'g log_filter" where
  "log_filter_default G =
     \<lparr>lf_graph = gm_empty G, lf_wildcard_events = [], lf_events_with_topics = []\<rparr>"

definition log_filter_matches :: "'g graph_map \<Rightarrow> 'g log_filter \<Rightarrow> eth_log \<Rightarrow> bool" where
  "log_filter_matches G f log \<longleftrightarrow>
     (case log_topics log of [] \<Rightarrow> False
      | sig # _ \<Rightarrow>
          (let contract = Contract (log_address log); event = Event sig in
           list_ex (\<lambda>(s, t, _). s = contract \<and> t = event \<or> t = contract \<and> s = event)
             (gm_all_edges G (lf_graph f))
           \<or> map_of (lf_wildcard_events f) sig \<noteq> None
           \<or> list_ex (\<lambda>(e, _). event_with_topics_matches e (Some (log_address log)) sig (log_topics log))
               (lf_events_with_topics f)))"

definition requires_transaction_receipt :: "'g graph_map \<Rightarrow> 'g log_filter \<Rightarrow> h256 \<Rightarrow> address option
    \<Rightarrow> h256 list \<Rightarrow> bool" where
  "requires_transaction_receipt G f sig contract_address topics \<longleftrightarrow>
     map_of (lf_wildcard_events f) sig = Some True
     \<or> list_ex (\<lambda>(e, r). r \<and> event_with_topics_matches e contract_address sig topics)
         (lf_events_with_topics f)
     \<or> (case contract_address of None \<Rightarrow> False
        | Some address \<Rightarrow>
            list_ex (\<lambda>(s, t, r). r \<and> (s = Contract address \<and> t = Event sig
                                    \<or> t = Contract address \<and> s = Event sig))
              (gm_all_edges G (lf_graph f)))"

text \<open>One handler of a data source, and the loops over data sources and handlers.\<close>

definition handler_with_topics :: "address option \<Rightarrow> h256 \<Rightarrow> event_handler \<Rightarrow> event_with_topics" where
  "handler_with_topics a sig h =
     \<lparr>et_address = a, et_signature = sig, et_topic1 = eh_topic1 h, et_topic2 = eh_topic2 h,
      et_topic3 = eh_topic3 h\<rparr>"

definition add_event_handler :: "'g graph_map \<Rightarrow> (bytes \<Rightarrow> bytes) \<Rightarrow> address option \<Rightarrow> event_handler
    \<Rightarrow> 'g log_filter \<Rightarrow> 'g log_filter" where
  "add_event_handler G keccak a h this =
     (let event_sig = topic0 keccak h in
      case a of
        Some contract \<Rightarrow>
          if \<not> has_additional_topics h
          then this\<lparr>lf_graph := gm_add_edge G (Contract contract) (Event event_sig) (eh_receipt h)
                                (lf_graph this)\<rparr>
          else this\<lparr>lf_events_with_topics :=
                 AList.update (handler_with_topics (Some contract) event_sig h) (eh_receipt h)
                   (lf_events_with_topics this)\<rparr>
      | None \<Rightarrow>
          if \<not> has_additional_topics h
          then this\<lparr>lf_wildcard_events :=
                 AList.update event_sig (eh_receipt h) (lf_wildcard_events this)\<rparr>
          else this\<lparr>lf_events_with_topics :=
                 AList.update (handler_with_topics None event_sig h) (eh_receipt h)
                   (lf_events_with_topics this)\<rparr>)"

definition log_filter_from_data_sources :: "'g graph_map \<Rightarrow> (bytes \<Rightarrow> bytes) \<Rightarrow> data_source list
    \<Rightarrow> 'g log_filter" where
  "log_filter_from_data_sources G keccak dss =
     fold (\<lambda>ds. fold (add_event_handler G keccak (ds_address ds)) (m_event_handlers (ds_mapping ds)))
       dss (log_filter_default G)"

definition log_filter_from_mapping :: "'g graph_map \<Rightarrow> (bytes \<Rightarrow> bytes) \<Rightarrow> mapping \<Rightarrow> 'g log_filter" where
  "log_filter_from_mapping G keccak m =
     fold (\<lambda>h this. this\<lparr>lf_wildcard_events :=
             AList.update (topic0 keccak h) (eh_receipt h) (lf_wildcard_events this)\<rparr>)
       (m_event_handlers m) (log_filter_default G)"

definition log_filter_is_empty :: "'g graph_map \<Rightarrow> 'g log_filter \<Rightarrow> bool" where
  "log_filter_is_empty G f \<longleftrightarrow>
     gm_all_edges G (lf_graph f) = [] \<and> lf_wildcard_events f = [] \<and> lf_events_with_topics f = []"

definition log_filter_extend :: "'g graph_map \<Rightarrow> 'g log_filter \<Rightarrow> 'g log_filter \<Rightarrow> 'g log_filter" where
  "log_filter_extend G other self =
     (if log_filter_is_empty G other then self
      else self
        \<lparr>lf_graph := fold (\<lambda>(s, t, e). gm_add_edge G s t e) (gm_all_edges G (lf_graph other)) (lf_graph self),
         lf_wildcard_events :=
           fold (\<lambda>(k, v). AList.update k v) (lf_wildcard_events other) (lf_wildcard_events self),
         lf_events_with_topics :=
           fold (\<lambda>(k, v). AList.update k v) (lf_events_with_topics other) (lf_events_with_topics self)\<rparr>)"

section \<open>The calls of \<open>eth_getLogs\<close>\<close>

record get_logs_filter =
  gl_contracts :: "address list"
  gl_event_signatures :: "h256 list"
  gl_topic1 :: "h256 list option"
  gl_topic2 :: "h256 list option"
  gl_topic3 :: "h256 list option"

definition from_contract :: "address \<Rightarrow> get_logs_filter" where
  "from_contract a = \<lparr>gl_contracts = [a], gl_event_signatures = [], gl_topic1 = None,
     gl_topic2 = None, gl_topic3 = None\<rparr>"

definition from_event :: "h256 \<Rightarrow> get_logs_filter" where
  "from_event e = \<lparr>gl_contracts = [], gl_event_signatures = [e], gl_topic1 = None,
     gl_topic2 = None, gl_topic3 = None\<rparr>"

definition from_event_with_topics :: "event_with_topics \<Rightarrow> get_logs_filter" where
  "from_event_with_topics e =
     \<lparr>gl_contracts = (case et_address e of None \<Rightarrow> [] | Some a \<Rightarrow> [a]),
      gl_event_signatures = [et_signature e], gl_topic1 = et_topic1 e, gl_topic2 = et_topic2 e,
      gl_topic3 = et_topic3 e\<rparr>"

text \<open>\<open>Iterator::max_by_key\<close> returns the last of several maxima.\<close>

definition max_by_key :: "('a \<Rightarrow> nat) \<Rightarrow> 'a list \<Rightarrow> 'a option" where
  "max_by_key f xs =
     fold (\<lambda>x acc. case acc of None \<Rightarrow> Some x | Some y \<Rightarrow> if f y \<le> f x then Some x else Some y) xs None"

text \<open>\<open>push_filter\<close>; \<open>Inl\<close> is a failed \<open>assert!\<close>, here and below a panic.\<close>

definition push_filter :: "get_logs_filter \<Rightarrow> get_logs_filter list \<Rightarrow> (unit, get_logs_filter list) result" where
  "push_filter f filters =
     (if gl_contracts f = [] \<or> gl_event_signatures f = [] then Inl ()
      else if length (gl_contracts f) \<noteq> 1 \<and> length (gl_event_signatures f) \<noteq> 1 then Inl ()
      else Inr (filters @ [f]))"

definition add_neighbor :: "nat \<Rightarrow> log_filter_node \<Rightarrow> get_logs_filter list \<times> get_logs_filter
    \<Rightarrow> (unit, get_logs_filter list \<times> get_logs_filter) result" where
  "add_neighbor max_contracts neighbor st =
     (let (filters, f) = st in
      case neighbor of
        Contract a \<Rightarrow>
          if length (gl_contracts f) = max_contracts
          then (case gl_event_signatures f of
                  [] \<Rightarrow> Inl ()
                | event # _ \<Rightarrow>
                    bind_res (push_filter f filters)
                      (\<lambda>filters'. Inr (filters', (from_event event)\<lparr>gl_contracts := [a]\<rparr>)))
          else Inr (filters, f\<lparr>gl_contracts := gl_contracts f @ [a]\<rparr>)
      | Event e \<Rightarrow> Inr (filters, f\<lparr>gl_event_signatures := gl_event_signatures f @ [e]\<rparr>))"

definition node_filter :: "log_filter_node \<Rightarrow> get_logs_filter" where
  "node_filter v = (case v of Contract a \<Rightarrow> from_contract a | Event e \<Rightarrow> from_event e)"

definition cover_vertex :: "'g graph_map \<Rightarrow> nat \<Rightarrow> 'g \<Rightarrow> log_filter_node \<Rightarrow> get_logs_filter list
    \<Rightarrow> (unit, get_logs_filter list) result" where
  "cover_vertex G max_contracts g v filters =
     bind_res (fold_res (add_neighbor max_contracts) (gm_neighbors G g v) (filters, node_filter v))
       (\<lambda>(filters', f). push_filter f filters')"

partial_function (option) cover_loop :: "'g graph_map \<Rightarrow> nat \<Rightarrow> 'g \<Rightarrow> get_logs_filter list
    \<Rightarrow> (unit, get_logs_filter list) result option" where
  "cover_loop G max_contracts g filters =
     (if gm_all_edges G g = [] then Some (Inr filters)
      else case max_by_key (\<lambda>n. length (gm_neighbors G g n)) (gm_nodes G g) of
             None \<Rightarrow> Some (Inl ())
           | Some v \<Rightarrow>
               (case cover_vertex G max_contracts g v filters of
                  Inl e \<Rightarrow> Some (Inl e)
                | Inr filters' \<Rightarrow> cover_loop G max_contracts (gm_remove_node G v g) filters'))"

definition eth_get_logs_filters :: "'g graph_map \<Rightarrow> nat \<Rightarrow> 'g log_filter
    \<Rightarrow> (unit, get_logs_filter list) result option" where
  "eth_get_logs_filters G max_contracts f =
     cover_loop G max_contracts (lf_graph f)
       (map (\<lambda>(e, _). from_event e) (lf_wildcard_events f)
        @ map (\<lambda>(e, _). from_event_with_topics e) (lf_events_with_topics f))"

end
