(* ===== verification/Eth_Log_Filter_Correct.thy ===== *)
theory Eth_Log_Filter_Correct
  imports Eth_Log_Filter
begin

text \<open>
  The log filter selects the logs that some data source has a handler for, and the calls of
  \<open>eth_getLogs\<close> that it makes return the logs that it selects.
\<close>

section \<open>What the filters select\<close>

text \<open>
  The JSON-RPC specification of \<open>eth_getLogs\<close>: an empty list of addresses or of values for a topic
  does not restrict the logs.
\<close>

definition topic_selects :: "h256 list \<Rightarrow> nat \<Rightarrow> h256 list option \<Rightarrow> bool" where
  "topic_selects topics i t \<longleftrightarrow> (case t of None \<Rightarrow> True
     | Some ts \<Rightarrow> ts = [] \<or> i < length topics \<and> topics ! i \<in> set ts)"

definition get_logs_selects :: "get_logs_filter \<Rightarrow> eth_log \<Rightarrow> bool" where
  "get_logs_selects f log \<longleftrightarrow>
     (gl_contracts f = [] \<or> log_address log \<in> set (gl_contracts f))
     \<and> topic_selects (log_topics log) 0 (Some (gl_event_signatures f))
     \<and> topic_selects (log_topics log) 1 (gl_topic1 f)
     \<and> topic_selects (log_topics log) 2 (gl_topic2 f)
     \<and> topic_selects (log_topics log) 3 (gl_topic3 f)"

definition bipartite :: "'g graph_map \<Rightarrow> 'g \<Rightarrow> bool" where
  "bipartite G g \<longleftrightarrow> (\<forall>a b w. edge G g a b w \<longrightarrow>
     (\<exists>c e. a = Contract c \<and> b = Event e \<or> a = Event e \<and> b = Contract c))"

definition link :: "'g graph_map \<Rightarrow> 'g \<Rightarrow> address \<Rightarrow> h256 \<Rightarrow> bool" where
  "link G g c e \<longleftrightarrow> (\<exists>w. edge G g (Contract c) (Event e) w)"

definition covers :: "get_logs_filter list \<Rightarrow> address \<Rightarrow> h256 \<Rightarrow> bool" where
  "covers fs c e \<longleftrightarrow> (\<exists>f \<in> set fs. c \<in> set (gl_contracts f) \<and> e \<in> set (gl_event_signatures f))"

definition pair_filter :: "nat \<Rightarrow> get_logs_filter \<Rightarrow> bool" where
  "pair_filter m f \<longleftrightarrow> gl_contracts f \<noteq> [] \<and> gl_event_signatures f \<noteq> []
     \<and> length (gl_contracts f) \<le> m
     \<and> gl_topic1 f = None \<and> gl_topic2 f = None \<and> gl_topic3 f = None"

lemma edge_sym: "edge G g a b w \<longleftrightarrow> edge G g b a w"
  by (auto simp: edge_def)

lemma covers_append [simp]: "covers (xs @ ys) c e \<longleftrightarrow> covers xs c e \<or> covers ys c e"
  by (auto simp: covers_def)

lemma pair_filter_selects:
  "pair_filter m f \<Longrightarrow> get_logs_selects f log \<longleftrightarrow> (\<exists>e es. log_topics log = e # es
     \<and> log_address log \<in> set (gl_contracts f) \<and> e \<in> set (gl_event_signatures f))"
  by (cases "log_topics log") (auto simp: pair_filter_def get_logs_selects_def topic_selects_def)

lemma pair_filters_select:
  assumes "\<forall>f \<in> set fs. pair_filter m f"
  shows "(\<exists>f \<in> set fs. get_logs_selects f log) \<longleftrightarrow>
     (\<exists>e es. log_topics log = e # es \<and> covers fs (log_address log) e)"
  using assms pair_filter_selects unfolding covers_def by blast

text \<open>The laws of the graph, one by one.\<close>

lemma graph_laws:
  assumes "graph_map_laws G"
  shows gm_empty_edges: "gm_all_edges G (gm_empty G) = []"
    and gm_edge_add: "edge G (gm_add_edge G a b w g) x y v \<longleftrightarrow>
       (if x = a \<and> y = b \<or> x = b \<and> y = a then v = w else edge G g x y v)"
    and gm_neighbor_iff: "b \<in> set (gm_neighbors G g a) \<longleftrightarrow> (\<exists>w. edge G g a b w)"
    and gm_edge_node: "edge G g a b w \<Longrightarrow> a \<in> set (gm_nodes G g)"
    and gm_edge_remove: "edge G (gm_remove_node G n g) x y w \<longleftrightarrow> x \<noteq> n \<and> y \<noteq> n \<and> edge G g x y w"
proof -
  note l = assms[unfolded graph_map_laws_def]
  show "gm_all_edges G (gm_empty G) = []" using l by (elim conjE)
  show "edge G (gm_add_edge G a b w g) x y v \<longleftrightarrow>
     (if x = a \<and> y = b \<or> x = b \<and> y = a then v = w else edge G g x y v)"
    using l by (elim conjE allE)
  show "b \<in> set (gm_neighbors G g a) \<longleftrightarrow> (\<exists>w. edge G g a b w)" using l by (elim conjE allE)
  show "edge G g a b w \<Longrightarrow> a \<in> set (gm_nodes G g)" using l by (elim conjE) blast
  show "edge G (gm_remove_node G n g) x y w \<longleftrightarrow> x \<noteq> n \<and> y \<noteq> n \<and> edge G g x y w"
    using l by (elim conjE allE)
qed

section \<open>The vertex with the most neighbors\<close>

lemma max_by_key_Some:
  assumes "xs \<noteq> []"
  shows "\<exists>v. max_by_key f xs = Some v \<and> v \<in> set xs \<and> (\<forall>x \<in> set xs. f x \<le> f v)"
  using assms
proof (induction xs rule: rev_induct)
  case (snoc x xs)
  show ?case
  proof (cases "xs = []")
    case True
    then show ?thesis by (simp add: max_by_key_def)
  next
    case False
    then obtain v where "max_by_key f xs = Some v" "v \<in> set xs" "\<forall>x \<in> set xs. f x \<le> f v"
      using snoc.IH by blast
    then show ?thesis by (auto simp: max_by_key_def)
  qed
qed simp

text \<open>A graph with edges has a vertex, and the chosen one has a neighbor.\<close>

lemma max_vertex:
  assumes "graph_map_laws G" and "gm_all_edges G g \<noteq> []"
  obtains v where "max_by_key (\<lambda>n. length (gm_neighbors G g n)) (gm_nodes G g) = Some v"
    and "gm_neighbors G g v \<noteq> []"
proof -
  obtain a b w where e: "edge G g a b w" using assms(2) by (cases "gm_all_edges G g") (auto simp: edge_def)
  then have a: "a \<in> set (gm_nodes G g)" and "b \<in> set (gm_neighbors G g a)"
    using gm_edge_node[OF assms(1)] gm_neighbor_iff[OF assms(1)] by blast+
  then have n: "gm_neighbors G g a \<noteq> []" by auto
  from a have "gm_nodes G g \<noteq> []" by auto
  then obtain v where v: "max_by_key (\<lambda>n. length (gm_neighbors G g n)) (gm_nodes G g) = Some v"
    "\<forall>x \<in> set (gm_nodes G g). length (gm_neighbors G g x) \<le> length (gm_neighbors G g v)"
    using max_by_key_Some by blast
  have "0 < length (gm_neighbors G g a)" using n by simp
  then have "gm_neighbors G g v \<noteq> []" using bspec[OF v(2) a] by auto
  then show ?thesis using that v(1) by blast
qed

section \<open>One vertex\<close>

lemma add_events:
  "fold_res (add_neighbor m) (map Event es) (filters, f)
     = Inr (filters, f\<lparr>gl_event_signatures := gl_event_signatures f @ es\<rparr>)"
  by (induction es arbitrary: f) (simp_all add: add_neighbor_def)

lemma add_contracts:
  assumes "gl_event_signatures f = [e]" and "gl_topic1 f = None" "gl_topic2 f = None" "gl_topic3 f = None"
    and "length (gl_contracts f) \<le> m" and "1 \<le> m"
  shows "\<exists>new f'. fold_res (add_neighbor m) (map Contract cs) (filters, f) = Inr (filters @ new, f')
     \<and> gl_event_signatures f' = [e] \<and> gl_topic1 f' = None \<and> gl_topic2 f' = None \<and> gl_topic3 f' = None
     \<and> length (gl_contracts f') \<le> m \<and> (\<forall>g \<in> set new. pair_filter m g \<and> gl_event_signatures g = [e])
     \<and> concat (map gl_contracts new) @ gl_contracts f' = gl_contracts f @ cs
     \<and> (gl_contracts f \<noteq> [] \<or> cs \<noteq> [] \<longrightarrow> gl_contracts f' \<noteq> [])"
  using assms(1-5)
proof (induction cs arbitrary: filters f)
  case (Cons c cs)
  show ?case
  proof (cases "length (gl_contracts f) = m")
    case True
    let ?f = "(from_event e)\<lparr>gl_contracts := [c]\<rparr>"
    have p: "pair_filter m f" using True assms(6) Cons.prems by (auto simp: pair_filter_def)
    have s: "add_neighbor m (Contract c) (filters, f) = Inr (filters @ [f], ?f)"
      using True p Cons.prems by (simp add: add_neighbor_def push_filter_def pair_filter_def)
    obtain new f' where ih: "fold_res (add_neighbor m) (map Contract cs) (filters @ [f], ?f)
        = Inr ((filters @ [f]) @ new, f')"
      "gl_event_signatures f' = [e]" "gl_topic1 f' = None" "gl_topic2 f' = None" "gl_topic3 f' = None"
      "length (gl_contracts f') \<le> m" "\<forall>g \<in> set new. pair_filter m g \<and> gl_event_signatures g = [e]"
      "concat (map gl_contracts new) @ gl_contracts f' = [c] @ cs" "gl_contracts f' \<noteq> []"
      using Cons.IH[of ?f "filters @ [f]"] assms(6) by (auto simp: from_event_def)
    have "fold_res (add_neighbor m) (map Contract (c # cs)) (filters, f) = Inr (filters @ (f # new), f')"
      using s ih(1) by simp
    then show ?thesis using ih(2-9) p Cons.prems(1)
      by (intro exI[of _ "f # new"] exI[of _ f']) auto
  next
    case False
    let ?f = "f\<lparr>gl_contracts := gl_contracts f @ [c]\<rparr>"
    have s: "add_neighbor m (Contract c) (filters, f) = Inr (filters, ?f)"
      using False by (simp add: add_neighbor_def)
    obtain new f' where ih: "fold_res (add_neighbor m) (map Contract cs) (filters, ?f) = Inr (filters @ new, f')"
      "gl_event_signatures f' = [e]" "gl_topic1 f' = None" "gl_topic2 f' = None" "gl_topic3 f' = None"
      "length (gl_contracts f') \<le> m" "\<forall>g \<in> set new. pair_filter m g \<and> gl_event_signatures g = [e]"
      "concat (map gl_contracts new) @ gl_contracts f' = (gl_contracts f @ [c]) @ cs" "gl_contracts f' \<noteq> []"
      using Cons.IH[of ?f filters] Cons.prems False by auto
    then show ?thesis using s by (intro exI[of _ new] exI[of _ f']) auto
  qed
qed simp

lemma cover_vertex_correct:
  assumes "graph_map_laws G" and "bipartite G g" and "1 \<le> m" and "gm_neighbors G g v \<noteq> []"
  shows "\<exists>new. cover_vertex G m g v filters = Inr (filters @ new) \<and> (\<forall>f \<in> set new. pair_filter m f)
     \<and> (\<forall>c e. covers new c e \<longleftrightarrow> (v = Contract c \<or> v = Event e) \<and> link G g c e)"
proof -
  have nb: "b \<in> set (gm_neighbors G g v) \<longleftrightarrow> (\<exists>w. edge G g v b w)" for b
    by (rule gm_neighbor_iff[OF assms(1)])
  show ?thesis
  proof (cases v)
    case (Contract c)
    have "\<exists>e. n = Event e" if "n \<in> set (gm_neighbors G g v)" for n
      using that nb assms(2) Contract unfolding bipartite_def by blast
    then obtain es where es: "gm_neighbors G g v = map Event es" by (metis ex_map_conv)
    let ?f = "(from_contract c)\<lparr>gl_event_signatures := es\<rparr>"
    have "es \<noteq> []" using assms(4) es by simp
    then have "cover_vertex G m g v filters = Inr (filters @ [?f])"
      using es by (simp add: cover_vertex_def node_filter_def Contract add_events push_filter_def
          from_contract_def)
    moreover have "pair_filter m ?f" using \<open>es \<noteq> []\<close> assms(3) by (simp add: pair_filter_def from_contract_def)
    moreover have "e \<in> set es \<longleftrightarrow> link G g c e" for e
      using nb[of "Event e"] es Contract by (auto simp: link_def)
    ultimately show ?thesis using Contract
      by (intro exI[of _ "[?f]"]) (auto simp: covers_def from_contract_def)
  next
    case (Event e)
    have "\<exists>c. n = Contract c" if "n \<in> set (gm_neighbors G g v)" for n
      using that nb assms(2) Event unfolding bipartite_def by blast
    then obtain cs where cs: "gm_neighbors G g v = map Contract cs" by (metis ex_map_conv)
    obtain new f' where a: "fold_res (add_neighbor m) (map Contract cs) (filters, from_event e)
        = Inr (filters @ new, f')"
      "gl_event_signatures f' = [e]" "gl_topic1 f' = None" "gl_topic2 f' = None" "gl_topic3 f' = None"
      "length (gl_contracts f') \<le> m" "\<forall>g \<in> set new. pair_filter m g \<and> gl_event_signatures g = [e]"
      "concat (map gl_contracts new) @ gl_contracts f' = cs" "gl_contracts f' \<noteq> []"
      using add_contracts[of "from_event e" e m cs filters] assms(3,4) cs
      by (auto simp: from_event_def)
    have p: "pair_filter m f'" using a by (simp add: pair_filter_def)
    have "cover_vertex G m g v filters = Inr (filters @ (new @ [f']))"
      using a p cs by (simp add: cover_vertex_def node_filter_def Event push_filter_def pair_filter_def)
    moreover have "covers (new @ [f']) c e' \<longleftrightarrow> e' = e \<and> c \<in> set cs" for c e'
      using a(2,7) unfolding a(8)[symmetric] by (auto simp: covers_def)
    moreover have "c \<in> set cs \<longleftrightarrow> link G g c e" for c
      using nb[of "Contract c"] cs Event edge_sym[of G g "Event e" "Contract c"] by (auto simp: link_def)
    ultimately show ?thesis using Event a(7) p by (intro exI[of _ "new @ [f']"]) auto
  qed
qed

section \<open>All vertices\<close>

definition edge_pairs :: "'g graph_map \<Rightarrow> 'g \<Rightarrow> (log_filter_node \<times> log_filter_node) set" where
  "edge_pairs G g = {(a, b). \<exists>w. edge G g a b w}"

lemma finite_edge_pairs: "finite (edge_pairs G g)"
proof -
  let ?E = "(\<lambda>(a, b, w). (a, b)) ` set (gm_all_edges G g)"
  have "edge_pairs G g \<subseteq> ?E \<union> prod.swap ` ?E" by (force simp: edge_pairs_def edge_def image_iff)
  then show ?thesis using finite_subset by blast
qed

lemma cover_loop_correct:
  assumes "graph_map_laws G" and "bipartite G g" and "1 \<le> m"
  shows "\<exists>new. cover_loop G m g filters = Some (Inr (filters @ new)) \<and> (\<forall>f \<in> set new. pair_filter m f)
     \<and> (\<forall>c e. covers new c e \<longleftrightarrow> link G g c e)"
  using assms(2)
proof (induction "card (edge_pairs G g)" arbitrary: g filters rule: less_induct)
  case less
  show ?case
  proof (cases "gm_all_edges G g = []")
    case True
    then show ?thesis by (subst cover_loop.simps) (simp add: covers_def link_def edge_def)
  next
    case False
    then obtain v where v: "max_by_key (\<lambda>n. length (gm_neighbors G g n)) (gm_nodes G g) = Some v"
      "gm_neighbors G g v \<noteq> []"
      using max_vertex[OF assms(1)] by blast
    obtain new where new: "cover_vertex G m g v filters = Inr (filters @ new)"
      "\<forall>f \<in> set new. pair_filter m f"
      "\<And>c e. covers new c e \<longleftrightarrow> (v = Contract c \<or> v = Event e) \<and> link G g c e"
      using cover_vertex_correct[OF assms(1) less.prems assms(3) v(2)] by blast
    let ?g = "gm_remove_node G v g"
    have e: "edge G ?g x y w \<longleftrightarrow> x \<noteq> v \<and> y \<noteq> v \<and> edge G g x y w" for x y w
      by (rule gm_edge_remove[OF assms(1)])
    have bp: "bipartite G ?g" using less.prems e unfolding bipartite_def by blast
    obtain b w where b: "edge G g v b w"
      using v(2) gm_neighbor_iff[OF assms(1)] by (metis list.set_intros(1) neq_Nil_conv)
    have "edge_pairs G ?g \<subset> edge_pairs G g"
    proof
      show "edge_pairs G ?g \<subseteq> edge_pairs G g" using e by (auto simp: edge_pairs_def)
      show "edge_pairs G ?g \<noteq> edge_pairs G g" using e b by (auto simp: edge_pairs_def set_eq_iff)
    qed
    then have "card (edge_pairs G ?g) < card (edge_pairs G g)" by (rule psubset_card_mono[OF finite_edge_pairs])
    from less.hyps[OF this bp, of "filters @ new"] obtain new' where n':
      "cover_loop G m ?g (filters @ new) = Some (Inr ((filters @ new) @ new'))"
      "\<forall>f \<in> set new'. pair_filter m f" "\<And>c e. covers new' c e \<longleftrightarrow> link G ?g c e"
      by blast
    have "cover_loop G m g filters = Some (Inr (filters @ (new @ new')))"
      using False v(1) new(1) n'(1) by (subst cover_loop.simps) simp
    moreover have "covers (new @ new') c e' \<longleftrightarrow> link G g c e'" for c e'
      unfolding covers_append new(3) n'(3) by (auto simp: link_def e)
    ultimately show ?thesis using new(2) n'(2) by (intro exI[of _ "new @ new'"]) auto
  qed
qed

section \<open>Building the filter\<close>

lemma log_filter_matches_iff:
  "log_filter_matches G f log \<longleftrightarrow> (\<exists>sig rest. log_topics log = sig # rest \<and>
     (link G (lf_graph f) (log_address log) sig \<or> sig \<in> fst ` set (lf_wildcard_events f)
      \<or> (\<exists>e \<in> fst ` set (lf_events_with_topics f).
           event_with_topics_matches e (Some (log_address log)) sig (log_topics log))))"
proof (cases "log_topics log")
  case (Cons sig rest)
  have l: "list_ex (\<lambda>(s, t, _). s = a \<and> t = b \<or> t = a \<and> s = b) es \<longleftrightarrow>
      (\<exists>w. (a, b, w) \<in> set es \<or> (b, a, w) \<in> set es)" for a b and es :: "(log_filter_node \<times> log_filter_node \<times> bool) list"
    by (induction es) auto
  have w: "map_of xs k \<noteq> None \<longleftrightarrow> k \<in> fst ` set xs" for k :: h256 and xs :: "(h256 \<times> bool) list"
    by (simp add: map_of_eq_None_iff)
  have e: "list_ex (\<lambda>(e, _). P e) xs \<longleftrightarrow> (\<exists>e \<in> fst ` set xs. P e)"
    for P and xs :: "(event_with_topics \<times> bool) list" by (induction xs) auto
  show ?thesis unfolding log_filter_matches_def Cons Let_def l w e link_def edge_def by simp
qed (simp add: log_filter_matches_def)

text \<open>
  What a handler of a data source contributes: it looks at the additional topics only if one of
  them has values to choose from.
\<close>

definition handler_selects :: "(bytes \<Rightarrow> bytes) \<Rightarrow> address option \<Rightarrow> event_handler \<Rightarrow> eth_log \<Rightarrow> bool" where
  "handler_selects keccak a h log \<longleftrightarrow> (case a of None \<Rightarrow> True | Some c \<Rightarrow> log_address log = c)
     \<and> (\<exists>rest. log_topics log = topic0 keccak h # rest)
     \<and> (has_additional_topics h \<longrightarrow> topic_matches (log_topics log) 1 (eh_topic1 h)
          \<and> topic_matches (log_topics log) 2 (eh_topic2 h) \<and> topic_matches (log_topics log) 3 (eh_topic3 h))"

lemma handler_matches_selects:
  "handler_matches keccak h log \<Longrightarrow> (case a of None \<Rightarrow> True | Some c \<Rightarrow> log_address log = c)
     \<Longrightarrow> handler_selects keccak a h log"
  by (auto simp: handler_matches_def handler_selects_def split: list.splits)

lemma link_add:
  assumes "graph_map_laws G"
  shows "link G (gm_add_edge G (Contract c) (Event e) r g) c' e' \<longleftrightarrow> c' = c \<and> e' = e \<or> link G g c' e'"
  using assms by (auto simp: link_def gm_edge_add)

lemma log_filter_default_matches:
  "graph_map_laws G \<Longrightarrow> \<not> log_filter_matches G (log_filter_default G) log"
  by (simp add: log_filter_matches_iff log_filter_default_def link_def edge_def gm_empty_edges)

lemma handler_with_topics_matches:
  assumes "log_topics log = sig # rest" and "has_additional_topics h"
  shows "event_with_topics_matches (handler_with_topics a (topic0 keccak h) h) (Some (log_address log)) sig
      (log_topics log) \<longleftrightarrow> handler_selects keccak a h log"
  using assms
  by (auto simp: event_with_topics_matches_def handler_with_topics_def handler_selects_def split: option.splits)

lemma add_event_handler_matches:
  assumes "graph_map_laws G"
  shows "log_filter_matches G (add_event_handler G keccak a h this) log \<longleftrightarrow>
     log_filter_matches G this log \<or> handler_selects keccak a h log"
proof (cases "log_topics log")
  case Nil
  then show ?thesis by (simp add: log_filter_matches_iff handler_selects_def)
next
  case (Cons sig rest)
  show ?thesis
  proof (cases "has_additional_topics h")
    case True
    have "log_filter_matches G (this\<lparr>lf_events_with_topics :=
          AList.update (handler_with_topics a (topic0 keccak h) h) r (lf_events_with_topics this)\<rparr>) log \<longleftrightarrow>
        log_filter_matches G this log \<or> handler_selects keccak a h log" for r
      unfolding handler_with_topics_matches[OF Cons True, symmetric] log_filter_matches_iff
      by (simp add: dom_update Cons disj_ac)
    then show ?thesis using True by (cases a) (simp_all add: add_event_handler_def)
  next
    case False
    then have h: "handler_selects keccak a h log \<longleftrightarrow>
        (case a of None \<Rightarrow> True | Some c \<Rightarrow> log_address log = c) \<and> sig = topic0 keccak h"
      by (simp add: handler_selects_def Cons)
    show ?thesis unfolding h log_filter_matches_iff
      using False by (cases a)
        (auto simp add: add_event_handler_def dom_update Cons link_add[OF assms])
  qed
qed

lemma log_filter_from_data_sources_matches:
  assumes "graph_map_laws G"
  shows "log_filter_matches G (log_filter_from_data_sources G keccak dss) log \<longleftrightarrow>
     (\<exists>ds \<in> set dss. \<exists>h \<in> set (m_event_handlers (ds_mapping ds)). handler_selects keccak (ds_address ds) h log)"
proof -
  have hs: "log_filter_matches G (fold (add_event_handler G keccak a) hs f) log \<longleftrightarrow>
      log_filter_matches G f log \<or> (\<exists>h \<in> set hs. handler_selects keccak a h log)" for a hs f
    by (induction hs arbitrary: f) (auto simp: add_event_handler_matches[OF assms])
  have "log_filter_matches G (fold (\<lambda>ds. fold (add_event_handler G keccak (ds_address ds))
        (m_event_handlers (ds_mapping ds))) dss f) log \<longleftrightarrow> log_filter_matches G f log \<or>
      (\<exists>ds \<in> set dss. \<exists>h \<in> set (m_event_handlers (ds_mapping ds)). handler_selects keccak (ds_address ds) h log)" for f
    by (induction dss arbitrary: f) (auto simp: hs)
  then show ?thesis
    using log_filter_default_matches[OF assms] by (simp add: log_filter_from_data_sources_def)
qed

lemma log_filter_from_mapping_matches:
  assumes "graph_map_laws G"
  shows "log_filter_matches G (log_filter_from_mapping G keccak m) log \<longleftrightarrow>
     (\<exists>h \<in> set (m_event_handlers m). \<exists>rest. log_topics log = topic0 keccak h # rest)"
proof -
  have "log_filter_matches G (fold (\<lambda>h this. this\<lparr>lf_wildcard_events :=
             AList.update (topic0 keccak h) (eh_receipt h) (lf_wildcard_events this)\<rparr>) hs f) log \<longleftrightarrow>
      log_filter_matches G f log \<or> (\<exists>h \<in> set hs. \<exists>rest. log_topics log = topic0 keccak h # rest)" for hs f
  proof (induction hs arbitrary: f)
    case (Cons h hs)
    show ?case unfolding fold_Cons comp_apply Cons.IH by (auto simp: log_filter_matches_iff dom_update)
  qed simp
  then show ?thesis
    using log_filter_default_matches[OF assms] by (simp add: log_filter_from_mapping_def)
qed

lemma link_add_all:
  assumes "graph_map_laws G"
  shows "link G (fold (\<lambda>(s, t, e). gm_add_edge G s t e) es g) c e \<longleftrightarrow>
     link G g c e \<or> (\<exists>w. (Contract c, Event e, w) \<in> set es \<or> (Event e, Contract c, w) \<in> set es)"
proof (induction es arbitrary: g)
  case (Cons x es)
  obtain s t w where x: "x = (s, t, w)" by (cases x)
  have "link G (gm_add_edge G s t w g) c e \<longleftrightarrow>
      s = Contract c \<and> t = Event e \<or> s = Event e \<and> t = Contract c \<or> link G g c e"
    using assms by (auto simp: link_def gm_edge_add)
  then show ?case unfolding x fold_Cons comp_apply case_prod_conv Cons.IH by auto
qed simp

lemma keys_update_all: "fst ` set (fold (\<lambda>(k, v). AList.update k v) xs ys) = fst ` set ys \<union> fst ` set xs"
proof (induction xs arbitrary: ys)
  case (Cons x xs)
  obtain k v where x: "x = (k, v)" by fastforce
  show ?case unfolding x fold_Cons comp_apply case_prod_conv Cons.IH dom_update by auto
qed simp

lemma log_filter_extend_matches:
  assumes "graph_map_laws G"
  shows "log_filter_matches G (log_filter_extend G other self) log \<longleftrightarrow>
     log_filter_matches G self log \<or> log_filter_matches G other log"
proof (cases "log_filter_is_empty G other")
  case True
  then have "\<not> log_filter_matches G other log"
    by (auto simp: log_filter_is_empty_def log_filter_matches_iff link_def edge_def)
  then show ?thesis using True by (simp add: log_filter_extend_def)
next
  case False
  have l: "(\<exists>w. (Contract c, Event e, w) \<in> set (gm_all_edges G (lf_graph other)) \<or>
      (Event e, Contract c, w) \<in> set (gm_all_edges G (lf_graph other))) \<longleftrightarrow> link G (lf_graph other) c e" for c e
    by (auto simp: link_def edge_def)
  show ?thesis using False
    by (simp add: log_filter_extend_def log_filter_matches_iff link_add_all[OF assms] l keys_update_all) blast
qed

section \<open>The graph of a filter is bipartite\<close>

lemma bipartite_empty: "graph_map_laws G \<Longrightarrow> bipartite G (gm_empty G)"
  by (simp add: bipartite_def edge_def gm_empty_edges)

lemma bipartite_add:
  "graph_map_laws G \<Longrightarrow> bipartite G g \<Longrightarrow> bipartite G (gm_add_edge G (Contract c) (Event e) w g)"
  unfolding bipartite_def by (simp add: gm_edge_add) metis

lemma bipartite_from_data_sources:
  assumes "graph_map_laws G"
  shows "bipartite G (lf_graph (log_filter_from_data_sources G keccak dss))"
proof -
  let ?P = "\<lambda>f. bipartite G (lf_graph f)"
  have one: "?P f \<Longrightarrow> ?P (add_event_handler G keccak a h f)" for a h f
    using bipartite_add[OF assms] by (simp add: add_event_handler_def Let_def split: option.splits)
  have hs: "?P f \<Longrightarrow> ?P (fold (add_event_handler G keccak a) hs f)" for a hs f
    by (induction hs arbitrary: f) (simp_all add: one)
  have "?P f \<Longrightarrow> ?P (fold (\<lambda>ds. fold (add_event_handler G keccak (ds_address ds))
      (m_event_handlers (ds_mapping ds))) dss f)" for f
    by (induction dss arbitrary: f) (simp_all add: hs)
  then show ?thesis
    unfolding log_filter_from_data_sources_def
    by (simp add: log_filter_default_def bipartite_empty[OF assms])
qed

section \<open>The calls of \<open>eth_getLogs\<close>\<close>

text \<open>No topic of an event is an empty list, which the node would read as no restriction.\<close>

definition topics_given :: "event_with_topics \<Rightarrow> bool" where
  "topics_given e \<longleftrightarrow> et_topic1 e \<noteq> Some [] \<and> et_topic2 e \<noteq> Some [] \<and> et_topic3 e \<noteq> Some []"

lemma from_event_selects:
  "get_logs_selects (from_event e) log \<longleftrightarrow> (\<exists>rest. log_topics log = e # rest)"
  by (cases "log_topics log") (auto simp: get_logs_selects_def from_event_def topic_selects_def)

lemma from_event_with_topics_selects:
  assumes "event_with_topics_matches e (Some (log_address log)) sig (log_topics log)"
    and "log_topics log = sig # rest"
  shows "get_logs_selects (from_event_with_topics e) log"
  using assms
  by (auto simp: get_logs_selects_def from_event_with_topics_def topic_selects_def topic_matches_def
      event_with_topics_matches_def split: option.splits)

lemma from_event_with_topics_selects_only:
  assumes "get_logs_selects (from_event_with_topics e) log" and "topics_given e"
  shows "\<exists>rest. log_topics log = et_signature e # rest \<and>
     event_with_topics_matches e (Some (log_address log)) (et_signature e) (log_topics log)"
  using assms
  by (cases "log_topics log")
    (auto simp: get_logs_selects_def from_event_with_topics_def topic_selects_def topic_matches_def
      topics_given_def event_with_topics_matches_def split: option.splits)

lemma eth_get_logs_filters_correct:
  assumes "graph_map_laws G" and "bipartite G (lf_graph f)" and "1 \<le> m"
  obtains new where "eth_get_logs_filters G m f = Some (Inr (map (\<lambda>(e, _). from_event e) (lf_wildcard_events f)
        @ map (\<lambda>(e, _). from_event_with_topics e) (lf_events_with_topics f) @ new))"
    and "\<forall>g \<in> set new. pair_filter m g"
    and "\<And>log. (\<exists>g \<in> set new. get_logs_selects g log) \<longleftrightarrow>
       (\<exists>sig rest. log_topics log = sig # rest \<and> link G (lf_graph f) (log_address log) sig)"
proof -
  let ?init = "map (\<lambda>(e, _). from_event e) (lf_wildcard_events f)
      @ map (\<lambda>(e, _). from_event_with_topics e) (lf_events_with_topics f)"
  obtain new where new: "cover_loop G m (lf_graph f) ?init = Some (Inr (?init @ new))"
    "\<forall>g \<in> set new. pair_filter m g" "\<And>c e. covers new c e \<longleftrightarrow> link G (lf_graph f) c e"
    using cover_loop_correct[OF assms, of ?init] by blast
  show ?thesis
    using that[of new] new pair_filters_select[OF new(2)] by (simp add: eth_get_logs_filters_def)
qed

end
