(* ===== verification/Eth_Trigger_Filter.thy ===== *)
theory Eth_Trigger_Filter
  imports Eth_Log_Filter_Correct
begin

text \<open>
  \<open>EthereumCallFilter\<close>, \<open>EthereumBlockFilter\<close> and \<open>TriggerFilter\<close> of
  \<open>chain/ethereum/src/adapter.rs\<close>, the triggers that \<open>chain/ethereum/src/ethereum_adapter.rs\<close> makes
  of a block with them, and the order of node capabilities of \<open>chain/ethereum/src/capabilities.rs\<close>.
  A \<open>HashSet\<close> is a list without duplicates in the order in which it is iterated.
\<close>

section \<open>Call filters\<close>

record call_filter =
  cf_contracts :: "(address \<times> block_number \<times> bytes list) list"
  cf_wildcard_signatures :: "bytes list"

definition call_filter_is_empty :: "call_filter \<Rightarrow> bool" where
  "call_filter_is_empty f \<longleftrightarrow> cf_contracts f = [] \<and> cf_wildcard_signatures f = []"

definition call_filter_matches :: "call_filter \<Rightarrow> eth_call \<Rightarrow> bool" where
  "call_filter_matches f call \<longleftrightarrow>
     (if length (call_input call) < 4 then False
      else
        let sig = take 4 (call_input call) in
        case map_of (cf_contracts f) (call_to call) of
          Some (_, sigs) \<Rightarrow>
            if sigs = [] then True else sig \<in> set sigs \<or> sig \<in> set (cf_wildcard_signatures f)
        | None \<Rightarrow> sig \<in> set (cf_wildcard_signatures f))"

definition call_filter_from_mapping :: "(bytes \<Rightarrow> bytes) \<Rightarrow> mapping \<Rightarrow> call_filter" where
  "call_filter_from_mapping keccak m =
     \<lparr>cf_contracts = [],
      cf_wildcard_signatures = fold List.insert (map (call_selector keccak) (m_call_handlers m)) []\<rparr>"

text \<open>\<open>FromIterator::from_iter\<close>: one round of its loop, and all of it.\<close>

definition lookup_insert :: "block_number \<times> address \<times> bytes \<Rightarrow> (address \<times> block_number \<times> bytes list) list
    \<Rightarrow> (address \<times> block_number \<times> bytes list) list" where
  "lookup_insert entry lookup =
     (let (start_block, a, sig) = entry;
          (b, sigs) = (case map_of lookup a of Some e \<Rightarrow> e | None \<Rightarrow> (start_block, []))
      in AList.update a (if b > start_block then start_block else b, List.insert sig sigs) lookup)"

definition call_filter_from_iter :: "(block_number \<times> address \<times> bytes) list \<Rightarrow> call_filter" where
  "call_filter_from_iter entries =
     \<lparr>cf_contracts = fold lookup_insert entries [], cf_wildcard_signatures = []\<rparr>"

definition call_filter_from_data_sources :: "(bytes \<Rightarrow> bytes) \<Rightarrow> data_source list \<Rightarrow> call_filter" where
  "call_filter_from_data_sources keccak dss =
     call_filter_from_iter
       (concat (map (\<lambda>(a, ds). map (\<lambda>h. (ds_start_block ds, a, call_selector keccak h))
                                 (m_call_handlers (ds_mapping ds)))
          (List.map_filter (\<lambda>ds. map_option (\<lambda>a. (a, ds)) (ds_address ds)) dss)))"

definition extend_contract :: "address \<times> block_number \<times> bytes list
    \<Rightarrow> (address \<times> block_number \<times> bytes list) list \<Rightarrow> (address \<times> block_number \<times> bytes list) list" where
  "extend_contract entry self =
     (let (a, proposed_start_block, new_sigs) = entry in
      case map_of self a of
        Some (existing_start_block, existing_sigs) \<Rightarrow>
          AList.update a (min proposed_start_block existing_start_block,
                          fold List.insert new_sigs existing_sigs) self
      | None \<Rightarrow> AList.update a (proposed_start_block, new_sigs) self)"

definition call_filter_extend :: "call_filter \<Rightarrow> call_filter \<Rightarrow> call_filter" where
  "call_filter_extend other self =
     (if call_filter_is_empty other then self
      else \<lparr>cf_contracts = fold extend_contract (cf_contracts other) (cf_contracts self),
            cf_wildcard_signatures =
              fold List.insert (cf_wildcard_signatures other) (cf_wildcard_signatures self)\<rparr>)"

text \<open>The filters that are sent to Firehose.\<close>

record call_to_filter =
  ct_addresses :: "address list"
  ct_signatures :: "bytes list"

definition call_filter_into :: "call_filter \<Rightarrow> call_to_filter list" where
  "call_filter_into f =
     (if call_filter_is_empty f then []
      else map (\<lambda>(a, _, sigs). \<lparr>ct_addresses = [a], ct_signatures = sigs\<rparr>) (cf_contracts f)
        @ (if cf_wildcard_signatures f = [] then []
           else [\<lparr>ct_addresses = [], ct_signatures = cf_wildcard_signatures f\<rparr>]))"

section \<open>Block filters\<close>

record block_filter =
  bf_polling_intervals :: "(block_number \<times> int) list"
  bf_contract_addresses :: "(block_number \<times> address) list"
  bf_trigger_every_block :: bool

definition block_filter_default :: block_filter where
  "block_filter_default =
     \<lparr>bf_polling_intervals = [], bf_contract_addresses = [], bf_trigger_every_block = False\<rparr>"

definition block_filter_is_empty :: "block_filter \<Rightarrow> bool" where
  "block_filter_is_empty f \<longleftrightarrow> \<not> bf_trigger_every_block f \<and> bf_contract_addresses f = []
     \<and> bf_polling_intervals f = []"

definition block_filter_requires_traces :: "block_filter \<Rightarrow> bool" where
  "block_filter_requires_traces f \<longleftrightarrow> bf_contract_addresses f \<noteq> []"

definition find_contract_address :: "address \<Rightarrow> (block_number \<times> address) list
    \<Rightarrow> (block_number \<times> address) option" where
  "find_contract_address candidate xs = find (\<lambda>(_, a). candidate = a) xs"

definition extend_contract_address :: "block_number \<times> address \<Rightarrow> (block_number \<times> address) list
    \<Rightarrow> (block_number \<times> address) list" where
  "extend_contract_address other xs =
     (case find_contract_address (snd other) xs of
        Some current \<Rightarrow>
          if fst other < fst current then List.insert other (remove1 current xs) else xs
      | None \<Rightarrow> List.insert other xs)"

definition block_filter_extend :: "block_filter \<Rightarrow> block_filter \<Rightarrow> block_filter" where
  "block_filter_extend other self =
     (if block_filter_is_empty other then self
      else \<lparr>bf_polling_intervals = fold List.insert (bf_polling_intervals other) (bf_polling_intervals self),
            bf_contract_addresses =
              fold extend_contract_address (bf_contract_addresses other) (bf_contract_addresses self),
            bf_trigger_every_block = bf_trigger_every_block self \<or> bf_trigger_every_block other\<rparr>)"

definition block_filter_from_mapping :: "mapping \<Rightarrow> block_filter" where
  "block_filter_from_mapping m =
     \<lparr>bf_polling_intervals = [], bf_contract_addresses = [],
      bf_trigger_every_block = (m_block_handlers m \<noteq> [])\<rparr>"

definition polling_entry :: "block_number \<Rightarrow> block_handler \<Rightarrow> (block_number \<times> int) option" where
  "polling_entry start_block h =
     (case bh_filter h of
        Some (PollingFilter every) \<Rightarrow> Some (start_block, as_i32 every)
      | Some OnceFilter \<Rightarrow> Some (start_block, 0)
      | _ \<Rightarrow> None)"

definition block_filter_of :: "address \<Rightarrow> data_source \<Rightarrow> block_filter" where
  "block_filter_of a ds =
     (let hs = m_block_handlers (ds_mapping ds) in
      \<lparr>bf_polling_intervals =
         fold List.insert (List.map_filter (polling_entry (ds_start_block ds)) hs) [],
       bf_contract_addresses =
         (if list_ex (\<lambda>h. bh_filter h = Some CallFilter) hs then [(ds_start_block ds, a)] else []),
       bf_trigger_every_block = list_ex (\<lambda>h. bh_filter h = None) hs\<rparr>)"

definition block_filter_from_data_sources :: "data_source list \<Rightarrow> block_filter" where
  "block_filter_from_data_sources dss =
     fold (\<lambda>ds f. case ds_address ds of
             None \<Rightarrow> f | Some a \<Rightarrow> block_filter_extend (block_filter_of a ds) f)
       dss block_filter_default"

definition block_filter_into :: "block_filter \<Rightarrow> call_to_filter list" where
  "block_filter_into f =
     map (\<lambda>a. \<lparr>ct_addresses = [a], ct_signatures = []\<rparr>)
       (remdups_adj (sort (map snd (bf_contract_addresses f))))"

definition call_filter_from_block_filter :: "block_filter \<Rightarrow> call_filter" where
  "call_filter_from_block_filter f =
     \<lparr>cf_contracts = fold (\<lambda>(start, a). AList.update a (start, [])) (bf_contract_addresses f) [],
      cf_wildcard_signatures = []\<rparr>"

section \<open>Triggers of a block\<close>

text \<open>
  \<open>calls\<close> is the optional list of calls of the block; \<open>succeeded\<close> is
  \<open>transaction_for_call_succeeded\<close>.
\<close>

definition parse_call_triggers :: "call_filter \<Rightarrow> (eth_call \<Rightarrow> (string, bool) result)
    \<Rightarrow> eth_call list option \<Rightarrow> (string, eth_trigger list) result" where
  "parse_call_triggers f succeeded calls =
     (if call_filter_is_empty f then Inr []
      else case calls of
        None \<Rightarrow> Inr []
      | Some calls \<Rightarrow>
          bind_res
            (map_res (\<lambda>call. bind_res (succeeded call)
                (\<lambda>ok. Inr (if ok then Some (CallTrigger call) else None)))
              (filter (call_filter_matches f) calls))
            (\<lambda>ts. Inr (List.map_filter id ts)))"

definition polling_matches :: "block_number \<Rightarrow> block_number \<times> int \<Rightarrow> bool" where
  "polling_matches block entry =
     (let (start_block, interval) = entry
      in interval \<noteq> 0 \<and> block \<ge> start_block \<and> interval dvd block - start_block)"

definition once_matches :: "block_number \<Rightarrow> block_number \<times> int \<Rightarrow> bool" where
  "once_matches block entry = (let (start_block, interval) = entry in interval = 0 \<and> block = start_block)"

definition parse_block_triggers :: "block_filter \<Rightarrow> block_ptr \<Rightarrow> eth_call list option \<Rightarrow> eth_trigger list" where
  "parse_block_triggers f ptr calls =
     (if block_filter_is_empty f then []
      else
        let cf = call_filter_from_block_filter f;
            block = number ptr;
            with_calls = (case calls of None \<Rightarrow> []
              | Some calls \<Rightarrow> map (\<lambda>call. BlockTrigger ptr (WithCallTo (call_to call)))
                               (filter (call_filter_matches cf) calls))
        in with_calls @
          (if bf_trigger_every_block f then [BlockTrigger ptr StartTrigger, BlockTrigger ptr EndTrigger]
           else
             (if list_ex (once_matches block) (bf_polling_intervals f)
              then [BlockTrigger ptr StartTrigger] else []) @
             (if list_ex (polling_matches block) (bf_polling_intervals f)
              then [BlockTrigger ptr EndTrigger] else [])))"

text \<open>
  \<open>blocks_matching_polling_intervals\<close>, which makes the block triggers of a range of blocks far from
  the chain head: the trigger types of one block of the range. \<open>find_map\<close> stops at the first entry.
\<close>

fun polling_types :: "block_number \<Rightarrow> (block_number \<times> int) list \<Rightarrow> block_trigger_type list option" where
  "polling_types block [] = None"
| "polling_types block ((start_block, interval) # rest) =
     (let once = (interval = 0 \<and> block = start_block);
          polling = (block \<ge> start_block \<and> interval > 0 \<and> interval dvd block - start_block)
      in if once \<or> polling
         then Some ((if once then [StartTrigger] else []) @ (if polling then [EndTrigger] else []))
         else polling_types block rest)"

definition blocks_matching_polling_intervals :: "block_filter \<Rightarrow> block_number \<Rightarrow> block_number
    \<Rightarrow> (block_number \<times> block_trigger_type list) list" where
  "blocks_matching_polling_intervals f from_block to_block =
     List.map_filter
       (\<lambda>n. map_option (\<lambda>ts. (n, ts)) (polling_types n (bf_polling_intervals f)))
       [from_block..to_block]"

section \<open>Trigger filters and node capabilities\<close>

datatype node_capabilities = NodeCapabilities (archive: bool) (traces: bool)

datatype ordering = Less | Equal | Greater

definition product_order :: "ordering list \<Rightarrow> ordering option" where
  "product_order cmps =
     (if list_all (\<lambda>c. c = Equal) cmps then Some Equal
      else if list_all (\<lambda>c. c = Less \<or> c = Equal) cmps then Some Less
      else if list_all (\<lambda>c. c = Greater \<or> c = Equal) cmps then Some Greater
      else None)"

definition cmp_of :: "'a::linorder \<Rightarrow> 'a \<Rightarrow> ordering" where
  "cmp_of a b = (if a < b then Less else if a = b then Equal else Greater)"

definition capabilities_cmp :: "node_capabilities \<Rightarrow> node_capabilities \<Rightarrow> ordering option" where
  "capabilities_cmp self other =
     product_order [cmp_of (archive self) (archive other), cmp_of (traces self) (traces other)]"

text \<open>\<open>requires_archive\<close> looks into the compiled mapping and is a parameter.\<close>

definition capabilities_from_data_sources :: "(mapping \<Rightarrow> bool) \<Rightarrow> data_source list \<Rightarrow> node_capabilities" where
  "capabilities_from_data_sources requires_archive dss =
     NodeCapabilities
       (list_ex (\<lambda>ds. requires_archive (ds_mapping ds)) dss)
       (list_ex (\<lambda>ds. has_call_handler (ds_mapping ds)
                  \<or> has_block_handler_with_call_filter (ds_mapping ds)) dss)"

record 'g trigger_filter =
  tf_log :: "'g log_filter"
  tf_call :: call_filter
  tf_block :: block_filter

definition trigger_filter_default :: "'g graph_map \<Rightarrow> 'g trigger_filter" where
  "trigger_filter_default G =
     \<lparr>tf_log = log_filter_default G,
      tf_call = \<lparr>cf_contracts = [], cf_wildcard_signatures = []\<rparr>,
      tf_block = block_filter_default\<rparr>"

definition requires_traces :: "'g trigger_filter \<Rightarrow> bool" where
  "requires_traces f \<longleftrightarrow> \<not> call_filter_is_empty (tf_call f) \<or> block_filter_requires_traces (tf_block f)"

definition node_capabilities_of :: "'g trigger_filter \<Rightarrow> node_capabilities" where
  "node_capabilities_of f = NodeCapabilities False (requires_traces f)"

definition trigger_filter_extend :: "'g graph_map \<Rightarrow> (bytes \<Rightarrow> bytes) \<Rightarrow> data_source list
    \<Rightarrow> 'g trigger_filter \<Rightarrow> 'g trigger_filter" where
  "trigger_filter_extend G keccak dss f =
     f\<lparr>tf_log := log_filter_extend G (log_filter_from_data_sources G keccak dss) (tf_log f),
       tf_call := call_filter_extend (call_filter_from_data_sources keccak dss) (tf_call f),
       tf_block := block_filter_extend (block_filter_from_data_sources dss) (tf_block f)\<rparr>"

definition trigger_filter_extend_with_template :: "'g graph_map \<Rightarrow> (bytes \<Rightarrow> bytes) \<Rightarrow> mapping list
    \<Rightarrow> 'g trigger_filter \<Rightarrow> 'g trigger_filter" where
  "trigger_filter_extend_with_template G keccak ms =
     fold (\<lambda>m f. f\<lparr>tf_log := log_filter_extend G (log_filter_from_mapping G keccak m) (tf_log f),
                   tf_call := call_filter_extend (call_filter_from_mapping keccak m) (tf_call f),
                   tf_block := block_filter_extend (block_filter_from_mapping m) (tf_block f)\<rparr>) ms"

text \<open>
  \<open>to_firehose_filter\<close>: the outer option is the loop of \<open>eth_get_logs_filters\<close>, the inner one the
  empty vector. The topics of the log filters are not sent.
\<close>

record combined_filter =
  cb_log_filters :: "(address list \<times> h256 list) list"
  cb_call_filters :: "call_to_filter list"
  cb_send_all_block_headers :: bool

definition firehose_log_filters :: "'g graph_map \<Rightarrow> nat \<Rightarrow> 'g log_filter
    \<Rightarrow> (unit, (address list \<times> h256 list) list) result option" where
  "firehose_log_filters G max_contracts f =
     bind_run (eth_get_logs_filters G max_contracts f)
       (\<lambda>fs. Some (Inr (map (\<lambda>g. (gl_contracts g, gl_event_signatures g)) fs)))"

definition to_firehose_filter :: "'g graph_map \<Rightarrow> nat \<Rightarrow> 'g trigger_filter
    \<Rightarrow> (unit, combined_filter option) result option" where
  "to_firehose_filter G max_contracts f =
     (let initialization_only = list_all (\<lambda>(_, i). i = 0) (bf_polling_intervals (tf_block f))
      in bind_run (firehose_log_filters G max_contracts (tf_log f))
        (\<lambda>log_filters.
          let call_filters = call_filter_into (tf_call f) @ block_filter_into (tf_block f);
              every = bf_trigger_every_block (tf_block f)
          in Some (Inr
               (if call_filters = [] \<and> log_filters = [] \<and> \<not> every then None
                else Some \<lparr>cb_log_filters = log_filters, cb_call_filters = call_filters,
                           cb_send_all_block_headers = (every \<or> \<not> initialization_only)\<rparr>))))"

end
