(* ===== verification/Eth_Trigger_Filter_Correct.thy ===== *)
theory Eth_Trigger_Filter_Correct
  imports Eth_Trigger_Filter
begin

text \<open>
  A trigger that a data source wants passes the filter that was built from the data source; what
  is sent to Firehose selects the same calls; node capabilities are partially ordered.
\<close>

section \<open>Call filters\<close>

text \<open>The comment on \<open>CallToFilter\<close> in \<open>graph/proto/ethereum/transforms.proto\<close>.\<close>

definition call_to_selects :: "call_to_filter \<Rightarrow> eth_call \<Rightarrow> bool" where
  "call_to_selects c call \<longleftrightarrow> (ct_addresses c = [] \<or> call_to call \<in> set (ct_addresses c))
     \<and> (ct_signatures c = [] \<or> take 4 (call_input call) \<in> set (ct_signatures c))"

lemma call_filter_into_selects:
  assumes "distinct (map fst (cf_contracts f))" and "4 \<le> length (call_input call)"
  shows "(\<exists>c \<in> set (call_filter_into f). call_to_selects c call) \<longleftrightarrow> call_filter_matches f call"
proof (cases "call_filter_is_empty f")
  case True
  then show ?thesis
    by (simp add: call_filter_into_def call_filter_matches_def call_filter_is_empty_def)
next
  case False
  let ?sig = "take 4 (call_input call)"
  have e: "(\<exists>c \<in> set (call_filter_into f). call_to_selects c call) \<longleftrightarrow>
      (\<exists>b sigs. (call_to call, b, sigs) \<in> set (cf_contracts f) \<and> (sigs = [] \<or> ?sig \<in> set sigs))
      \<or> ?sig \<in> set (cf_wildcard_signatures f)"
    using False by (cases "cf_wildcard_signatures f = []") (force simp: call_filter_into_def call_to_selects_def)+
  show ?thesis unfolding e map_of_eq_Some_iff[OF assms(1), symmetric]
    using assms(2) by (auto simp: call_filter_matches_def split: option.splits if_splits)
qed

text \<open>The signatures that are looked up for an address; every address in the filter has some.\<close>

definition sigs_of :: "(address \<times> block_number \<times> bytes list) list \<Rightarrow> address \<Rightarrow> bytes set" where
  "sigs_of l a = (case map_of l a of None \<Rightarrow> {} | Some (_, sigs) \<Rightarrow> set sigs)"

definition sigs_given :: "(address \<times> block_number \<times> bytes list) list \<Rightarrow> bool" where
  "sigs_given l \<longleftrightarrow> (\<forall>a b. map_of l a \<noteq> Some (b, []))"

lemma call_filter_matches_iff:
  assumes "sigs_given (cf_contracts f)"
  shows "call_filter_matches f call \<longleftrightarrow> 4 \<le> length (call_input call) \<and>
     (take 4 (call_input call) \<in> sigs_of (cf_contracts f) (call_to call)
      \<or> take 4 (call_input call) \<in> set (cf_wildcard_signatures f))"
  using assms
  by (auto simp: call_filter_matches_def sigs_of_def sigs_given_def Let_def split: option.splits)

lemma insert_not_Nil [simp]: "List.insert x xs \<noteq> []"
  by (metis empty_iff insertI1 list.set(1) set_insert)

lemma lookup_insert_sigs:
  "sigs_of (lookup_insert (s, a, sig) l) x = (if x = a then insert sig (sigs_of l a) else sigs_of l x)"
  "sigs_given l \<Longrightarrow> sigs_given (lookup_insert (s, a, sig) l)"
  by (auto simp: lookup_insert_def sigs_of_def sigs_given_def update_conv' split: option.splits prod.splits)

lemma lookup_inserts_sigs:
  "sigs_given l \<Longrightarrow> sigs_given (fold lookup_insert es l)
     \<and> sigs_of (fold lookup_insert es l) x = sigs_of l x \<union> {sig. \<exists>s. (s, x, sig) \<in> set es}"
proof (induction es arbitrary: l)
  case (Cons e es)
  obtain s a sig where e: "e = (s, a, sig)" by (cases e)
  show ?case using Cons.IH[OF lookup_insert_sigs(2)[OF Cons.prems, of s a sig]]
    by (auto simp: e lookup_insert_sigs(1))
qed simp

lemma call_filter_from_data_sources_sigs:
  "sigs_given (cf_contracts (call_filter_from_data_sources keccak dss))"
  using lookup_inserts_sigs[of "[]"]
  by (simp add: call_filter_from_data_sources_def call_filter_from_iter_def sigs_given_def)

lemma call_filter_from_data_sources_matches:
  "call_filter_matches (call_filter_from_data_sources keccak dss) call \<longleftrightarrow>
     4 \<le> length (call_input call) \<and>
     (\<exists>ds \<in> set dss. ds_address ds = Some (call_to call) \<and>
        (\<exists>h \<in> set (m_call_handlers (ds_mapping ds)). take 4 (call_input call) = call_selector keccak h))"
proof -
  have n: "sigs_given []" "sigs_of [] x = {}" for x by (simp_all add: sigs_given_def sigs_of_def)
  have "sigs_of (cf_contracts (call_filter_from_data_sources keccak dss)) (call_to call) =
      {sig. \<exists>ds \<in> set dss. ds_address ds = Some (call_to call) \<and>
         (\<exists>h \<in> set (m_call_handlers (ds_mapping ds)). sig = call_selector keccak h)}"
    unfolding call_filter_from_data_sources_def call_filter_from_iter_def call_filter.simps
      conjunct2[OF lookup_inserts_sigs[OF n(1)]] n(2)
    by (force simp: map_filter_def split: option.splits)
  then show ?thesis
    unfolding call_filter_matches_iff[OF call_filter_from_data_sources_sigs]
    by (auto simp: call_filter_from_data_sources_def call_filter_from_iter_def)
qed

lemma set_fold_insert [simp]: "set (fold List.insert xs ys) = set ys \<union> set xs"
  by (induction xs arbitrary: ys) auto

lemma extend_contract_sigs:
  assumes "sigs_given self" and "sigs \<noteq> []"
  shows "sigs_of (extend_contract (a, b, sigs) self) x =
      (if x = a then sigs_of self a \<union> set sigs else sigs_of self x)"
    and "sigs_given (extend_contract (a, b, sigs) self)"
proof -
  have ne: "fold List.insert sigs ys \<noteq> []" for ys
    using assms(2) set_fold_insert[of sigs ys] by (metis Un_empty set_empty)
  show "sigs_of (extend_contract (a, b, sigs) self) x =
      (if x = a then sigs_of self a \<union> set sigs else sigs_of self x)"
    by (auto simp: extend_contract_def sigs_of_def update_conv' split: option.splits)
  show "sigs_given (extend_contract (a, b, sigs) self)"
    using assms ne by (auto simp: extend_contract_def sigs_given_def update_conv' split: option.splits)
qed

lemma extend_contracts_sigs:
  "sigs_given self \<Longrightarrow> \<forall>(a, b, sigs) \<in> set other. sigs \<noteq> [] \<Longrightarrow>
     sigs_given (fold extend_contract other self) \<and>
     sigs_of (fold extend_contract other self) x = sigs_of self x \<union> {s. \<exists>b sigs. (x, b, sigs) \<in> set other \<and> s \<in> set sigs}"
proof (induction other arbitrary: self)
  case (Cons e other)
  obtain a b sigs where e: "e = (a, b, sigs)" by (cases e)
  have s: "sigs \<noteq> []" using Cons.prems(2) e by auto
  show ?case
    using Cons.IH[of "extend_contract (a, b, sigs) self"] extend_contract_sigs[OF Cons.prems(1) s]
      Cons.prems(2)
    by (auto simp: e)
qed simp

lemma call_filter_extend_matches:
  assumes "sigs_given (cf_contracts self)" and "distinct (map fst (cf_contracts other))"
    and "sigs_given (cf_contracts other)"
  shows "call_filter_matches (call_filter_extend other self) call \<longleftrightarrow>
      call_filter_matches self call \<or> call_filter_matches other call"
    and "sigs_given (cf_contracts (call_filter_extend other self))"
proof -
  have o: "\<forall>(a, b, sigs) \<in> set (cf_contracts other). sigs \<noteq> []"
    using assms(2,3) by (auto simp: sigs_given_def map_of_eq_Some_iff)
  have so: "{s. \<exists>b sigs. (x, b, sigs) \<in> set (cf_contracts other) \<and> s \<in> set sigs} = sigs_of (cf_contracts other) x" for x
    unfolding sigs_of_def by (auto simp: map_of_eq_Some_iff[OF assms(2), symmetric] split: option.splits)
  note e = extend_contracts_sigs[OF assms(1) o, unfolded so]
  show g: "sigs_given (cf_contracts (call_filter_extend other self))"
    using e assms(1) by (simp add: call_filter_extend_def)
  have "sigs_of (cf_contracts (call_filter_extend other self)) x =
      sigs_of (cf_contracts self) x \<union> sigs_of (cf_contracts other) x" for x
    using e by (simp add: call_filter_extend_def call_filter_is_empty_def sigs_of_def)
  moreover have "set (cf_wildcard_signatures (call_filter_extend other self)) =
      set (cf_wildcard_signatures self) \<union> set (cf_wildcard_signatures other)"
    by (simp add: call_filter_extend_def call_filter_is_empty_def)
  ultimately show "call_filter_matches (call_filter_extend other self) call \<longleftrightarrow>
      call_filter_matches self call \<or> call_filter_matches other call"
    unfolding call_filter_matches_iff[OF g] call_filter_matches_iff[OF assms(1)]
      call_filter_matches_iff[OF assms(3)] by auto
qed

section \<open>Block filters\<close>

lemma set_find_contract_address:
  "find_contract_address a xs = Some c \<Longrightarrow> c \<in> set xs \<and> snd c = a"
  by (induction xs) (auto simp: find_contract_address_def split: if_splits prod.splits)

lemma find_contract_address_None: "find_contract_address a xs = None \<longleftrightarrow> a \<notin> snd ` set xs"
  by (induction xs) (auto simp: find_contract_address_def)

lemma extend_contract_address_addresses:
  "snd ` set (extend_contract_address other xs) = insert (snd other) (snd ` set xs)"
proof (cases "find_contract_address (snd other) xs")
  case None
  then show ?thesis by (simp add: extend_contract_address_def)
next
  case (Some c)
  have c: "c \<in> set xs" "snd c = snd other" using set_find_contract_address[OF Some] by auto
  have "set xs \<subseteq> insert c (set (remove1 c xs))" by (metis in_set_remove1 insert_iff subsetI)
  then have "insert (snd other) (snd ` set (remove1 c xs)) = insert (snd other) (snd ` set xs)"
    using c(2) set_remove1_subset[of c xs] by (metis (no_types, lifting) image_insert image_mono
        insert_absorb2 insert_mono subset_antisym)
  moreover have "snd other \<in> snd ` set xs" using c by (metis image_eqI)
  ultimately show ?thesis using Some by (simp add: extend_contract_address_def insert_absorb)
qed

lemma extend_contract_addresses:
  "snd ` set (fold extend_contract_address other xs) = snd ` set xs \<union> snd ` set other"
  by (induction other arbitrary: xs) (simp_all add: extend_contract_address_addresses)

text \<open>Extending is the union of the fields, of which only the addresses of the contracts count.\<close>

lemma block_filter_extend_fields:
  "set (bf_polling_intervals (block_filter_extend other self)) =
     set (bf_polling_intervals self) \<union> set (bf_polling_intervals other)"
  "snd ` set (bf_contract_addresses (block_filter_extend other self)) =
     snd ` set (bf_contract_addresses self) \<union> snd ` set (bf_contract_addresses other)"
  "bf_trigger_every_block (block_filter_extend other self) \<longleftrightarrow>
     bf_trigger_every_block self \<or> bf_trigger_every_block other"
  by (auto simp: block_filter_extend_def block_filter_is_empty_def extend_contract_addresses)

lemma block_filter_of_fields:
  "set (bf_polling_intervals (block_filter_of a ds)) =
     {e. \<exists>h \<in> set (m_block_handlers (ds_mapping ds)). polling_entry (ds_start_block ds) h = Some e}"
  "snd ` set (bf_contract_addresses (block_filter_of a ds)) =
     {b. b = a \<and> (\<exists>h \<in> set (m_block_handlers (ds_mapping ds)). bh_filter h = Some CallFilter)}"
  "bf_trigger_every_block (block_filter_of a ds) \<longleftrightarrow>
     (\<exists>h \<in> set (m_block_handlers (ds_mapping ds)). bh_filter h = None)"
  by (auto simp: block_filter_of_def Let_def map_filter_def list_ex_iff split: option.splits)
    (force split: option.splits)+

lemma block_filter_from_data_sources_fields:
  "set (bf_polling_intervals (block_filter_from_data_sources dss)) =
     {e. \<exists>ds \<in> set dss. ds_address ds \<noteq> None \<and>
        (\<exists>h \<in> set (m_block_handlers (ds_mapping ds)). polling_entry (ds_start_block ds) h = Some e)}"
  "snd ` set (bf_contract_addresses (block_filter_from_data_sources dss)) =
     {a. \<exists>ds \<in> set dss. ds_address ds = Some a \<and>
        (\<exists>h \<in> set (m_block_handlers (ds_mapping ds)). bh_filter h = Some CallFilter)}"
  "bf_trigger_every_block (block_filter_from_data_sources dss) \<longleftrightarrow>
     (\<exists>ds \<in> set dss. ds_address ds \<noteq> None \<and> (\<exists>h \<in> set (m_block_handlers (ds_mapping ds)). bh_filter h = None))"
proof -
  let ?step = "\<lambda>ds f. case ds_address ds of None \<Rightarrow> f | Some a \<Rightarrow> block_filter_extend (block_filter_of a ds) f"
  have p: "set (bf_polling_intervals (fold ?step dss f)) = set (bf_polling_intervals f) \<union>
     {e. \<exists>ds \<in> set dss. ds_address ds \<noteq> None \<and>
        (\<exists>h \<in> set (m_block_handlers (ds_mapping ds)). polling_entry (ds_start_block ds) h = Some e)}" for f
    by (induction dss arbitrary: f) (auto simp: block_filter_extend_fields block_filter_of_fields split: option.splits)
  have c: "snd ` set (bf_contract_addresses (fold ?step dss f)) = snd ` set (bf_contract_addresses f) \<union>
     {a. \<exists>ds \<in> set dss. ds_address ds = Some a \<and>
        (\<exists>h \<in> set (m_block_handlers (ds_mapping ds)). bh_filter h = Some CallFilter)}" for f
  proof (induction dss arbitrary: f)
    case (Cons ds dss)
    show ?case unfolding fold_Cons comp_apply Cons.IH
      by (cases "ds_address ds") (auto simp: block_filter_extend_fields(2) block_filter_of_fields(2)
          simp del: image_Un)
  qed simp
  have e: "bf_trigger_every_block (fold ?step dss f) \<longleftrightarrow> bf_trigger_every_block f \<or>
     (\<exists>ds \<in> set dss. ds_address ds \<noteq> None \<and> (\<exists>h \<in> set (m_block_handlers (ds_mapping ds)). bh_filter h = None))" for f
    by (induction dss arbitrary: f) (auto simp: block_filter_extend_fields block_filter_of_fields split: option.splits)
  show "set (bf_polling_intervals (block_filter_from_data_sources dss)) =
     {e. \<exists>ds \<in> set dss. ds_address ds \<noteq> None \<and>
        (\<exists>h \<in> set (m_block_handlers (ds_mapping ds)). polling_entry (ds_start_block ds) h = Some e)}"
    using p[of block_filter_default] by (simp add: block_filter_from_data_sources_def block_filter_default_def)
  show "snd ` set (bf_contract_addresses (block_filter_from_data_sources dss)) =
     {a. \<exists>ds \<in> set dss. ds_address ds = Some a \<and>
        (\<exists>h \<in> set (m_block_handlers (ds_mapping ds)). bh_filter h = Some CallFilter)}"
    using c[of block_filter_default] by (simp add: block_filter_from_data_sources_def block_filter_default_def)
  show "bf_trigger_every_block (block_filter_from_data_sources dss) \<longleftrightarrow>
     (\<exists>ds \<in> set dss. ds_address ds \<noteq> None \<and> (\<exists>h \<in> set (m_block_handlers (ds_mapping ds)). bh_filter h = None))"
    using e[of block_filter_default] by (simp add: block_filter_from_data_sources_def block_filter_default_def)
qed

section \<open>Block triggers\<close>

text \<open>The triggers that one block gets, by kind.\<close>

lemma start_trigger_iff:
  "BlockTrigger ptr StartTrigger \<in> set (parse_block_triggers f ptr calls) \<longleftrightarrow>
     bf_trigger_every_block f \<or> (\<exists>e \<in> set (bf_polling_intervals f). once_matches (number ptr) e)"
  by (auto simp: parse_block_triggers_def Let_def block_filter_is_empty_def list_ex_iff split: option.splits)

lemma end_trigger_iff:
  "BlockTrigger ptr EndTrigger \<in> set (parse_block_triggers f ptr calls) \<longleftrightarrow>
     bf_trigger_every_block f \<or> (\<exists>e \<in> set (bf_polling_intervals f). polling_matches (number ptr) e)"
  by (auto simp: parse_block_triggers_def Let_def block_filter_is_empty_def list_ex_iff split: option.splits)

lemma call_filter_from_block_filter_matches:
  "call_filter_matches (call_filter_from_block_filter f) call \<longleftrightarrow>
     4 \<le> length (call_input call) \<and> call_to call \<in> snd ` set (bf_contract_addresses f)"
proof -
  have k: "fst ` set (fold (\<lambda>(start, a). AList.update a (start, [])) xs ys) = fst ` set ys \<union> snd ` set xs"
    for xs :: "(block_number \<times> address) list" and ys :: "(address \<times> block_number \<times> bytes list) list"
  proof (induction xs arbitrary: ys)
    case (Cons x xs)
    obtain s a where x: "x = (s, a)" by fastforce
    show ?case unfolding x fold_Cons comp_apply case_prod_conv Cons.IH dom_update by auto
  qed simp
  have e: "map_of (fold (\<lambda>(start, a). AList.update a (start, [])) xs ys) a = Some (b, sigs) \<Longrightarrow>
      \<forall>x b sigs. map_of ys x = Some (b, sigs) \<longrightarrow> sigs = [] \<Longrightarrow> sigs = []"
    for xs :: "(block_number \<times> address) list" and ys :: "(address \<times> block_number \<times> bytes list) list" and a b sigs
    by (induction xs arbitrary: ys) (auto simp: update_conv' split: if_splits)
  let ?l = "fold (\<lambda>(start, a). AList.update a (start, [])) (bf_contract_addresses f) []
    :: (address \<times> block_number \<times> bytes list) list"
  have n: "map_of ?l (call_to call) = None \<longleftrightarrow> call_to call \<notin> snd ` set (bf_contract_addresses f)"
    unfolding map_of_eq_None_iff k by simp
  have s: "map_of ?l (call_to call) = Some (b, sigs) \<Longrightarrow> sigs = []" for b sigs
    using e[of "bf_contract_addresses f" "[]"] by simp
  show ?thesis
  proof (cases "map_of ?l (call_to call)")
    case None
    then show ?thesis using n by (simp add: call_filter_matches_def call_filter_from_block_filter_def)
  next
    case (Some v)
    then obtain b where "map_of ?l (call_to call) = Some (b, [])" using s by (cases v) auto
    then show ?thesis using n by (simp add: call_filter_matches_def call_filter_from_block_filter_def not_less)
  qed
qed

lemma with_call_trigger_iff:
  "BlockTrigger ptr (WithCallTo a) \<in> set (parse_block_triggers f ptr calls) \<longleftrightarrow>
     a \<in> snd ` set (bf_contract_addresses f) \<and>
     (\<exists>cs call. calls = Some cs \<and> call \<in> set cs \<and> call_to call = a \<and> 4 \<le> length (call_input call))"
proof -
  have "BlockTrigger ptr (WithCallTo a) \<in> set (parse_block_triggers f ptr calls) \<longleftrightarrow>
      \<not> block_filter_is_empty f \<and>
      (\<exists>cs call. calls = Some cs \<and> call \<in> set cs \<and> call_to call = a
         \<and> call_filter_matches (call_filter_from_block_filter f) call)"
    by (auto simp: parse_block_triggers_def Let_def split: option.splits)
  then show ?thesis
    unfolding call_filter_from_block_filter_matches by (auto simp: block_filter_is_empty_def)
qed

text \<open>A block handler that a data source runs at the start or the end of a block has a trigger there.\<close>

lemma data_source_start_trigger:
  assumes "ds \<in> set dss" and "ds_address ds \<noteq> None"
    and "handler_for_block ds StartTrigger (number ptr) \<noteq> None"
  shows "BlockTrigger ptr StartTrigger \<in> set (parse_block_triggers (block_filter_from_data_sources dss) ptr calls)"
proof -
  obtain h where h: "h \<in> set (m_block_handlers (ds_mapping ds))" "bh_filter h = Some OnceFilter"
    "number ptr = ds_start_block ds"
    using assms(3) unfolding handler_for_block_iff by blast
  then have "(ds_start_block ds, 0) \<in> set (bf_polling_intervals (block_filter_from_data_sources dss))"
    unfolding block_filter_from_data_sources_fields(1) using assms(1,2) by (force simp: polling_entry_def)
  then show ?thesis unfolding start_trigger_iff using h(3) by (force simp: once_matches_def)
qed

lemma data_source_end_trigger:
  assumes "ds \<in> set dss" and "ds_address ds \<noteq> None" and "ds_start_block ds \<le> number ptr"
    and "handler_for_block ds EndTrigger (number ptr) \<noteq> None"
    and "\<forall>h \<in> set (m_block_handlers (ds_mapping ds)). \<forall>n. bh_filter h = Some (PollingFilter n) \<longrightarrow> 0 < n \<and> n < 2 ^ 32"
  shows "BlockTrigger ptr EndTrigger \<in> set (parse_block_triggers (block_filter_from_data_sources dss) ptr calls)"
proof -
  obtain h where h: "h \<in> set (m_block_handlers (ds_mapping ds))"
    "bh_filter h = None \<or>
       (\<exists>every. bh_filter h = Some (PollingFilter every) \<and> as_i32 every dvd number ptr - ds_start_block ds)"
    using assms(4) unfolding handler_for_block_iff by blast
  from h(2) show ?thesis
  proof
    assume "bh_filter h = None"
    then show ?thesis unfolding end_trigger_iff block_filter_from_data_sources_fields(3)
      using assms(1,2) h(1) by blast
  next
    assume "\<exists>every. bh_filter h = Some (PollingFilter every) \<and> as_i32 every dvd number ptr - ds_start_block ds"
    then obtain every where e: "bh_filter h = Some (PollingFilter every)"
      "as_i32 every dvd number ptr - ds_start_block ds" by blast
    have "0 < every \<and> every < 2 ^ 32" using assms(5) h(1) e(1) by blast
    then have n: "as_i32 every \<noteq> 0" by (auto simp: as_i32_def)
    have "(ds_start_block ds, as_i32 every) \<in> set (bf_polling_intervals (block_filter_from_data_sources dss))"
      unfolding block_filter_from_data_sources_fields(1) using assms(1,2) h(1) e(1)
      by (force simp: polling_entry_def)
    then show ?thesis unfolding end_trigger_iff using n e(2) assms(3) by (force simp: polling_matches_def)
  qed
qed

lemma data_source_call_to_trigger:
  assumes "ds \<in> set dss" and "ds_address ds = Some a" and "handler_for_block ds (WithCallTo a) n \<noteq> None"
    and "call \<in> set calls" and "call_to call = a" and "4 \<le> length (call_input call)"
  shows "BlockTrigger ptr (WithCallTo a) \<in> set (parse_block_triggers (block_filter_from_data_sources dss) ptr (Some calls))"
  using assms unfolding with_call_trigger_iff block_filter_from_data_sources_fields(2) handler_for_block_iff
  by blast

text \<open>
  Far from the chain head, an entry decides alone: the triggers are among those near the head, and
  there are some if there are some near the head.
\<close>

lemma polling_types_sound:
  "polling_types n es = Some ts \<Longrightarrow> t \<in> set ts \<Longrightarrow>
     t = StartTrigger \<and> (\<exists>e \<in> set es. once_matches n e) \<or> t = EndTrigger \<and> (\<exists>e \<in> set es. polling_matches n e)"
  by (induction n es rule: polling_types.induct)
    (auto simp: Let_def once_matches_def polling_matches_def split: if_splits)

lemma polling_types_None:
  assumes "\<forall>(s, i) \<in> set es. 0 \<le> i"
  shows "polling_types n es = None \<longleftrightarrow> \<not> (\<exists>e \<in> set es. once_matches n e \<or> polling_matches n e)"
  using assms
  by (induction n es rule: polling_types.induct)
    (auto simp: Let_def once_matches_def polling_matches_def)

section \<open>Node capabilities\<close>

instantiation node_capabilities :: order
begin

definition less_eq_node_capabilities :: "node_capabilities \<Rightarrow> node_capabilities \<Rightarrow> bool" where
  "less_eq_node_capabilities a b \<longleftrightarrow>
     capabilities_cmp a b = Some Less \<or> capabilities_cmp a b = Some Equal"

definition less_node_capabilities :: "node_capabilities \<Rightarrow> node_capabilities \<Rightarrow> bool" where
  "less_node_capabilities a b \<longleftrightarrow> capabilities_cmp a b = Some Less"

instance
proof
  fix x y z :: node_capabilities
  have c: "capabilities_cmp a b = Some Less \<or> capabilities_cmp a b = Some Equal \<longleftrightarrow>
      (archive a \<longrightarrow> archive b) \<and> (traces a \<longrightarrow> traces b)" for a b
    by (auto simp: capabilities_cmp_def product_order_def cmp_of_def)
  have l: "capabilities_cmp a b = Some Less \<longleftrightarrow>
      (archive a \<longrightarrow> archive b) \<and> (traces a \<longrightarrow> traces b) \<and> a \<noteq> b" for a b
    by (cases a; cases b) (auto simp: capabilities_cmp_def product_order_def cmp_of_def)
  have le: "a \<le> b \<longleftrightarrow> (archive a \<longrightarrow> archive b) \<and> (traces a \<longrightarrow> traces b)" for a b :: node_capabilities
    unfolding less_eq_node_capabilities_def by (rule c)
  have lt: "a < b \<longleftrightarrow> (archive a \<longrightarrow> archive b) \<and> (traces a \<longrightarrow> traces b) \<and> a \<noteq> b" for a b :: node_capabilities
    unfolding less_node_capabilities_def by (rule l)
  show "x < y \<longleftrightarrow> x \<le> y \<and> \<not> y \<le> x" unfolding le lt by (cases x; cases y) auto
  show "x \<le> x" unfolding le by simp
  show "x \<le> y \<Longrightarrow> y \<le> z \<Longrightarrow> x \<le> z" unfolding le by blast
  show "x \<le> y \<Longrightarrow> y \<le> x \<Longrightarrow> x = y" unfolding le by (cases x; cases y) auto
qed

end

lemma capabilities_le_iff:
  "a \<le> b \<longleftrightarrow> (archive a \<longrightarrow> archive b) \<and> (traces a \<longrightarrow> traces b)" for a b :: node_capabilities
  by (auto simp: less_eq_node_capabilities_def capabilities_cmp_def product_order_def cmp_of_def)

text \<open>
  The filter asks for traces exactly when the data sources need them, if the data sources pass
  validation.
\<close>

lemma call_filter_from_data_sources_is_empty:
  "call_filter_is_empty (call_filter_from_data_sources keccak dss) \<longleftrightarrow>
     (\<forall>ds \<in> set dss. ds_address ds \<noteq> None \<longrightarrow> m_call_handlers (ds_mapping ds) = [])"
proof -
  have ne: "fold lookup_insert es l = [] \<longleftrightarrow> es = [] \<and> l = []" for es l
  proof (induction es arbitrary: l)
    case (Cons e es)
    have "AList.update k v l \<noteq> []" for k v and l :: "(address \<times> block_number \<times> bytes list) list"
      by (cases l) auto
    then have "lookup_insert e l \<noteq> []" by (simp add: lookup_insert_def case_prod_beta Let_def)
    then show ?case using Cons.IH by simp
  qed simp
  have nil: "concat (map (\<lambda>(a, ds). map (e a ds) (m_call_handlers (ds_mapping ds)))
        (List.map_filter (\<lambda>ds. map_option (\<lambda>a. (a, ds)) (ds_address ds)) dss)) = [] \<longleftrightarrow>
      (\<forall>ds \<in> set dss. ds_address ds \<noteq> None \<longrightarrow> m_call_handlers (ds_mapping ds) = [])"
    for e :: "address \<Rightarrow> data_source \<Rightarrow> call_handler \<Rightarrow> block_number \<times> address \<times> bytes"
  proof (induction dss)
    case (Cons ds dss)
    then show ?case by (cases "ds_address ds") (simp_all add: map_filter_simps)
  qed (simp add: map_filter_simps)
  show ?thesis
    unfolding call_filter_is_empty_def call_filter_from_data_sources_def call_filter_from_iter_def
      call_filter.select_convs ne nil by simp
qed

lemma block_filter_requires_traces_iff:
  "block_filter_requires_traces (block_filter_from_data_sources dss) \<longleftrightarrow>
     (\<exists>ds \<in> set dss. ds_address ds \<noteq> None \<and> has_block_handler_with_call_filter (ds_mapping ds))"
proof -
  have "block_filter_requires_traces f \<longleftrightarrow> snd ` set (bf_contract_addresses f) \<noteq> {}" for f
    by (simp add: block_filter_requires_traces_def)
  then have "block_filter_requires_traces (block_filter_from_data_sources dss) \<longleftrightarrow>
      snd ` set (bf_contract_addresses (block_filter_from_data_sources dss)) \<noteq> {}" .
  also have "\<dots> \<longleftrightarrow> (\<exists>a. \<exists>ds \<in> set dss. ds_address ds = Some a
      \<and> has_block_handler_with_call_filter (ds_mapping ds))"
    unfolding block_filter_from_data_sources_fields(2) has_block_handler_with_call_filter_def list_ex_iff
    by blast
  finally show ?thesis by (metis not_Some_eq)
qed

lemma validate_address:
  "SourceAddressRequired \<notin> set (validate_handlers ds) \<Longrightarrow> ds_address ds = None \<Longrightarrow>
     m_call_handlers (ds_mapping ds) = [] \<and> m_block_handlers (ds_mapping ds) = []"
  by (auto simp: validate_handlers_def Let_def split: if_splits)

lemma update_not_Nil [simp]: "AList.update k v l \<noteq> []"
  by (cases l) auto

lemma extend_contracts_Nil: "fold extend_contract es l = [] \<longleftrightarrow> es = [] \<and> l = []"
proof (induction es arbitrary: l)
  case (Cons e es)
  have "extend_contract e l \<noteq> []"
    by (auto simp: extend_contract_def split: prod.splits option.splits)
  then show ?case using Cons.IH by simp
qed simp

lemma inserts_Nil: "fold List.insert xs [] = [] \<longleftrightarrow> xs = []"
  by (metis set_fold_insert Un_empty_left set_empty list.set(1))

lemma call_filter_extend_default_is_empty:
  "call_filter_is_empty (call_filter_extend other \<lparr>cf_contracts = [], cf_wildcard_signatures = []\<rparr>) \<longleftrightarrow>
     call_filter_is_empty other"
proof (cases "call_filter_is_empty other")
  case True
  then show ?thesis by (simp add: call_filter_extend_def call_filter_is_empty_def)
next
  case False
  then have "call_filter_extend other \<lparr>cf_contracts = [], cf_wildcard_signatures = []\<rparr> =
      \<lparr>cf_contracts = fold extend_contract (cf_contracts other) [],
       cf_wildcard_signatures = fold List.insert (cf_wildcard_signatures other) []\<rparr>"
    by (simp add: call_filter_extend_def)
  then show ?thesis by (simp add: call_filter_is_empty_def extend_contracts_Nil inserts_Nil)
qed

lemma block_filter_extend_default_requires_traces:
  "block_filter_requires_traces (block_filter_extend other block_filter_default) \<longleftrightarrow>
     block_filter_requires_traces other"
proof -
  have "snd ` set (bf_contract_addresses (block_filter_extend other block_filter_default))
      = snd ` set (bf_contract_addresses other)"
    by (simp add: block_filter_extend_fields block_filter_default_def)
  then show ?thesis unfolding block_filter_requires_traces_def by (metis image_is_empty set_empty)
qed

lemma traces_agree:
  assumes "\<forall>ds \<in> set dss. SourceAddressRequired \<notin> set (validate_handlers ds)"
  shows "traces (node_capabilities_of (trigger_filter_extend G keccak dss (trigger_filter_default G))) \<longleftrightarrow>
     traces (capabilities_from_data_sources requires_archive dss)"
proof -
  have h: "ds_address ds \<noteq> None" if "ds \<in> set dss"
    and "m_call_handlers (ds_mapping ds) \<noteq> [] \<or> has_block_handler_with_call_filter (ds_mapping ds)" for ds
  proof
    assume "ds_address ds = None"
    then have "m_call_handlers (ds_mapping ds) = []" "m_block_handlers (ds_mapping ds) = []"
      using validate_address[of ds] that(1) assms by simp_all
    then show False using that(2) by (simp add: has_block_handler_with_call_filter_def)
  qed
  have "traces (node_capabilities_of (trigger_filter_extend G keccak dss (trigger_filter_default G))) \<longleftrightarrow>
      (\<exists>ds \<in> set dss. ds_address ds \<noteq> None \<and> (m_call_handlers (ds_mapping ds) \<noteq> []
          \<or> has_block_handler_with_call_filter (ds_mapping ds)))"
    by (simp add: node_capabilities_of_def requires_traces_def trigger_filter_extend_def
        trigger_filter_default_def call_filter_extend_default_is_empty
        block_filter_extend_default_requires_traces block_filter_requires_traces_iff
        call_filter_from_data_sources_is_empty) blast
  also have "\<dots> \<longleftrightarrow> traces (capabilities_from_data_sources requires_archive dss)"
    unfolding capabilities_from_data_sources_def node_capabilities.sel list_ex_iff has_call_handler_def
    using h by blast
  finally show ?thesis .
qed

end
