(* ===== verification/Eth_Properties.thy ===== *)
theory Eth_Properties
  imports Eth_Trigger_Filter_Correct
begin

text \<open>
  The properties of the Ethereum trigger filters, with their witnesses. The graph of the log filter
  is instantiated with a list of edges, and Keccak-256 with a function that is not a hash at all.
\<close>

section \<open>A graph\<close>

definition list_graph :: "(log_filter_node \<times> log_filter_node \<times> bool) list graph_map" where
  "list_graph = \<lparr>gm_empty = [],
     gm_add_edge = (\<lambda>a b w g. (a, b, w) # filter (\<lambda>(x, y, _). \<not> (x = a \<and> y = b \<or> x = b \<and> y = a)) g),
     gm_all_edges = id,
     gm_nodes = (\<lambda>g. remdups (concat (map (\<lambda>(x, y, _). [x, y]) g))),
     gm_neighbors = (\<lambda>g n. remdups (concat (map (\<lambda>(x, y, _).
        (if x = n then [y] else []) @ (if y = n then [x] else [])) g))),
     gm_remove_node = (\<lambda>n. filter (\<lambda>(x, y, _). x \<noteq> n \<and> y \<noteq> n))\<rparr>"

lemma edge_list_graph: "edge list_graph g a b w \<longleftrightarrow> (a, b, w) \<in> set g \<or> (b, a, w) \<in> set g"
  by (simp add: edge_def list_graph_def)

lemma list_graph_laws: "graph_map_laws list_graph"
  unfolding graph_map_laws_def edge_list_graph
proof (intro conjI allI)
  show "gm_all_edges list_graph (gm_empty list_graph) = []" by (simp add: list_graph_def)
  show "((x, y, v) \<in> set (gm_add_edge list_graph a b w g) \<or> (y, x, v) \<in> set (gm_add_edge list_graph a b w g)) \<longleftrightarrow>
      (if x = a \<and> y = b \<or> x = b \<and> y = a then v = w else (x, y, v) \<in> set g \<or> (y, x, v) \<in> set g)"
    for g a b w x y v by (auto simp: list_graph_def)
  show "b \<in> set (gm_neighbors list_graph g a) \<longleftrightarrow> (\<exists>w. (a, b, w) \<in> set g \<or> (b, a, w) \<in> set g)" for g a b
    by (force simp: list_graph_def split: if_splits)
  show "(a, b, w) \<in> set g \<or> (b, a, w) \<in> set g \<longrightarrow> a \<in> set (gm_nodes list_graph g)" for g a b w
    by (force simp: list_graph_def)
  show "((x, y, w) \<in> set (gm_remove_node list_graph n g) \<or> (y, x, w) \<in> set (gm_remove_node list_graph n g)) \<longleftrightarrow>
      x \<noteq> n \<and> y \<noteq> n \<and> ((x, y, w) \<in> set g \<or> (y, x, w) \<in> set g)" for g n x y w
    by (auto simp: list_graph_def)
qed

section \<open>Logs\<close>

text \<open>
  C14: the filters for \<open>eth_getLogs\<close> are exact. Covering the graph ends without a failed assertion,
  the filters return exactly the logs that the log filter matches, as long as no topic list of a
  handler is empty, and no filter has more contracts than the limit.
\<close>

theorem get_logs_filters_exact:
  assumes "graph_map_laws G" and "bipartite G (lf_graph f)" and "1 \<le> m"
    and "\<forall>e \<in> fst ` set (lf_events_with_topics f). topics_given e"
  shows "\<exists>fs. eth_get_logs_filters G m f = Some (Inr fs)
    \<and> (\<forall>log. (\<exists>g \<in> set fs. get_logs_selects g log) \<longleftrightarrow> log_filter_matches G f log)
    \<and> (\<forall>g \<in> set fs. length (gl_contracts g) \<le> m)"
proof -
  obtain new where n: "eth_get_logs_filters G m f = Some (Inr (map (\<lambda>(e, _). from_event e) (lf_wildcard_events f)
        @ map (\<lambda>(e, _). from_event_with_topics e) (lf_events_with_topics f) @ new))" (is "_ = Some (Inr ?fs)")
    "\<forall>g \<in> set new. pair_filter m g"
    "\<And>log. (\<exists>g \<in> set new. get_logs_selects g log) \<longleftrightarrow>
       (\<exists>sig rest. log_topics log = sig # rest \<and> link G (lf_graph f) (log_address log) sig)"
    by (rule eth_get_logs_filters_correct[OF assms(1-3)]) (rule that)
  have w: "(\<exists>g \<in> set (map (\<lambda>(e, _). from_event e) (lf_wildcard_events f)). get_logs_selects g log) \<longleftrightarrow>
      (\<exists>sig rest. log_topics log = sig # rest \<and> sig \<in> fst ` set (lf_wildcard_events f))" for log
    by (force simp: from_event_selects)
  have t: "(\<exists>g \<in> set (map (\<lambda>(e, _). from_event_with_topics e) (lf_events_with_topics f)). get_logs_selects g log) \<longleftrightarrow>
      (\<exists>sig rest. log_topics log = sig # rest \<and> (\<exists>e \<in> fst ` set (lf_events_with_topics f).
         event_with_topics_matches e (Some (log_address log)) sig (log_topics log)))" (is "?l \<longleftrightarrow> ?r") for log
  proof
    assume ?l
    then obtain e where e: "e \<in> fst ` set (lf_events_with_topics f)" "get_logs_selects (from_event_with_topics e) log"
      by force
    then show ?r using from_event_with_topics_selects_only[OF e(2)] assms(4) by blast
  next
    assume ?r
    then show ?l using from_event_with_topics_selects by force
  qed
  have "(\<exists>g \<in> set ?fs. get_logs_selects g log) \<longleftrightarrow> log_filter_matches G f log" for log
    unfolding set_append bex_Un w t n(3) log_filter_matches_iff by blast
  moreover have "length (gl_contracts g) \<le> m" if "g \<in> set ?fs" for g
    using that n(2) assms(3)
    by (auto simp: from_event_def from_event_with_topics_def pair_filter_def split: option.splits)
  ultimately show ?thesis using n(1) by blast
qed

text \<open>The example: two contracts and a wildcard data source.\<close>

definition transfer :: event_handler where
  "transfer = \<lparr>eh_event = ''Transfer(address)'', eh_topic0 = Some 1, eh_topic1 = None, eh_topic2 = None,
     eh_topic3 = None, eh_receipt = False, eh_handler = ''handleTransfer''\<rparr>"

definition mint :: event_handler where
  "mint = transfer\<lparr>eh_event := ''Mint(address)'', eh_topic0 := Some 2, eh_topic1 := Some [7]\<rparr>"

definition handlers :: "event_handler list \<Rightarrow> call_handler list \<Rightarrow> block_handler list \<Rightarrow> mapping" where
  "handlers es cs bs = \<lparr>m_block_handlers = bs, m_call_handlers = cs, m_event_handlers = es\<rparr>"

definition pair_source :: data_source where
  "pair_source = \<lparr>ds_address = Some 100, ds_start_block = 10, ds_mapping = handlers [transfer, mint]
     [\<lparr>ch_function = ''swap()'', ch_handler = ''handleSwap''\<rparr>]
     [\<lparr>bh_handler = ''once'', bh_filter = Some OnceFilter\<rparr>, \<lparr>bh_handler = ''poll'', bh_filter = Some (PollingFilter 5)\<rparr>]\<rparr>"

definition wildcard_source :: data_source where
  "wildcard_source = \<lparr>ds_address = None, ds_start_block = 0, ds_mapping = handlers [transfer\<lparr>eh_topic0 := Some 3\<rparr>] [] []\<rparr>"

definition not_keccak :: "bytes \<Rightarrow> bytes" where
  "not_keccak bs = take 32 (bs @ replicate 32 0)"

definition transfer_log :: eth_log where
  "transfer_log = \<lparr>log_address = 100, log_topics = [1], log_data = [], log_transaction_hash = None,
     log_transaction_index = Some 0, log_log_index = Some 0\<rparr>"

lemmas eth_defs = transfer_def mint_def handlers_def pair_source_def wildcard_source_def transfer_log_def

definition example_log_filter :: "(log_filter_node \<times> log_filter_node \<times> bool) list log_filter" where
  "example_log_filter = log_filter_from_data_sources list_graph not_keccak [pair_source, wildcard_source]"

lemma example_log_filter_events:
  "lf_events_with_topics example_log_filter = [(handler_with_topics (Some 100) 2 mint, False)]"
  by (simp add: example_log_filter_def log_filter_from_data_sources_def add_event_handler_def has_additional_topics_def topic0_def
      log_filter_default_def eth_defs)

theorem get_logs_filters_exact_witness:
  "\<exists>fs. eth_get_logs_filters list_graph 1 example_log_filter = Some (Inr fs)
    \<and> (\<exists>g \<in> set fs. get_logs_selects g transfer_log)"
proof -
  have "topics_given (handler_with_topics (Some 100) 2 mint)"
    by (simp add: topics_given_def handler_with_topics_def mint_def transfer_def)
  then have t: "\<forall>e \<in> fst ` set (lf_events_with_topics example_log_filter). topics_given e"
    unfolding example_log_filter_events by simp
  have "handler_selects not_keccak (ds_address pair_source) transfer transfer_log"
    by (simp add: handler_selects_def topic0_def has_additional_topics_def eth_defs)
  then have m: "log_filter_matches list_graph example_log_filter transfer_log"
    unfolding example_log_filter_def log_filter_from_data_sources_matches[OF list_graph_laws]
    by (intro bexI[of _ pair_source] bexI[of _ transfer]) (simp_all add: eth_defs)
  have "bipartite list_graph (lf_graph example_log_filter)"
    unfolding example_log_filter_def by (rule bipartite_from_data_sources[OF list_graph_laws])
  from get_logs_filters_exact[OF list_graph_laws this order_refl t]
  obtain fs where "eth_get_logs_filters list_graph 1 example_log_filter = Some (Inr fs)"
    and "\<forall>log. (\<exists>g \<in> set fs. get_logs_selects g log) \<longleftrightarrow> log_filter_matches list_graph example_log_filter log"
    by (elim exE conjE) (rule that)
  with m show ?thesis by (intro exI[of _ fs]) simp
qed

text \<open>
  C15: no log is missed. A log that some data source has a handler for passes the log filter that
  was built from the data sources, and one of the \<open>eth_getLogs\<close> filters made from it returns it.
\<close>

theorem wanted_logs_are_fetched:
  assumes "graph_map_laws G" and "1 \<le> m" and "ds \<in> set dss"
    and "matches_trigger_address ds (LogTrigger log)" and "handlers_for_log keccak ds log \<noteq> []"
  shows "log_filter_matches G (log_filter_from_data_sources G keccak dss) log
    \<and> (\<exists>fs. eth_get_logs_filters G m (log_filter_from_data_sources G keccak dss) = Some (Inr fs)
        \<and> (\<exists>g \<in> set fs. get_logs_selects g log))"
proof -
  let ?f = "log_filter_from_data_sources G keccak dss"
  from assms(5) obtain h where h: "h \<in> set (m_event_handlers (ds_mapping ds))" "handler_matches keccak h log"
    by (auto simp: handlers_for_log_def filter_empty_conv)
  have "case ds_address ds of None \<Rightarrow> True | Some c \<Rightarrow> log_address log = c"
    using assms(4) by (auto simp: matches_trigger_address_def split: option.splits)
  with h(2) have "handler_selects keccak (ds_address ds) h log" by (rule handler_matches_selects)
  then have m: "log_filter_matches G ?f log"
    unfolding log_filter_from_data_sources_matches[OF assms(1)] using assms(3) h(1) by blast
  obtain new where n: "eth_get_logs_filters G m ?f = Some (Inr (map (\<lambda>(e, _). from_event e) (lf_wildcard_events ?f)
        @ map (\<lambda>(e, _). from_event_with_topics e) (lf_events_with_topics ?f) @ new))" (is "_ = Some (Inr ?fs)")
    "\<forall>g \<in> set new. pair_filter m g"
    "\<And>log. (\<exists>g \<in> set new. get_logs_selects g log) \<longleftrightarrow>
       (\<exists>sig rest. log_topics log = sig # rest \<and> link G (lf_graph ?f) (log_address log) sig)"
    by (rule eth_get_logs_filters_correct[OF assms(1) bipartite_from_data_sources[OF assms(1)] assms(2)]) (rule that)
  from m obtain sig rest where s: "log_topics log = sig # rest"
    "link G (lf_graph ?f) (log_address log) sig \<or> sig \<in> fst ` set (lf_wildcard_events ?f)
      \<or> (\<exists>e \<in> fst ` set (lf_events_with_topics ?f). event_with_topics_matches e (Some (log_address log)) sig (log_topics log))"
    unfolding log_filter_matches_iff by blast
  from s(2) have "\<exists>g \<in> set ?fs. get_logs_selects g log"
  proof (elim disjE)
    assume "link G (lf_graph ?f) (log_address log) sig"
    then show ?thesis using n(3)[of log] s(1) by auto
  next
    assume "sig \<in> fst ` set (lf_wildcard_events ?f)"
    then have "from_event sig \<in> set ?fs" by force
    then show ?thesis using s(1) from_event_selects by blast
  next
    assume "\<exists>e \<in> fst ` set (lf_events_with_topics ?f). event_with_topics_matches e (Some (log_address log)) sig (log_topics log)"
    then obtain e where e: "e \<in> fst ` set (lf_events_with_topics ?f)"
      "event_with_topics_matches e (Some (log_address log)) sig (log_topics log)" by blast
    then have "from_event_with_topics e \<in> set ?fs" by force
    then show ?thesis using from_event_with_topics_selects[OF e(2) s(1)] by blast
  qed
  then show ?thesis using m n(1) by blast
qed

theorem wanted_logs_are_fetched_witness:
  "log_filter_matches list_graph example_log_filter transfer_log"
proof -
  have "handlers_for_log not_keccak pair_source transfer_log \<noteq> []"
    by (simp add: handlers_for_log_def handler_matches_def topic0_def topic_matches_def eth_defs)
  moreover have "matches_trigger_address pair_source (LogTrigger transfer_log)"
    by (simp add: matches_trigger_address_def eth_defs)
  ultimately show ?thesis
    using wanted_logs_are_fetched[OF list_graph_laws, of 1 pair_source "[pair_source, wildcard_source]"]
    by (simp add: example_log_filter_def)
qed

text \<open>
  Extending a log filter by another gives a filter that matches what either of them matches.
\<close>

lemma extend_log_filter_is_union:
  assumes "graph_map_laws G"
  shows "log_filter_matches G (log_filter_extend G other self) log \<longleftrightarrow>
    log_filter_matches G self log \<or> log_filter_matches G other log"
  using assms by (rule log_filter_extend_matches)

section \<open>Calls\<close>

lemma map_res_options:
  "map_res (\<lambda>x. bind_res (f x) (\<lambda>ok. Inr (if ok then Some (g x) else None))) xs = Inr ys \<Longrightarrow>
     List.map_filter id ys = map g (filter (\<lambda>x. f x = Inr True) xs) \<and> (\<forall>x \<in> set xs. \<exists>ok. f x = Inr ok)"
proof (induction xs arbitrary: ys)
  case (Cons x xs)
  then obtain ok zs where "f x = Inr ok" "ys = (if ok then Some (g x) else None) # zs"
    "map_res (\<lambda>x. bind_res (f x) (\<lambda>ok. Inr (if ok then Some (g x) else None))) xs = Inr zs"
    by (auto simp: bind_res_Inr_iff)
  then show ?case using Cons.IH by auto
qed simp

lemma parse_call_triggers_eq:
  assumes "parse_call_triggers f succeeded (Some calls) = Inr ts"
  shows "ts = map CallTrigger (filter (\<lambda>call. call_filter_matches f call \<and> succeeded call = Inr True) calls)"
proof (cases "call_filter_is_empty f")
  case True
  then have "\<not> call_filter_matches f call" for call
    by (simp add: call_filter_is_empty_def call_filter_matches_def)
  then show ?thesis using assms True by (simp add: parse_call_triggers_def)
next
  case False
  with assms obtain ys where "map_res (\<lambda>call. bind_res (succeeded call)
        (\<lambda>ok. Inr (if ok then Some (CallTrigger call) else None))) (filter (call_filter_matches f) calls) = Inr ys"
    "ts = List.map_filter id ys"
    by (auto simp: parse_call_triggers_def bind_res_Inr_iff)
  from map_res_options[OF this(1)] this(2) show ?thesis by (simp add: conj_commute)
qed

lemma parse_call_triggers_total:
  assumes "\<forall>call. \<exists>ok. succeeded call = Inr ok"
  shows "\<exists>ts. parse_call_triggers f succeeded calls = Inr ts"
proof -
  let ?trigger = "\<lambda>call. bind_res (succeeded call) (\<lambda>ok. Inr (if ok then Some (CallTrigger call) else None))"
  have "\<exists>y. ?trigger call = Inr y" for call using assms[THEN spec, of call] by auto
  then have t: "\<exists>ys. map_res ?trigger cs = Inr ys" for cs by (intro map_res_total) blast
  show ?thesis
  proof (cases "call_filter_is_empty f \<or> calls = None")
    case False
    then obtain cs where cs: "calls = Some cs" "\<not> call_filter_is_empty f" by auto
    obtain ys where "map_res ?trigger (filter (call_filter_matches f) cs) = Inr ys" using t by blast
    then show ?thesis using cs by (simp add: parse_call_triggers_def)
  qed (auto simp: parse_call_triggers_def)
qed

text \<open>
  The call triggers of a block are, in order, the calls that succeeded, have at least four bytes
  of input, and for which some data source of that address has a handler for their selector.
\<close>

lemma call_triggers_exact:
  assumes "parse_call_triggers (call_filter_from_data_sources keccak dss) succeeded (Some calls) = Inr ts"
  shows "ts = map CallTrigger (filter (\<lambda>call. succeeded call = Inr True \<and> 4 \<le> length (call_input call) \<and>
      (\<exists>ds \<in> set dss. ds_address ds = Some (call_to call) \<and>
         (\<exists>h \<in> set (m_call_handlers (ds_mapping ds)). take 4 (call_input call) = call_selector keccak h))) calls)"
  unfolding parse_call_triggers_eq[OF assms] call_filter_from_data_sources_matches
  by (intro arg_cong[where f = "map CallTrigger"] filter_cong refl) blast

definition swap_call :: eth_call where
  "swap_call = \<lparr>call_to = 100, call_input = map (of_nat \<circ> of_char) ''swap'', call_output = [], call_transaction_hash = None,
     call_transaction_index = 0\<rparr>"

lemma swap_selector: "call_selector not_keccak \<lparr>ch_function = ''swap()'', ch_handler = ''handleSwap''\<rparr> = call_input swap_call"
  by (simp add: call_selector_def not_keccak_def string_bytes_def swap_call_def)

text \<open>
  The call filters that are sent to Firehose select exactly the calls that the call filter
  matches, among the calls that have a selector.
\<close>

lemma firehose_call_filters_agree:
  assumes "distinct (map fst (cf_contracts f))" and "4 \<le> length (call_input call)"
  shows "(\<exists>c \<in> set (call_filter_into f). call_to_selects c call) \<longleftrightarrow> call_filter_matches f call"
  using assms by (rule call_filter_into_selects)

section \<open>Blocks\<close>

text \<open>
  C16: No block handler is missed near the head. A block trigger, other than one for a \<open>once\<close> handler, that a data source with an address
  has a handler for is among the triggers that are made of the block with the filter built from the
  data sources, if intervals of polling are positive 32-bit numbers; for a handler with a call filter there has to be a call to the address in the block.
\<close>

theorem wanted_block_triggers_are_made:
  assumes "ds \<in> set dss" and "ds_address ds \<noteq> None" and "ty \<noteq> StartTrigger"
    and "wants_trigger keccak ds (number ptr) (BlockTrigger ptr ty)"
    and "\<forall>h \<in> set (m_block_handlers (ds_mapping ds)). \<forall>n. bh_filter h = Some (PollingFilter n) \<longrightarrow> 0 < n \<and> n < 2 ^ 32"
    and "\<forall>a. ty = WithCallTo a \<longrightarrow> (\<exists>call \<in> set calls. call_to call = a \<and> 4 \<le> length (call_input call))"
  shows "BlockTrigger ptr ty \<in> set (parse_block_triggers (block_filter_from_data_sources dss) ptr (Some calls))"
proof (cases ty)
  case EndTrigger
  then show ?thesis using assms data_source_end_trigger by (simp add: wants_trigger_def)
next
  case (WithCallTo a)
  with assms(2,4) have "ds_address ds = Some a" "handler_for_block ds (WithCallTo a) (number ptr) \<noteq> None"
    by (auto simp: wants_trigger_def matches_trigger_address_def split: option.splits)
  moreover obtain call where "call \<in> set calls" "call_to call = a" "4 \<le> length (call_input call)"
    using assms(6) WithCallTo by blast
  ultimately show ?thesis using data_source_call_to_trigger[OF assms(1)] WithCallTo by blast
qed (use assms(3) in simp)

theorem wanted_block_triggers_are_made_witness:
  "BlockTrigger \<lparr>hash = ''b'', number = 20\<rparr> EndTrigger
    \<in> set (parse_block_triggers (block_filter_from_data_sources [pair_source]) \<lparr>hash = ''b'', number = 20\<rparr> (Some []))"
  by (rule wanted_block_triggers_are_made[of pair_source _ _ not_keccak])
    (simp_all add: wants_trigger_def matches_trigger_address_def as_i32_def eth_defs)

text \<open>The same function also makes the triggers of \<open>once\<close> handlers, at the start block of their data source.\<close>

lemma once_triggers_are_made:
  assumes "ds \<in> set dss" and "ds_address ds \<noteq> None"
    and "wants_trigger keccak ds (number ptr) (BlockTrigger ptr StartTrigger)"
  shows "BlockTrigger ptr StartTrigger \<in> set (parse_block_triggers (block_filter_from_data_sources dss) ptr calls)"
  using assms data_source_start_trigger by (simp add: wants_trigger_def)

text \<open>
  Far from the head, a block has triggers if and only if it has some near the head, and they are
  among those. They need not be all: a data source that has a \<open>once\<close> and a \<open>polling\<close> handler, which
  validation allows, gets only one of its two triggers at its start block.
\<close>

lemma polling_far_from_head:
  assumes "\<forall>(s, i) \<in> set (bf_polling_intervals f). 0 \<le> i" and "\<not> bf_trigger_every_block f"
  shows "(polling_types n (bf_polling_intervals f) = None \<longleftrightarrow>
      \<not> (\<exists>t \<in> {StartTrigger, EndTrigger}. BlockTrigger \<lparr>hash = x, number = n\<rparr> t
            \<in> set (parse_block_triggers f \<lparr>hash = x, number = n\<rparr> calls)))
    \<and> (\<forall>ts. polling_types n (bf_polling_intervals f) = Some ts \<longrightarrow>
        (\<forall>t \<in> set ts. BlockTrigger \<lparr>hash = x, number = n\<rparr> t \<in> set (parse_block_triggers f \<lparr>hash = x, number = n\<rparr> calls)))"
proof (intro conjI allI impI ballI)
  show "polling_types n (bf_polling_intervals f) = None \<longleftrightarrow>
      \<not> (\<exists>t \<in> {StartTrigger, EndTrigger}. BlockTrigger \<lparr>hash = x, number = n\<rparr> t
            \<in> set (parse_block_triggers f \<lparr>hash = x, number = n\<rparr> calls))"
    unfolding polling_types_None[OF assms(1)] using assms(2) by (auto simp: start_trigger_iff end_trigger_iff)
  show "BlockTrigger \<lparr>hash = x, number = n\<rparr> t \<in> set (parse_block_triggers f \<lparr>hash = x, number = n\<rparr> calls)"
    if "polling_types n (bf_polling_intervals f) = Some ts" and "t \<in> set ts" for ts t
    using polling_types_sound[OF that] assms(2) by (auto simp: start_trigger_iff end_trigger_iff)
qed

section \<open>Node capabilities\<close>

text \<open>
  A node is asked for traces by the filter that was built from data sources exactly if it is by
  the data sources themselves, if they pass validation.
\<close>

lemma traces_required_consistently:
  assumes "\<forall>ds \<in> set dss. SourceAddressRequired \<notin> set (validate_handlers ds)"
  shows "traces (node_capabilities_of (trigger_filter_extend G keccak dss (trigger_filter_default G))) \<longleftrightarrow>
     traces (capabilities_from_data_sources requires_archive dss)"
  using assms by (rule traces_agree)

text \<open>
  Comparing node capabilities is the product order: \<open>Equal\<close> is equality, \<open>Less\<close> and \<open>Greater\<close>
  are each other's converse and transitive, and capabilities that each have something the other
  lacks do not compare.
\<close>

lemma capabilities_partially_ordered:
  "(capabilities_cmp a b = Some Equal \<longleftrightarrow> a = b)
    \<and> (capabilities_cmp a b = Some Less \<longleftrightarrow> capabilities_cmp b a = Some Greater)
    \<and> (capabilities_cmp a b = Some Less \<and> capabilities_cmp b c = Some Less \<longrightarrow> capabilities_cmp a c = Some Less)
    \<and> (capabilities_cmp a b = None \<longleftrightarrow> \<not> a \<le> b \<and> \<not> b \<le> a)"
  by (cases a; cases b; cases c)
    (auto simp: capabilities_le_iff capabilities_cmp_def product_order_def cmp_of_def)

end
