(* ===== verification/Intern.thy ===== *)
theory Intern
  imports Prelude "HOL-Library.Word" "HOL-Library.AList"
begin

text \<open>
  Interned strings and the map-like objects built on them, \<open>graph/src/util/intern.rs\<close>: the
  chain of \<open>AtomPool\<close>s with 16-bit atoms, and \<open>Object\<close>, a vector of entries in which removed
  entries stay behind as tombstones. A pool is shown to be a list of distinct words, and an
  object to be a finite map: every operation of \<open>Object\<close> does on that map what its name says.
\<close>

section \<open>Atom pools\<close>

type_synonym atom = "16 word"

text \<open>\<open>words\<close> is a hash map; a pool owns a reference to its base.\<close>

datatype atom_pool = AtomPool
  (pool_base: "atom_pool option")
  (pool_base_sym: atom)
  (pool_atoms: "string list")
  (pool_words: "string \<Rightarrow> atom option")

definition TOMBSTONE_KEY :: atom where
  "TOMBSTONE_KEY = 65535"

definition pool_new :: atom_pool where
  "pool_new = AtomPool None 0 [] (\<lambda>_. None)"

text \<open>\<open>AtomInt::try_from(n).unwrap()\<close>: \<open>None\<close> is the panic.\<close>

definition atom_try_from :: "nat \<Rightarrow> atom option" where
  "atom_try_from n = (if n < 2 ^ 16 then Some (of_nat n) else None)"

definition pool_child :: "atom_pool \<Rightarrow> atom_pool option" where
  "pool_child self = map_option (\<lambda>base_sym. AtomPool (Some self) base_sym [] (\<lambda>_. None))
     (atom_try_from (length (pool_atoms self)))"

text \<open>\<open>get\<close> of a slice.\<close>

definition vec_get :: "'a list \<Rightarrow> nat \<Rightarrow> 'a option" where
  "vec_get xs i = (if i < length xs then Some (xs ! i) else None)"

fun pool_get :: "atom_pool \<Rightarrow> atom \<Rightarrow> string option" where
  "pool_get (AtomPool base base_sym atoms words) a =
     (if a < base_sym then (case base of None \<Rightarrow> None | Some b \<Rightarrow> pool_get b a)
      else vec_get atoms (unat (a - base_sym)))"

fun pool_lookup :: "atom_pool \<Rightarrow> string \<Rightarrow> atom option" where
  "pool_lookup (AtomPool base base_sym atoms words) w =
     (case (case base of None \<Rightarrow> None | Some b \<Rightarrow> pool_lookup b w) of
        Some a \<Rightarrow> Some a
      | None \<Rightarrow> words w)"

text \<open>\<open>intern\<close> returns the atom and changes the pool; it panics when atoms run out.\<close>

definition pool_intern :: "string \<Rightarrow> atom_pool \<Rightarrow> (atom \<times> atom_pool) option" where
  "pool_intern w self =
     (case pool_lookup self w of
        Some a \<Rightarrow> Some (a, self)
      | None \<Rightarrow>
          (case atom_try_from (unat (pool_base_sym self) + length (pool_atoms self)) of
             None \<Rightarrow> None
           | Some a \<Rightarrow>
               if a = TOMBSTONE_KEY then None
               else Some (a, AtomPool (pool_base self) (pool_base_sym self)
                      (pool_atoms self @ [w]) ((pool_words self)(w \<mapsto> a)))))"

fun intern_all :: "string list \<Rightarrow> atom_pool \<Rightarrow> atom_pool option" where
  "intern_all [] pool = Some pool"
| "intern_all (w # ws) pool =
     (case pool_intern w pool of None \<Rightarrow> None | Some (a, pool') \<Rightarrow> intern_all ws pool')"

definition pool_from_iter :: "string list \<Rightarrow> atom_pool option" where
  "pool_from_iter ws = intern_all ws pool_new"

subsection \<open>A pool is a list of words\<close>

fun pool_list :: "atom_pool \<Rightarrow> string list" where
  "pool_list (AtomPool base base_sym atoms words) =
     (case base of None \<Rightarrow> [] | Some b \<Rightarrow> pool_list b) @ atoms"

text \<open>
  The representation invariant: the atoms of a pool continue those of its base, the hash map is
  the inverse of the vector, no word occurs twice in the chain, and the tombstone is not an atom.
\<close>

fun pool_ok :: "atom_pool \<Rightarrow> bool" where
  "pool_ok (AtomPool base base_sym atoms words) \<longleftrightarrow>
     (case base of None \<Rightarrow> True | Some b \<Rightarrow> pool_ok b)
     \<and> unat base_sym = length (case base of None \<Rightarrow> [] | Some b \<Rightarrow> pool_list b)
     \<and> distinct ((case base of None \<Rightarrow> [] | Some b \<Rightarrow> pool_list b) @ atoms)
     \<and> unat base_sym + length atoms < 2 ^ 16
     \<and> (\<forall>w a. words w = Some a \<longleftrightarrow>
            unat base_sym \<le> unat a \<and> vec_get atoms (unat a - unat base_sym) = Some w)"

lemma vec_get_Some_iff: "vec_get xs i = Some x \<longleftrightarrow> i < length xs \<and> xs ! i = x"
  by (simp add: vec_get_def)

lemma vec_get_append:
  "vec_get (xs @ ys) i = (if i < length xs then vec_get xs i else vec_get ys (i - length xs))"
  by (auto simp: vec_get_def nth_append)

lemma vec_get_snoc: "vec_get (xs @ [x]) i = (if i = length xs then Some x else vec_get xs i)"
  by (auto simp: vec_get_def nth_append)

lemma vec_get_inject:
  "distinct xs \<Longrightarrow> vec_get xs i = Some x \<Longrightarrow> vec_get xs j = Some x \<Longrightarrow> i = j"
  by (auto simp: vec_get_Some_iff nth_eq_iff_index_eq)

lemma in_set_vec_get: "x \<in> set xs \<longleftrightarrow> (\<exists>i. vec_get xs i = Some x)"
  by (auto simp: vec_get_def in_set_conv_nth)

lemma pool_new_ok [simp]: "pool_ok pool_new" "pool_list pool_new = []"
  by (simp_all add: pool_new_def vec_get_def)

lemma pool_ok_list: "pool_ok p \<Longrightarrow> distinct (pool_list p) \<and> length (pool_list p) < 2 ^ 16"
  by (cases p) simp

lemma pool_get_list: "pool_ok p \<Longrightarrow> pool_get p a = vec_get (pool_list p) (unat a)"
proof (induction p arbitrary: a)
  case (AtomPool base base_sym atoms words)
  let ?base = "case base of None \<Rightarrow> [] | Some b \<Rightarrow> pool_list b"
  have len: "length ?base = unat base_sym" using AtomPool.prems by simp
  show ?case
  proof (cases "a < base_sym")
    case True
    then have "unat a < length ?base" by (simp add: len word_less_nat_alt)
    with True AtomPool show ?thesis by (cases base) (simp_all add: vec_get_append)
  next
    case False
    then have "base_sym \<le> a" by simp
    then have "unat (a - base_sym) = unat a - length ?base" "\<not> unat a < length ?base"
      by (simp_all add: len unat_sub word_le_nat_alt)
    with False show ?thesis by (simp only: pool_get.simps pool_list.simps vec_get_append if_False)
  qed
qed

lemma pool_lookup_list:
  "pool_ok p \<Longrightarrow> pool_lookup p w = Some a \<longleftrightarrow> vec_get (pool_list p) (unat a) = Some w"
proof (induction p arbitrary: a)
  case (AtomPool base base_sym atoms words)
  let ?base = "case base of None \<Rightarrow> [] | Some b \<Rightarrow> pool_list b"
  let ?in_base = "case base of None \<Rightarrow> None | Some b \<Rightarrow> pool_lookup b w"
  have len: "length ?base = unat base_sym" and dist: "distinct (?base @ atoms)"
    and words: "\<And>a. words w = Some a \<longleftrightarrow>
      unat base_sym \<le> unat a \<and> vec_get atoms (unat a - unat base_sym) = Some w"
    using AtomPool.prems by simp_all
  have base: "?in_base = Some a \<longleftrightarrow> vec_get ?base (unat a) = Some w" for a
    using AtomPool by (cases base) (simp_all add: vec_get_def)
  show ?case
  proof (cases "?in_base")
    case None
    then have "vec_get ?base (unat a) \<noteq> Some w" using base[of a] by simp
    then have "vec_get (?base @ atoms) (unat a) = Some w \<longleftrightarrow> words w = Some a"
      unfolding vec_get_append len words
      by (cases "unat a < unat base_sym") (simp_all add: vec_get_def len)
    then show ?thesis using None by (simp only: pool_lookup.simps pool_list.simps option.case)
  next
    case (Some b)
    then have b: "vec_get ?base (unat b) = Some w" using base[of b] by simp
    then have "vec_get (?base @ atoms) (unat b) = Some w"
      by (simp only: vec_get_append vec_get_Some_iff if_True)
    then have "vec_get (?base @ atoms) (unat a) = Some w \<longleftrightarrow> unat a = unat b"
      using vec_get_inject[OF dist] by metis
    then show ?thesis using Some word_unat_eq_iff[of a b] by auto
  qed
qed

lemma pool_lookup_get: "pool_ok p \<Longrightarrow> pool_lookup p w = Some a \<longleftrightarrow> pool_get p a = Some w"
  by (simp add: pool_lookup_list pool_get_list)

lemma pool_lookup_None: "pool_ok p \<Longrightarrow> pool_lookup p w = None \<longleftrightarrow> w \<notin> set (pool_list p)"
proof -
  assume ok: "pool_ok p"
  have "w \<in> set (pool_list p) \<longleftrightarrow> (\<exists>a. vec_get (pool_list p) (unat (a :: atom)) = Some w)"
  proof
    assume "w \<in> set (pool_list p)"
    then obtain i where i: "vec_get (pool_list p) i = Some w" by (auto simp: in_set_vec_get)
    then have "i < 2 ^ 16" using pool_ok_list[OF ok] by (auto simp: vec_get_Some_iff)
    then have "unat (of_nat i :: atom) = i" by (simp add: unat_of_nat)
    with i show "\<exists>a. vec_get (pool_list p) (unat (a :: atom)) = Some w" by metis
  qed (auto simp: in_set_vec_get)
  then show ?thesis using pool_lookup_list[OF ok, of w] by (metis not_None_eq)
qed

lemma pool_lookup_inject:
  "pool_ok p \<Longrightarrow> pool_lookup p v = Some a \<Longrightarrow> pool_lookup p w = Some a \<Longrightarrow> v = w"
  by (simp add: pool_lookup_get)

lemma pool_lookup_not_tombstone: "pool_ok p \<Longrightarrow> pool_lookup p w \<noteq> Some TOMBSTONE_KEY"
  using pool_ok_list[of p] by (auto simp: pool_lookup_list vec_get_Some_iff TOMBSTONE_KEY_def)

lemma pool_get_tombstone [simp]: "pool_ok p \<Longrightarrow> pool_get p TOMBSTONE_KEY = None"
  using pool_lookup_not_tombstone pool_lookup_get by (metis not_None_eq)

text \<open>Interning appends a new word to the list, and fails only when 65535 words are there.\<close>

lemma pool_intern_known:
  "pool_ok p \<Longrightarrow> w \<in> set (pool_list p) \<Longrightarrow> \<exists>a. pool_intern w p = Some (a, p) \<and> pool_lookup p w = Some a"
  using pool_lookup_None[of p w] by (auto simp: pool_intern_def)

lemma pool_size: "pool_ok p \<Longrightarrow> unat (pool_base_sym p) + length (pool_atoms p) = length (pool_list p)"
  by (cases p) (simp split: option.splits)

lemma pool_intern_full:
  "pool_ok p \<Longrightarrow> w \<notin> set (pool_list p) \<Longrightarrow> pool_intern w p = None \<longleftrightarrow> length (pool_list p) = 65535"
proof -
  assume ok: "pool_ok p" and w: "w \<notin> set (pool_list p)"
  let ?n = "length (pool_list p)"
  have n: "?n < 2 ^ 16" using pool_ok_list[OF ok] by blast
  then have "unat (of_nat ?n :: atom) = ?n" by (simp add: unat_of_nat)
  then have "of_nat ?n = TOMBSTONE_KEY \<longleftrightarrow> ?n = 65535"
    unfolding TOMBSTONE_KEY_def by (simp add: word_unat_eq_iff)
  then show ?thesis
    using n w pool_lookup_None[OF ok, of w] pool_size[OF ok] by (simp add: pool_intern_def atom_try_from_def)
qed


lemma pool_intern_ok:
  assumes ok: "pool_ok p" and "pool_intern w p = Some (a, p')"
  shows "pool_ok p' \<and> pool_lookup p' w = Some a
    \<and> pool_list p' = (if w \<in> set (pool_list p) then pool_list p else pool_list p @ [w])"
proof (cases "w \<in> set (pool_list p)")
  case True
  then show ?thesis using pool_intern_known[OF ok True] assms by auto
next
  case False
  obtain base base_sym atoms words where p: "p = AtomPool base base_sym atoms words" by (cases p)
  let ?n = "length (pool_list p)"
  have lookup: "pool_lookup p w = None" using pool_lookup_None[OF ok] False by blast
  then have a: "a = of_nat ?n" "?n < 2 ^ 16" "a \<noteq> TOMBSTONE_KEY"
    and p': "p' = AtomPool base base_sym (atoms @ [w]) (words(w \<mapsto> a))"
    using assms(2) pool_size[OF ok]
    by (auto simp: pool_intern_def atom_try_from_def p split: if_splits)
  have ua: "unat a = ?n" using a by (simp add: unat_of_nat)
  have "?n \<noteq> 65535" using pool_intern_full[OF ok False] assms(2) by auto
  then have n: "?n < 65535" using a(2) by simp
  have len: "?n = unat base_sym + length atoms" using pool_size[OF ok] by (simp add: p)
  have list: "pool_list p' = pool_list p @ [w]" by (simp add: p p')
  have words: "words v = Some b \<longleftrightarrow>
      unat base_sym \<le> unat b \<and> vec_get atoms (unat b - unat base_sym) = Some v" for v b
    using ok by (simp add: p)
  have "w \<notin> set atoms" using False by (auto simp: p)
  then have "vec_get atoms i \<noteq> Some w" for i using in_set_vec_get by metis
  then have "(words(w \<mapsto> a)) v = Some b \<longleftrightarrow>
      unat base_sym \<le> unat b \<and> vec_get (atoms @ [w]) (unat b - unat base_sym) = Some v" for v b
  proof (cases "a = b")
    case True
    then have "unat b = unat base_sym + length atoms" using ua len by simp
    then have "unat base_sym \<le> unat b" "unat b - unat base_sym = length atoms" by simp_all
    moreover have "words v \<noteq> Some b" using words[of v b] calculation by (simp add: vec_get_def)
    ultimately show ?thesis using True by (auto simp: vec_get_snoc)
  next
    case False
    then have "unat b \<noteq> unat base_sym + length atoms" using ua len word_unat_eq_iff[of b a] by auto
    then show ?thesis
      using False words[of v b] words[of w b] \<open>\<And>i. vec_get atoms i \<noteq> Some w\<close>
      by (auto simp: vec_get_snoc)
  qed
  then have "pool_ok p'" using ok False n len
    by (simp add: p p')
  moreover have "vec_get (pool_list p') (unat a) = Some w" by (simp add: list ua vec_get_snoc)
  ultimately show ?thesis using False list pool_lookup_list by simp
qed

lemma intern_all_ok:
  assumes "pool_ok p" and "intern_all ws p = Some p'"
  shows "pool_ok p' \<and> set (pool_list p') = set (pool_list p) \<union> set ws"
  using assms
proof (induction ws arbitrary: p)
  case Nil
  then show ?case by simp
next
  case (Cons w ws)
  from Cons.prems(2) obtain a q where q: "pool_intern w p = Some (a, q)" "intern_all ws q = Some p'"
    by (auto split: option.splits)
  then show ?case using pool_intern_ok[OF Cons.prems(1) q(1)] Cons.IH[of q] by auto
qed

text \<open>
  Interning never changes the atom of a word that is already there, in the pool or its base.
\<close>

lemma pool_intern_stable:
  assumes "pool_ok p" and "pool_intern w p = Some (a, p')" and "pool_lookup p v = Some b"
  shows "pool_lookup p' v = Some b"
proof -
  have "vec_get (pool_list p) (unat b) = Some v" using assms pool_lookup_list by blast
  then have "vec_get (pool_list p') (unat b) = Some v"
    using pool_intern_ok[OF assms(1,2)] by (auto simp: vec_get_Some_iff nth_append)
  then show ?thesis using pool_intern_ok[OF assms(1,2)] pool_lookup_list by blast
qed

text \<open>
  \<open>child\<close> starts the atoms of the new pool at the number of atoms of its base \<^emph>\<open>alone\<close>: the result
  is a good pool exactly if the base of the base is empty.
\<close>

lemma pool_child_ok:
  assumes "pool_ok p"
  shows "\<exists>c. pool_child p = Some c \<and> pool_list c = pool_list p
    \<and> (pool_ok c \<longleftrightarrow> unat (pool_base_sym p) = 0)"
proof -
  have n: "length (pool_atoms p) < 2 ^ 16" using pool_ok_list[OF assms] pool_size[OF assms] by simp
  then have u: "unat (of_nat (length (pool_atoms p)) :: atom) = length (pool_atoms p)"
    by (simp add: unat_of_nat)
  let ?c = "AtomPool (Some p) (of_nat (length (pool_atoms p))) [] (\<lambda>_. None)"
  have "pool_child p = Some ?c" using n by (simp add: pool_child_def atom_try_from_def)
  moreover have "pool_ok ?c \<longleftrightarrow> unat (pool_base_sym p) = 0"
    using assms n pool_ok_list[OF assms] pool_size[OF assms] by (auto simp: u vec_get_def)
  ultimately show ?thesis by simp
qed

end
