(* ===== verification/Object.thy ===== *)
theory Object
  imports Intern
begin

text \<open>
  \<open>Object\<close> of \<open>graph/src/util/intern.rs\<close>: a vector of entries whose keys are atoms of a shared
  pool, with tombstones for removed entries. The abstraction of an object is the function
  \<open>obj_get\<close> itself, a finite map from words to values; every operation is shown to be the
  operation on maps of the same name.
\<close>

section \<open>Objects\<close>

text \<open>
  A reference-counted pool. \<open>Arc::ptr_eq\<close> compares addresses, and one address holds one pool.
\<close>

datatype pool_ref = PoolRef (ref_addr: nat) (ref_pool: atom_pool)

record 'v object =
  obj_pool :: pool_ref
  obj_entries :: "(atom \<times> 'v) list"

definition obj_new :: "pool_ref \<Rightarrow> 'v object" where
  "obj_new pool = \<lparr>obj_pool = pool, obj_entries = []\<rparr>"

definition live :: "(atom \<times> 'v) list \<Rightarrow> (atom \<times> 'v) list" where
  "live es = filter (\<lambda>e. fst e \<noteq> TOMBSTONE_KEY) es"

definition obj_len :: "'v object \<Rightarrow> nat" where
  "obj_len self = length (live (obj_entries self))"

definition obj_get :: "'v object \<Rightarrow> string \<Rightarrow> 'v option" where
  "obj_get self key =
     (case pool_lookup (ref_pool (obj_pool self)) key of
        None \<Rightarrow> None
      | Some a \<Rightarrow> map_of (obj_entries self) a)"

definition obj_get_by_atom :: "'v object \<Rightarrow> atom \<Rightarrow> 'v option" where
  "obj_get_by_atom self a = (if a = TOMBSTONE_KEY then None else map_of (obj_entries self) a)"

text \<open>The iterators skip tombstones and unwrap the name of every other entry.\<close>

definition obj_iter :: "'v object \<Rightarrow> (string \<times> 'v) list option" where
  "obj_iter self = those (map (\<lambda>(a, v). map_option (\<lambda>k. (k, v)) (pool_get (ref_pool (obj_pool self)) a))
     (live (obj_entries self)))"

definition obj_insert_atom :: "atom \<Rightarrow> 'v \<Rightarrow> 'v object \<Rightarrow> 'v option \<times> 'v object" where
  "obj_insert_atom key v self =
     (if key = TOMBSTONE_KEY then (None, self)
      else (map_of (obj_entries self) key, self\<lparr>obj_entries := AList.update key v (obj_entries self)\<rparr>))"

datatype intern_error = NotInterned string

definition obj_insert :: "string \<Rightarrow> 'v \<Rightarrow> 'v object \<Rightarrow> (intern_error, 'v option \<times> 'v object) result" where
  "obj_insert key v self =
     (case pool_lookup (ref_pool (obj_pool self)) key of
        None \<Rightarrow> Inl (NotInterned key)
      | Some a \<Rightarrow> Inr (obj_insert_atom a v self))"

definition obj_contains_key :: "'v object \<Rightarrow> string \<Rightarrow> bool" where
  "obj_contains_key self key \<longleftrightarrow>
     list_ex (\<lambda>e. pool_get (ref_pool (obj_pool self)) (fst e) = Some key) (obj_entries self)"

definition same_pool :: "'v object \<Rightarrow> 'v object \<Rightarrow> bool" where
  "same_pool self other \<longleftrightarrow> ref_addr (obj_pool self) = ref_addr (obj_pool other)"

fun insert_named :: "(string \<times> 'v) list \<Rightarrow> 'v object \<Rightarrow> 'v object option" where
  "insert_named [] self = Some self"
| "insert_named ((k, v) # kvs) self =
     (case obj_insert k v self of Inl e \<Rightarrow> None | Inr (old, self') \<Rightarrow> insert_named kvs self')"

text \<open>\<open>merge\<close> panics when the other object has a key that the pool of this one does not have.\<close>

definition obj_merge :: "'v object \<Rightarrow> 'v object \<Rightarrow> 'v object option" where
  "obj_merge other self =
     (if same_pool self other
      then Some (fold (\<lambda>(key, v) o'. snd (obj_insert_atom key v o')) (obj_entries other) self)
      else (case obj_iter other of None \<Rightarrow> None | Some kvs \<Rightarrow> insert_named kvs self))"

fun retain_entries ::
    "atom_pool \<Rightarrow> (string \<Rightarrow> 'v \<Rightarrow> bool) \<Rightarrow> (atom \<times> 'v) list \<Rightarrow> (atom \<times> 'v) list option" where
  "retain_entries pool f [] = Some []"
| "retain_entries pool f ((a, v) # es) =
     (if a = TOMBSTONE_KEY then retain_entries pool f es
      else (case pool_get pool a of
              None \<Rightarrow> None
            | Some k \<Rightarrow> map_option (\<lambda>kept. if f k v then (a, v) # kept else kept)
                (retain_entries pool f es)))"

definition obj_retain :: "(string \<Rightarrow> 'v \<Rightarrow> bool) \<Rightarrow> 'v object \<Rightarrow> 'v object option" where
  "obj_retain f self = map_option (\<lambda>es. self\<lparr>obj_entries := es\<rparr>)
     (retain_entries (ref_pool (obj_pool self)) f (obj_entries self))"

text \<open>\<open>remove\<close> turns the first entry with the key into a tombstone; \<open>nul\<close> is the default value.\<close>

fun bury :: "'v \<Rightarrow> atom \<Rightarrow> (atom \<times> 'v) list \<Rightarrow> (atom \<times> 'v) list" where
  "bury nul a [] = []"
| "bury nul a (e # es) = (if fst e = a then (TOMBSTONE_KEY, nul) # es else e # bury nul a es)"

definition obj_remove :: "'v \<Rightarrow> string \<Rightarrow> 'v object \<Rightarrow> 'v option \<times> 'v object" where
  "obj_remove nul key self =
     (case pool_lookup (ref_pool (obj_pool self)) key of
        None \<Rightarrow> (None, self)
      | Some a \<Rightarrow> (map_of (obj_entries self) a, self\<lparr>obj_entries := bury nul a (obj_entries self)\<rparr>))"

definition len_ignore_atom :: "'v object \<Rightarrow> atom \<Rightarrow> nat" where
  "len_ignore_atom self a =
     length (filter (\<lambda>e. fst e \<noteq> TOMBSTONE_KEY \<and> fst e \<noteq> a) (obj_entries self))"

definition len_ignore_key :: "'v object \<Rightarrow> string \<Rightarrow> nat" where
  "len_ignore_key self ignore_key =
     (case pool_lookup (ref_pool (obj_pool self)) ignore_key of
        Some to_ignore \<Rightarrow> len_ignore_atom self to_ignore
      | None \<Rightarrow> obj_len self)"

definition eq_ignore_key :: "'v object \<Rightarrow> 'v object \<Rightarrow> string \<Rightarrow> bool option" where
  "eq_ignore_key self other ignore_key =
     (let ignore = pool_lookup (ref_pool (obj_pool self)) ignore_key
      in if len_ignore_key self ignore_key \<noteq> len_ignore_key other ignore_key then Some False
         else if same_pool self other
         then Some (list_all (\<lambda>(key, v). obj_get_by_atom other key = Some v)
                (filter (\<lambda>e. fst e \<noteq> TOMBSTONE_KEY \<and> ignore \<noteq> Some (fst e)) (obj_entries self)))
         else map_option (\<lambda>kvs. list_all (\<lambda>(key, v). obj_get other key = Some v)
                (filter (\<lambda>e. fst e \<noteq> ignore_key) kvs)) (obj_iter self))"

definition object_eq :: "'v object \<Rightarrow> 'v object \<Rightarrow> bool option" where
  "object_eq self other =
     (if obj_len self \<noteq> obj_len other then Some False
      else if same_pool self other
      then Some (list_all (\<lambda>(key, v). obj_get_by_atom other key = Some v) (live (obj_entries self)))
      else map_option (list_all (\<lambda>(key, v). obj_get other key = Some v)) (obj_iter self))"

section \<open>Objects are finite maps\<close>

definition obj_ok :: "'v object \<Rightarrow> bool" where
  "obj_ok self \<longleftrightarrow> pool_ok (ref_pool (obj_pool self)) \<and> distinct (map fst (live (obj_entries self)))
     \<and> (\<forall>e \<in> set (live (obj_entries self)). pool_get (ref_pool (obj_pool self)) (fst e) \<noteq> None)"

text \<open>The words that an object can have as keys.\<close>

definition obj_words :: "'v object \<Rightarrow> string set" where
  "obj_words self = set (pool_list (ref_pool (obj_pool self)))"

text \<open>Objects of which two with the same address have the same pool.\<close>

definition pools_agree :: "'v object \<Rightarrow> 'v object \<Rightarrow> bool" where
  "pools_agree a b \<longleftrightarrow> (same_pool a b \<longrightarrow> obj_pool a = obj_pool b)"

lemma live_Cons: "live (e # es) = (if fst e = TOMBSTONE_KEY then live es else e # live es)"
  by (simp add: live_def)

lemma live_Nil [simp]: "live [] = []"
  by (simp add: live_def)

lemma map_of_live: "a \<noteq> TOMBSTONE_KEY \<Longrightarrow> map_of (live es) a = map_of es a"
  by (induction es) (auto simp: live_Cons)

lemma live_update: "a \<noteq> TOMBSTONE_KEY \<Longrightarrow> live (AList.update a v es) = AList.update a v (live es)"
  by (induction es) (auto simp: live_Cons)

lemma live_bury:
  assumes "a \<noteq> TOMBSTONE_KEY" and "distinct (map fst (live es))"
  shows "live (bury nul a es) = filter (\<lambda>e. fst e \<noteq> a) (live es)"
  using assms(2)
proof (induction es)
  case (Cons e es)
  show ?case
  proof (cases "fst e = a")
    case True
    then have "filter (\<lambda>e. fst e \<noteq> a) (live es) = live es"
      using Cons.prems assms(1) by (auto simp: live_Cons filter_id_conv image_iff)
    with True show ?thesis using assms(1) by (simp add: live_Cons)
  next
    case False
    with Cons show ?thesis by (auto simp: live_Cons split: if_splits)
  qed
qed simp

lemma set_update_subset: "set (AList.update a v es) \<subseteq> insert (a, v) (set es)"
  by (induction es) auto

lemma map_of_filter_key: "map_of (filter (\<lambda>e. fst e \<noteq> a) es) = (map_of es)(a := None)"
  by (induction es) auto

lemma obj_get_live:
  "obj_ok self \<Longrightarrow> obj_get self key =
     (case pool_lookup (ref_pool (obj_pool self)) key of
        None \<Rightarrow> None | Some a \<Rightarrow> map_of (live (obj_entries self)) a)"
  using pool_lookup_not_tombstone[of "ref_pool (obj_pool self)" key]
  by (auto simp: obj_get_def obj_ok_def map_of_live split: option.splits)

text \<open>The named entries of an object.\<close>

definition obj_list :: "'v object \<Rightarrow> (string \<times> 'v) list" where
  "obj_list self = map (\<lambda>(a, v). (the (pool_get (ref_pool (obj_pool self)) a), v)) (live (obj_entries self))"

lemma those_map_Some: "(\<And>x. x \<in> set xs \<Longrightarrow> f x = Some (g x)) \<Longrightarrow> those (map f xs) = Some (map g xs)"
  by (induction xs) simp_all

lemma obj_iter_list: "obj_ok self \<Longrightarrow> obj_iter self = Some (obj_list self)"
  unfolding obj_iter_def obj_list_def by (rule those_map_Some) (force simp: obj_ok_def)

lemma obj_list_distinct:
  assumes "obj_ok self" shows "distinct (map fst (obj_list self))"
proof -
  let ?p = "ref_pool (obj_pool self)" and ?es = "live (obj_entries self)"
  have "inj_on (\<lambda>a. the (pool_get ?p a)) (fst ` set ?es)"
  proof (rule inj_onI)
    fix a b assume ab: "a \<in> fst ` set ?es" "b \<in> fst ` set ?es" "the (pool_get ?p a) = the (pool_get ?p b)"
    then have "pool_get ?p a \<noteq> None" "pool_get ?p b \<noteq> None" using assms by (auto simp: obj_ok_def)
    with ab(3) have "pool_get ?p a = pool_get ?p b" "pool_get ?p a \<noteq> None" by auto
    then show "a = b" using pool_lookup_get[of ?p] assms unfolding obj_ok_def by (metis not_None_eq option.inject)
  qed
  then have "distinct (map (\<lambda>a. the (pool_get ?p a)) (map fst ?es))"
    using assms unfolding distinct_map[of _ "map fst ?es"] set_map obj_ok_def by blast
  then show ?thesis by (simp add: obj_list_def comp_def case_prod_beta)
qed

lemma obj_list_map:
  assumes "obj_ok self" shows "map_of (obj_list self) = obj_get self"
proof
  fix k
  let ?p = "ref_pool (obj_pool self)" and ?es = "live (obj_entries self)"
  have p: "pool_ok ?p" using assms by (simp add: obj_ok_def)
  have "map_of (map (\<lambda>(a, v). (the (pool_get ?p a), v)) es) k =
      (case pool_lookup ?p k of None \<Rightarrow> None | Some a \<Rightarrow> map_of es a)"
    if "\<forall>e \<in> set es. pool_get ?p (fst e) \<noteq> None" for es :: "(atom \<times> 'a) list"
    using that
  proof (induction es)
    case (Cons e es)
    then obtain w where w: "pool_get ?p (fst e) = Some w" by auto
    have "w = k \<longleftrightarrow> pool_lookup ?p k = Some (fst e)" using w pool_lookup_get[OF p, of k "fst e"] by auto
    with Cons w show ?case by (auto simp: case_prod_beta split: option.splits)
  qed (simp split: option.splits)
  with assms show "map_of (obj_list self) k = obj_get self k"
    by (simp add: obj_list_def obj_get_live obj_ok_def)
qed

lemma length_obj_list: "obj_len self = length (obj_list self)"
  by (simp add: obj_len_def obj_list_def)

lemma obj_dom: "obj_ok self \<Longrightarrow> dom (obj_get self) = fst ` set (obj_list self)"
  by (simp add: obj_list_map[symmetric] dom_map_of_conv_image_fst)

lemma obj_len_card: "obj_ok self \<Longrightarrow> obj_len self = card (dom (obj_get self))"
  using distinct_card[OF obj_list_distinct, of self] by (simp add: obj_dom length_obj_list)

lemma obj_dom_words: "obj_ok self \<Longrightarrow> dom (obj_get self) \<subseteq> obj_words self"
  using pool_lookup_None[of "ref_pool (obj_pool self)"]
  by (auto simp: obj_get_def obj_words_def obj_ok_def split: option.splits) (metis option.distinct(1))

lemma finite_obj_dom: "obj_ok self \<Longrightarrow> finite (dom (obj_get self))"
  by (simp add: obj_dom)


section \<open>The operations on the map\<close>

lemma obj_new_ok: "pool_ok (ref_pool r) \<Longrightarrow> obj_ok (obj_new r)"
  by (simp add: obj_new_def obj_ok_def)

lemma obj_new_get: "obj_get (obj_new r) = Map.empty"
  by (rule ext) (simp add: obj_new_def obj_get_def split: option.splits)

lemma obj_get_insert_atom:
  assumes ok: "obj_ok self" and a: "pool_lookup (ref_pool (obj_pool self)) key = Some a"
  shows "obj_insert_atom a v self =
      (obj_get self key, self\<lparr>obj_entries := AList.update a v (obj_entries self)\<rparr>)"
    and "obj_ok (self\<lparr>obj_entries := AList.update a v (obj_entries self)\<rparr>)"
    and "obj_get (self\<lparr>obj_entries := AList.update a v (obj_entries self)\<rparr>) = (obj_get self)(key \<mapsto> v)"
proof -
  let ?p = "ref_pool (obj_pool self)"
  have p: "pool_ok ?p" using ok by (simp add: obj_ok_def)
  have t: "a \<noteq> TOMBSTONE_KEY" using pool_lookup_not_tombstone[OF p] a by blast
  show "obj_insert_atom a v self =
      (obj_get self key, self\<lparr>obj_entries := AList.update a v (obj_entries self)\<rparr>)"
    using t a by (simp add: obj_insert_atom_def obj_get_def)
  have "pool_get ?p a \<noteq> None" using a pool_lookup_get[OF p] by simp
  then show "obj_ok (self\<lparr>obj_entries := AList.update a v (obj_entries self)\<rparr>)"
    using ok t by (auto simp: obj_ok_def live_update distinct_update dest!: set_mp[OF set_update_subset])
  show "obj_get (self\<lparr>obj_entries := AList.update a v (obj_entries self)\<rparr>) = (obj_get self)(key \<mapsto> v)"
  proof
    fix k
    have "pool_lookup ?p k = Some a \<longleftrightarrow> k = key" using a pool_lookup_inject[OF p] by blast
    then show "obj_get (self\<lparr>obj_entries := AList.update a v (obj_entries self)\<rparr>) k = ((obj_get self)(key \<mapsto> v)) k"
      by (auto simp: obj_get_def update_conv' split: option.splits)
  qed
qed


text \<open>
  \<open>insert\<close> fails exactly for a word that is not in the pool. \<open>object_update\<close> says that an operation
  kept the pool and changed the map to \<open>m\<close>.
\<close>

definition object_update :: "'v object \<Rightarrow> (string \<Rightarrow> 'v option) \<Rightarrow> 'v object \<Rightarrow> bool" where
  "object_update self m self' \<longleftrightarrow> obj_ok self' \<and> obj_pool self' = obj_pool self \<and> obj_get self' = m"

lemma obj_insert_spec:
  assumes "obj_ok self"
  shows "case obj_insert key v self of
      Inl e \<Rightarrow> e = NotInterned key \<and> key \<notin> obj_words self
    | Inr (old, self') \<Rightarrow> key \<in> obj_words self \<and> old = obj_get self key
        \<and> object_update self ((obj_get self)(key \<mapsto> v)) self'"
proof (cases "pool_lookup (ref_pool (obj_pool self)) key")
  case None
  then show ?thesis
    using assms pool_lookup_None[of "ref_pool (obj_pool self)" key]
    by (simp add: obj_insert_def obj_words_def obj_ok_def)
next
  case (Some a)
  then have "key \<in> obj_words self"
    using assms pool_lookup_None[of "ref_pool (obj_pool self)" key] by (auto simp: obj_words_def obj_ok_def)
  with Some obj_get_insert_atom[OF assms Some, of v] show ?thesis
    by (simp add: obj_insert_def object_update_def)
qed

lemma obj_insert_Inr:
  assumes "obj_ok self" and "key \<in> obj_words self"
  obtains self' where "obj_insert key v self = Inr (obj_get self key, self')"
    and "object_update self ((obj_get self)(key \<mapsto> v)) self'"
  using obj_insert_spec[OF assms(1), of key v] assms(2) by (auto split: sum.splits)

lemma obj_contains_key_iff:
  assumes "obj_ok self" shows "obj_contains_key self key \<longleftrightarrow> obj_get self key \<noteq> None"
proof -
  let ?p = "ref_pool (obj_pool self)"
  have p: "pool_ok ?p" using assms by (simp add: obj_ok_def)
  have "obj_contains_key self key \<longleftrightarrow> (\<exists>a \<in> fst ` set (obj_entries self). pool_lookup ?p key = Some a)"
    by (auto simp: obj_contains_key_def list_ex_iff pool_lookup_get[OF p])
  also have "\<dots> \<longleftrightarrow> obj_get self key \<noteq> None"
    by (auto simp: obj_get_def map_of_eq_None_iff not_None_eq[symmetric] simp del: not_None_eq
        split: option.splits)
  finally show ?thesis .
qed

lemma obj_remove_spec:
  assumes "obj_ok self"
  shows "\<exists>self'. obj_remove nul key self = (obj_get self key, self')
    \<and> object_update self ((obj_get self)(key := None)) self'"
proof (cases "pool_lookup (ref_pool (obj_pool self)) key")
  case None
  then have "(obj_get self)(key := None) = obj_get self" by (auto simp: obj_get_def)
  with None assms show ?thesis by (simp add: obj_remove_def object_update_def obj_get_def)
next
  case (Some a)
  let ?p = "ref_pool (obj_pool self)" and ?es = "obj_entries self"
  let ?self' = "self\<lparr>obj_entries := bury nul a ?es\<rparr>"
  have p: "pool_ok ?p" and d: "distinct (map fst (live ?es))" using assms by (simp_all add: obj_ok_def)
  have t: "a \<noteq> TOMBSTONE_KEY" using pool_lookup_not_tombstone[OF p] Some by blast
  have l: "live (bury nul a ?es) = filter (\<lambda>e. fst e \<noteq> a) (live ?es)" using live_bury[OF t d] .
  have "distinct (map fst (filter (\<lambda>e. fst e \<noteq> a) (live ?es)))" using d by (rule distinct_map_filter)
  then have ok: "obj_ok ?self'" using assms by (simp add: obj_ok_def l)
  have "obj_get ?self' k = ((obj_get self)(key := None)) k" for k
  proof -
    have "pool_lookup ?p k = Some a \<longleftrightarrow> k = key" using Some pool_lookup_inject[OF p] by blast
    then show ?thesis
      by (auto simp: obj_get_live[OF ok] obj_get_live[OF assms] l map_of_filter_key split: option.splits)
  qed
  then have "obj_get ?self' = (obj_get self)(key := None)" by blast
  with Some ok show ?thesis by (simp add: obj_remove_def object_update_def obj_get_def)
qed

text \<open>Inserting a list of named entries one after the other.\<close>

lemma map_of_rev_distinct: "distinct (map fst kvs) \<Longrightarrow> map_of (rev kvs) = map_of kvs"
  by (rule map_of_eqI) (auto simp: map_of_eq_Some_iff distinct_map)

lemma insert_named_spec:
  assumes "obj_ok self" and "fst ` set kvs \<subseteq> obj_words self"
  shows "\<exists>self'. insert_named kvs self = Some self'
    \<and> object_update self (obj_get self ++ map_of (rev kvs)) self'"
  using assms
proof (induction kvs arbitrary: self)
  case Nil
  then show ?case by (simp add: object_update_def)
next
  case (Cons kv kvs)
  obtain k v where kv: "kv = (k, v)" by (cases kv)
  with Cons.prems obtain s1 where s1: "obj_insert k v self = Inr (obj_get self k, s1)"
    "object_update self ((obj_get self)(k \<mapsto> v)) s1"
    using obj_insert_Inr[of self k v] by auto
  then have "obj_ok s1" "fst ` set kvs \<subseteq> obj_words s1"
    using Cons.prems(2) by (auto simp: object_update_def obj_words_def)
  from Cons.IH[OF this] obtain s2 where "insert_named kvs s1 = Some s2"
    "object_update s1 (obj_get s1 ++ map_of (rev kvs)) s2" by blast
  moreover have "(obj_get self)(k \<mapsto> v) ++ map_of (rev kvs) = obj_get self ++ map_of (rev (kv # kvs))"
    by (simp add: kv map_add_assoc[symmetric])
  ultimately show ?case using s1 by (simp add: kv object_update_def)
qed


text \<open>Merging by atoms, when the pools are the same, inserts the same named entries.\<close>

lemma fold_insert_atom:
  assumes "pool_ok p" and "ref_pool (obj_pool self) = p"
    and "\<forall>e \<in> set (live es). pool_get p (fst e) \<noteq> None"
  shows "insert_named (map (\<lambda>(a, v). (the (pool_get p a), v)) (live es)) self =
    Some (fold (\<lambda>(key, v) o'. snd (obj_insert_atom key v o')) es self)"
  using assms(2,3)
proof (induction es arbitrary: self)
  case Nil
  then show ?case by simp
next
  case (Cons e es)
  obtain a v where e: "e = (a, v)" by (cases e)
  show ?case
  proof (cases "a = TOMBSTONE_KEY")
    case True
    with Cons e show ?thesis by (simp add: live_Cons obj_insert_atom_def)
  next
    case False
    with Cons.prems e obtain k where k: "pool_get p a = Some k" by (auto simp: live_Cons)
    then have "obj_insert k v self = Inr (obj_insert_atom a v self)"
      using Cons.prems(1) pool_lookup_get[OF assms(1), of k a] by (simp add: obj_insert_def)
    moreover have "ref_pool (obj_pool (snd (obj_insert_atom a v self))) = p"
      using Cons.prems(1) by (simp add: obj_insert_atom_def)
    ultimately show ?thesis
      using False e k Cons.IH[of "snd (obj_insert_atom a v self)"] Cons.prems(2)
      by (simp add: live_Cons case_prod_beta)
  qed
qed

lemma obj_merge_spec:
  assumes "obj_ok self" and "obj_ok other" and "pools_agree self other"
    and "dom (obj_get other) \<subseteq> obj_words self"
  shows "\<exists>self'. obj_merge other self = Some self'
    \<and> object_update self (obj_get self ++ obj_get other) self'"
proof -
  have "map_of (rev (obj_list other)) = obj_get other"
    using map_of_rev_distinct[OF obj_list_distinct[OF assms(2)]] obj_list_map[OF assms(2)] by simp
  moreover have "fst ` set (obj_list other) \<subseteq> obj_words self"
    using assms(4) by (simp add: obj_dom[OF assms(2)])
  moreover have "obj_merge other self = insert_named (obj_list other) self"
  proof (cases "same_pool self other")
    case True
    with assms(3) have "ref_pool (obj_pool self) = ref_pool (obj_pool other)" by (simp add: pools_agree_def)
    from fold_insert_atom[OF _ this, of "obj_entries other"] assms(2) True show ?thesis
      by (simp add: obj_merge_def obj_list_def obj_ok_def)
  next
    case False
    with obj_iter_list[OF assms(2)] show ?thesis by (simp add: obj_merge_def)
  qed
  ultimately show ?thesis using insert_named_spec[OF assms(1), of "obj_list other"] by auto
qed

text \<open>\<open>retain\<close> keeps the entries for which the predicate holds, and drops all tombstones.\<close>

lemma retain_entries_live:
  assumes "\<forall>e \<in> set (live es). pool_get p (fst e) \<noteq> None"
  shows "retain_entries p f es = Some (filter (\<lambda>(a, v). f (the (pool_get p a)) v) (live es))"
  using assms by (induction es) (auto simp: live_Cons split: if_splits)

lemma obj_retain_spec:
  assumes ok: "obj_ok self"
  shows "\<exists>self'. obj_retain f self = Some self' \<and> object_update self
    (\<lambda>k. case obj_get self k of None \<Rightarrow> None | Some v \<Rightarrow> if f k v then Some v else None) self'"
proof -
  let ?p = "ref_pool (obj_pool self)" and ?es = "live (obj_entries self)"
  let ?keep = "\<lambda>(a, v). f (the (pool_get ?p a)) v"
  let ?self' = "self\<lparr>obj_entries := filter ?keep ?es\<rparr>"
  have p: "pool_ok ?p" and d: "distinct (map fst ?es)" using ok by (simp_all add: obj_ok_def)
  have l: "live (filter ?keep ?es) = filter ?keep ?es"
    unfolding live_def filter_filter by (rule filter_cong) auto
  have ok': "obj_ok ?self'" using ok d by (auto simp: obj_ok_def l distinct_map_filter)
  have "map_of (filter ?keep es) a =
      (case map_of es a of None \<Rightarrow> None | Some v \<Rightarrow> if ?keep (a, v) then Some v else None)"
    if "distinct (map fst es)" for es :: "(atom \<times> 'a) list" and a
    using that by (induction es) (auto simp: map_of_eq_None_iff split: option.splits)
  note kept = this[OF d]
  have "obj_get ?self' k = (case obj_get self k of None \<Rightarrow> None | Some v \<Rightarrow> if f k v then Some v else None)"
    for k
  proof (cases "pool_lookup ?p k")
    case None
    then show ?thesis by (simp add: obj_get_def)
  next
    case (Some a)
    then have "pool_get ?p a = Some k" using pool_lookup_get[OF p] by blast
    with Some show ?thesis by (simp add: obj_get_live[OF ok'] obj_get_live[OF ok] l kept split: option.split)
  qed
  then have "obj_get ?self' = (\<lambda>k. case obj_get self k of
      None \<Rightarrow> None | Some v \<Rightarrow> if f k v then Some v else None)" by blast
  moreover have "obj_retain f self = Some ?self'"
    using ok by (simp add: obj_retain_def retain_entries_live obj_ok_def)
  ultimately show ?thesis using ok' by (simp add: object_update_def)
qed

section \<open>Equality of objects\<close>

lemma map_eq_card:
  assumes "finite (dom m)" and "finite (dom m')" and "card (dom m) = card (dom m')"
  shows "m \<subseteq>\<^sub>m m' \<longleftrightarrow> m = m'"
proof
  assume le: "m \<subseteq>\<^sub>m m'"
  then have "dom m = dom m'" using card_subset_eq[OF assms(2) map_le_implies_dom_le assms(3)] by blast
  with le show "m = m'" using map_le_antisym[of m m'] by (auto simp: map_le_def)
qed simp

lemma list_all_map_le:
  "distinct (map fst xs) \<Longrightarrow> list_all (\<lambda>(k, v). m k = Some v) xs \<longleftrightarrow> map_of xs \<subseteq>\<^sub>m m"
  by (fastforce simp: list_all_iff map_le_def dom_def map_of_eq_Some_iff)

lemma obj_get_by_atom_name:
  assumes "obj_ok self" and "pool_get (ref_pool (obj_pool self)) a = Some k"
  shows "obj_get_by_atom self a = obj_get self k"
proof -
  have p: "pool_ok (ref_pool (obj_pool self))" using assms(1) by (simp add: obj_ok_def)
  then have "pool_lookup (ref_pool (obj_pool self)) k = Some a" using assms(2) pool_lookup_get by blast
  then show ?thesis
    using pool_lookup_not_tombstone[OF p, of k] by (auto simp: obj_get_by_atom_def obj_get_def)
qed

text \<open>The entries of an object, by atoms, are its named entries.\<close>

lemma list_all_by_atom:
  assumes "obj_ok self" and "obj_ok other" and "obj_pool self = obj_pool other"
    and "set es \<subseteq> set (live (obj_entries self))"
  shows "list_all (\<lambda>(key, v). obj_get_by_atom other key = Some v) es \<longleftrightarrow>
    list_all (\<lambda>(key, v). obj_get other key = Some v)
      (map (\<lambda>(a, v). (the (pool_get (ref_pool (obj_pool self)) a), v)) es)"
proof -
  have "obj_get_by_atom other a = obj_get other (the (pool_get (ref_pool (obj_pool self)) a))"
    if "(a, v) \<in> set es" for a v
    using assms that obj_get_by_atom_name[OF assms(2)] by (fastforce simp: obj_ok_def)
  then show ?thesis by (auto simp: list_all_iff case_prod_beta)
qed

theorem object_eq_iff:
  assumes "obj_ok self" and "obj_ok other" and "pools_agree self other"
  shows "object_eq self other = Some (obj_get self = obj_get other)"
proof (cases "obj_len self = obj_len other")
  case False
  then have "obj_get self \<noteq> obj_get other" using obj_len_card assms by metis
  with False show ?thesis by (simp add: object_eq_def)
next
  case True
  have "(if same_pool self other
      then Some (list_all (\<lambda>(key, v). obj_get_by_atom other key = Some v) (live (obj_entries self)))
      else map_option (list_all (\<lambda>(key, v). obj_get other key = Some v)) (obj_iter self)) =
    Some (list_all (\<lambda>(key, v). obj_get other key = Some v) (obj_list self))"
    using list_all_by_atom[OF assms(1,2)] assms(3)
    by (simp add: pools_agree_def obj_iter_list[OF assms(1)] obj_list_def)
  also have "list_all (\<lambda>(key, v). obj_get other key = Some v) (obj_list self) \<longleftrightarrow>
      obj_get self \<subseteq>\<^sub>m obj_get other"
    using list_all_map_le[OF obj_list_distinct[OF assms(1)]] by (simp add: obj_list_map[OF assms(1)])
  also have "obj_get self \<subseteq>\<^sub>m obj_get other \<longleftrightarrow> obj_get self = obj_get other"
    using True assms by (intro map_eq_card) (simp_all add: finite_obj_dom obj_len_card)
  finally show ?thesis using True by (simp only: object_eq_def if_False simp_thms)
qed


text \<open>Equality that ignores one key compares the maps without it.\<close>

definition obj_without :: "string \<Rightarrow> 'v object \<Rightarrow> (string \<Rightarrow> 'v option)" where
  "obj_without key self = (obj_get self)(key := None)"

lemma live_without:
  assumes ok: "obj_ok self"
  shows "filter (\<lambda>e. fst e \<noteq> TOMBSTONE_KEY \<and> pool_lookup (ref_pool (obj_pool self)) key \<noteq> Some (fst e))
      (obj_entries self) =
    filter (\<lambda>e. pool_get (ref_pool (obj_pool self)) (fst e) \<noteq> Some key) (live (obj_entries self))"
  using ok by (simp add: live_def filter_filter pool_lookup_get obj_ok_def conj_commute)

lemma obj_list_without:
  assumes ok: "obj_ok self"
  shows "filter (\<lambda>e. fst e \<noteq> key) (obj_list self) =
    map (\<lambda>(a, v). (the (pool_get (ref_pool (obj_pool self)) a), v))
      (filter (\<lambda>e. pool_get (ref_pool (obj_pool self)) (fst e) \<noteq> Some key) (live (obj_entries self)))"
proof -
  have "pool_get (ref_pool (obj_pool self)) (fst e) \<noteq> None" if "e \<in> set (live (obj_entries self))" for e
    using ok that by (simp add: obj_ok_def)
  then show ?thesis
    unfolding obj_list_def filter_map by (intro arg_cong[where f = "map _"] filter_cong) force+
qed

lemma len_ignore_key:
  assumes ok: "obj_ok self"
  shows "len_ignore_key self key = length (filter (\<lambda>e. fst e \<noteq> key) (obj_list self))"
  unfolding obj_list_without[OF ok] live_without[OF ok, symmetric] length_map
  by (auto simp: len_ignore_key_def len_ignore_atom_def obj_len_def live_def split: option.splits
      intro!: arg_cong[where f = length] filter_cong)

lemma obj_list_without_map:
  assumes "obj_ok self"
  shows "map_of (filter (\<lambda>e. fst e \<noteq> key) (obj_list self)) = obj_without key self"
    and "distinct (map fst (filter (\<lambda>e. fst e \<noteq> key) (obj_list self)))"
    and "len_ignore_key self key = card (dom (obj_without key self))"
proof -
  let ?xs = "filter (\<lambda>e. fst e \<noteq> key) (obj_list self)"
  show m: "map_of ?xs = obj_without key self"
    by (simp add: map_of_filter_key obj_without_def obj_list_map[OF assms])
  show d: "distinct (map fst ?xs)" by (rule distinct_map_filter[OF obj_list_distinct[OF assms]])
  show "len_ignore_key self key = card (dom (obj_without key self))"
    using distinct_card[OF d] unfolding m[symmetric] dom_map_of_conv_image_fst
    by (simp add: len_ignore_key[OF assms])
qed

theorem eq_ignore_key_iff:
  assumes "obj_ok self" and "obj_ok other" and "pools_agree self other"
  shows "eq_ignore_key self other key = Some (obj_without key self = obj_without key other)"
proof (cases "len_ignore_key self key = len_ignore_key other key")
  case False
  then have "obj_without key self \<noteq> obj_without key other"
    using obj_list_without_map(3) assms by metis
  with False show ?thesis by (simp add: eq_ignore_key_def)
next
  case True
  let ?p = "ref_pool (obj_pool self)" and ?xs = "filter (\<lambda>e. fst e \<noteq> key) (obj_list self)"
  let ?es = "filter (\<lambda>e. fst e \<noteq> TOMBSTONE_KEY \<and> pool_lookup ?p key \<noteq> Some (fst e)) (obj_entries self)"
  have es: "set ?es \<subseteq> set (live (obj_entries self))" by (auto simp: live_def)
  have "list_all (\<lambda>(key, v). obj_get_by_atom other key = Some v) ?es \<longleftrightarrow>
      list_all (\<lambda>(k, v). obj_get other k = Some v) ?xs" if "same_pool self other"
    using list_all_by_atom[OF assms(1,2) _ es] that assms(3)
    unfolding obj_list_without[OF assms(1)] live_without[OF assms(1)] pools_agree_def by blast
  then have "eq_ignore_key self other key = Some (list_all (\<lambda>(k, v). obj_get other k = Some v) ?xs)"
    using True by (simp add: eq_ignore_key_def Let_def obj_iter_list[OF assms(1)])
  also have "list_all (\<lambda>(k, v). obj_get other k = Some v) ?xs \<longleftrightarrow>
      list_all (\<lambda>(k, v). obj_without key other k = Some v) ?xs"
    by (rule list.pred_cong[OF refl]) (auto simp: obj_without_def)
  also have "\<dots> \<longleftrightarrow> obj_without key self \<subseteq>\<^sub>m obj_without key other"
    by (simp only: list_all_map_le[OF obj_list_without_map(2)[OF assms(1)]] obj_list_without_map(1)[OF assms(1)])
  also have "\<dots> \<longleftrightarrow> obj_without key self = obj_without key other"
    using True obj_list_without_map(3)[OF assms(1)] obj_list_without_map(3)[OF assms(2)]
    by (intro map_eq_card) (simp_all add: obj_without_def finite_obj_dom assms)
  finally show ?thesis .
qed

end
