(* ===== verification/Entity_Data.thy ===== *)
theory Entity_Data
  imports Complex_Main Entity_Mod Object "HOL-Library.Char_ord" "HOL-Library.List_Lexorder"
begin

text \<open>
  The values of entities and entities themselves, \<open>graph/src/data/store/mod.rs\<close> and \<open>id.rs\<close>: the
  value types and their coercion order, ids and their generation, and \<open>Entity\<close>, an object over
  the pool of the schema with a private \<open>vid\<close>, with merging, validation and equality.
\<close>

section \<open>Values and their types\<close>

datatype value_type = TBoolean | TBigInt | TBytes | TBigDecimal | TInt | TInt8 | TString | TTimestamp

text \<open>
  A \<open>BigDecimal\<close> is its numeric value, which is what its equality compares; a \<open>Timestamp\<close> counts
  nanoseconds; \<open>Int\<close> and \<open>Int8\<close> are signed integers of 32 and 64 bits.
\<close>

datatype store_value =
    VString string
  | VInt int
  | VInt8 int
  | VTimestamp int
  | VBigDecimal rat
  | VBool bool
  | VList "store_value list"
  | VNull
  | VBytes "nat list"
  | VBigInt int

text \<open>\<open>ValueType::from_str\<close>; the error carries the name.\<close>

definition value_type_from_str :: "string \<Rightarrow> (string, value_type) result" where
  "value_type_from_str s =
     (if s = ''Boolean'' then Inr TBoolean
      else if s = ''BigInt'' then Inr TBigInt
      else if s = ''Bytes'' then Inr TBytes
      else if s = ''BigDecimal'' then Inr TBigDecimal
      else if s = ''Int'' then Inr TInt
      else if s = ''Int8'' then Inr TInt8
      else if s = ''Timestamp'' then Inr TTimestamp
      else if s = ''String'' \<or> s = ''ID'' then Inr TString
      else Inl s)"

definition is_scalar :: "string \<Rightarrow> bool" where
  "is_scalar s \<longleftrightarrow> (case value_type_from_str s of Inl e \<Rightarrow> False | Inr t \<Rightarrow> True)"

fun is_numeric :: "value_type \<Rightarrow> bool" where
  "is_numeric TBigInt = True"
| "is_numeric TBigDecimal = True"
| "is_numeric TInt = True"
| "is_numeric TInt8 = True"
| "is_numeric TBoolean = False"
| "is_numeric TBytes = False"
| "is_numeric TString = False"
| "is_numeric TTimestamp = False"

fun value_type_to_str :: "value_type \<Rightarrow> string" where
  "value_type_to_str TBoolean = ''Boolean''"
| "value_type_to_str TBigInt = ''BigInt''"
| "value_type_to_str TBytes = ''Bytes''"
| "value_type_to_str TBigDecimal = ''BigDecimal''"
| "value_type_to_str TInt = ''Int''"
| "value_type_to_str TInt8 = ''Int8''"
| "value_type_to_str TTimestamp = ''Timestamp''"
| "value_type_to_str TString = ''String''"

lemma value_type_round_trip: "value_type_from_str (value_type_to_str t) = Inr t"
  by (cases t) (simp_all add: value_type_from_str_def)

datatype ordering = Less | Equal | Greater

text \<open>\<open>partial_cmp\<close>: the coercion order of the numeric types.\<close>

fun value_type_cmp :: "value_type \<Rightarrow> value_type \<Rightarrow> ordering option" where
  "value_type_cmp TBoolean TBoolean = Some Equal"
| "value_type_cmp TBigInt TBigInt = Some Equal"
| "value_type_cmp TBytes TBytes = Some Equal"
| "value_type_cmp TBigDecimal TBigDecimal = Some Equal"
| "value_type_cmp TInt TInt = Some Equal"
| "value_type_cmp TInt8 TInt8 = Some Equal"
| "value_type_cmp TString TString = Some Equal"
| "value_type_cmp TBigInt TBigDecimal = Some Less"
| "value_type_cmp TInt TBigInt = Some Less"
| "value_type_cmp TInt TBigDecimal = Some Less"
| "value_type_cmp TInt TInt8 = Some Less"
| "value_type_cmp TInt8 TBigInt = Some Less"
| "value_type_cmp TInt8 TBigDecimal = Some Less"
| "value_type_cmp TBigInt TInt = Some Greater"
| "value_type_cmp TBigInt TInt8 = Some Greater"
| "value_type_cmp TBigDecimal TBigInt = Some Greater"
| "value_type_cmp TBigDecimal TInt = Some Greater"
| "value_type_cmp TBigDecimal TInt8 = Some Greater"
| "value_type_cmp TInt8 TInt = Some Greater"
| "value_type_cmp s t = None"

text \<open>
  The order is antisymmetric and transitive, and the numeric types form the chain
  \<open>Int < Int8 < BigInt < BigDecimal\<close>. It is reflexive except at \<open>Timestamp\<close>, which does not even
  compare to itself.
\<close>

lemma value_type_cmp_swap: "value_type_cmp s t = Some Less \<longleftrightarrow> value_type_cmp t s = Some Greater"
  by (cases s; cases t) simp_all

lemma value_type_cmp_Equal: "value_type_cmp s t = Some Equal \<longleftrightarrow> s = t \<and> t \<noteq> TTimestamp"
  by (cases s; cases t) simp_all

lemma value_type_cmp_trans:
  "value_type_cmp s t = Some Less \<Longrightarrow> value_type_cmp t u = Some Less \<Longrightarrow> value_type_cmp s u = Some Less"
  by (cases s; cases t; cases u) simp_all

lemma numeric_types_comparable:
  "is_numeric s \<Longrightarrow> is_numeric t \<Longrightarrow> value_type_cmp s t \<noteq> None"
  by (cases s; cases t) simp_all

fun value_type_name :: "store_value \<Rightarrow> string" where
  "value_type_name (VBigDecimal d) = ''BigDecimal''"
| "value_type_name (VBigInt n) = ''BigInt''"
| "value_type_name (VBool b) = ''Boolean''"
| "value_type_name (VBytes b) = ''Bytes''"
| "value_type_name (VInt i) = ''Int''"
| "value_type_name (VInt8 i) = ''Int8''"
| "value_type_name (VTimestamp t) = ''Timestamp''"
| "value_type_name (VList []) = ''[Any]''"
| "value_type_name (VList (v # vs)) = ''['' @ value_type_name v @ '']''"
| "value_type_name VNull = ''Null''"
| "value_type_name (VString s) = ''String''"

text \<open>
  \<open>is_assignable\<close>. The elements of a list are checked with \<open>is_list\<close> false, so lists do not nest.
\<close>

fun is_assignable :: "store_value \<Rightarrow> value_type \<Rightarrow> bool \<Rightarrow> bool" where
  "is_assignable (VString s) t is_list = (t = TString)"
| "is_assignable (VBigDecimal d) t is_list = (t = TBigDecimal)"
| "is_assignable (VBigInt n) t is_list = (t = TBigInt)"
| "is_assignable (VBool b) t is_list = (t = TBoolean)"
| "is_assignable (VBytes b) t is_list = (t = TBytes)"
| "is_assignable (VInt i) t is_list = (t = TInt)"
| "is_assignable (VInt8 i) t is_list = (t = TInt8)"
| "is_assignable (VTimestamp ts) t is_list = (t = TTimestamp)"
| "is_assignable VNull t is_list = True"
| "is_assignable (VList vs) t is_list = (is_list \<and> list_all (\<lambda>v. is_assignable v t False) vs)"

text \<open>An assignable value has the name of the type, up to null and the brackets of a list.\<close>

lemma scalar_assignable_name:
  "is_assignable v t False \<longleftrightarrow> v = VNull \<or> value_type_name v = value_type_to_str t"
proof (cases v)
  case (VList vs)
  then show ?thesis by (cases vs; cases t) simp_all
qed (cases t; simp)+

section \<open>Ids\<close>

datatype id_type = IdTypeString | IdTypeBytes | IdTypeInt8

fun id_type_of :: "id \<Rightarrow> id_type" where
  "id_type_of (IdString s) = IdTypeString"
| "id_type_of (IdBytes b) = IdTypeBytes"
| "id_type_of (IdInt8 i) = IdTypeInt8"

fun id_type_as_str :: "id_type \<Rightarrow> string" where
  "id_type_as_str IdTypeString = ''String''"
| "id_type_as_str IdTypeBytes = ''Bytes''"
| "id_type_as_str IdTypeInt8 = ''Int8''"

fun id_eq_value :: "id \<Rightarrow> store_value \<Rightarrow> bool" where
  "id_eq_value (IdString s) (VString v) = (s = v)"
| "id_eq_value (IdBytes s) (VBytes v) = (s = v)"
| "id_eq_value (IdInt8 s) (VInt8 v) = (s = v)"
| "id_eq_value _ _ = False"

fun id_try_from :: "store_value \<Rightarrow> id option" where
  "id_try_from (VString s) = Some (IdString s)"
| "id_try_from (VBytes b) = Some (IdBytes b)"
| "id_try_from (VInt8 i) = Some (IdInt8 i)"
| "id_try_from _ = None"

fun value_from_id :: "id \<Rightarrow> store_value" where
  "value_from_id (IdString s) = VString s"
| "value_from_id (IdBytes b) = VBytes b"
| "value_from_id (IdInt8 i) = VInt8 i"

lemma id_value_round_trip: "id_try_from v = Some i \<longleftrightarrow> v = value_from_id i"
  by (cases v; cases i) auto

lemma id_eq_value_iff: "id_eq_value i v \<longleftrightarrow> v = value_from_id i"
  by (cases v; cases i) auto

text \<open>
  \<open>generate_id\<close> packs the block number (\<open>i32\<close>) and a sequence number (\<open>u32\<close>) into eight bytes,
  big endian for \<open>Bytes\<close>, and into an \<open>i64\<close> with the block in the upper half for \<open>Int8\<close>.
\<close>

definition to_be_bytes :: "32 word \<Rightarrow> nat list" where
  "to_be_bytes w = map (\<lambda>n. unat (drop_bit n w) mod 256) [24, 16, 8, 0]"

definition to_le_bytes :: "32 word \<Rightarrow> nat list" where
  "to_le_bytes w = map (\<lambda>n. unat (drop_bit n w) mod 256) [0, 8, 16, 24]"

fun word_from_le_bytes :: "nat list \<Rightarrow> 64 word" where
  "word_from_le_bytes [] = 0"
| "word_from_le_bytes (b # bs) = of_nat b + 256 * word_from_le_bytes bs"

definition generate_id :: "id_type \<Rightarrow> block_number \<Rightarrow> 32 word \<Rightarrow> (unit, id) result" where
  "generate_id t block seq =
     (let b = word_of_int block
      in case t of
        IdTypeString \<Rightarrow> Inl ()
      | IdTypeBytes \<Rightarrow> Inr (IdBytes (to_be_bytes b @ to_be_bytes seq))
      | IdTypeInt8 \<Rightarrow> Inr (IdInt8 (sint (word_from_le_bytes (to_le_bytes seq @ to_le_bytes b)))))"

lemma bytes_of_nat:
  "(n :: nat) < 2 ^ 32 \<Longrightarrow>
     n mod 256 + 256 * (n div 2 ^ 8 mod 256 + 256 * (n div 2 ^ 16 mod 256 + 256 * (n div 2 ^ 24 mod 256))) = n"
proof -
  assume n: "n < 2 ^ 32"
  have "n div 2 ^ 24 < 256" using n by (simp add: less_mult_imp_div_less)
  moreover have "n div 2 ^ 16 = n div 2 ^ 8 div 256" "n div 2 ^ 24 = n div 2 ^ 8 div 256 div 256"
    by (simp_all flip: div_mult2_eq)
  ultimately have "n div 2 ^ 8 mod 256 + 256 * (n div 2 ^ 16 mod 256 + 256 * (n div 2 ^ 24 mod 256)) = n div 2 ^ 8"
    by (simp only: mod_less mod_mult_div_eq mult.commute)
  then have "n mod 256 + 256 * (n div 2 ^ 8 mod 256 + 256 * (n div 2 ^ 16 mod 256 + 256 * (n div 2 ^ 24 mod 256))) =
      n mod 256 + 256 * (n div 2 ^ 8)" by (simp only:)
  also have "\<dots> = n" by simp
  finally show ?thesis .
qed

lemma unat_bound: "unat (w :: 32 word) < 2 ^ 32"
  using unsigned_less[of w, where ?'a = nat] by simp

lemma unat_word_shift: "unat (drop_bit n (w :: 32 word)) = unat w div 2 ^ n"
  unfolding unat_drop_bit_eq by (rule drop_bit_eq_div)

lemma be_bytes_inject: "to_be_bytes v = to_be_bytes w \<longleftrightarrow> v = w"
proof
  assume "to_be_bytes v = to_be_bytes w"
  then have "unat v mod 256 = unat w mod 256" "unat v div 2 ^ 8 mod 256 = unat w div 2 ^ 8 mod 256"
    "unat v div 2 ^ 16 mod 256 = unat w div 2 ^ 16 mod 256"
    "unat v div 2 ^ 24 mod 256 = unat w div 2 ^ 24 mod 256"
    unfolding to_be_bytes_def by (simp_all only: list.map list.inject unat_word_shift power_0 div_by_1)
  then have "unat v = unat w"
    using bytes_of_nat[of "unat v"] bytes_of_nat[of "unat w"] unat_bound[of v] unat_bound[of w] by metis
  then show "v = w" by (simp add: word_unat_eq_iff)
qed simp

lemma length_be_bytes: "length (to_be_bytes w) = 4"
  by (simp add: to_be_bytes_def)

lemma word_from_le_bytes_append:
  "word_from_le_bytes (xs @ ys) = word_from_le_bytes xs + 256 ^ length xs * word_from_le_bytes ys"
  by (induction xs) (simp_all add: algebra_simps)

lemma word_from_to_le_bytes: "word_from_le_bytes (to_le_bytes w) = of_nat (unat w)"
proof -
  have "word_from_le_bytes (to_le_bytes w) = of_nat (unat w mod 256 + 256 * (unat w div 2 ^ 8 mod 256
      + 256 * (unat w div 2 ^ 16 mod 256 + 256 * (unat w div 2 ^ 24 mod 256))))"
    by (simp add: to_le_bytes_def unat_word_shift)
  then show ?thesis unfolding bytes_of_nat[OF unat_bound] .
qed

text \<open>
  The \<open>vid\<close> that \<open>EntityCache::set\<close> computes, \<open>((block as i64) << 32) + seq as i64\<close>.
\<close>

definition block_vid :: "block_number \<Rightarrow> 32 word \<Rightarrow> int" where
  "block_vid block seq = sint (push_bit 32 (word_of_int block :: 64 word) + word_of_int (uint seq))"

lemma block_vid_int:
  assumes "i32_range block"
  shows "block_vid block seq = block * 2 ^ 32 + uint seq"
proof -
  have s: "0 \<le> uint seq" "uint seq < 4294967296" using uint_lt2p[of seq] by simp_all
  have "- 9223372036854775808 \<le> block * 4294967296 + uint seq"
    using s(1) assms unfolding i32_range_def by linarith
  moreover have "block * 4294967296 + uint seq < 9223372036854775808"
    using s(2) assms unfolding i32_range_def by linarith
  ultimately have t: "signed_take_bit 63 (block * 2 ^ 32 + uint seq) = block * 2 ^ 32 + uint seq"
    by (intro signed_take_bit_int_eq_self) simp_all
  have "push_bit 32 (word_of_int block :: 64 word) + word_of_int (uint seq) =
      word_of_int (block * 2 ^ 32 + uint seq)"
    by (simp add: push_bit_eq_mult)
  then have "block_vid block seq = sint (word_of_int (block * 2 ^ 32 + uint seq) :: 64 word)"
    by (simp only: block_vid_def)
  then show ?thesis unfolding sint_sbintrunc' using t by simp
qed

lemma generate_int8_id:
  assumes "i32_range block"
  shows "generate_id IdTypeInt8 block seq = Inr (IdInt8 (block_vid block seq))"
proof -
  have "(of_nat (unat (word_of_int block :: 32 word)) :: 64 word) * 2 ^ 32 = word_of_int block * 2 ^ 32"
  proof -
    have "int (unat (word_of_int block :: 32 word)) = block mod 2 ^ 32"
      by (simp add: uint_word_of_int take_bit_eq_mod)
    then have "of_nat (unat (word_of_int block :: 32 word)) = (word_of_int (block mod 2 ^ 32) :: 64 word)"
      by (metis of_int_of_nat_eq)
    then have "of_nat (unat (word_of_int block :: 32 word)) * 2 ^ 32 = (word_of_int (block mod 2 ^ 32 * 2 ^ 32) :: 64 word)"
      by simp
    also have "\<dots> = word_of_int (block * 2 ^ 32 mod (2 ^ 32 * 2 ^ 32))"
      by (rule arg_cong[OF mod_mult_mult2[symmetric]])
    also have "\<dots> = word_of_int (block * 2 ^ 32)"
    proof -
      have "(word_of_int (k mod 18446744073709551616) :: 64 word) = word_of_int k" for k
        by (simp add: word_uint_eq_iff uint_word_of_int)
      from this[of "block * 2 ^ 32"] show ?thesis by simp
    qed
    finally show ?thesis by simp
  qed
  moreover have "word_from_le_bytes (to_le_bytes seq @ to_le_bytes b) =
      of_nat (unat seq) + of_nat (unat b) * 2 ^ 32" for b
    unfolding word_from_le_bytes_append word_from_to_le_bytes by (simp add: to_le_bytes_def)
  ultimately show ?thesis by (simp add: generate_id_def block_vid_def push_bit_eq_mult add.commute)
qed

text \<open>Vids are ordered by the block and, within a block, by the sequence number.\<close>

lemma pair_less_iff:
  fixes a b x y m :: int
  assumes "0 \<le> x" and "x < m" and "0 \<le> y" and "y < m"
  shows "a * m + x < b * m + y \<longleftrightarrow> a < b \<or> a = b \<and> x < y"
proof -
  have mono: "(c + 1) * m \<le> d * m" if "c < d" for c d
    using that assms(1,2) by (intro mult_right_mono) simp_all
  consider "a < b" | "a = b" | "b < a" by linarith
  then show ?thesis
  proof cases
    case 1
    then show ?thesis using mono[OF 1] assms by (simp add: distrib_right)
  next
    case 3
    then show ?thesis using mono[OF 3] assms by (simp add: distrib_right)
  qed simp
qed

lemma block_vid_less_iff:
  assumes "i32_range block" and "i32_range block'"
  shows "block_vid block seq < block_vid block' seq' \<longleftrightarrow>
    block < block' \<or> block = block' \<and> uint seq < uint seq'"
proof -
  have "0 \<le> uint seq" "uint seq < 4294967296" "0 \<le> uint seq'" "uint seq' < 4294967296"
    using uint_lt2p[of seq] uint_lt2p[of seq'] by simp_all
  then show ?thesis unfolding block_vid_int[OF assms(1)] block_vid_int[OF assms(2)] by (simp add: pair_less_iff)
qed

lemma block_vid_inject:
  assumes "i32_range block" and "i32_range block'"
  shows "block_vid block seq = block_vid block' seq' \<longleftrightarrow> block = block' \<and> seq = seq'"
proof -
  have "block_vid block seq = block_vid block' seq' \<longleftrightarrow>
      \<not> block_vid block seq < block_vid block' seq' \<and> \<not> block_vid block' seq' < block_vid block seq"
    by linarith
  then show ?thesis unfolding block_vid_less_iff[OF assms] block_vid_less_iff[OF assms(2,1)]
    by (auto simp: word_uint_eq_iff)
qed

lemma i32_word_inject:
  "i32_range a \<Longrightarrow> i32_range b \<Longrightarrow> (word_of_int a :: 32 word) = word_of_int b \<longleftrightarrow> a = b"
proof
  assume r: "i32_range a" "i32_range b" and e: "(word_of_int a :: 32 word) = word_of_int b"
  have "signed_take_bit 31 n = n" if "i32_range n" for n
    using that by (intro signed_take_bit_int_eq_self) (simp_all add: i32_range_def)
  then have "sint (word_of_int n :: 32 word) = n" if "i32_range n" for n
    using that unfolding sint_sbintrunc' by simp
  then show "a = b" using r e by metis
qed simp

lemma generate_id_inject:
  assumes "i32_range block" and "i32_range block'"
    and "generate_id t block seq = Inr i" and "generate_id t block' seq' = Inr i"
  shows "block = block' \<and> seq = seq'"
proof (cases t)
  case IdTypeString
  with assms(3) show ?thesis by (simp add: generate_id_def)
next
  case IdTypeBytes
  then have "to_be_bytes (word_of_int block) @ to_be_bytes seq = to_be_bytes (word_of_int block') @ to_be_bytes seq'"
    using assms(3,4) by (auto simp: generate_id_def)
  then have "to_be_bytes (word_of_int block) = to_be_bytes (word_of_int block') \<and> to_be_bytes seq = to_be_bytes seq'"
    by (subst (asm) append_eq_append_conv) (simp_all only: length_be_bytes simp_thms)
  then show ?thesis using i32_word_inject[OF assms(1,2)] by (simp add: be_bytes_inject)
next
  case IdTypeInt8
  with assms(3,4) have "block_vid block seq = block_vid block' seq'"
    by (auto simp: generate_int8_id[OF assms(1)] generate_int8_id[OF assms(2)])
  then show ?thesis using block_vid_inject[OF assms(1,2)] by blast
qed

section \<open>Entities\<close>

type_synonym entity = "store_value object"

definition VID_FIELD :: string where
  "VID_FIELD = ''vid''"

definition ID :: string where
  "ID = ''id''"

datatype validation_error =
    UnknownEntityType entity_type id
  | MismatchedElementTypeInList string value_type nat
  | InvalidFieldType string value_type
  | MissingValueForNonNullableField string
  | CannotSetDerivedField string
  | UnknownKey string
  | MissingIDAttribute
  | UnsupportedTypeForIDAttribute

definition entity_get :: "entity \<Rightarrow> string \<Rightarrow> store_value option" where
  "entity_get self key = (if key = VID_FIELD then None else obj_get self key)"

definition entity_contains_key :: "entity \<Rightarrow> string \<Rightarrow> bool" where
  "entity_contains_key self key \<longleftrightarrow> key \<noteq> VID_FIELD \<and> obj_contains_key self key"

definition check_id :: "entity \<Rightarrow> (validation_error, unit) result" where
  "check_id self =
     (case entity_get self ID of
        None \<Rightarrow> Inl MissingIDAttribute
      | Some (VString s) \<Rightarrow> Inr ()
      | Some (VBytes b) \<Rightarrow> Inr ()
      | Some (VInt8 i) \<Rightarrow> Inr ()
      | _ \<Rightarrow> Inl UnsupportedTypeForIDAttribute)"

text \<open>\<open>make\<close>: insert all pairs and check the id. \<open>merge_iter\<close> is the same loop on an entity.\<close>

definition merge_iter :: "(string \<times> store_value) list \<Rightarrow> entity \<Rightarrow> (intern_error, entity) result" where
  "merge_iter kvs self =
     fold_res (\<lambda>(key, v) e. bind_res (obj_insert key v e) (\<lambda>(old, e'). Inr e')) kvs self"

definition entity_make :: "pool_ref \<Rightarrow> (string \<times> store_value) list \<Rightarrow> (validation_error, entity) result" where
  "entity_make pool kvs =
     (case merge_iter kvs (obj_new pool) of
        Inl (NotInterned key) \<Rightarrow> Inl (UnknownKey key)
      | Inr obj \<Rightarrow> bind_res (check_id obj) (\<lambda>u. Inr obj))"

text \<open>\<open>sorted\<close> and \<open>sorted_ref\<close>: the attributes except the vid, ordered by name.\<close>

definition entity_sorted :: "entity \<Rightarrow> (string \<times> store_value) list option" where
  "entity_sorted self = map_option (\<lambda>kvs. sort_key fst (filter (\<lambda>(k, v). k \<noteq> VID_FIELD) kvs)) (obj_iter self)"

text \<open>\<open>id\<close> and \<open>vid\<close> panic if the attribute is missing or has another type.\<close>

definition entity_id :: "entity \<Rightarrow> id option" where
  "entity_id self = (case entity_get self ID of None \<Rightarrow> None | Some v \<Rightarrow> id_try_from v)"

definition entity_vid :: "entity \<Rightarrow> int option" where
  "entity_vid self = (case obj_get self VID_FIELD of Some (VInt8 i) \<Rightarrow> Some i | _ \<Rightarrow> None)"

definition set_vid :: "int \<Rightarrow> entity \<Rightarrow> (intern_error, store_value option \<times> entity) result" where
  "set_vid vid self = obj_insert VID_FIELD (VInt8 vid) self"

definition entity_merge :: "entity \<Rightarrow> entity \<Rightarrow> entity option" where
  "entity_merge update self = obj_merge update self"

definition merge_remove_null_fields :: "entity \<Rightarrow> entity \<Rightarrow> (intern_error, entity) result option" where
  "merge_remove_null_fields update self =
     map_option (\<lambda>kvs. fold_res (\<lambda>(key, v) e.
         if v = VNull then Inr (snd (obj_remove VNull key e))
         else bind_res (obj_insert key v e) (\<lambda>(old, e'). Inr e')) kvs self)
       (obj_iter update)"

definition remove_null_fields :: "entity \<Rightarrow> entity option" where
  "remove_null_fields self = obj_retain (\<lambda>k v. v \<noteq> VNull) self"

definition entity_eq :: "entity \<Rightarrow> entity \<Rightarrow> bool option" where
  "entity_eq self other = eq_ignore_key self other VID_FIELD"

end
