(* ===== verification/Entity_Maps.thy ===== *)
theory Entity_Maps
  imports Entity_Data
begin

text \<open>
  Entities as maps from attribute names to values: what merging, removing nulls, comparing and
  sorting do to the map of an entity, and the validation of an entity against the fields of its
  type.
\<close>

section \<open>Entities over one pool\<close>

text \<open>All entities of a deployment use the pool of its schema.\<close>

definition entity_ok :: "pool_ref \<Rightarrow> entity \<Rightarrow> bool" where
  "entity_ok P e \<longleftrightarrow> obj_ok e \<and> obj_pool e = P"

definition words_of :: "pool_ref \<Rightarrow> string set" where
  "words_of P = set (pool_list (ref_pool P))"

lemma entity_ok_simps:
  "entity_ok P e \<Longrightarrow> obj_words e = words_of P"
  "entity_ok P e \<Longrightarrow> obj_ok e"
  "entity_ok P e \<Longrightarrow> entity_ok P f \<Longrightarrow> pools_agree e f"
  by (simp_all add: entity_ok_def obj_words_def words_of_def pools_agree_def)

lemma entity_ok_update: "entity_ok P e \<Longrightarrow> object_update e m e' \<Longrightarrow> entity_ok P e' \<and> obj_get e' = m"
  by (simp add: entity_ok_def object_update_def)

lemma entity_ok_words: "entity_ok P e \<Longrightarrow> dom (obj_get e) \<subseteq> words_of P"
  using obj_dom_words[of e] by (simp add: entity_ok_simps)

section \<open>Merging\<close>

definition drop_nulls :: "(string \<Rightarrow> store_value option) \<Rightarrow> (string \<Rightarrow> store_value option)" where
  "drop_nulls m = (\<lambda>k. if m k = Some VNull then None else m k)"

lemma drop_nulls_simps [simp]:
  "drop_nulls Map.empty = Map.empty"
  "drop_nulls (drop_nulls m) = drop_nulls m"
  by (simp_all add: drop_nulls_def fun_eq_iff)

text \<open>Setting attributes to the values of an update, where a null unsets the attribute.\<close>

definition update_map ::
    "(string \<Rightarrow> store_value option) \<Rightarrow> (string \<Rightarrow> store_value option) \<Rightarrow> (string \<Rightarrow> store_value option)" where
  "update_map m u = (\<lambda>k. case u k of None \<Rightarrow> m k | Some v \<Rightarrow> if v = VNull then None else Some v)"

lemma update_map_add:
  "update_map m (u ++ u') = update_map (update_map m u) u'"
  by (rule ext) (simp add: update_map_def map_add_def split: option.splits)

lemma drop_nulls_add: "drop_nulls (u ++ u') = update_map (drop_nulls u) u'"
  by (rule ext) (simp add: update_map_def drop_nulls_def map_add_def split: option.splits)

lemma drop_nulls_update: "drop_nulls (update_map m u) = update_map (drop_nulls m) u"
  by (rule ext) (simp add: update_map_def drop_nulls_def split: option.splits)

lemma drop_nulls_add_drop: "drop_nulls (drop_nulls u ++ u') = drop_nulls (u ++ u')"
  by (rule ext) (simp add: drop_nulls_def map_add_def split: option.splits)

lemma update_map_empty: "update_map Map.empty u = drop_nulls u"
  by (rule ext) (simp add: update_map_def drop_nulls_def split: option.splits)

lemma entity_merge_spec:
  assumes "entity_ok P e" and "entity_ok P u"
  obtains e' where "entity_merge u e = Some e'" "entity_ok P e'" "obj_get e' = obj_get e ++ obj_get u"
proof -
  obtain e' where "obj_merge u e = Some e'" "object_update e (obj_get e ++ obj_get u) e'"
    using obj_merge_spec[of e u] assms entity_ok_words[OF assms(2)] by (auto simp: entity_ok_simps)
  then show thesis using that entity_ok_update[OF assms(1)] by (auto simp: entity_merge_def)
qed

lemma remove_null_fields_spec:
  assumes "entity_ok P e"
  obtains e' where "remove_null_fields e = Some e'" "entity_ok P e'" "obj_get e' = drop_nulls (obj_get e)"
proof -
  obtain e' where "obj_retain (\<lambda>k v. v \<noteq> VNull) e = Some e'" and u: "object_update e
      (\<lambda>k. case obj_get e k of None \<Rightarrow> None | Some v \<Rightarrow> if v \<noteq> VNull then Some v else None) e'"
    using obj_retain_spec[of e "\<lambda>k v. v \<noteq> VNull"] assms by (auto simp: entity_ok_simps)
  moreover have "(\<lambda>k. case obj_get e k of None \<Rightarrow> None | Some v \<Rightarrow> if v \<noteq> VNull then Some v else None) =
      drop_nulls (obj_get e)"
    by (auto simp: drop_nulls_def fun_eq_iff split: option.splits)
  ultimately show thesis using that entity_ok_update[OF assms u] by (simp add: remove_null_fields_def)
qed

lemma merge_nulls_loop:
  assumes "entity_ok P e" and "fst ` set kvs \<subseteq> words_of P"
  shows "\<exists>e'. fold_res (\<lambda>(key, v) e.
         if v = VNull then Inr (snd (obj_remove VNull key e))
         else bind_res (obj_insert key v e) (\<lambda>(old, e'). Inr e')) kvs e = Inr e'
    \<and> entity_ok P e' \<and> obj_get e' = update_map (obj_get e) (map_of (rev kvs))"
  using assms
proof (induction kvs arbitrary: e)
  case Nil
  then show ?case by (simp add: update_map_def)
next
  case (Cons kv kvs)
  obtain k v where kv: "kv = (k, v)" by (cases kv)
  let ?step = "if v = VNull then Inr (snd (obj_remove VNull k e))
         else bind_res (obj_insert k v e) (\<lambda>(old, e'). Inr e')"
  have "\<exists>e1. ?step = Inr e1 \<and> entity_ok P e1 \<and> obj_get e1 = update_map (obj_get e) [k \<mapsto> v]"
  proof (cases "v = VNull")
    case True
    moreover have "(obj_get e)(k := None) = update_map (obj_get e) [k \<mapsto> VNull]"
      by (auto simp: update_map_def)
    ultimately show ?thesis
      using obj_remove_spec[of e VNull k] Cons.prems(1) entity_ok_update[OF Cons.prems(1)]
      by (auto simp: entity_ok_simps)
  next
    case False
    have "k \<in> obj_words e" using Cons.prems by (auto simp: kv entity_ok_simps)
    then obtain e1 where "obj_insert k v e = Inr (obj_get e k, e1)" "object_update e ((obj_get e)(k \<mapsto> v)) e1"
      using obj_insert_Inr[of e k v] Cons.prems(1) by (auto simp: entity_ok_simps)
    moreover have "(obj_get e)(k \<mapsto> v) = update_map (obj_get e) [k \<mapsto> v]"
      using False by (auto simp: update_map_def)
    ultimately show ?thesis using False entity_ok_update[OF Cons.prems(1)] by auto
  qed
  then obtain e1 where e1: "?step = Inr e1" "entity_ok P e1" "obj_get e1 = update_map (obj_get e) [k \<mapsto> v]"
    by blast
  moreover have "update_map (update_map (obj_get e) [k \<mapsto> v]) (map_of (rev kvs)) =
      update_map (obj_get e) (map_of (rev (kv # kvs)))"
    by (simp add: kv update_map_add[symmetric])
  ultimately show ?case using Cons.IH[OF e1(2)] Cons.prems(2) by (simp add: kv)
qed

lemma merge_remove_null_fields_spec:
  assumes "entity_ok P e" and "entity_ok P u"
  obtains e' where "merge_remove_null_fields u e = Some (Inr e')" "entity_ok P e'"
    "obj_get e' = update_map (obj_get e) (obj_get u)"
proof -
  have u: "obj_ok u" using assms(2) by (rule entity_ok_simps)
  have m: "map_of (rev (obj_list u)) = obj_get u"
    using map_of_rev_distinct[OF obj_list_distinct[OF u]] obj_list_map[OF u] by simp
  have "fst ` set (obj_list u) \<subseteq> words_of P"
    using entity_ok_words[OF assms(2)] by (simp add: obj_dom[OF u])
  from merge_nulls_loop[OF assms(1) this] m show thesis
    using that by (auto simp: merge_remove_null_fields_def obj_iter_list[OF u])
qed

section \<open>Equality, vids and the order of attributes\<close>

text \<open>The map without the vid is what a mapping and a query see of an entity.\<close>

definition public_attrs :: "entity \<Rightarrow> (string \<Rightarrow> store_value option)" where
  "public_attrs e = entity_get e"

lemma visible_alt: "public_attrs e = (obj_get e)(VID_FIELD := None)"
  by (auto simp: public_attrs_def entity_get_def)

lemma entity_eq_visible:
  "entity_ok P e \<Longrightarrow> entity_ok P f \<Longrightarrow> entity_eq e f = Some (public_attrs e = public_attrs f)"
  by (simp add: entity_eq_def eq_ignore_key_iff entity_ok_simps obj_without_def visible_alt)

lemma set_vid_spec:
  assumes "entity_ok P e" and "VID_FIELD \<in> words_of P"
  obtains e' where "set_vid vid e = Inr (obj_get e VID_FIELD, e')" "entity_ok P e'"
    "obj_get e' = (obj_get e)(VID_FIELD \<mapsto> VInt8 vid)"
proof -
  have "obj_ok e" "VID_FIELD \<in> obj_words e" using assms by (simp_all add: entity_ok_simps)
  then obtain e' where "obj_insert VID_FIELD (VInt8 vid) e = Inr (obj_get e VID_FIELD, e')"
    "object_update e ((obj_get e)(VID_FIELD \<mapsto> VInt8 vid)) e'" by (rule obj_insert_Inr)
  then show thesis using that entity_ok_update[OF assms(1)] by (simp add: set_vid_def)
qed

lemma entity_vid_set:
  "obj_get e' = (obj_get e)(VID_FIELD \<mapsto> VInt8 vid) \<Longrightarrow> entity_vid e' = Some vid \<and> public_attrs e' = public_attrs e"
  by (simp add: entity_vid_def visible_alt)

lemma entity_sorted_spec:
  assumes "entity_ok P e"
  shows "\<exists>kvs. entity_sorted e = Some kvs \<and> map_of kvs = public_attrs e \<and> sorted (map fst kvs) \<and> distinct (map fst kvs)"
proof -
  let ?xs = "filter (\<lambda>(k, v). k \<noteq> VID_FIELD) (obj_list e)"
  have ok: "obj_ok e" using assms by (rule entity_ok_simps)
  have d: "distinct (map fst ?xs)" by (rule distinct_map_filter[OF obj_list_distinct[OF ok]])
  then have d': "distinct (map fst (sort_key fst ?xs))" by (auto simp: distinct_map)
  have "map_of (sort_key fst ?xs) = map_of ?xs" using d d' by (intro map_of_eqI) auto
  also have "\<dots> = public_attrs e"
    using map_of_filter_key[of VID_FIELD "obj_list e"]
    by (simp add: split_beta' visible_alt obj_list_map[OF ok])
  finally show ?thesis using d' by (simp add: entity_sorted_def obj_iter_list[OF ok])
qed

text \<open>Equal entities, whatever the order of their entries and their tombstones, sort alike.\<close>

lemma entity_sorted_unique:
  assumes "entity_ok P e" and "entity_ok P f" and "public_attrs e = public_attrs f"
  shows "entity_sorted e = entity_sorted f"
proof -
  from entity_sorted_spec[OF assms(1)] entity_sorted_spec[OF assms(2)] assms(3)
  obtain xs ys where xs: "entity_sorted e = Some xs" "sorted (map fst xs)" "distinct (map fst xs)"
    and ys: "entity_sorted f = Some ys" "sorted (map fst ys)" "distinct (map fst ys)"
    and m: "map_of xs = map_of ys" by auto
  have "set xs = set ys" using m xs(3) ys(3) by (simp add: map_of_inject_set)
  then have "map fst xs = map fst ys"
    using xs ys by (intro sorted_distinct_set_unique) auto
  moreover have "map snd xs = map (\<lambda>k. the (map_of xs k)) (map fst xs)" if "distinct (map fst xs)"
    for xs :: "(string \<times> store_value) list"
    using that by (auto simp: map_of_eq_Some_iff intro!: map_cong)
  from this[OF xs(3)] this[OF ys(3)] m calculation have "map snd xs = map snd ys" by simp
  ultimately have "xs = ys" by (metis zip_map_fst_snd)
  with xs ys show ?thesis by simp
qed

text \<open>Making an entity: the map of the pairs, the last one for a name counting.\<close>

lemma merge_iter_spec:
  "entity_ok P e \<Longrightarrow> case merge_iter kvs e of
     Inl (NotInterned key) \<Rightarrow> key \<in> fst ` set kvs \<and> key \<notin> words_of P
   | Inr e' \<Rightarrow> entity_ok P e' \<and> obj_get e' = obj_get e ++ map_of (rev kvs) \<and> fst ` set kvs \<subseteq> words_of P"
proof (induction kvs arbitrary: e)
  case (Cons kv kvs)
  obtain k v where kv: "kv = (k, v)" by (cases kv)
  have ok: "obj_ok e" "obj_words e = words_of P" using Cons.prems by (simp_all add: entity_ok_simps)
  show ?case
  proof (cases "k \<in> words_of P")
    case True
    with ok obtain e1 where e1: "obj_insert k v e = Inr (obj_get e k, e1)" "object_update e ((obj_get e)(k \<mapsto> v)) e1"
      by (metis obj_insert_Inr)
    have "entity_ok P e1" "obj_get e1 = (obj_get e)(k \<mapsto> v)" using entity_ok_update[OF Cons.prems e1(2)] by simp_all
    with Cons.IH[of e1] True show ?thesis
      by (simp add: kv merge_iter_def e1(1) split: sum.splits intern_error.splits)
  next
    case False
    then show ?thesis
      using obj_insert_spec[OF ok(1), of k v] ok(2) by (auto simp: kv merge_iter_def split: sum.splits)
  qed
qed (simp add: merge_iter_def)

lemma entity_make_spec:
  assumes "pool_ok (ref_pool P)" and "entity_make P kvs = Inr e"
  shows "entity_ok P e" and "obj_get e = map_of (rev kvs)" and "entity_id e \<noteq> None"
proof -
  have new: "entity_ok P (obj_new P)" using assms(1) by (simp add: entity_ok_def obj_new_ok) (simp add: obj_new_def)
  have e: "merge_iter kvs (obj_new P) = Inr e" "check_id e = Inr ()"
    using assms(2) by (auto simp: entity_make_def bind_res_Inr_iff split: sum.splits intern_error.splits)
  show "entity_ok P e" "obj_get e = map_of (rev kvs)"
    using merge_iter_spec[OF new, of kvs] e(1) by (simp_all add: obj_new_get)
  show "entity_id e \<noteq> None" using e(2) by (auto simp: check_id_def entity_id_def split: option.splits store_value.splits)
qed

section \<open>Validation\<close>

text \<open>Types of fields: the abstract syntax of GraphQL types.\<close>

datatype schema_type = NamedType string | NonNullType schema_type | ListType schema_type

fun get_base_type :: "schema_type \<Rightarrow> string" where
  "get_base_type (NamedType name) = name"
| "get_base_type (NonNullType inner) = get_base_type inner"
| "get_base_type (ListType inner) = get_base_type inner"

fun type_is_list :: "schema_type \<Rightarrow> bool" where
  "type_is_list (NamedType name) = False"
| "type_is_list (NonNullType inner) = type_is_list inner"
| "type_is_list (ListType inner) = True"

fun type_is_non_null :: "schema_type \<Rightarrow> bool" where
  "type_is_non_null (NonNullType inner) = True"
| "type_is_non_null t = False"

record field =
  f_name :: string
  f_type :: schema_type
  f_value_type :: value_type
  f_derived_from :: "string option"

definition field_is_derived :: "field \<Rightarrow> bool" where
  "field_is_derived f \<longleftrightarrow> f_derived_from f \<noteq> None"

definition POI_OBJECT :: string where
  "POI_OBJECT = ''Poi$''"

text \<open>The first element of a list that can not be assigned, for the better error message.\<close>

fun mismatched_element :: "value_type \<Rightarrow> nat \<Rightarrow> store_value list \<Rightarrow> nat option" where
  "mismatched_element t n [] = None"
| "mismatched_element t n (v # vs) =
     (if \<not> is_assignable v t False then Some n else mismatched_element t (Suc n) vs)"

definition validate_field :: "entity \<Rightarrow> field \<Rightarrow> (validation_error, unit) result" where
  "validate_field self f =
     (case (entity_get self (f_name f), field_is_derived f) of
        (Some v, False) \<Rightarrow>
          (case (if type_is_list (f_type f)
                 then (case v of VList elts \<Rightarrow> mismatched_element (f_value_type f) 0 elts | _ \<Rightarrow> None)
                 else None) of
             Some index \<Rightarrow> Inl (MismatchedElementTypeInList (f_name f) (f_value_type f) index)
           | None \<Rightarrow>
               if \<not> is_assignable v (f_value_type f) (type_is_list (f_type f))
               then Inl (InvalidFieldType (f_name f) (f_value_type f)) else Inr ())
      | (None, False) \<Rightarrow>
          if type_is_non_null (f_type f) then Inl (MissingValueForNonNullableField (f_name f)) else Inr ()
      | (Some v, True) \<Rightarrow> Inl (CannotSetDerivedField (f_name f))
      | (None, True) \<Rightarrow> Inr ())"

text \<open>\<open>object_type\<close> looks up the fields of an entity type in the schema.\<close>

definition validate :: "(entity_type \<Rightarrow> field list option) \<Rightarrow> entity_key \<Rightarrow> entity
    \<Rightarrow> (validation_error, unit) result" where
  "validate object_type key self =
     (if key_type key = POI_OBJECT then Inr ()
      else (case object_type (key_type key) of
              None \<Rightarrow> Inl (UnknownEntityType (key_type key) (key_id key))
            | Some fs \<Rightarrow> fold_res (\<lambda>f u. validate_field self f) fs ()))"

text \<open>What a valid field is: the errors are exactly the violations.\<close>

definition field_conforms :: "(string \<Rightarrow> store_value option) \<Rightarrow> field \<Rightarrow> bool" where
  "field_conforms m f \<longleftrightarrow>
     (case m (f_name f) of
        None \<Rightarrow> field_is_derived f \<or> \<not> type_is_non_null (f_type f)
      | Some v \<Rightarrow> \<not> field_is_derived f \<and> is_assignable v (f_value_type f) (type_is_list (f_type f)))"

lemma mismatched_element_None:
  "mismatched_element t n vs = None \<longleftrightarrow> list_all (\<lambda>v. is_assignable v t False) vs"
  by (induction vs arbitrary: n) auto

lemma validate_field_iff: "validate_field e f = Inr () \<longleftrightarrow> field_conforms (public_attrs e) f"
  unfolding validate_field_def field_conforms_def public_attrs_def
  by (cases "field_is_derived f"; cases "entity_get e (f_name f)")
     (auto simp: mismatched_element_None[of _ 0, symmetric] split: option.splits store_value.splits)

lemma validate_iff:
  "validate object_type key e = Inr () \<longleftrightarrow> key_type key = POI_OBJECT
    \<or> (\<exists>fs. object_type (key_type key) = Some fs \<and> (\<forall>f \<in> set fs. field_conforms (public_attrs e) f))"
proof -
  have "fold_res (\<lambda>f u. validate_field e f) fs () = Inr () \<longleftrightarrow> (\<forall>f \<in> set fs. field_conforms (public_attrs e) f)" for fs
    by (induction fs) (auto simp: bind_res_Inr_iff validate_field_iff)
  then show ?thesis by (auto simp: validate_def split: option.splits)
qed

text \<open>
  An explicit null is valid for every field that is not derived, also for a field that must not be
  null; dropping the nulls of a valid entity can therefore make it invalid.
\<close>

lemma null_conforms: "m (f_name f) = Some VNull \<Longrightarrow> field_conforms m f \<longleftrightarrow> \<not> field_is_derived f"
  by (simp add: field_conforms_def)

end
