(* ===== verification/Lfu_Cache.thy ===== *)
theory Lfu_Cache
  imports Prelude "HOL-Library.Word" "HOL-Library.Product_Lexorder"
begin

text \<open>
  The cache with least-frequently-used eviction, \<open>graph/src/util/lfu_cache.rs\<close>. Its priority
  queue comes from the crate \<open>priority_queue\<close>, which is a parameter of the definitions: the record
  of the operations that the cache calls, with their documented behaviour as the predicate
  \<open>pq_laws\<close>. Weights are of type \<open>usize\<close> and wrap around in 64 bits; access counts are natural
  numbers.
\<close>

section \<open>Priorities\<close>

text \<open>\<open>std::cmp::Reverse\<close>: the order of the wrapped type, reversed.\<close>

datatype 'a reverse = Reverse (unreverse: 'a)

instantiation reverse :: (linorder) linorder
begin

definition less_eq_reverse :: "'a reverse \<Rightarrow> 'a reverse \<Rightarrow> bool" where
  "less_eq_reverse x y \<longleftrightarrow> unreverse y \<le> unreverse x"

definition less_reverse :: "'a reverse \<Rightarrow> 'a reverse \<Rightarrow> bool" where
  "less_reverse x y \<longleftrightarrow> unreverse y < unreverse x"

instance
  by standard (auto simp: less_eq_reverse_def less_reverse_def reverse.expand)

end

text \<open>First whether the entry is stale, then the reversed frequency: pairs are compared lexically.\<close>

type_synonym priority = "bool \<times> nat reverse"

lemma priority_le: "(s, Reverse f) \<le> ((s', Reverse f') :: priority) \<longleftrightarrow> (s < s' \<or> s = s' \<and> f' \<le> f)"
  by (cases s; cases s') (simp_all add: less_eq_reverse_def less_le_not_le)

section \<open>The priority queue\<close>

record ('k, 'v) cache_entry =
  ce_weight :: "64 word"
  ce_key :: 'k
  ce_value :: 'v
  ce_will_stale :: bool

text \<open>
  \<open>PartialEq\<close> and \<open>Hash\<close> of an entry are those of its key, so a queue is addressed by keys.
  \<open>pq_get_mut\<close> applies the changes that the caller makes through the reference it gets.
\<close>

record ('q, 'k, 'v) priority_queue =
  pq_new :: 'q
  pq_push :: "('k, 'v) cache_entry \<Rightarrow> priority \<Rightarrow> 'q \<Rightarrow> 'q"
  pq_get :: "'q \<Rightarrow> 'k \<Rightarrow> (('k, 'v) cache_entry \<times> priority) option"
  pq_get_mut :: "'k \<Rightarrow> (('k, 'v) cache_entry \<Rightarrow> ('k, 'v) cache_entry) \<Rightarrow> 'q \<Rightarrow> 'q"
  pq_change_priority :: "'k \<Rightarrow> priority \<Rightarrow> 'q \<Rightarrow> priority option \<times> 'q"
  pq_change_priority_by :: "'k \<Rightarrow> (priority \<Rightarrow> priority) \<Rightarrow> 'q \<Rightarrow> 'q"
  pq_pop :: "'q \<Rightarrow> ((('k, 'v) cache_entry \<times> priority) \<times> 'q) option"
  pq_len :: "'q \<Rightarrow> nat"
  pq_iter_mut :: "(('k, 'v) cache_entry \<Rightarrow> priority \<Rightarrow> ('k, 'v) cache_entry \<times> priority) \<Rightarrow> 'q \<Rightarrow> 'q"
  pq_into_iter :: "'q \<Rightarrow> (('k, 'v) cache_entry \<times> priority) list"
  pq_extend :: "(('k, 'v) cache_entry \<times> priority) list \<Rightarrow> 'q \<Rightarrow> 'q"

text \<open>
  The documented behaviour: a queue is a finite map from items to items with priorities, \<open>pop\<close>
  removes an item of the greatest priority, and pushing and extending add items that are not there.
\<close>

definition pq_laws :: "('q, 'k, 'v) priority_queue \<Rightarrow> bool" where
  "pq_laws Q \<longleftrightarrow>
     pq_get Q (pq_new Q) = Map.empty
     \<and> (\<forall>q k e p. pq_get Q q k = Some (e, p) \<longrightarrow> ce_key e = k)
     \<and> (\<forall>q. finite (dom (pq_get Q q)) \<and> pq_len Q q = card (dom (pq_get Q q)))
     \<and> (\<forall>q e p. pq_get Q q (ce_key e) = None \<longrightarrow> pq_get Q (pq_push Q e p q) = (pq_get Q q)(ce_key e \<mapsto> (e, p)))
     \<and> (\<forall>q k f. (\<forall>e. ce_key (f e) = ce_key e) \<longrightarrow>
          pq_get Q (pq_get_mut Q k f q) = (pq_get Q q)(k := map_option (\<lambda>(e, p). (f e, p)) (pq_get Q q k)))
     \<and> (\<forall>q k p. fst (pq_change_priority Q k p q) = map_option snd (pq_get Q q k)
          \<and> pq_get Q (snd (pq_change_priority Q k p q)) =
              (pq_get Q q)(k := map_option (\<lambda>(e, p'). (e, p)) (pq_get Q q k)))
     \<and> (\<forall>q k f. pq_get Q (pq_change_priority_by Q k f q) =
              (pq_get Q q)(k := map_option (\<lambda>(e, p). (e, f p)) (pq_get Q q k)))
     \<and> (\<forall>q. pq_pop Q q = None \<longleftrightarrow> pq_get Q q = Map.empty)
     \<and> (\<forall>q e p q'. pq_pop Q q = Some ((e, p), q') \<longrightarrow>
          pq_get Q q (ce_key e) = Some (e, p) \<and> pq_get Q q' = (pq_get Q q)(ce_key e := None)
          \<and> (\<forall>k e' p'. pq_get Q q k = Some (e', p') \<longrightarrow> p' \<le> p))
     \<and> (\<forall>q f. (\<forall>e p. ce_key (fst (f e p)) = ce_key e) \<longrightarrow>
          pq_get Q (pq_iter_mut Q f q) = (\<lambda>k. map_option (\<lambda>(e, p). f e p) (pq_get Q q k)))
     \<and> (\<forall>q. distinct (map (ce_key \<circ> fst) (pq_into_iter Q q))
          \<and> (\<forall>e p. (e, p) \<in> set (pq_into_iter Q q) \<longleftrightarrow> pq_get Q q (ce_key e) = Some (e, p)))
     \<and> (\<forall>q es. distinct (map (ce_key \<circ> fst) es) \<and> (\<forall>(e, p) \<in> set es. pq_get Q q (ce_key e) = None) \<longrightarrow>
          pq_get Q (pq_extend Q es q) = pq_get Q q ++ map_of (map (\<lambda>(e, p). (ce_key e, (e, p))) es))"

section \<open>The cache\<close>

record 'q lfu_cache =
  lfu_queue :: 'q
  lfu_total_weight :: "64 word"
  lfu_stale_counter :: nat
  lfu_dead_weight :: bool
  lfu_accesses :: nat
  lfu_hits :: nat

record evict_stats =
  es_new_weight :: "64 word"
  es_evicted_weight :: "64 word"
  es_new_count :: nat
  es_evicted_count :: nat
  es_stale_update :: bool
  es_accesses :: nat
  es_hits :: nat

text \<open>
  The sizes are parameters: \<open>entry_weight\<close> is \<open>CacheEntry::weight\<close>, the sum of the indirect weights
  of key and value, and \<open>entry_size\<close> the size of an entry in memory.
\<close>

record ('k, 'v) sizes =
  entry_weight :: "'k \<Rightarrow> 'v \<Rightarrow> 64 word"
  entry_size :: "64 word"

definition STALE_PERIOD :: nat where
  "STALE_PERIOD = 100"

text \<open>\<open>new\<close> takes the dead weight flag from the environment; \<open>default\<close> sets it to false.\<close>

definition lfu_new :: "('q, 'k, 'v) priority_queue \<Rightarrow> bool \<Rightarrow> 'q lfu_cache" where
  "lfu_new Q dead_weight = \<lparr>lfu_queue = pq_new Q, lfu_total_weight = 0, lfu_stale_counter = 0,
     lfu_dead_weight = dead_weight, lfu_accesses = 0, lfu_hits = 0\<rparr>"

text \<open>
  \<open>get_mut\<close> bumps the frequency of the entry and clears its mark; \<open>f\<close> is what the caller does with
  the reference.
\<close>

definition lfu_get_mut :: "('q, 'k, 'v) priority_queue \<Rightarrow> (('k, 'v) cache_entry \<Rightarrow> ('k, 'v) cache_entry)
    \<Rightarrow> 'k \<Rightarrow> 'q lfu_cache \<Rightarrow> ('k, 'v) cache_entry option \<times> 'q lfu_cache" where
  "lfu_get_mut Q f key self =
     (let queue = pq_change_priority_by Q key (\<lambda>(s, f). (s, Reverse (unreverse f + 1))) (lfu_queue self);
          self = self\<lparr>lfu_queue := queue, lfu_accesses := lfu_accesses self + 1\<rparr>
      in case pq_get Q queue key of
           None \<Rightarrow> (None, self)
         | Some (e, p) \<Rightarrow>
             (Some (e\<lparr>ce_will_stale := False\<rparr>),
              self\<lparr>lfu_queue := pq_get_mut Q key (\<lambda>e. f (e\<lparr>ce_will_stale := False\<rparr>)) queue,
                   lfu_hits := lfu_hits self + 1\<rparr>))"

definition lfu_insert :: "('q, 'k, 'v) priority_queue \<Rightarrow> ('k, 'v) sizes \<Rightarrow> 'k \<Rightarrow> 'v \<Rightarrow> 'q lfu_cache \<Rightarrow> 'q lfu_cache" where
  "lfu_insert Q S key v self =
     (let weight = entry_weight S key v
      in case lfu_get_mut Q (\<lambda>e. e\<lparr>ce_weight := weight, ce_value := v\<rparr>) key self of
           (None, self) \<Rightarrow>
             self\<lparr>lfu_total_weight := lfu_total_weight self + weight,
                  lfu_queue := pq_push Q \<lparr>ce_weight = weight, ce_key = key, ce_value = v, ce_will_stale = False\<rparr>
                    (False, Reverse 1) (lfu_queue self)\<rparr>
         | (Some entry, self) \<Rightarrow>
             self\<lparr>lfu_total_weight := lfu_total_weight self - ce_weight entry + weight\<rparr>)"

definition lfu_get :: "('q, 'k, 'v) priority_queue \<Rightarrow> 'k \<Rightarrow> 'q lfu_cache \<Rightarrow> 'v option \<times> 'q lfu_cache" where
  "lfu_get Q key self = map_prod (map_option ce_value) id (lfu_get_mut Q id key self)"

text \<open>
  \<open>remove\<close> sets the priority to the greatest one and pops; it asserts that it popped the right entry.
  \<open>None\<close> is the failed assertion.
\<close>

definition lfu_remove :: "('q, 'k, 'v) priority_queue \<Rightarrow> 'k \<Rightarrow> 'q lfu_cache \<Rightarrow> ('v option \<times> 'q lfu_cache) option" where
  "lfu_remove Q key self =
     (case pq_change_priority Q key (True, Reverse 0) (lfu_queue self) of
        (None, queue) \<Rightarrow> Some (None, self\<lparr>lfu_queue := queue\<rparr>)
      | (Some p, queue) \<Rightarrow>
          (case pq_pop Q queue of
             None \<Rightarrow> Some (None, self\<lparr>lfu_queue := queue\<rparr>)
           | Some ((e, p), queue) \<Rightarrow>
               if ce_key e \<noteq> key then None
               else Some (Some (ce_value e), self\<lparr>lfu_queue := queue, lfu_total_weight := lfu_total_weight self - ce_weight e\<rparr>)))"

definition lfu_contains_key :: "('q, 'k, 'v) priority_queue \<Rightarrow> 'k \<Rightarrow> 'q lfu_cache \<Rightarrow> bool" where
  "lfu_contains_key Q key self \<longleftrightarrow> pq_get Q (lfu_queue self) key \<noteq> None"

definition lfu_len :: "('q, 'k, 'v) priority_queue \<Rightarrow> 'q lfu_cache \<Rightarrow> nat" where
  "lfu_len Q self = pq_len Q (lfu_queue self)"

definition lfu_is_empty :: "('q, 'k, 'v) priority_queue \<Rightarrow> 'q lfu_cache \<Rightarrow> bool" where
  "lfu_is_empty Q self \<longleftrightarrow> lfu_len Q self = 0"

text \<open>\<open>Extend\<close> only extends the queue.\<close>

definition lfu_extend :: "('q, 'k, 'v) priority_queue \<Rightarrow> 'q lfu_cache \<Rightarrow> 'q lfu_cache \<Rightarrow> 'q lfu_cache" where
  "lfu_extend Q other self = self\<lparr>lfu_queue := pq_extend Q (pq_into_iter Q (lfu_queue other)) (lfu_queue self)\<rparr>"

text \<open>
  Eviction. The dead weight is computed once, before the loop. The loop panics, which is \<open>Inl ()\<close>,
  when it finds the queue empty.
\<close>

definition mark_stale :: "('k, 'v) cache_entry \<Rightarrow> priority \<Rightarrow> ('k, 'v) cache_entry \<times> priority" where
  "mark_stale e p = (e\<lparr>ce_will_stale := True\<rparr>, (ce_will_stale e, snd p))"

partial_function (option) evict_loop :: "('q, 'k, 'v) priority_queue \<Rightarrow> 64 word \<Rightarrow> 64 word \<Rightarrow> 64 word
    \<Rightarrow> 'q lfu_cache \<Rightarrow> (unit, 64 word \<times> 'q lfu_cache) result option" where
  "evict_loop Q dead_weight max_weight evicted self =
     (if lfu_total_weight self + dead_weight > max_weight
      then (case pq_pop Q (lfu_queue self) of
              None \<Rightarrow> Some (Inl ())
            | Some (entry, queue) \<Rightarrow>
                evict_loop Q dead_weight max_weight (evicted + ce_weight (fst entry))
                  (self\<lparr>lfu_queue := queue, lfu_total_weight := lfu_total_weight self - ce_weight (fst entry)\<rparr>))
      else Some (Inr (evicted, self)))"

declare evict_loop.simps [code]

definition count_stale :: "('q, 'k, 'v) priority_queue \<Rightarrow> nat \<Rightarrow> 'q lfu_cache \<Rightarrow> 'q lfu_cache" where
  "count_stale Q stale_period self =
     (let self = self\<lparr>lfu_stale_counter := lfu_stale_counter self + 1\<rparr>
      in if lfu_stale_counter self = stale_period
         then self\<lparr>lfu_stale_counter := 0, lfu_accesses := 0, lfu_hits := 0,
                   lfu_queue := pq_iter_mut Q mark_stale (lfu_queue self)\<rparr>
         else self)"

definition dead_weight_of :: "('q, 'k, 'v) priority_queue \<Rightarrow> ('k, 'v) sizes \<Rightarrow> 'q lfu_cache \<Rightarrow> 64 word" where
  "dead_weight_of Q S self =
     (if lfu_dead_weight self then of_nat (lfu_len Q self) * (entry_size S + 40) else 0)"

definition evict_with_period :: "('q, 'k, 'v) priority_queue \<Rightarrow> ('k, 'v) sizes \<Rightarrow> 64 word \<Rightarrow> nat
    \<Rightarrow> 'q lfu_cache \<Rightarrow> (unit, evict_stats option \<times> 'q lfu_cache) result option" where
  "evict_with_period Q S max_weight stale_period self =
     (if lfu_total_weight self \<le> max_weight then Some (Inr (None, self))
      else
        let marked = count_stale Q stale_period self
        in bind_run (evict_loop Q (dead_weight_of Q S marked) max_weight 0 marked)
             (\<lambda>(evicted, new). Some (Inr (Some
               \<lparr>es_new_weight = lfu_total_weight new, es_evicted_weight = evicted,
                es_new_count = lfu_len Q new, es_evicted_count = lfu_len Q marked - lfu_len Q new,
                es_stale_update = (lfu_stale_counter new = 0),
                es_accesses = lfu_accesses self, es_hits = lfu_hits self\<rparr>, new))))"

definition evict :: "('q, 'k, 'v) priority_queue \<Rightarrow> ('k, 'v) sizes \<Rightarrow> 64 word
    \<Rightarrow> 'q lfu_cache \<Rightarrow> (unit, evict_stats option \<times> 'q lfu_cache) result option" where
  "evict Q S max_weight self = evict_with_period Q S max_weight STALE_PERIOD self"

definition evict_and_stats :: "('q, 'k, 'v) priority_queue \<Rightarrow> ('k, 'v) sizes \<Rightarrow> 64 word
    \<Rightarrow> 'q lfu_cache \<Rightarrow> (unit, evict_stats \<times> 'q lfu_cache) result option" where
  "evict_and_stats Q S max_weight self =
     bind_run (evict_with_period Q S max_weight STALE_PERIOD self)
       (\<lambda>(stats, new). Some (Inr (case stats of
            Some st \<Rightarrow> st
          | None \<Rightarrow> \<lparr>es_new_weight = lfu_total_weight new, es_evicted_weight = 0,
                      es_new_count = lfu_len Q new, es_evicted_count = 0, es_stale_update = False,
                      es_accesses = 0, es_hits = 0\<rparr>, new)))"


section \<open>The cache as a map\<close>

lemma pq_law:
  assumes "pq_laws Q"
  shows pq_new_law: "pq_get Q (pq_new Q) = Map.empty"
    and pq_key_law: "\<And>q k e p. pq_get Q q k = Some (e, p) \<Longrightarrow> ce_key e = k"
    and pq_finite_law: "\<And>q. finite (dom (pq_get Q q))"
    and pq_len_law: "\<And>q. pq_len Q q = card (dom (pq_get Q q))"
    and pq_push_law: "\<And>q e p. pq_get Q q (ce_key e) = None \<Longrightarrow>
        pq_get Q (pq_push Q e p q) = (pq_get Q q)(ce_key e \<mapsto> (e, p))"
    and pq_get_mut_law: "\<And>q k f. (\<And>e. ce_key (f e) = ce_key e) \<Longrightarrow>
        pq_get Q (pq_get_mut Q k f q) = (pq_get Q q)(k := map_option (\<lambda>(e, p). (f e, p)) (pq_get Q q k))"
    and pq_change_law: "\<And>q k p. fst (pq_change_priority Q k p q) = map_option snd (pq_get Q q k)"
      "\<And>q k p. pq_get Q (snd (pq_change_priority Q k p q)) =
        (pq_get Q q)(k := map_option (\<lambda>(e, p'). (e, p)) (pq_get Q q k))"
    and pq_change_by_law: "\<And>q k f. pq_get Q (pq_change_priority_by Q k f q) =
        (pq_get Q q)(k := map_option (\<lambda>(e, p). (e, f p)) (pq_get Q q k))"
    and pq_pop_None_law: "\<And>q. pq_pop Q q = None \<longleftrightarrow> pq_get Q q = Map.empty"
    and pq_pop_law: "\<And>q e p q'. pq_pop Q q = Some ((e, p), q') \<Longrightarrow>
        pq_get Q q (ce_key e) = Some (e, p) \<and> pq_get Q q' = (pq_get Q q)(ce_key e := None)"
    and pq_max_law: "\<And>q e p q' k e' p'. pq_pop Q q = Some ((e, p), q') \<Longrightarrow>
        pq_get Q q k = Some (e', p') \<Longrightarrow> p' \<le> p"
    and pq_iter_mut_law: "\<And>q f. (\<And>e p. ce_key (fst (f e p)) = ce_key e) \<Longrightarrow>
        pq_get Q (pq_iter_mut Q f q) = (\<lambda>k. map_option (\<lambda>(e, p). f e p) (pq_get Q q k))"
    and pq_into_iter_law: "\<And>q. distinct (map (ce_key \<circ> fst) (pq_into_iter Q q))"
      "\<And>q e p. (e, p) \<in> set (pq_into_iter Q q) \<longleftrightarrow> pq_get Q q (ce_key e) = Some (e, p)"
    and pq_extend_law: "\<And>q es. distinct (map (ce_key \<circ> fst) es) \<Longrightarrow>
        (\<forall>(e, p) \<in> set es. pq_get Q q (ce_key e) = None) \<Longrightarrow>
        pq_get Q (pq_extend Q es q) = pq_get Q q ++ map_of (map (\<lambda>(e, p). (ce_key e, (e, p))) es)"
proof -
  note laws = assms[unfolded pq_laws_def]
  have iter: "\<forall>q f. (\<forall>e p. ce_key (fst (f e p)) = ce_key e) \<longrightarrow>
      pq_get Q (pq_iter_mut Q f q) = (\<lambda>k. map_option (\<lambda>(e, p). f e p) (pq_get Q q k))"
    using laws by (elim conjE)
  have pop: "\<forall>q e p q'. pq_pop Q q = Some ((e, p), q') \<longrightarrow>
      pq_get Q q (ce_key e) = Some (e, p) \<and> pq_get Q q' = (pq_get Q q)(ce_key e := None)
      \<and> (\<forall>k e' p'. pq_get Q q k = Some (e', p') \<longrightarrow> p' \<le> p)"
    using laws by (elim conjE)
  show "pq_get Q (pq_new Q) = Map.empty" using laws by (elim conjE)
  show "\<And>q k e p. pq_get Q q k = Some (e, p) \<Longrightarrow> ce_key e = k"
    using laws by (elim conjE) blast
  show "\<And>q. finite (dom (pq_get Q q))"
    using laws by (elim conjE) blast
  show "\<And>q. pq_len Q q = card (dom (pq_get Q q))"
    using laws by (elim conjE) blast
  show "\<And>q e p. pq_get Q q (ce_key e) = None \<Longrightarrow>
      pq_get Q (pq_push Q e p q) = (pq_get Q q)(ce_key e \<mapsto> (e, p))"
    using laws by (elim conjE) blast
  show "\<And>q k f. (\<And>e. ce_key (f e) = ce_key e) \<Longrightarrow>
      pq_get Q (pq_get_mut Q k f q) = (pq_get Q q)(k := map_option (\<lambda>(e, p). (f e, p)) (pq_get Q q k))"
    using laws by (elim conjE) blast
  show "\<And>q k p. fst (pq_change_priority Q k p q) = map_option snd (pq_get Q q k)"
    using laws by (elim conjE) blast
  show "\<And>q k p. pq_get Q (snd (pq_change_priority Q k p q)) =
      (pq_get Q q)(k := map_option (\<lambda>(e, p'). (e, p)) (pq_get Q q k))"
    using laws by (elim conjE) blast
  show "\<And>q k f. pq_get Q (pq_change_priority_by Q k f q) =
      (pq_get Q q)(k := map_option (\<lambda>(e, p). (e, f p)) (pq_get Q q k))"
    using laws by (elim conjE) blast
  show "\<And>q. pq_pop Q q = None \<longleftrightarrow> pq_get Q q = Map.empty"
    using laws by (elim conjE) blast
  show "\<And>q e p q'. pq_pop Q q = Some ((e, p), q') \<Longrightarrow>
      pq_get Q q (ce_key e) = Some (e, p) \<and> pq_get Q q' = (pq_get Q q)(ce_key e := None)"
    using pop by blast
  show "\<And>q e p q' k e' p'. pq_pop Q q = Some ((e, p), q') \<Longrightarrow>
      pq_get Q q k = Some (e', p') \<Longrightarrow> p' \<le> p"
    using pop by blast
  show "\<And>q f. (\<And>e p. ce_key (fst (f e p)) = ce_key e) \<Longrightarrow>
      pq_get Q (pq_iter_mut Q f q) = (\<lambda>k. map_option (\<lambda>(e, p). f e p) (pq_get Q q k))"
    using iter by simp
  have into: "\<forall>q. distinct (map (ce_key \<circ> fst) (pq_into_iter Q q))
      \<and> (\<forall>e p. (e, p) \<in> set (pq_into_iter Q q) \<longleftrightarrow> pq_get Q q (ce_key e) = Some (e, p))"
    using laws by (elim conjE)
  show "\<And>q. distinct (map (ce_key \<circ> fst) (pq_into_iter Q q))" using into by simp
  show "\<And>q e p. (e, p) \<in> set (pq_into_iter Q q) \<longleftrightarrow> pq_get Q q (ce_key e) = Some (e, p)"
    using into by blast
  have extend: "\<forall>q es. distinct (map (ce_key \<circ> fst) es) \<and> (\<forall>(e, p) \<in> set es. pq_get Q q (ce_key e) = None) \<longrightarrow>
      pq_get Q (pq_extend Q es q) = pq_get Q q ++ map_of (map (\<lambda>(e, p). (ce_key e, (e, p))) es)"
    using laws by (elim conjE)
  show "\<And>q es. distinct (map (ce_key \<circ> fst) es) \<Longrightarrow> (\<forall>(e, p) \<in> set es. pq_get Q q (ce_key e) = None) \<Longrightarrow>
      pq_get Q (pq_extend Q es q) = pq_get Q q ++ map_of (map (\<lambda>(e, p). (ce_key e, (e, p))) es)"
    using extend by simp
qed

definition lfu_items :: "('q, 'k, 'v) priority_queue \<Rightarrow> 'q lfu_cache \<Rightarrow> 'k \<Rightarrow> (('k, 'v) cache_entry \<times> priority) option" where
  "lfu_items Q self = pq_get Q (lfu_queue self)"

definition lfu_map :: "('q, 'k, 'v) priority_queue \<Rightarrow> 'q lfu_cache \<Rightarrow> 'k \<Rightarrow> 'v option" where
  "lfu_map Q self = (\<lambda>k. map_option (ce_value \<circ> fst) (lfu_items Q self k))"

text \<open>Every entry has been counted at least once, when it was inserted.\<close>

definition counted :: "(('k, 'v) cache_entry \<times> priority) option \<Rightarrow> bool" where
  "counted item \<longleftrightarrow> (case item of None \<Rightarrow> True | Some (e, p) \<Rightarrow> 1 \<le> unreverse (snd p))"

definition lfu_inv :: "('q, 'k, 'v) priority_queue \<Rightarrow> 'q lfu_cache \<Rightarrow> bool" where
  "lfu_inv Q self \<longleftrightarrow> (\<forall>k. counted (lfu_items Q self k))"

lemma lfu_new_map: "pq_laws Q \<Longrightarrow> lfu_map Q (lfu_new Q d) = Map.empty \<and> lfu_inv Q (lfu_new Q d)"
  by (simp add: lfu_map_def lfu_new_def pq_new_law lfu_inv_def lfu_items_def counted_def fun_eq_iff)

lemma lfu_contains_key_iff: "lfu_contains_key Q key self \<longleftrightarrow> lfu_map Q self key \<noteq> None"
  by (simp add: lfu_contains_key_def lfu_map_def lfu_items_def)

lemma lfu_get_mut_spec:
  assumes "pq_laws Q" and "\<And>e. ce_key (f e) = ce_key e"
  shows "lfu_items Q (snd (lfu_get_mut Q f key self)) = (lfu_items Q self)
      (key := map_option (\<lambda>(e, p). (f (e\<lparr>ce_will_stale := False\<rparr>), (fst p, Reverse (unreverse (snd p) + 1))))
         (lfu_items Q self key))"
    and "fst (lfu_get_mut Q f key self) =
      map_option (\<lambda>(e, p). e\<lparr>ce_will_stale := False\<rparr>) (lfu_items Q self key)"
  using assms(2)
  by (auto simp: lfu_get_mut_def lfu_items_def Let_def pq_change_by_law[OF assms(1)]
      pq_get_mut_law[OF assms(1)] split: option.splits)

lemma lfu_get_spec:
  assumes "pq_laws Q"
  shows "fst (lfu_get Q key self) = lfu_map Q self key"
    and "lfu_map Q (snd (lfu_get Q key self)) = lfu_map Q self"
    and "lfu_inv Q self \<Longrightarrow> lfu_inv Q (snd (lfu_get Q key self))"
proof -
  show "fst (lfu_get Q key self) = lfu_map Q self key"
    by (simp add: lfu_get_def lfu_get_mut_spec[OF assms] lfu_map_def option.map_comp comp_def case_prod_beta)
  show "lfu_map Q (snd (lfu_get Q key self)) = lfu_map Q self"
    by (rule ext) (simp add: lfu_get_def lfu_get_mut_spec[OF assms] lfu_map_def option.map_comp comp_def
        case_prod_beta)
  show "lfu_inv Q self \<Longrightarrow> lfu_inv Q (snd (lfu_get Q key self))"
    by (auto simp: lfu_get_def lfu_get_mut_spec[OF assms] lfu_inv_def counted_def split: option.splits)
qed

lemma lfu_insert_items:
  assumes "pq_laws Q"
  shows "\<exists>p. 1 \<le> unreverse (snd p) \<and> lfu_items Q (lfu_insert Q S key v self) = (lfu_items Q self)
      (key \<mapsto> (\<lparr>ce_weight = entry_weight S key v, ce_key = key, ce_value = v, ce_will_stale = False\<rparr>, p))"
    (is "\<exists>p. _ \<and> ?items = (lfu_items Q self)(key \<mapsto> (?new, p))")
proof -
  let ?f = "\<lambda>e. e\<lparr>ce_weight := entry_weight S key v, ce_value := v\<rparr>"
  let ?r = "lfu_get_mut Q ?f key self"
  have f: "ce_key (?f e) = ce_key e" for e by simp
  note spec = lfu_get_mut_spec[OF assms, of ?f key self, OF f]
  show ?thesis
  proof (cases "lfu_items Q self key")
    case None
    then have "?r = (None, snd ?r)" "lfu_items Q (snd ?r) = lfu_items Q self"
      using spec by (auto simp: prod_eq_iff)
    then have "?items = (lfu_items Q self)(key \<mapsto> (?new, (False, Reverse 1)))"
      using None pq_push_law[OF assms, of "lfu_queue (snd ?r)" ?new]
      by (cases ?r) (simp add: lfu_insert_def lfu_items_def Let_def)
    then show ?thesis by (intro exI[of _ "(False, Reverse 1)"]) simp
  next
    case (Some item)
    obtain e p where item: "item = (e, p)" by (cases item)
    have e: "?f (e\<lparr>ce_will_stale := False\<rparr>) = ?new"
      using pq_key_law[OF assms] Some item by (auto simp: lfu_items_def)
    obtain e' where "?r = (Some e', snd ?r)" using spec(2) Some by (auto simp: prod_eq_iff)
    then have "?items = lfu_items Q (snd ?r)"
      by (cases ?r) (simp add: lfu_insert_def lfu_items_def Let_def)
    then show ?thesis using spec(1) Some item e
      by (intro exI[of _ "(fst p, Reverse (unreverse (snd p) + 1))"]) simp
  qed
qed

lemma lfu_insert_spec:
  assumes "pq_laws Q"
  shows "lfu_map Q (lfu_insert Q S key v self) = (lfu_map Q self)(key \<mapsto> v)"
    and "lfu_inv Q self \<Longrightarrow> lfu_inv Q (lfu_insert Q S key v self)"
  using lfu_insert_items[OF assms, of S key v self] by (auto simp: lfu_map_def lfu_inv_def counted_def)

text \<open>
  The assertion of \<open>remove\<close> holds: no other entry has the frequency zero, so the entry with the
  greatest priority is the one to remove.
\<close>

lemma lfu_remove_spec:
  assumes "pq_laws Q" and "lfu_inv Q self"
  obtains self' where "lfu_remove Q key self = Some (lfu_map Q self key, self')" "lfu_inv Q self'"
    "lfu_map Q self' = (lfu_map Q self)(key := None)"
proof -
  let ?c = "pq_change_priority Q key (True, Reverse 0) (lfu_queue self)"
  let ?item = "pq_get Q (lfu_queue self) key"
  have c: "fst ?c = map_option snd ?item"
    "pq_get Q (snd ?c) = (pq_get Q (lfu_queue self))(key := map_option (\<lambda>(e, p'). (e, (True, Reverse 0))) ?item)"
    by (rule pq_change_law[OF assms(1)])+
  show thesis
  proof (cases ?item)
    case None
    then have "lfu_remove Q key self = Some (None, self\<lparr>lfu_queue := snd ?c\<rparr>)"
      using c(1) by (simp add: lfu_remove_def prod.case_eq_if)
    moreover have "pq_get Q (snd ?c) = pq_get Q (lfu_queue self)" using c(2) None by auto
    ultimately show thesis using None assms(2)
      by (intro that[of "self\<lparr>lfu_queue := snd ?c\<rparr>"]) (auto simp: lfu_map_def lfu_items_def lfu_inv_def)
  next
    case (Some item)
    obtain e p where e: "?item = Some (e, p)" using Some by (cases item) simp
    have key: "ce_key e = key" using pq_key_law[OF assms(1) e] .
    have there: "pq_get Q (snd ?c) key = Some (e, (True, Reverse 0))" using c(2) e by simp
    then have "pq_get Q (snd ?c) \<noteq> Map.empty" by auto
    then obtain e' p' q where pop: "pq_pop Q (snd ?c) = Some ((e', p'), q)"
      using pq_pop_None_law[OF assms(1)] by (cases "pq_pop Q (snd ?c)") auto
    have e': "pq_get Q (snd ?c) (ce_key e') = Some (e', p')" "pq_get Q q = (pq_get Q (snd ?c))(ce_key e' := None)"
      using pq_pop_law[OF assms(1) pop] by blast+
    have "ce_key e' = key"
    proof (rule ccontr)
      assume "ce_key e' \<noteq> key"
      then have "lfu_items Q self (ce_key e') = Some (e', p')" using e'(1) c(2) by (simp add: lfu_items_def)
      moreover have "counted (lfu_items Q self (ce_key e'))" using assms(2) by (simp add: lfu_inv_def)
      ultimately have "1 \<le> unreverse (snd p')" by (simp add: counted_def)
      moreover have "(True, Reverse 0) \<le> p'" using pq_max_law[OF assms(1) pop there] .
      ultimately show False by (cases p') (auto simp: less_eq_reverse_def)
    qed
    then have "e' = e" using e'(1) there by simp
    let ?self' = "self\<lparr>lfu_queue := q, lfu_total_weight := lfu_total_weight self - ce_weight e\<rparr>"
    have "lfu_remove Q key self = Some (Some (ce_value e), ?self')"
      using c(1) e pop key \<open>e' = e\<close> by (simp add: lfu_remove_def prod.case_eq_if)
    moreover have "pq_get Q q = (pq_get Q (lfu_queue self))(key := None)"
      using e'(2) c(2) key \<open>e' = e\<close> by simp
    ultimately show thesis using e assms(2)
      by (intro that[of ?self']) (auto simp: lfu_map_def lfu_items_def lfu_inv_def counted_def)
  qed
qed

end
