(* ===== verification/Lfu_Evict.thy ===== *)
theory Lfu_Evict
  imports Lfu_Cache
begin

text \<open>
  The weight of a cache and its eviction: the recorded total is the sum of the weights of the
  entries under every operation but \<open>extend\<close>, eviction ends, keeps a part of the map within the
  limit and evicts in the order of the priorities; with dead weight it can run into the panic.
\<close>

section \<open>The recorded weight\<close>

definition item_weight :: "(('k, 'v) cache_entry \<times> priority) option \<Rightarrow> nat" where
  "item_weight item = (case item of None \<Rightarrow> 0 | Some (e, p) \<Rightarrow> unat (ce_weight e))"

definition weight_in :: "('k \<Rightarrow> (('k, 'v) cache_entry \<times> priority) option) \<Rightarrow> nat" where
  "weight_in items = (\<Sum>k \<in> dom items. item_weight (items k))"

definition weighs :: "('q, 'k, 'v) priority_queue \<Rightarrow> 'q lfu_cache \<Rightarrow> bool" where
  "weighs Q self \<longleftrightarrow> lfu_total_weight self = of_nat (weight_in (lfu_items Q self))"

lemma weight_in_empty [simp]: "weight_in Map.empty = 0"
  by (simp add: weight_in_def)

lemma weight_in_split:
  assumes "finite (dom m)"
  shows "weight_in m = item_weight (m k) + weight_in (m(k := None))"
proof -
  have "weight_in (m(k := None)) = (\<Sum>j \<in> dom m - {k}. item_weight (m j))"
    unfolding weight_in_def by (rule sum.cong) auto
  moreover have "dom m - {k} = dom m" "item_weight (m k) = 0" if "m k = None"
    using that by (auto simp: item_weight_def)
  ultimately show ?thesis
    using sum.remove[OF assms, of k "\<lambda>j. item_weight (m j)"] by (cases "m k") (auto simp: weight_in_def)
qed

lemma weight_in_update:
  assumes "finite (dom m)"
  shows "item_weight (m k) + weight_in (m(k := x)) = item_weight x + weight_in m"
  using weight_in_split[OF assms, of k] weight_in_split[of "m(k := x)" k] assms by simp

lemma weight_in_congruent:
  "dom m = dom m' \<Longrightarrow> (\<And>k. item_weight (m k) = item_weight (m' k)) \<Longrightarrow> weight_in m = weight_in m'"
  by (simp add: weight_in_def)

lemma finite_items: "pq_laws Q \<Longrightarrow> finite (dom (lfu_items Q self))"
  by (simp add: lfu_items_def pq_finite_law)

lemma lfu_new_weighs: "pq_laws Q \<Longrightarrow> weighs Q (lfu_new Q d)"
  by (simp add: weighs_def lfu_items_def lfu_new_def pq_new_law)

lemma lfu_get_mut_total [simp]: "lfu_total_weight (snd (lfu_get_mut Q f key self)) = lfu_total_weight self"
  by (simp add: lfu_get_mut_def Let_def split: option.splits)

lemma lfu_get_weighs:
  assumes "pq_laws Q" and "weighs Q self"
  shows "weighs Q (snd (lfu_get Q key self))"
proof -
  have "lfu_items Q (snd (lfu_get Q key self)) = (lfu_items Q self)
      (key := map_option (\<lambda>(e, p). (e\<lparr>ce_will_stale := False\<rparr>, (fst p, Reverse (unreverse (snd p) + 1))))
         (lfu_items Q self key))"
    using lfu_get_mut_spec(1)[OF assms(1), of id key self] by (simp add: lfu_get_def)
  then have "weight_in (lfu_items Q (snd (lfu_get Q key self))) = weight_in (lfu_items Q self)"
    by (intro weight_in_congruent) (auto simp: item_weight_def split: option.splits)
  then show ?thesis using assms(2) by (simp add: weighs_def lfu_get_def)
qed

lemma lfu_insert_weighs:
  assumes "pq_laws Q" and "weighs Q self"
  shows "weighs Q (lfu_insert Q S key v self)"
proof -
  let ?f = "\<lambda>e. e\<lparr>ce_weight := entry_weight S key v, ce_value := v\<rparr>"
  have "lfu_total_weight (lfu_insert Q S key v self) =
      lfu_total_weight self - of_nat (item_weight (lfu_items Q self key)) + entry_weight S key v"
    using lfu_get_mut_spec(2)[OF assms(1), of ?f key self]
    by (cases "lfu_get_mut Q ?f key self")
       (auto simp: lfu_insert_def Let_def item_weight_def lfu_get_mut_total[of Q ?f key self, symmetric]
         simp del: lfu_get_mut_total split: option.splits)
  moreover obtain p where p: "lfu_items Q (lfu_insert Q S key v self) = (lfu_items Q self)
      (key \<mapsto> (\<lparr>ce_weight = entry_weight S key v, ce_key = key, ce_value = v, ce_will_stale = False\<rparr>, p))"
    using lfu_insert_items[OF assms(1)] by metis
  moreover have "item_weight (lfu_items Q self key) + weight_in (lfu_items Q (lfu_insert Q S key v self)) =
      unat (entry_weight S key v) + weight_in (lfu_items Q self)"
    unfolding p weight_in_update[OF finite_items[OF assms(1)]] by (simp add: item_weight_def)
  from arg_cong[OF this, where f = "of_nat :: nat \<Rightarrow> 64 word"]
  have "(of_nat (item_weight (lfu_items Q self key)) + of_nat (weight_in (lfu_items Q (lfu_insert Q S key v self))) :: 64 word) =
      entry_weight S key v + of_nat (weight_in (lfu_items Q self))" by simp
  ultimately have "of_nat (item_weight (lfu_items Q self key)) + lfu_total_weight (lfu_insert Q S key v self) =
      of_nat (item_weight (lfu_items Q self key)) + of_nat (weight_in (lfu_items Q (lfu_insert Q S key v self)))"
    using assms(2) by (simp add: weighs_def)
  then show ?thesis unfolding weighs_def add_left_cancel .
qed

lemma lfu_remove_weighs:
  assumes "pq_laws Q" and "weighs Q self" and "lfu_remove Q key self = Some (v, self')"
  shows "weighs Q self'"
proof -
  let ?c = "pq_change_priority Q key (True, Reverse 0) (lfu_queue self)"
  let ?item = "pq_get Q (lfu_queue self) key"
  let ?m = "pq_get Q (lfu_queue self)"
  have c: "fst ?c = map_option snd ?item"
    "pq_get Q (snd ?c) = ?m(key := map_option (\<lambda>(e, p'). (e, (True, Reverse 0))) ?item)"
    by (rule pq_change_law[OF assms(1)])+
  then have w: "weight_in (pq_get Q (snd ?c)) = weight_in ?m"
    by (intro weight_in_congruent) (auto simp: item_weight_def split: option.splits)
  consider "self' = self\<lparr>lfu_queue := snd ?c\<rparr>"
    | e p q where "pq_pop Q (snd ?c) = Some ((e, p), q)"
      "self' = self\<lparr>lfu_queue := q, lfu_total_weight := lfu_total_weight self - ce_weight e\<rparr>"
    using assms(3) by (auto simp: lfu_remove_def split: prod.splits option.splits if_splits)
  then show ?thesis
  proof cases
    case 1
    then show ?thesis using assms(2) w by (simp add: weighs_def lfu_items_def)
  next
    case 2
    note pop = pq_pop_law[OF assms(1) 2(1)]
    have "weight_in (pq_get Q (snd ?c)) = unat (ce_weight e) + weight_in (pq_get Q q)"
      using weight_in_split[OF pq_finite_law[OF assms(1)], of "snd ?c" "ce_key e"] pop
      by (simp add: item_weight_def)
    then have "(of_nat (weight_in ?m) :: 64 word) = of_nat (unat (ce_weight e) + weight_in (pq_get Q q))"
      unfolding w by (rule arg_cong)
    then have "(of_nat (weight_in ?m) :: 64 word) = ce_weight e + of_nat (weight_in (pq_get Q q))" by simp
    then show ?thesis using assms(2) by (simp add: weighs_def lfu_items_def 2(2))
  qed
qed

text \<open>
  \<open>extend\<close> adds the entries of the other cache but not their weight: the total is right afterwards
  only if what was added weighs nothing.
\<close>

lemma lfu_extend_items:
  assumes "pq_laws Q" and "dom (lfu_items Q self) \<inter> dom (lfu_items Q other) = {}"
  shows "lfu_items Q (lfu_extend Q other self) = lfu_items Q self ++ lfu_items Q other"
proof -
  let ?es = "pq_into_iter Q (lfu_queue other)" and ?m = "lfu_items Q other"
  have es: "distinct (map (ce_key \<circ> fst) ?es)" "\<And>e p. (e, p) \<in> set ?es \<longleftrightarrow> ?m (ce_key e) = Some (e, p)"
    using pq_into_iter_law[OF assms(1)] by (simp_all add: lfu_items_def)
  have "map_of (map (\<lambda>(e, p). (ce_key e, (e, p))) ?es) = ?m"
  proof
    fix k
    have "map_of (map (\<lambda>(e, p). (ce_key e, (e, p))) ?es) k = Some (e, p) \<longleftrightarrow> ?m k = Some (e, p)" for e p
    proof -
      have "distinct (map fst (map (\<lambda>(e, p). (ce_key e, (e, p))) ?es))"
        using es(1) by (simp add: comp_def case_prod_beta)
      then have "map_of (map (\<lambda>(e, p). (ce_key e, (e, p))) ?es) k = Some (e, p) \<longleftrightarrow> (e, p) \<in> set ?es \<and> ce_key e = k"
        by (auto simp: map_of_eq_Some_iff)
      moreover have "ce_key e = k" if "?m k = Some (e, p)"
        using that pq_key_law[OF assms(1)] unfolding lfu_items_def by blast
      ultimately show ?thesis using es(2)[of e p] by blast
    qed
    then have "map_of (map (\<lambda>(e, p). (ce_key e, (e, p))) ?es) k = Some x \<longleftrightarrow> ?m k = Some x" for x
      by (cases x) blast
    then show "map_of (map (\<lambda>(e, p). (ce_key e, (e, p))) ?es) k = ?m k" by (rule option_eqI)
  qed
  moreover have "\<forall>(e, p) \<in> set ?es. pq_get Q (lfu_queue self) (ce_key e) = None"
    using es(2) assms(2) by (force simp: lfu_items_def)
  ultimately show ?thesis
    using pq_extend_law[OF assms(1) es(1)] by (simp add: lfu_extend_def lfu_items_def)
qed

lemma weight_in_add:
  assumes "finite (dom m)" and "finite (dom m')" and "dom m \<inter> dom m' = {}"
  shows "weight_in (m ++ m') = weight_in m + weight_in m'"
proof -
  have "weight_in (m ++ m') = (\<Sum>k \<in> dom m. item_weight ((m ++ m') k)) + (\<Sum>k \<in> dom m'. item_weight ((m ++ m') k))"
    unfolding weight_in_def using assms by (simp add: sum.union_disjoint Un_commute)
  moreover have "(\<Sum>k \<in> dom m. item_weight ((m ++ m') k)) = weight_in m"
    unfolding weight_in_def using assms(3) by (intro sum.cong) (auto simp: map_add_def split: option.splits)
  moreover have "(\<Sum>k \<in> dom m'. item_weight ((m ++ m') k)) = weight_in m'"
    unfolding weight_in_def by (intro sum.cong) auto
  ultimately show ?thesis by simp
qed

lemma lfu_extend_weighs:
  assumes "pq_laws Q" and "dom (lfu_items Q self) \<inter> dom (lfu_items Q other) = {}"
    and "weighs Q self" and "weighs Q other"
  shows "weighs Q (lfu_extend Q other self) \<longleftrightarrow> lfu_total_weight other = 0"
  using assms weight_in_add[OF finite_items finite_items assms(2)] lfu_extend_items[OF assms(1,2)]
  by (simp add: weighs_def lfu_extend_def)


section \<open>Eviction\<close>

definition lighter :: "('q, 'k, 'v) priority_queue \<Rightarrow> 'q \<Rightarrow> 64 word \<Rightarrow> 'q lfu_cache \<Rightarrow> 'q lfu_cache" where
  "lighter Q queue w self = self\<lparr>lfu_queue := queue, lfu_total_weight := lfu_total_weight self - w\<rparr>"

lemma evict_loop_step:
  "evict_loop Q dw mx ev self =
     (if lfu_total_weight self + dw > mx
      then (case pq_pop Q (lfu_queue self) of
              None \<Rightarrow> Some (Inl ())
            | Some (entry, queue) \<Rightarrow>
                evict_loop Q dw mx (ev + ce_weight (fst entry)) (lighter Q queue (ce_weight (fst entry)) self))
      else Some (Inr (ev, self)))"
  unfolding lighter_def by (rule evict_loop.simps)

lemma lighter_items:
  assumes "pq_laws Q" and "pq_pop Q (lfu_queue self) = Some ((e, p), queue)"
  shows "lfu_items Q (lighter Q queue w self) = (lfu_items Q self)(ce_key e := None)"
    and "lfu_items Q self (ce_key e) = Some (e, p)"
    and "card (dom (lfu_items Q (lighter Q queue w self))) < card (dom (lfu_items Q self))"
    and "weight_in (lfu_items Q self) = unat (ce_weight e) + weight_in (lfu_items Q (lighter Q queue w self))"
proof -
  show i: "lfu_items Q (lighter Q queue w self) = (lfu_items Q self)(ce_key e := None)"
    and e: "lfu_items Q self (ce_key e) = Some (e, p)"
    using pq_pop_law[OF assms] by (simp_all add: lfu_items_def lighter_def)
  have f: "finite (dom (lfu_items Q self))" by (rule finite_items[OF assms(1)])
  show "card (dom (lfu_items Q (lighter Q queue w self))) < card (dom (lfu_items Q self))"
    unfolding i using e f by (intro psubset_card_mono) auto
  show "weight_in (lfu_items Q self) = unat (ce_weight e) + weight_in (lfu_items Q (lighter Q queue w self))"
    unfolding i using weight_in_split[OF f, of "ce_key e"] e by (simp add: item_weight_def)
qed

lemma lighter_weighs:
  assumes "pq_laws Q" and "pq_pop Q (lfu_queue self) = Some ((e, p), queue)" and "weighs Q self"
  shows "weighs Q (lighter Q queue (ce_weight e) self)"
proof -
  have "lfu_total_weight self = of_nat (unat (ce_weight e) + weight_in (lfu_items Q (lighter Q queue (ce_weight e) self)))"
    using lighter_items(4)[OF assms(1,2), of "ce_weight e"] assms(3) by (simp only: weighs_def)
  then have "lfu_total_weight self = ce_weight e + of_nat (weight_in (lfu_items Q (lighter Q queue (ce_weight e) self)))"
    by simp
  moreover have "lfu_total_weight (lighter Q queue (ce_weight e) self) = lfu_total_weight self - ce_weight e"
    by (simp add: lighter_def)
  ultimately show ?thesis by (simp only: weighs_def add_diff_cancel_left')
qed

theorem evict_loop_terminates:
  assumes "pq_laws Q"
  shows "\<exists>r. evict_loop Q dw mx ev self = Some r"
proof (induction "card (dom (lfu_items Q self))" arbitrary: self ev rule: less_induct)
  case less
  then show ?case
    using lighter_items(3)[OF assms] by (subst evict_loop_step) (auto split: option.splits)
qed

text \<open>Without dead weight the loop ends within the limit, whatever is in the cache.\<close>

lemma weighs_unat:
  "weighs Q self \<Longrightarrow> weight_in (lfu_items Q self) < 2 ^ 64 \<Longrightarrow>
     unat (lfu_total_weight self) = weight_in (lfu_items Q self)"
  by (simp add: weighs_def unat_of_nat)

lemma evict_loop_spec:
  assumes "pq_laws Q" and "weighs Q self"
  shows "\<exists>ev' new. evict_loop Q 0 mx ev self = Some (Inr (ev', new))
    \<and> weighs Q new \<and> lfu_total_weight new \<le> mx \<and> lfu_stale_counter new = lfu_stale_counter self
    \<and> ev' + lfu_total_weight new = ev + lfu_total_weight self
    \<and> lfu_items Q new \<subseteq>\<^sub>m lfu_items Q self
    \<and> (\<forall>k e p k' e' p'. lfu_items Q self k = Some (e, p) \<and> lfu_items Q new k = None
         \<and> lfu_items Q new k' = Some (e', p') \<longrightarrow> p' \<le> p)"
  using assms(2)
proof (induction "card (dom (lfu_items Q self))" arbitrary: self ev rule: less_induct)
  case less
  show ?case
  proof (cases "mx < lfu_total_weight self")
    case False
    then show ?thesis using less.prems by (subst evict_loop_step) auto
  next
    case True
    have "pq_pop Q (lfu_queue self) \<noteq> None"
    proof
      assume "pq_pop Q (lfu_queue self) = None"
      then have "lfu_items Q self = Map.empty" using pq_pop_None_law[OF assms(1)] by (simp add: lfu_items_def)
      then show False using True less.prems(1) by (simp add: weighs_def)
    qed
    then obtain e p queue where pop: "pq_pop Q (lfu_queue self) = Some ((e, p), queue)" by auto
    let ?next = "lighter Q queue (ce_weight e) self"
    note items = lighter_items(1)[OF assms(1) pop, of "ce_weight e"] lighter_items(2)[OF assms(1) pop]
      lighter_items(3,4)[OF assms(1) pop, of "ce_weight e"]
    from less.hyps[OF items(3) lighter_weighs[OF assms(1) pop less.prems(1)], of "ev + ce_weight e"]
    obtain ev' new where IH: "evict_loop Q 0 mx (ev + ce_weight e) ?next = Some (Inr (ev', new))"
      "weighs Q new" "lfu_total_weight new \<le> mx" "lfu_stale_counter new = lfu_stale_counter ?next"
      "ev' + lfu_total_weight new = ev + ce_weight e + lfu_total_weight ?next"
      "lfu_items Q new \<subseteq>\<^sub>m lfu_items Q ?next"
      "\<forall>k e p k' e' p'. lfu_items Q ?next k = Some (e, p) \<and> lfu_items Q new k = None
         \<and> lfu_items Q new k' = Some (e', p') \<longrightarrow> p' \<le> p"
      by (elim exE conjE) (rule that)
    have sub: "lfu_items Q ?next \<subseteq>\<^sub>m lfu_items Q self" unfolding items(1) by (auto simp: map_le_def)
    have new: "lfu_items Q new \<subseteq>\<^sub>m lfu_items Q self" using IH(6) sub by (rule map_le_trans)
    have "p2 \<le> p1" if i: "lfu_items Q self k1 = Some (e1, p1)" "lfu_items Q new k1 = None"
      "lfu_items Q new k2 = Some (e2, p2)" for k1 e1 p1 k2 e2 p2
    proof (cases "k1 = ce_key e")
      case True
      then have "p1 = p" using items(2) i(1) by simp
      moreover have "lfu_items Q self k2 = Some (e2, p2)" using new i(3) by (force simp: map_le_def dom_def)
      ultimately show ?thesis using pq_max_law[OF assms(1) pop] by (simp add: lfu_items_def)
    next
      case False
      then have "lfu_items Q ?next k1 = Some (e1, p1)" using i(1) by (simp add: items(1))
      then show ?thesis using IH(7) i(2,3) by blast
    qed
    moreover have "evict_loop Q 0 mx ev self = Some (Inr (ev', new))"
      using True pop IH(1) by (subst evict_loop_step) simp
    moreover have "lfu_stale_counter new = lfu_stale_counter self"
      "ev' + lfu_total_weight new = ev + lfu_total_weight self"
      using IH(4,5) by (simp_all add: lighter_def)
    ultimately show ?thesis using IH(2,3) new by blast
  qed
qed

text \<open>
  The dead weight does not shrink while entries are evicted. If it exceeds the limit by itself, the
  loop evicts everything and then panics.
\<close>

lemma evict_loop_panics:
  assumes "pq_laws Q" and "weighs Q self" and "weight_in (lfu_items Q self) + unat dw < 2 ^ 64" and "mx < dw"
  shows "evict_loop Q dw mx ev self = Some (Inl ())"
  using assms(2,3)
proof (induction "card (dom (lfu_items Q self))" arbitrary: self ev rule: less_induct)
  case less
  have "unat (lfu_total_weight self) = weight_in (lfu_items Q self)"
    using less.prems by (intro weighs_unat) simp_all
  then have "unat (lfu_total_weight self + dw) = weight_in (lfu_items Q self) + unat dw"
    using less.prems(2) by (subst unat_add_lem[THEN iffD1]) simp_all
  then have "mx < lfu_total_weight self + dw" using assms(4) by (simp add: word_less_nat_alt)
  moreover have "evict_loop Q dw mx (ev + ce_weight e) (lighter Q queue (ce_weight e) self) = Some (Inl ())"
    if pop: "pq_pop Q (lfu_queue self) = Some ((e, p), queue)" for e p queue
    using less.hyps[OF lighter_items(3)[OF assms(1) pop] lighter_weighs[OF assms(1) pop less.prems(1)]]
      lighter_items(4)[OF assms(1) pop, of "ce_weight e"] less.prems(2) by simp
  ultimately show ?case by (subst evict_loop_step) (auto split: option.splits)
qed

lemma count_stale_items:
  assumes "pq_laws Q"
  shows "lfu_items Q (count_stale Q period self) = lfu_items Q self
    \<or> lfu_items Q (count_stale Q period self) = (\<lambda>k. map_option (\<lambda>(e, p). mark_stale e p) (lfu_items Q self k))"
  by (auto simp: count_stale_def Let_def lfu_items_def pq_iter_mut_law[OF assms] mark_stale_def)

lemma count_stale_spec:
  assumes "pq_laws Q"
  shows "lfu_map Q (count_stale Q period self) = lfu_map Q self"
    and "weight_in (lfu_items Q (count_stale Q period self)) = weight_in (lfu_items Q self)"
    and "dom (lfu_items Q (count_stale Q period self)) = dom (lfu_items Q self)"
    and "weighs Q self \<Longrightarrow> weighs Q (count_stale Q period self)"
    and "lfu_dead_weight (count_stale Q period self) = lfu_dead_weight self"
    and "lfu_inv Q self \<Longrightarrow> lfu_inv Q (count_stale Q period self)"
proof -
  let ?c = "count_stale Q period self"
  show "lfu_map Q ?c = lfu_map Q self"
    using count_stale_items[OF assms, of period self]
    by (auto simp: lfu_map_def option.map_comp comp_def mark_stale_def case_prod_beta)
  show d: "dom (lfu_items Q ?c) = dom (lfu_items Q self)"
    using count_stale_items[OF assms, of period self] by auto
  show w: "weight_in (lfu_items Q ?c) = weight_in (lfu_items Q self)"
    using count_stale_items[OF assms, of period self]
    by (intro weight_in_congruent d) (auto simp: item_weight_def mark_stale_def split: option.splits)
  show "weighs Q self \<Longrightarrow> weighs Q ?c"
    using w by (simp add: weighs_def) (simp add: count_stale_def Let_def)
  show "lfu_dead_weight ?c = lfu_dead_weight self" by (simp add: count_stale_def Let_def)
  show "lfu_inv Q self \<Longrightarrow> lfu_inv Q ?c"
    using count_stale_items[OF assms, of period self]
    by (auto simp: lfu_inv_def counted_def mark_stale_def split: option.splits)
qed

lemma map_le_lfu_map: "lfu_items Q a \<subseteq>\<^sub>m lfu_items Q b \<Longrightarrow> lfu_map Q a \<subseteq>\<^sub>m lfu_map Q b"
  by (auto simp: lfu_map_def map_le_def dom_def)

lemma lfu_inv_le: "lfu_items Q a \<subseteq>\<^sub>m lfu_items Q b \<Longrightarrow> lfu_inv Q b \<Longrightarrow> lfu_inv Q a"
  by (force simp: lfu_inv_def counted_def map_le_def dom_def split: option.splits)

theorem evict_with_period_spec:
  assumes "pq_laws Q" and "weighs Q self" and "\<not> lfu_dead_weight self"
  shows "\<exists>stats new. evict_with_period Q S mx period self = Some (Inr (stats, new))
    \<and> weighs Q new \<and> lfu_total_weight new \<le> mx \<and> lfu_map Q new \<subseteq>\<^sub>m lfu_map Q self
    \<and> (lfu_inv Q self \<longrightarrow> lfu_inv Q new)
    \<and> (\<forall>k e p k' e' p'. lfu_items Q (count_stale Q period self) k = Some (e, p) \<and> lfu_items Q new k = None
         \<and> lfu_items Q new k' = Some (e', p') \<longrightarrow> p' \<le> p)"
proof (cases "lfu_total_weight self \<le> mx")
  case True
  then have "evict_with_period Q S mx period self = Some (Inr (None, self))" by (simp add: evict_with_period_def)
  moreover have "dom (lfu_items Q (count_stale Q period self)) = dom (lfu_items Q self)"
    by (rule count_stale_spec(3)[OF assms(1)])
  then have "False" if "lfu_items Q (count_stale Q period self) k = Some ep" "lfu_items Q self k = None" for k ep
    using that by (metis domIff option.distinct(1))
  ultimately show ?thesis using True assms(2)
    by (intro exI[of _ None] exI[of _ self] conjI allI impI) (simp_all, blast)
next
  case False
  let ?c = "count_stale Q period self"
  note c = count_stale_spec[OF assms(1), where period = period and self = self]
  from evict_loop_spec[OF assms(1) c(4)[OF assms(2)], of mx 0]
  obtain ev new where e: "evict_loop Q 0 mx 0 ?c = Some (Inr (ev, new))" "weighs Q new"
    "lfu_total_weight new \<le> mx" "lfu_items Q new \<subseteq>\<^sub>m lfu_items Q ?c"
    "\<forall>k e p k' e' p'. lfu_items Q ?c k = Some (e, p) \<and> lfu_items Q new k = None
         \<and> lfu_items Q new k' = Some (e', p') \<longrightarrow> p' \<le> p"
    by (elim exE conjE) (rule that)
  have "dead_weight_of Q S ?c = 0" using c(5) assms(3) by (simp add: dead_weight_of_def)
  then have "\<exists>stats. evict_with_period Q S mx period self = Some (Inr (stats, new))"
    using False e(1) by (simp add: evict_with_period_def)
  moreover have "lfu_map Q new \<subseteq>\<^sub>m lfu_map Q self" using map_le_lfu_map[OF e(4)] c(1) by simp
  moreover have "lfu_inv Q self \<longrightarrow> lfu_inv Q new" using lfu_inv_le[OF e(4)] c(6) by blast
  ultimately show ?thesis using e(2,3,5) by blast
qed

theorem evict_with_period_panics:
  assumes "pq_laws Q" and "weighs Q self" and "mx < lfu_total_weight self" and "lfu_dead_weight self"
    and "weight_in (lfu_items Q self) + card (dom (lfu_items Q self)) * (unat (entry_size S) + 40) < 2 ^ 64"
    and "unat mx < card (dom (lfu_items Q self)) * (unat (entry_size S) + 40)"
  shows "evict_with_period Q S mx period self = Some (Inl ())"
proof -
  let ?c = "count_stale Q period self" and ?n = "card (dom (lfu_items Q self))"
  let ?dw = "dead_weight_of Q S ?c"
  note c = count_stale_spec[OF assms(1), where period = period and self = self]
  have len: "lfu_len Q ?c = ?n" using c(3) pq_len_law[OF assms(1)] by (simp add: lfu_len_def lfu_items_def)
  have "?dw = of_nat (?n * (unat (entry_size S) + 40))"
    using c(5) assms(4) by (simp add: dead_weight_of_def len)
  then have dw: "unat ?dw = ?n * (unat (entry_size S) + 40)"
    using assms(5) by (simp only: unat_of_nat) simp
  have "evict_loop Q ?dw mx 0 ?c = Some (Inl ())"
  proof (rule evict_loop_panics[OF assms(1) c(4)[OF assms(2)]])
    show "weight_in (lfu_items Q ?c) + unat ?dw < 2 ^ 64" using assms(5) c(2) dw by simp
    show "mx < ?dw" using assms(6) dw by (simp add: word_less_nat_alt)
  qed
  then show ?thesis using assms(3) by (simp add: evict_with_period_def not_le)
qed

end
