(* ===== verification/Entity_Cache.thy ===== *)
theory Entity_Cache
  imports Entity_Maps Lfu_Evict "HOL-Library.Product_Lexorder" "HOL-Library.Monad_Syntax"
begin

text \<open>
  \<open>graph/src/components/store/entity_cache.rs\<close>: the cache through which the handlers of one block
  read and write entities, and which turns their writes into entity modifications at the end of the
  block. Hash maps are association lists whose iteration order is a parameter.
\<close>

section \<open>Keys in order\<close>

text \<open>\<open>Ord\<close> as derived for \<open>Id\<close> and \<open>EntityKey\<close>: variants and fields from first to last.\<close>

fun id_rank :: "id \<Rightarrow> nat \<times> string \<times> nat list \<times> int" where
  "id_rank (IdString s) = (0, s, [], 0)"
| "id_rank (IdBytes b) = (1, [], b, 0)"
| "id_rank (IdInt8 i) = (2, [], [], i)"

lemma id_rank_inject: "id_rank i = id_rank j \<longleftrightarrow> i = j"
  by (cases i; cases j) simp_all

instantiation id :: linorder
begin

definition less_eq_id :: "id \<Rightarrow> id \<Rightarrow> bool" where
  "less_eq_id i j \<longleftrightarrow> id_rank i \<le> id_rank j"

definition less_id :: "id \<Rightarrow> id \<Rightarrow> bool" where
  "less_id i j \<longleftrightarrow> id_rank i < id_rank j"

instance
proof
  fix i j k :: id
  show "i < j \<longleftrightarrow> i \<le> j \<and> \<not> j \<le> i" unfolding less_eq_id_def less_id_def by (rule less_le_not_le)
  show "i \<le> i" unfolding less_eq_id_def by (rule order_refl)
  show "i \<le> k" if "i \<le> j" "j \<le> k" using that unfolding less_eq_id_def by (rule order_trans)
  show "i = j" if "i \<le> j" "j \<le> i"
    using that unfolding less_eq_id_def id_rank_inject[symmetric] by (rule order_antisym)
  show "i \<le> j \<or> j \<le> i" unfolding less_eq_id_def by (rule linear)
qed

end

definition key_less :: "entity_key \<Rightarrow> entity_key \<Rightarrow> bool" where
  "key_less a b \<longleftrightarrow>
     (key_type a, key_id a, key_causality_region a) < (key_type b, key_id b, key_causality_region b)"

fun btree_insert :: "entity_key \<Rightarrow> 'v \<Rightarrow> (entity_key \<times> 'v) list \<Rightarrow> (entity_key \<times> 'v) list" where
  "btree_insert k v [] = [(k, v)]"
| "btree_insert k v ((k', v') # kvs) =
     (if k = k' then (k, v) # kvs
      else if key_less k k' then (k, v) # (k', v') # kvs
      else (k', v') # btree_insert k v kvs)"

section \<open>Operations on one entity\<close>

text \<open>The enum \<open>EntityOp\<close> of the cache.\<close>

datatype cached_op = RemoveOp | UpdateOp entity | OverwriteOp entity

text \<open>\<open>None\<close> is a panic, and an error names the attribute that is not in the pool.\<close>

fun apply_to :: "cached_op \<Rightarrow> entity option \<Rightarrow> (intern_error, entity option) result option" where
  "apply_to RemoveOp e = Some (Inr None)"
| "apply_to (OverwriteOp new) e = Some (Inr (Some new))"
| "apply_to (UpdateOp new) None = Some (Inr (Some new))"
| "apply_to (UpdateOp updates) (Some e) =
     map_option (\<lambda>r. bind_res r (\<lambda>e'. Inr (Some e'))) (merge_remove_null_fields updates e)"

text \<open>\<open>accumulate\<close> changes the operation \<open>self\<close>; it panics if the attributes can not be merged.\<close>

fun accumulate :: "cached_op \<Rightarrow> cached_op \<Rightarrow> cached_op option" where
  "accumulate RemoveOp self = Some RemoveOp"
| "accumulate (OverwriteOp e) self = Some (OverwriteOp e)"
| "accumulate (UpdateOp update) RemoveOp = Some (OverwriteOp update)"
| "accumulate (UpdateOp update) (UpdateOp current) = map_option UpdateOp (entity_merge update current)"
| "accumulate (UpdateOp update) (OverwriteOp current) = map_option OverwriteOp (entity_merge update current)"

section \<open>The state of the cache and its environment\<close>

type_synonym op_map = "(entity_key \<times> cached_op) list"

text \<open>The fields \<open>store\<close> and \<open>schema\<close> never change and are part of the environment below.\<close>

record 'q entity_cache =
  ec_current :: "'q lfu_cache"
  ec_updates :: op_map
  ec_handler_updates :: op_map
  ec_in_handler :: bool
  ec_seq :: "32 word"
  ec_vid_seq :: "32 word"

record derived_query =
  dq_entity_type :: entity_type
  dq_entity_field :: string
  dq_value :: id
  dq_causality_region :: causality_region

record load_related_request =
  lr_entity_type :: entity_type
  lr_entity_id :: id
  lr_entity_field :: string
  lr_causality_region :: causality_region

record read_store =
  rs_get :: "entity_key \<Rightarrow> (store_error, entity option) result"
  rs_get_many :: "entity_key list \<Rightarrow> (store_error, (entity_key \<times> entity) list) result"
  rs_get_derived :: "derived_query \<Rightarrow> (store_error, (entity_key \<times> entity) list) result"

text \<open>
  The environment: the priority queue, the store that is read, what the cache asks of the schema,
  the weights, the limit \<open>entity_cache_size\<close> and the iteration order of hash maps.
\<close>

record 'q cache_env =
  ce_queue :: "('q, entity_key, entity option) priority_queue"
  ce_sizes :: "(entity_key, entity option) sizes"
  ce_store :: read_store
  ce_object_type :: "entity_type \<Rightarrow> field list option"
  ce_is_immutable :: "entity_type \<Rightarrow> bool"
  ce_field_related :: "load_related_request \<Rightarrow> (unit, entity_type \<times> string) result"
  ce_entity_weight :: "entity \<Rightarrow> 64 word"
  ce_cache_size :: "64 word"
  ce_hash_order :: "op_map \<Rightarrow> op_map"

definition RESERVED_VIDS :: "32 word" where
  "RESERVED_VIDS = 100"

definition with_current :: "'q lfu_cache \<Rightarrow> 'q entity_cache" where
  "with_current current = \<lparr>ec_current = current, ec_updates = [], ec_handler_updates = [],
     ec_in_handler = False, ec_seq = 0, ec_vid_seq = RESERVED_VIDS\<rparr>"

definition entity_cache_new :: "'q cache_env \<Rightarrow> bool \<Rightarrow> 'q entity_cache" where
  "entity_cache_new env dead_weight = with_current (lfu_new (ce_queue env) dead_weight)"

section \<open>Handlers\<close>

text \<open>An operation goes to the map of the handler while one is running.\<close>

definition op_entry :: "entity_key \<Rightarrow> cached_op \<Rightarrow> op_map \<Rightarrow> op_map option" where
  "op_entry key op ops =
     (case map_of ops key of
        None \<Rightarrow> Some (AList.update key op ops)
      | Some current \<Rightarrow> map_option (\<lambda>op'. AList.update key op' ops) (accumulate op current))"

definition entity_op :: "entity_key \<Rightarrow> cached_op \<Rightarrow> 'q entity_cache \<Rightarrow> 'q entity_cache option" where
  "entity_op key op self =
     (if ec_in_handler self
      then map_option (\<lambda>ops. self\<lparr>ec_handler_updates := ops\<rparr>) (op_entry key op (ec_handler_updates self))
      else map_option (\<lambda>ops. self\<lparr>ec_updates := ops\<rparr>) (op_entry key op (ec_updates self)))"

fun entity_ops :: "op_map \<Rightarrow> 'q entity_cache \<Rightarrow> 'q entity_cache option" where
  "entity_ops [] self = Some self"
| "entity_ops ((key, op) # ops) self = do { self \<leftarrow> entity_op key op self; entity_ops ops self }"

definition enter_handler :: "'q entity_cache \<Rightarrow> 'q entity_cache option" where
  "enter_handler self = (if ec_in_handler self then None else Some (self\<lparr>ec_in_handler := True\<rparr>))"

definition exit_handler :: "'q cache_env \<Rightarrow> 'q entity_cache \<Rightarrow> 'q entity_cache option" where
  "exit_handler env self =
     (if \<not> ec_in_handler self then None
      else entity_ops (ce_hash_order env (ec_handler_updates self))
             (self\<lparr>ec_in_handler := False, ec_handler_updates := []\<rparr>))"

definition exit_handler_and_discard_changes :: "'q entity_cache \<Rightarrow> 'q entity_cache option" where
  "exit_handler_and_discard_changes self =
     (if \<not> ec_in_handler self then None
      else Some (self\<lparr>ec_in_handler := False, ec_handler_updates := []\<rparr>))"

section \<open>Reading and writing\<close>

datatype get_scope = StoreScope | InBlock

definition unknown_attribute :: "entity_key \<Rightarrow> intern_error \<Rightarrow> store_error" where
  "unknown_attribute key e = (case e of NotInterned w \<Rightarrow> UnknownAttribute (key_type key) w)"

definition apply_pending :: "entity_key \<Rightarrow> op_map \<Rightarrow> entity option \<Rightarrow> (store_error, entity option) result option" where
  "apply_pending key ops e =
     (case map_of ops key of
        None \<Rightarrow> Some (Inr e)
      | Some op \<Rightarrow> map_option (\<lambda>r. case r of Inl err \<Rightarrow> Inl (unknown_attribute key err) | Inr e' \<Rightarrow> Inr e') (apply_to op e))"

text \<open>\<open>get\<close> returns its result with the cache, which it may have filled.\<close>

definition cached_current :: "'q cache_env \<Rightarrow> entity_key \<Rightarrow> 'q entity_cache
    \<Rightarrow> ((store_error, entity option) result \<times> 'q entity_cache) option" where
  "cached_current env key self =
     (let read = (if lfu_contains_key (ce_queue env) key (ec_current self) then Inr (ec_current self)
                  else bind_res (rs_get (ce_store env) key)
                    (\<lambda>e. Inr (lfu_insert (ce_queue env) (ce_sizes env) key e (ec_current self))))
      in case read of
           Inl err \<Rightarrow> Some (Inl err, self)
         | Inr current \<Rightarrow>
             (case lfu_get (ce_queue env) key current of
                (None, current) \<Rightarrow> None
              | (Some e, current) \<Rightarrow> Some (Inr e, self\<lparr>ec_current := current\<rparr>)))"

definition cache_get :: "'q cache_env \<Rightarrow> entity_key \<Rightarrow> get_scope \<Rightarrow> 'q entity_cache
    \<Rightarrow> ((store_error, entity option) result \<times> 'q entity_cache) option" where
  "cache_get env key scope self =
     do { (entity, self) \<leftarrow>
            (case scope of StoreScope \<Rightarrow> cached_current env key self | InBlock \<Rightarrow> Some (Inr None, self));
          (case entity of
             Inl err \<Rightarrow> Some (Inl err, self)
           | Inr e \<Rightarrow>
               do { e \<leftarrow> apply_pending key (ec_updates self) e;
                    e \<leftarrow> (case e of Inl err \<Rightarrow> Some (Inl err) | Inr e \<Rightarrow> apply_pending key (ec_handler_updates self) e);
                    Some (e, self) }) }"

definition cache_remove :: "entity_key \<Rightarrow> 'q entity_cache \<Rightarrow> 'q entity_cache option" where
  "cache_remove key self = entity_op key RemoveOp self"

datatype set_error =
    ExceededWriteLimit id
  | VidAlreadySet store_value
  | ReadFailed store_error
  | FailedToReadBack
  | InvalidEntity validation_error

text \<open>
  \<open>set\<close>. The remaining write capacity, if there is a limit, is an argument and part of the result;
  it is a \<open>usize\<close>, and the subtraction wraps around.
\<close>

definition check_capacity :: "'q cache_env \<Rightarrow> entity_key \<Rightarrow> entity \<Rightarrow> 64 word option \<Rightarrow> 'q entity_cache
    \<Rightarrow> (set_error, 64 word option) result" where
  "check_capacity env key e capacity self =
     (case capacity of
        None \<Rightarrow> Inr None
      | Some remaining \<Rightarrow>
          if \<not> lfu_contains_key (ce_queue env) key (ec_current self) \<and> ce_entity_weight env e > remaining
          then Inl (ExceededWriteLimit (key_id key))
          else Inr (Some (remaining - ce_entity_weight env e)))"

definition read_back :: "'q cache_env \<Rightarrow> entity_key \<Rightarrow> 'q entity_cache
    \<Rightarrow> ((set_error, unit) result \<times> 'q entity_cache) option" where
  "read_back env key self =
     map_option (\<lambda>(r, self).
       (case r of
          Inl err \<Rightarrow> Inl (ReadFailed err)
        | Inr None \<Rightarrow> Inl FailedToReadBack
        | Inr (Some e) \<Rightarrow>
            (case validate (ce_object_type env) key e of
               Inl err \<Rightarrow> Inl (InvalidEntity err)
             | Inr u \<Rightarrow> Inr ()), self))
       (cache_get env key StoreScope self)"

definition cache_set :: "'q cache_env \<Rightarrow> entity_key \<Rightarrow> entity \<Rightarrow> block_number \<Rightarrow> 64 word option
    \<Rightarrow> 'q entity_cache \<Rightarrow> ((set_error, unit) result \<times> 64 word option \<times> 'q entity_cache) option" where
  "cache_set env key e block capacity self =
     (let is_valid = (validate (ce_object_type env) key e = Inr ())
      in case check_capacity env key e capacity self of
           Inl err \<Rightarrow> Some (Inl err, capacity, self)
         | Inr capacity \<Rightarrow>
             let vid = block_vid block (ec_vid_seq self);
                 self = self\<lparr>ec_vid_seq := ec_vid_seq self + 1\<rparr>
             in case set_vid vid e of
                  Inl err \<Rightarrow> None
                | Inr (Some old, e) \<Rightarrow>
                    if entity_id e = None then None else Some (Inl (VidAlreadySet old), capacity, self)
                | Inr (None, e) \<Rightarrow>
                    do { self \<leftarrow> entity_op key (UpdateOp e) self;
                         if is_valid then Some (Inr (), capacity, self)
                         else do { (r, self) \<leftarrow> read_back env key self; Some (r, capacity, self) } })"

datatype entity_operation = SetOperation entity_key entity | RemoveOperation entity_key

fun append_operations :: "entity_operation list \<Rightarrow> 'q entity_cache \<Rightarrow> 'q entity_cache option" where
  "append_operations [] self = Some self"
| "append_operations (SetOperation key data # ops) self =
     do { self \<leftarrow> entity_op key (UpdateOp data) self; append_operations ops self }"
| "append_operations (RemoveOperation key # ops) self =
     do { self \<leftarrow> entity_op key RemoveOp self; append_operations ops self }"

definition cache_append :: "entity_operation list \<Rightarrow> 'q entity_cache \<Rightarrow> 'q entity_cache option" where
  "cache_append ops self = (if ec_in_handler self then None else append_operations ops self)"

definition cache_extend :: "'q cache_env \<Rightarrow> 'q entity_cache \<Rightarrow> 'q entity_cache \<Rightarrow> 'q entity_cache option" where
  "cache_extend env other self =
     (if ec_in_handler other then None
      else entity_ops (ce_hash_order env (ec_updates other))
        (self\<lparr>ec_current := lfu_extend (ce_queue env) (ec_current other) (ec_current self)\<rparr>))"

definition cache_generate_id :: "id_type \<Rightarrow> block_number \<Rightarrow> 'q entity_cache
    \<Rightarrow> (unit, id) result \<times> 'q entity_cache" where
  "cache_generate_id t block self =
     (case generate_id t block (ec_seq self) of
        Inl err \<Rightarrow> (Inl err, self)
      | Inr i \<Rightarrow> (Inr i, self\<lparr>ec_seq := ec_seq self + 1\<rparr>))"

section \<open>Related entities\<close>

definition query_matches :: "derived_query \<Rightarrow> entity_key \<Rightarrow> entity \<Rightarrow> bool" where
  "query_matches query key e \<longleftrightarrow>
     key_type key = dq_entity_type query \<and> key_causality_region key = dq_causality_region query
     \<and> (case entity_get e (dq_entity_field query) of None \<Rightarrow> False | Some v \<Rightarrow> id_eq_value (dq_value query) v)"

text \<open>The local function \<open>matches_query\<close>: the entity of an operation that matches by itself.\<close>

fun op_matches :: "derived_query \<Rightarrow> entity_key \<Rightarrow> cached_op \<Rightarrow> entity option" where
  "op_matches query key (UpdateOp e) = (if query_matches query key e then Some e else None)"
| "op_matches query key (OverwriteOp e) = (if query_matches query key e then Some e else None)"
| "op_matches query key RemoveOp = None"

text \<open>The operation to apply to an entity from the store; two pending operations are accumulated.\<close>

definition pending_op :: "entity_key \<Rightarrow> 'q entity_cache \<Rightarrow> cached_op option option" where
  "pending_op key self =
     (case (map_of (ec_updates self) key, map_of (ec_handler_updates self) key) of
        (Some op, None) \<Rightarrow> Some (Some op)
      | (None, Some op) \<Rightarrow> Some (Some op)
      | (Some op, Some op2) \<Rightarrow> map_option Some (accumulate op2 op)
      | (None, None) \<Rightarrow> Some None)"

definition apply_named :: "entity_key \<Rightarrow> cached_op \<Rightarrow> entity option \<Rightarrow> (store_error, entity option) result option" where
  "apply_named key op e =
     map_option (\<lambda>r. case r of Inl err \<Rightarrow> Inl (unknown_attribute key err) | Inr e' \<Rightarrow> Inr e') (apply_to op e)"

text \<open>
  The first loop updates the entities from the store in place and collects the keys of removed ones;
  the second adds entities of \<open>updates\<close>, the third those of \<open>handler_updates\<close>.
\<close>

definition update_stored :: "'q entity_cache \<Rightarrow> entity_key \<times> entity
    \<Rightarrow> (entity_key \<times> entity) list \<times> entity_key list
    \<Rightarrow> (store_error, (entity_key \<times> entity) list \<times> entity_key list) result option" where
  "update_stored self kv st =
     (case (kv, st) of ((key, e), (entity_map, keys_to_remove)) \<Rightarrow>
        (case pending_op key self of
           None \<Rightarrow> None
         | Some None \<Rightarrow> Some (Inr (entity_map @ [(key, e)], keys_to_remove))
         | Some (Some op) \<Rightarrow>
             bind_run (apply_named key op (Some e)) (\<lambda>updated.
               Some (Inr (case updated of
                  Some e' \<Rightarrow> (entity_map @ [(key, e')], keys_to_remove)
                | None \<Rightarrow> (entity_map @ [(key, e)], keys_to_remove @ [key]))))))"

definition add_updated :: "derived_query \<Rightarrow> 'q entity_cache \<Rightarrow> entity_key \<times> cached_op
    \<Rightarrow> (entity_key \<times> entity) list \<Rightarrow> (store_error, (entity_key \<times> entity) list) result option" where
  "add_updated query self kop entity_map =
     (case kop of (key, op) \<Rightarrow>
        if map_of entity_map key \<noteq> None then Some (Inr entity_map)
        else (case op_matches query key op of
                None \<Rightarrow> Some (Inr entity_map)
              | Some e \<Rightarrow>
                  (case map_of (ec_handler_updates self) key of
                     None \<Rightarrow> Some (Inr (btree_insert key e entity_map))
                   | Some handler_op \<Rightarrow>
                       bind_run (apply_named key handler_op (Some e)) (\<lambda>updated.
                         Some (Inr (case updated of
                            Some e' \<Rightarrow> btree_insert key e' entity_map
                          | None \<Rightarrow> entity_map))))))"

definition add_handler_updated :: "derived_query \<Rightarrow> 'q entity_cache \<Rightarrow> entity_key \<times> cached_op
    \<Rightarrow> (entity_key \<times> entity) list \<Rightarrow> (entity_key \<times> entity) list" where
  "add_handler_updated query self kop entity_map =
     (case kop of (key, handler_op) \<Rightarrow>
        if map_of entity_map key = None \<and> map_of (ec_updates self) key = None
        then (case op_matches query key handler_op of
                None \<Rightarrow> entity_map
              | Some e \<Rightarrow> btree_insert key e entity_map)
        else entity_map)"

definition related_entities :: "'q cache_env \<Rightarrow> derived_query \<Rightarrow> (entity_key \<times> entity) list \<Rightarrow> 'q entity_cache
    \<Rightarrow> (store_error, (entity_key \<times> entity) list) result option" where
  "related_entities env query stored self =
     bind_run (fold_run (update_stored self) stored ([], [])) (\<lambda>(entity_map, keys_to_remove).
       bind_run (fold_run (add_updated query self) (ce_hash_order env (ec_updates self)) entity_map) (\<lambda>entity_map.
         let entity_map = fold (add_handler_updated query self) (ce_hash_order env (ec_handler_updates self)) entity_map
         in Some (Inr (filter (\<lambda>(key, e). key \<notin> set keys_to_remove) entity_map))))"

definition remember_stored :: "'q cache_env \<Rightarrow> (entity_key \<times> entity) list \<Rightarrow> 'q lfu_cache \<Rightarrow> 'q lfu_cache" where
  "remember_stored env kvs current =
     fold (\<lambda>(key, e) current.
        if lfu_contains_key (ce_queue env) key current then current
        else lfu_insert (ce_queue env) (ce_sizes env) key (Some e) current) kvs current"

datatype related_error = NotADerivedField | RelatedReadFailed store_error

definition load_related :: "'q cache_env \<Rightarrow> load_related_request \<Rightarrow> 'q entity_cache
    \<Rightarrow> ((related_error, entity list) result \<times> 'q entity_cache) option" where
  "load_related env eref self =
     (case ce_field_related env eref of
        Inl u \<Rightarrow> Some (Inl NotADerivedField, self)
      | Inr (t, field) \<Rightarrow>
          let query = \<lparr>dq_entity_type = t, dq_entity_field = field, dq_value = lr_entity_id eref,
                       dq_causality_region = lr_causality_region eref\<rparr>
          in case rs_get_derived (ce_store env) query of
               Inl err \<Rightarrow> Some (Inl (RelatedReadFailed err), self)
             | Inr stored \<Rightarrow>
                 let self = self\<lparr>ec_current := remember_stored env stored (ec_current self)\<rparr>
                 in map_option (\<lambda>r. (case r of
                        Inl err \<Rightarrow> Inl (RelatedReadFailed err)
                      | Inr kvs \<Rightarrow> Inr (map snd kvs), self))
                      (related_entities env query stored self))"

section \<open>The modifications of a block\<close>

text \<open>The modification for one entity and what the cache holds for it afterwards.\<close>

fun modification :: "entity_key \<Rightarrow> block_number \<Rightarrow> entity option \<Rightarrow> cached_op
    \<Rightarrow> (intern_error, entity entity_modification option \<times> entity option option) result option" where
  "modification key block None (UpdateOp updates) =
     map_option (\<lambda>data. Inr (Some (Insert key data block None), Some (Some data))) (remove_null_fields updates)"
| "modification key block None (OverwriteOp updates) =
     map_option (\<lambda>data. Inr (Some (Insert key data block None), Some (Some data))) (remove_null_fields updates)"
| "modification key block (Some current) (UpdateOp updates) =
     bind_run (merge_remove_null_fields updates current) (\<lambda>data.
       map_option (\<lambda>same. Inr (if same then None else Some (Overwrite key data block None), Some (Some data)))
         (entity_eq current data))"
| "modification key block (Some current) (OverwriteOp data) =
     map_option (\<lambda>same. Inr (if same then None else Some (Overwrite key data block None), Some (Some data)))
       (entity_eq current data)"
| "modification key block (Some current) RemoveOp = Some (Inr (Some (Remove key block), Some None))"
| "modification key block None RemoveOp = Some (Inr (None, None))"

definition modify_step :: "'q cache_env \<Rightarrow> block_number \<Rightarrow> entity_key \<times> cached_op
    \<Rightarrow> entity entity_modification list \<times> 'q lfu_cache
    \<Rightarrow> (store_error, entity entity_modification list \<times> 'q lfu_cache) result option" where
  "modify_step env block entry st =
     (case (entry, st) of ((key, update), (mods, current)) \<Rightarrow>
        (case lfu_remove (ce_queue env) key current of
           None \<Rightarrow> None
         | Some (removed, current) \<Rightarrow>
             (case modification key block (Option.bind removed id) update of
                None \<Rightarrow> None
              | Some (Inl err) \<Rightarrow> Some (Inl (unknown_attribute key err))
              | Some (Inr (m, entry)) \<Rightarrow>
                  Some (Inr (mods @ (case m of None \<Rightarrow> [] | Some m \<Rightarrow> [m]),
                    (case entry of
                       None \<Rightarrow> current
                     | Some e \<Rightarrow> lfu_insert (ce_queue env) (ce_sizes env) key e current))))))"

text \<open>The keys to load: immutable entities are assumed to be new.\<close>

definition missing_keys :: "'q cache_env \<Rightarrow> 'q entity_cache \<Rightarrow> entity_key list" where
  "missing_keys env self =
     filter (\<lambda>key. \<not> lfu_contains_key (ce_queue env) key (ec_current self) \<and> \<not> ce_is_immutable env (key_type key))
       (map fst (ec_updates self))"

definition fill :: "'q cache_env \<Rightarrow> (entity_key \<times> entity) list \<Rightarrow> 'q lfu_cache \<Rightarrow> 'q lfu_cache" where
  "fill env kvs current =
     fold (\<lambda>(key, e). lfu_insert (ce_queue env) (ce_sizes env) key (Some e)) kvs current"

record 'q modifications_and_cache =
  mc_modifications :: "entity entity_modification list"
  mc_entity_lfu_cache :: "'q lfu_cache"
  mc_evict_stats :: evict_stats

definition as_modifications :: "'q cache_env \<Rightarrow> block_number \<Rightarrow> 'q entity_cache
    \<Rightarrow> (store_error, 'q modifications_and_cache) result option" where
  "as_modifications env block self =
     (if ec_in_handler self then None
      else case rs_get_many (ce_store env) (missing_keys env self) of
             Inl err \<Rightarrow> Some (Inl err)
           | Inr kvs \<Rightarrow>
               bind_run (fold_run (modify_step env block) (ce_hash_order env (ec_updates self))
                   ([], fill env kvs (ec_current self)))
                 (\<lambda>(mods, current).
                   (case evict_and_stats (ce_queue env) (ce_sizes env) (ce_cache_size env) current of
                      None \<Rightarrow> None
                    | Some (Inl u) \<Rightarrow> None
                    | Some (Inr (stats, current)) \<Rightarrow>
                        Some (Inr \<lparr>mc_modifications = mods, mc_entity_lfu_cache = current, mc_evict_stats = stats\<rparr>))))"

end
