(* ===== verification/Entity_Cache_Correct.thy ===== *)
theory Entity_Cache_Correct
  imports Entity_Cache "HOL-Library.Multiset"
begin

text \<open>
  What the entity cache promises. The abstract state is the function from keys to the attributes of
  an entity, without nulls and without the vid; the cache shows the store as changed by the pending
  operations, leaving a handler does not change what it shows, and the modifications at the end of a
  block turn the store into what the cache showed.
\<close>

section \<open>The abstract operations\<close>

type_synonym attrs = "string \<Rightarrow> store_value option"
type_synonym store_view = "entity_key \<Rightarrow> attrs option"

definition seen :: "entity \<Rightarrow> attrs" where
  "seen e = drop_nulls (public_attrs e)"

fun seen_op :: "cached_op \<Rightarrow> attrs option \<Rightarrow> attrs option" where
  "seen_op RemoveOp x = None"
| "seen_op (OverwriteOp e) x = Some (seen e)"
| "seen_op (UpdateOp e) None = Some (seen e)"
| "seen_op (UpdateOp e) (Some m) = Some (update_map m (public_attrs e))"

fun op_ok :: "pool_ref \<Rightarrow> cached_op \<Rightarrow> bool" where
  "op_ok P RemoveOp = True"
| "op_ok P (UpdateOp e) = entity_ok P e"
| "op_ok P (OverwriteOp e) = entity_ok P e"

lemma visible_add: "obj_get e' = obj_get e ++ obj_get u \<Longrightarrow> public_attrs e' = public_attrs e ++ public_attrs u"
  by (rule ext) (simp add: visible_alt map_add_def split: option.split)

lemma visible_update: "obj_get e' = update_map (obj_get e) (obj_get u) \<Longrightarrow> public_attrs e' = update_map (public_attrs e) (public_attrs u)"
  by (rule ext) (simp add: visible_alt update_map_def split: option.split)

lemma visible_drop: "obj_get e' = drop_nulls (obj_get e) \<Longrightarrow> public_attrs e' = seen e"
  by (rule ext) (simp add: visible_alt drop_nulls_def seen_def)

lemma seen_idem: "public_attrs e' = seen e \<Longrightarrow> seen e' = seen e"
  by (simp add: seen_def)

text \<open>Accumulating two operations is applying one after the other.\<close>

lemma accumulate_spec:
  assumes "op_ok P a" and "op_ok P b"
  obtains c where "accumulate b a = Some c" "op_ok P c" "\<And>x. seen_op c x = seen_op b (seen_op a x)"
proof (cases b)
  case RemoveOp
  then show thesis using that[of RemoveOp] by simp
next
  case (OverwriteOp e)
  then show thesis using that[of "OverwriteOp e"] assms(2) by simp
next
  case (UpdateOp u)
  with assms(2) have u: "entity_ok P u" by simp
  show thesis
  proof (cases a)
    case RemoveOp
    then show thesis using that[of "OverwriteOp u"] UpdateOp u by simp
  next
    case (UpdateOp e)
    with assms(1) u obtain e' where e': "entity_merge u e = Some e'" "entity_ok P e'" "obj_get e' = obj_get e ++ obj_get u"
      using entity_merge_spec[of P e u] by auto
    have "seen_op (UpdateOp e') x = seen_op b (seen_op a x)" for x
      using \<open>b = UpdateOp u\<close> UpdateOp visible_add[OF e'(3)]
      by (cases x) (simp_all add: seen_def drop_nulls_add update_map_add)
    then show thesis using that[of "UpdateOp e'"] UpdateOp \<open>b = UpdateOp u\<close> e' by simp
  next
    case (OverwriteOp e)
    with assms(1) u obtain e' where e': "entity_merge u e = Some e'" "entity_ok P e'" "obj_get e' = obj_get e ++ obj_get u"
      using entity_merge_spec[of P e u] by auto
    have "seen_op (OverwriteOp e') x = seen_op b (seen_op a x)" for x
      using \<open>b = UpdateOp u\<close> OverwriteOp visible_add[OF e'(3)] by (simp add: seen_def drop_nulls_add)
    then show thesis using that[of "OverwriteOp e'"] OverwriteOp \<open>b = UpdateOp u\<close> e' by simp
  qed
qed

lemma apply_to_spec:
  assumes "op_ok P op" and "\<forall>e0. e = Some e0 \<longrightarrow> entity_ok P e0"
  obtains e' where "apply_to op e = Some (Inr e')" "map_option seen e' = seen_op op (map_option seen e)"
    "\<forall>e0. e' = Some e0 \<longrightarrow> entity_ok P e0"
proof (cases op)
  case RemoveOp
  then show thesis using that[of None] by simp
next
  case (OverwriteOp new)
  then show thesis using that[of "Some new"] assms(1) by simp
next
  case (UpdateOp u)
  show thesis
  proof (cases e)
    case None
    then show thesis using that[of "Some u"] UpdateOp assms(1) by simp
  next
    case (Some e0)
    with assms UpdateOp obtain e' where e': "merge_remove_null_fields u e0 = Some (Inr e')" "entity_ok P e'"
      "obj_get e' = update_map (obj_get e0) (obj_get u)"
      using merge_remove_null_fields_spec[of P e0 u] by auto
    have "seen e' = update_map (seen e0) (public_attrs u)"
      using visible_update[OF e'(3)] by (simp add: seen_def drop_nulls_update)
    then show thesis using that[of "Some e'"] UpdateOp Some e' by simp
  qed
qed

section \<open>Maps of operations\<close>

definition ops_ok :: "pool_ref \<Rightarrow> op_map \<Rightarrow> bool" where
  "ops_ok P ops \<longleftrightarrow> distinct (map fst ops) \<and> (\<forall>(k, op) \<in> set ops. op_ok P op)"

definition pending :: "op_map \<Rightarrow> entity_key \<Rightarrow> attrs option \<Rightarrow> attrs option" where
  "pending ops k x = (case map_of ops k of None \<Rightarrow> x | Some op \<Rightarrow> seen_op op x)"

lemma pending_Nil [simp]: "pending [] k x = x"
  by (simp add: pending_def)

lemma pending_Cons: "pending ((k', op) # ops) k x = (if k = k' then seen_op op x else pending ops k x)"
  by (simp add: pending_def)

lemma ops_ok_simps [simp]:
  "ops_ok P []"
  "ops_ok P ((k, op) # ops) \<longleftrightarrow> op_ok P op \<and> k \<notin> fst ` set ops \<and> ops_ok P ops"
  by (auto simp: ops_ok_def)

lemma ops_ok_lookup: "ops_ok P ops \<Longrightarrow> map_of ops k = Some op \<Longrightarrow> op_ok P op"
  by (auto simp: ops_ok_def dest!: map_of_SomeD)

lemma ops_ok_update: "ops_ok P ops \<Longrightarrow> op_ok P op \<Longrightarrow> ops_ok P (AList.update k op ops)"
  using set_update_subset[of k op ops] by (fastforce simp: ops_ok_def distinct_update)

lemma pending_update: "pending (AList.update k' op ops) k x = (if k = k' then seen_op op x else pending ops k x)"
  by (simp add: pending_def update_conv')

lemma op_entry_spec:
  assumes "ops_ok P ops" and "op_ok P op"
  obtains ops' where "op_entry key op ops = Some ops'" "ops_ok P ops'"
    "\<And>k x. pending ops' k x = (if k = key then seen_op op (pending ops k x) else pending ops k x)"
    "set (map fst ops') = insert key (set (map fst ops))"
proof (cases "map_of ops key")
  case None
  then show thesis
    using that[of "AList.update key op ops"] ops_ok_update[OF assms] dom_update[of key op ops]
    by (simp add: op_entry_def pending_update) (simp add: pending_def)
next
  case (Some current)
  obtain op' where op': "accumulate op current = Some op'" "op_ok P op'"
    "\<And>x. seen_op op' x = seen_op op (seen_op current x)"
    using accumulate_spec[OF ops_ok_lookup[OF assms(1) Some] assms(2)] by blast
  then show thesis
    using that[of "AList.update key op' ops"] ops_ok_update[OF assms(1) op'(2)] Some dom_update[of key op' ops]
    by (simp add: op_entry_def pending_update) (simp add: pending_def)
qed

text \<open>The iteration order of a hash map is some order of its entries.\<close>

definition hash_order_ok :: "'q cache_env \<Rightarrow> bool" where
  "hash_order_ok env \<longleftrightarrow> (\<forall>ops. mset (ce_hash_order env ops) = mset ops)"

lemma pending_reorder:
  assumes "hash_order_ok env" and "ops_ok P ops"
  shows "ops_ok P (ce_hash_order env ops)" and "pending (ce_hash_order env ops) = pending ops"
    and "set (ce_hash_order env ops) = set ops"
proof -
  let ?ops = "ce_hash_order env ops"
  have m: "mset ?ops = mset ops" using assms(1) by (simp add: hash_order_ok_def)
  then show s: "set ?ops = set ops" by (rule mset_eq_setD)
  have "mset (map fst ?ops) = mset (map fst ops)" using m by simp
  then have d: "distinct (map fst ?ops)" using assms(2) mset_eq_imp_distinct_iff unfolding ops_ok_def by blast
  with s assms(2) show "ops_ok P ?ops" by (simp add: ops_ok_def)
  have "map_of ?ops = map_of ops" using d s assms(2) by (simp add: map_of_inject_set ops_ok_def)
  then show "pending ?ops = pending ops" by (simp add: pending_def fun_eq_iff)
qed

section \<open>The view of the cache\<close>

definition cache_view :: "store_view \<Rightarrow> 'q entity_cache \<Rightarrow> store_view" where
  "cache_view st self = (\<lambda>k. pending (ec_handler_updates self) k (pending (ec_updates self) k (st k)))"

text \<open>What is known of the entities in the LFU cache: they are those of the store.\<close>

definition current_ok :: "pool_ref \<Rightarrow> 'q cache_env \<Rightarrow> store_view \<Rightarrow> 'q lfu_cache \<Rightarrow> bool" where
  "current_ok P env st current \<longleftrightarrow>
     lfu_inv (ce_queue env) current \<and> weighs (ce_queue env) current \<and> \<not> lfu_dead_weight current
     \<and> (\<forall>k v. lfu_map (ce_queue env) current k = Some v \<longrightarrow>
          map_option seen v = st k \<and> (\<forall>e. v = Some e \<longrightarrow> entity_ok P e))"

definition updates_ok :: "pool_ref \<Rightarrow> 'q entity_cache \<Rightarrow> bool" where
  "updates_ok P self \<longleftrightarrow> ops_ok P (ec_updates self) \<and> ops_ok P (ec_handler_updates self)
     \<and> (ec_in_handler self \<or> ec_handler_updates self = [])"

definition cache_ok :: "pool_ref \<Rightarrow> 'q cache_env \<Rightarrow> store_view \<Rightarrow> 'q entity_cache \<Rightarrow> bool" where
  "cache_ok P env st self \<longleftrightarrow> current_ok P env st (ec_current self) \<and> updates_ok P self"

text \<open>The store answers every read with the entity that the view has for the key.\<close>

definition answers :: "pool_ref \<Rightarrow> attrs option \<Rightarrow> entity option \<Rightarrow> bool" where
  "answers P x v \<longleftrightarrow> map_option seen v = x \<and> (\<forall>e. v = Some e \<longrightarrow> entity_ok P e)"

definition store_reads :: "pool_ref \<Rightarrow> 'q cache_env \<Rightarrow> store_view \<Rightarrow> bool" where
  "store_reads P env st \<longleftrightarrow>
     (\<forall>k. \<exists>v. rs_get (ce_store env) k = Inr v \<and> answers P (st k) v)
     \<and> (\<forall>ks. \<exists>kvs. rs_get_many (ce_store env) ks = Inr kvs \<and> distinct (map fst kvs)
          \<and> (\<forall>k. if k \<in> set ks then answers P (st k) (map_of kvs k) else map_of kvs k = None))"

definition env_ok :: "'q cache_env \<Rightarrow> bool" where
  "env_ok env \<longleftrightarrow> pq_laws (ce_queue env) \<and> hash_order_ok env"

lemma with_current_ok: "current_ok P env st current \<Longrightarrow> cache_ok P env st (with_current current)"
  by (simp add: cache_ok_def with_current_def updates_ok_def)

lemma with_current_view [simp]: "cache_view st (with_current current) = st"
  by (simp add: cache_view_def with_current_def)

lemma entity_op_spec:
  assumes "updates_ok P self" and "op_ok P op"
  obtains self' where "entity_op key op self = Some self'" "updates_ok P self'"
    "cache_view st self' = (cache_view st self)(key := seen_op op (cache_view st self key))"
    "ec_current self' = ec_current self" "ec_in_handler self' = ec_in_handler self"
    "\<not> ec_in_handler self \<Longrightarrow> set (map fst (ec_updates self')) = insert key (set (map fst (ec_updates self)))"
proof (cases "ec_in_handler self")
  case True
  have h: "ops_ok P (ec_handler_updates self)" using assms(1) by (simp add: updates_ok_def)
  obtain ops where ops: "op_entry key op (ec_handler_updates self) = Some ops" "ops_ok P ops"
    "\<And>k x. pending ops k x = (if k = key then seen_op op (pending (ec_handler_updates self) k x)
       else pending (ec_handler_updates self) k x)"
    "set (map fst ops) = insert key (set (map fst (ec_handler_updates self)))"
    by (rule op_entry_spec[OF h assms(2), of key]) (rule that)
  show thesis
    by (rule that[of "self\<lparr>ec_handler_updates := ops\<rparr>"])
       (use True assms ops in \<open>simp_all add: entity_op_def updates_ok_def cache_view_def fun_eq_iff\<close>)
next
  case False
  have u: "ops_ok P (ec_updates self)" using assms(1) by (simp add: updates_ok_def)
  obtain ops where ops: "op_entry key op (ec_updates self) = Some ops" "ops_ok P ops"
    "\<And>k x. pending ops k x = (if k = key then seen_op op (pending (ec_updates self) k x)
       else pending (ec_updates self) k x)" "set (map fst ops) = insert key (set (map fst (ec_updates self)))"
    by (rule op_entry_spec[OF u assms(2), of key]) (rule that)
  show thesis
    by (rule that[of "self\<lparr>ec_updates := ops\<rparr>"])
       (use False assms ops in \<open>simp_all add: entity_op_def updates_ok_def cache_view_def fun_eq_iff\<close>)
qed

lemma entity_ops_spec:
  assumes "updates_ok P self" and "ops_ok P ops"
  shows "\<exists>self'. entity_ops ops self = Some self' \<and> updates_ok P self'
    \<and> cache_view st self' = (\<lambda>k. pending ops k (cache_view st self k))
    \<and> ec_current self' = ec_current self \<and> ec_in_handler self' = ec_in_handler self"
  using assms
proof (induction ops arbitrary: self)
  case Nil
  then show ?case by simp
next
  case (Cons kop ops)
  obtain k op where kop: "kop = (k, op)" by (cases kop)
  with Cons.prems have op: "op_ok P op" "k \<notin> fst ` set ops" "ops_ok P ops" by simp_all
  obtain s1 where s1: "entity_op k op self = Some s1" "updates_ok P s1"
    "cache_view st s1 = (cache_view st self)(k := seen_op op (cache_view st self k))"
    "ec_current s1 = ec_current self" "ec_in_handler s1 = ec_in_handler self"
    by (rule entity_op_spec[OF Cons.prems(1) op(1), of k st]) (rule that)
  have "map_of ops k = None" using op(2) by (simp add: map_of_eq_None_iff)
  then have "(\<lambda>j. pending ops j (cache_view st s1 j)) = (\<lambda>j. pending (kop # ops) j (cache_view st self j))"
    by (auto simp: s1(3) kop pending_Cons fun_eq_iff) (simp add: pending_def)
  then show ?case using Cons.IH[OF s1(2) op(3)] s1 kop by auto
qed

text \<open>
  Leaving a handler moves its operations to the block without changing what the cache shows;
  discarding them shows again what was shown before the handler.
\<close>

lemma exit_handler_spec:
  assumes "hash_order_ok env" and "updates_ok P self" and "ec_in_handler self"
  obtains self' where "exit_handler env self = Some self'" "updates_ok P self'" "\<not> ec_in_handler self'"
    "cache_view st self' = cache_view st self" "ec_current self' = ec_current self"
proof -
  let ?ops = "ec_handler_updates self"
  let ?self = "self\<lparr>ec_in_handler := False, ec_handler_updates := []\<rparr>"
  have ok: "ops_ok P ?ops" "updates_ok P ?self" using assms(2) by (simp_all add: updates_ok_def)
  note order = pending_reorder[OF assms(1) ok(1)]
  obtain self' where "entity_ops (ce_hash_order env ?ops) ?self = Some self'" "updates_ok P self'"
    "cache_view st self' = (\<lambda>k. pending (ce_hash_order env ?ops) k (cache_view st ?self k))"
    "ec_current self' = ec_current ?self" "ec_in_handler self' = ec_in_handler ?self"
    using entity_ops_spec[OF ok(2) order(1)] by blast
  then show thesis using that[of self'] assms(3) by (simp add: exit_handler_def order(2) cache_view_def)
qed

end
