(* ===== verification/Cache_Modifications.thy ===== *)
theory Cache_Modifications
  imports Entity_Cache_Correct
begin

text \<open>
  Reading through the cache and the modifications of a block: \<open>get\<close> returns what the view of the
  cache has, and \<open>as_modifications\<close> returns modifications that turn the store into that view, at
  most one for an entity, with a cache that agrees with the new store.
\<close>

section \<open>The LFU cache behind the entity cache\<close>

lemma lfu_dead_weight_simps [simp]:
  "lfu_dead_weight (snd (lfu_get_mut Q f key c)) = lfu_dead_weight c"
  "lfu_dead_weight (snd (lfu_get Q key c)) = lfu_dead_weight c"
  by (simp_all add: lfu_get_def lfu_get_mut_def Let_def split: option.splits)

lemma lfu_dead_weight_insert [simp]: "lfu_dead_weight (lfu_insert Q S key v c) = lfu_dead_weight c"
proof -
  let ?r = "lfu_get_mut Q (\<lambda>e. e\<lparr>ce_weight := entry_weight S key v, ce_value := v\<rparr>) key c"
  have "lfu_dead_weight (lfu_insert Q S key v c) = lfu_dead_weight (snd ?r)"
    by (cases ?r) (simp add: lfu_insert_def Let_def split: option.split)
  then show ?thesis by simp
qed

lemma lfu_dead_weight_remove: "lfu_remove Q key c = Some (v, c') \<Longrightarrow> lfu_dead_weight c' = lfu_dead_weight c"
  by (auto simp: lfu_remove_def split: prod.splits option.splits if_splits)

text \<open>
  The entries of a good cache are those of the store; inserting what the store has for a key, and
  removing a key, keep it good, the former also when the store changes at this key.
\<close>

lemma current_ok_entry:
  "current_ok P env st c \<Longrightarrow> lfu_map (ce_queue env) c k = Some v \<Longrightarrow> answers P (st k) v"
  by (simp add: current_ok_def answers_def)

lemma current_ok_inv: "current_ok P env st c \<Longrightarrow> lfu_inv (ce_queue env) c"
  by (simp add: current_ok_def)

lemma current_ok_insert:
  assumes "pq_laws (ce_queue env)" and "current_ok P env st c" and "answers P x v"
  shows "current_ok P env (st(k := x)) (lfu_insert (ce_queue env) (ce_sizes env) k v c)"
  using assms lfu_insert_spec[OF assms(1)] lfu_insert_weighs[OF assms(1)]
  by (auto simp: current_ok_def answers_def split: if_splits)

lemma current_ok_insert_same:
  assumes "pq_laws (ce_queue env)" and "current_ok P env st c" and "answers P (st k) v"
  shows "current_ok P env st (lfu_insert (ce_queue env) (ce_sizes env) k v c)"
  using current_ok_insert[OF assms, of k] by simp

lemma current_ok_get:
  assumes "pq_laws (ce_queue env)" and "current_ok P env st c"
  shows "current_ok P env st (snd (lfu_get (ce_queue env) k c))"
  using assms lfu_get_spec[OF assms(1)] lfu_get_weighs[OF assms(1)] by (simp add: current_ok_def)

lemma current_ok_remove:
  assumes "pq_laws (ce_queue env)" and "current_ok P env st c"
  obtains c' where "lfu_remove (ce_queue env) k c = Some (lfu_map (ce_queue env) c k, c')"
    "current_ok P env st c'" "lfu_map (ce_queue env) c' = (lfu_map (ce_queue env) c)(k := None)"
proof -
  obtain c' where c': "lfu_remove (ce_queue env) k c = Some (lfu_map (ce_queue env) c k, c')"
    "lfu_inv (ce_queue env) c'" "lfu_map (ce_queue env) c' = (lfu_map (ce_queue env) c)(k := None)"
    by (rule lfu_remove_spec[OF assms(1) current_ok_inv[OF assms(2)]]) (rule that)
  moreover have "current_ok P env st c'"
    using assms(2) c' lfu_remove_weighs[OF assms(1) _ c'(1)] lfu_dead_weight_remove[OF c'(1)]
    by (simp add: current_ok_def)
  ultimately show thesis using that by blast
qed

text \<open>A key that the cache does not have may change in the store.\<close>

lemma current_ok_absent:
  "current_ok P env st c \<Longrightarrow> lfu_map (ce_queue env) c k = None \<Longrightarrow> current_ok P env (st(k := x)) c"
  by (auto simp: current_ok_def)

section \<open>Reading\<close>

lemma apply_pending_spec:
  assumes "ops_ok P ops" and "answers P x e"
  obtains e' where "apply_pending key ops e = Some (Inr e')" "answers P (pending ops key x) e'"
proof (cases "map_of ops key")
  case None
  then show thesis using that[of e] assms(2) by (simp add: apply_pending_def pending_def)
next
  case (Some op)
  have e: "\<forall>e0. e = Some e0 \<longrightarrow> entity_ok P e0" and x: "map_option seen e = x"
    using assms(2) by (simp_all add: answers_def)
  obtain e' where "apply_to op e = Some (Inr e')" "map_option seen e' = seen_op op (map_option seen e)"
    "\<forall>e0. e' = Some e0 \<longrightarrow> entity_ok P e0"
    by (rule apply_to_spec[OF ops_ok_lookup[OF assms(1) Some] e]) (rule that)
  then show thesis using that[of e'] Some x by (simp add: apply_pending_def pending_def answers_def)
qed

lemma cached_current_spec:
  assumes "env_ok env" and "store_reads P env st" and "current_ok P env st (ec_current self)"
  obtains e c where "cached_current env key self = Some (Inr e, self\<lparr>ec_current := c\<rparr>)"
    "answers P (st key) e" "current_ok P env st c"
proof -
  let ?Q = "ce_queue env"
  have Q: "pq_laws ?Q" using assms(1) by (simp add: env_ok_def)
  have read: "\<exists>c e. (if lfu_contains_key ?Q key (ec_current self) then Inr (ec_current self)
      else bind_res (rs_get (ce_store env) key) (\<lambda>e. Inr (lfu_insert ?Q (ce_sizes env) key e (ec_current self)))) = Inr c
    \<and> current_ok P env st c \<and> lfu_map ?Q c key = Some e"
  proof (cases "lfu_contains_key ?Q key (ec_current self)")
    case True
    then show ?thesis using assms(3) lfu_contains_key_iff by fastforce
  next
    case False
    obtain v where v: "rs_get (ce_store env) key = Inr v" "answers P (st key) v"
      using assms(2) unfolding store_reads_def by blast
    then show ?thesis using False current_ok_insert_same[OF Q assms(3) v(2)] lfu_insert_spec(1)[OF Q] by simp
  qed
  then obtain c e where c: "current_ok P env st c" "lfu_map ?Q c key = Some e"
    and r: "(if lfu_contains_key ?Q key (ec_current self) then Inr (ec_current self)
      else bind_res (rs_get (ce_store env) key) (\<lambda>e. Inr (lfu_insert ?Q (ce_sizes env) key e (ec_current self)))) = Inr c"
    by blast
  let ?g = "lfu_get ?Q key c"
  have "?g = (Some e, snd ?g)" using c(2) lfu_get_spec(1)[OF Q] by (metis prod.collapse)
  then have "cached_current env key self = Some (Inr e, self\<lparr>ec_current := snd ?g\<rparr>)"
    using r by (cases ?g) (simp add: cached_current_def)
  then show thesis
    using that current_ok_entry[OF c] current_ok_get[OF Q c(1)] by blast
qed

text \<open>\<open>get\<close> in the scope of the store returns what the cache shows, and changes nothing of that.\<close>

lemma cache_get_spec:
  assumes "env_ok env" and "store_reads P env st" and "cache_ok P env st self"
  obtains e self' where "cache_get env key StoreScope self = Some (Inr e, self')"
    "answers P (cache_view st self key) e" "cache_ok P env st self'" "cache_view st self' = cache_view st self"
proof -
  have ok: "current_ok P env st (ec_current self)" "ops_ok P (ec_updates self)" "ops_ok P (ec_handler_updates self)"
    using assms(3) by (simp_all add: cache_ok_def updates_ok_def)
  obtain e c where e: "cached_current env key self = Some (Inr e, self\<lparr>ec_current := c\<rparr>)"
    "answers P (st key) e" "current_ok P env st c"
    by (rule cached_current_spec[OF assms(1,2) ok(1), of key]) (rule that)
  obtain e1 where e1: "apply_pending key (ec_updates self) e = Some (Inr e1)"
    "answers P (pending (ec_updates self) key (st key)) e1"
    by (rule apply_pending_spec[OF ok(2) e(2), of key]) (rule that)
  obtain e2 where e2: "apply_pending key (ec_handler_updates self) e1 = Some (Inr e2)"
    "answers P (cache_view st self key) e2"
    using apply_pending_spec[OF ok(3) e1(2), of key] by (auto simp: cache_view_def)
  have "cache_get env key StoreScope self = Some (Inr e2, self\<lparr>ec_current := c\<rparr>)"
    using e(1) e1(1) e2(1) by (simp add: cache_get_def)
  moreover have "cache_ok P env st (self\<lparr>ec_current := c\<rparr>)"
    using e(3) assms(3) by (simp add: cache_ok_def updates_ok_def)
  moreover have "cache_view st (self\<lparr>ec_current := c\<rparr>) = cache_view st self" by (simp add: cache_view_def)
  ultimately show thesis using that e2(2) by blast
qed

text \<open>In the scope of the block only the pending operations count.\<close>

lemma cache_get_in_block_spec:
  assumes "updates_ok P self"
  obtains e where "cache_get env key InBlock self = Some (Inr e, self)"
    "answers P (cache_view (\<lambda>_. None) self key) e"
proof -
  have ok: "ops_ok P (ec_updates self)" "ops_ok P (ec_handler_updates self)"
    using assms by (simp_all add: updates_ok_def)
  have none: "answers P None None" by (simp add: answers_def)
  obtain e1 where e1: "apply_pending key (ec_updates self) None = Some (Inr e1)"
    "answers P (pending (ec_updates self) key None) e1"
    by (rule apply_pending_spec[OF ok(1) none, of key]) (rule that)
  obtain e2 where e2: "apply_pending key (ec_handler_updates self) e1 = Some (Inr e2)"
    "answers P (pending (ec_handler_updates self) key (pending (ec_updates self) key None)) e2"
    by (rule apply_pending_spec[OF ok(2) e1(2), of key]) (rule that)
  show thesis using that[of e2] e1(1) e2 by (simp add: cache_get_def cache_view_def)
qed

section \<open>Modifications\<close>

text \<open>What a modification leaves in the store, and when it fits the store.\<close>

fun modified :: "entity entity_modification \<Rightarrow> attrs option" where
  "modified (Insert key data block e) = Some (seen data)"
| "modified (Overwrite key data block e) = Some (seen data)"
| "modified (Remove key block) = None"

fun modification_fits :: "store_view \<Rightarrow> block_number \<Rightarrow> entity entity_modification \<Rightarrow> bool" where
  "modification_fits st n (Insert key data block e) \<longleftrightarrow> block = n \<and> e = None \<and> st key = None"
| "modification_fits st n (Overwrite key data block e) \<longleftrightarrow> block = n \<and> e = None \<and> st key \<noteq> None"
| "modification_fits st n (Remove key block) \<longleftrightarrow> block = n \<and> st key \<noteq> None"

definition apply_mods :: "entity entity_modification list \<Rightarrow> store_view \<Rightarrow> store_view" where
  "apply_mods mods st = fold (\<lambda>m st. st(emod_key m := modified m)) mods st"

lemma apply_mods_simps [simp]:
  "apply_mods [] st = st"
  "apply_mods (m # mods) st = apply_mods mods (st(emod_key m := modified m))"
  "apply_mods (mods @ mods') st = apply_mods mods' (apply_mods mods st)"
  by (simp_all add: apply_mods_def)

lemma modification_fits_key: "st (emod_key m) = st' (emod_key m) \<Longrightarrow> modification_fits st n m = modification_fits st' n m"
  by (cases m) simp_all

text \<open>
  One entity: the modification and the cache entry both say what the operation makes of the entity;
  there is none exactly when the attributes stay, up to nulls, what they are.
\<close>

lemma modification_spec:
  assumes "answers P x current" and "op_ok P op"
  obtains m entry where "modification key block current op = Some (Inr (m, entry))"
    "case m of None \<Rightarrow> seen_op op x = x
       | Some m \<Rightarrow> emod_key m = key \<and> modified m = seen_op op x \<and> (\<forall>st. st key = x \<longrightarrow> modification_fits st block m)"
    "case entry of None \<Rightarrow> x = None \<and> seen_op op x = None | Some v \<Rightarrow> answers P (seen_op op x) v"
proof -
  note result = that
  show thesis
proof (cases current)
  case None
  with assms(1) have x: "x = None" by (simp add: answers_def)
  have new: thesis if u: "op = UpdateOp u \<or> op = OverwriteOp u" for u
  proof -
    have "entity_ok P u" using that assms(2) by auto
    then obtain u' where u': "remove_null_fields u = Some u'" "entity_ok P u'" "obj_get u' = drop_nulls (obj_get u)"
      by (rule remove_null_fields_spec)
    have "seen u' = seen u" using visible_drop[OF u'(3)] by (simp add: seen_def)
    then show thesis
      using result[of "Some (Insert key u' block None)" "Some (Some u')"] None x u u'(1,2)
      by (auto simp: answers_def)
  qed
  show thesis
  proof (cases op)
    case RemoveOp
    then show thesis using result[of None None] None x by simp
  qed (use new in blast)+
next
  case (Some e)
  then have e: "entity_ok P e" "x = Some (seen e)" using assms(1) by (auto simp: answers_def)
  show thesis
  proof (cases op)
    case RemoveOp
    then show thesis using result[of "Some (Remove key block)" "Some None"] Some e by (simp add: answers_def)
  next
    case (OverwriteOp d)
    with assms(2) have d: "entity_ok P d" by simp
    show thesis
      using result[of "if public_attrs e = public_attrs d then None else Some (Overwrite key d block None)" "Some (Some d)"]
        OverwriteOp Some e d entity_eq_visible[OF e(1) d] by (auto simp: answers_def seen_def)
  next
    case (UpdateOp u)
    with assms(2) have "entity_ok P u" by simp
    then obtain d where d: "merge_remove_null_fields u e = Some (Inr d)" "entity_ok P d"
      "obj_get d = update_map (obj_get e) (obj_get u)"
      using merge_remove_null_fields_spec[OF e(1)] by blast
    have upd: "seen_op op x = Some (seen d)"
      using visible_update[OF d(3)] e(2) UpdateOp by (simp add: seen_def drop_nulls_update)
    have ans: "answers P (seen_op op x) (Some d)" using upd d(2) by (simp add: answers_def)
    have eq: "entity_eq e d = Some (public_attrs e = public_attrs d)" by (rule entity_eq_visible[OF e(1) d(2)])
    show thesis
    proof (cases "public_attrs e = public_attrs d")
      case True
      then have "seen_op op x = x" using upd e(2) by (simp add: seen_def)
      then show thesis using result[of None "Some (Some d)"] True ans d(1) eq UpdateOp Some by simp
    next
      case False
      then show thesis
        using result[of "Some (Overwrite key d block None)" "Some (Some d)"] ans upd d(1) eq e(2) UpdateOp Some by simp
    qed
  qed
qed
qed

text \<open>The loop over the pending operations.\<close>

lemma modify_loop:
  assumes "pq_laws (ce_queue env)" and "current_ok P env st c" and "ops_ok P ops"
    and "\<forall>k \<in> fst ` set ops. lfu_map (ce_queue env) c k = None \<longrightarrow> st k = None"
  shows "\<exists>mods' c'. fold_run (modify_step env block) ops (mods, c) = Some (Inr (mods @ mods', c'))
    \<and> current_ok P env (\<lambda>k. pending ops k (st k)) c' \<and> apply_mods mods' st = (\<lambda>k. pending ops k (st k))
    \<and> distinct (map emod_key mods') \<and> emod_key ` set mods' \<subseteq> fst ` set ops
    \<and> (\<forall>m \<in> set mods'. modification_fits st block m)"
  using assms(2-4)
proof (induction ops arbitrary: st c mods)
  case Nil
  then show ?case by simp
next
  case (Cons kop ops)
  let ?Q = "ce_queue env"
  obtain key op where kop: "kop = (key, op)" by (cases kop)
  with Cons.prems have op: "op_ok P op" "key \<notin> fst ` set ops" "ops_ok P ops" by simp_all
  obtain c1 where c1: "lfu_remove ?Q key c = Some (lfu_map ?Q c key, c1)" "current_ok P env st c1"
    "lfu_map ?Q c1 = (lfu_map ?Q c)(key := None)"
    by (rule current_ok_remove[OF assms(1) Cons.prems(1), of key]) (rule that)
  let ?cur = "Option.bind (lfu_map ?Q c key) id"
  have cur: "answers P (st key) ?cur"
  proof (cases "lfu_map ?Q c key")
    case None
    then show ?thesis using Cons.prems(3) kop by (simp add: answers_def)
  next
    case (Some v)
    then show ?thesis using current_ok_entry[OF Cons.prems(1) Some] by simp
  qed
  obtain m entry where m: "modification key block ?cur op = Some (Inr (m, entry))"
    "case m of None \<Rightarrow> seen_op op (st key) = st key
       | Some m \<Rightarrow> emod_key m = key \<and> modified m = seen_op op (st key)
           \<and> (\<forall>s. s key = st key \<longrightarrow> modification_fits s block m)"
    "case entry of None \<Rightarrow> st key = None \<and> seen_op op (st key) = None
       | Some v \<Rightarrow> answers P (seen_op op (st key)) v"
    by (rule modification_spec[OF cur op(1), of key block]) (rule that)
  let ?st = "st(key := seen_op op (st key))"
  let ?c = "case entry of None \<Rightarrow> c1 | Some v \<Rightarrow> lfu_insert ?Q (ce_sizes env) key v c1"
  let ?mods = "case m of None \<Rightarrow> [] | Some m \<Rightarrow> [m]"
  have step: "modify_step env block kop (mods, c) = Some (Inr (mods @ ?mods, ?c))"
    using c1(1) m(1) by (simp add: modify_step_def kop)
  have c: "current_ok P env ?st ?c"
    using m(3) c1 current_ok_absent[OF c1(2)] current_ok_insert[OF assms(1) c1(2)]
    by (cases entry) simp_all
  have same: "lfu_map ?Q ?c k = lfu_map ?Q c k" if "k \<noteq> key" for k
    using that c1(3) lfu_insert_spec(1)[OF assms(1)] by (cases entry) simp_all
  have rest: "\<forall>k \<in> fst ` set ops. lfu_map ?Q ?c k = None \<longrightarrow> ?st k = None"
  proof (intro ballI impI)
    fix k assume k: "k \<in> fst ` set ops" and none: "lfu_map ?Q ?c k = None"
    have "k \<noteq> key" using op(2) k by blast
    have "k \<in> fst ` set (kop # ops)" using k by (simp only: list.set image_insert insertI2)
    from Cons.prems(3)[rule_format, OF this] same[OF \<open>k \<noteq> key\<close>] none have "st k = None" by (simp only:)
    with \<open>k \<noteq> key\<close> show "?st k = None" by (simp only: fun_upd_other not_False_eq_True)
  qed
  from Cons.IH[OF c op(3) rest, of "mods @ ?mods"]
  obtain mods' c' where IH: "fold_run (modify_step env block) ops (mods @ ?mods, ?c) = Some (Inr ((mods @ ?mods) @ mods', c'))"
    "current_ok P env (\<lambda>k. pending ops k (?st k)) c'" "apply_mods mods' ?st = (\<lambda>k. pending ops k (?st k))"
    "distinct (map emod_key mods')" "emod_key ` set mods' \<subseteq> fst ` set ops"
    "\<forall>m \<in> set mods'. modification_fits ?st block m"
    by (elim exE conjE) (rule that)
  have "map_of ops key = None" using op(2) by (simp add: map_of_eq_None_iff)
  then have view: "(\<lambda>k. pending ops k (?st k)) = (\<lambda>k. pending (kop # ops) k (st k))"
    by (auto simp: kop pending_Cons fun_eq_iff) (simp add: pending_def)
  have fits: "modification_fits st block m'" if "m' \<in> set mods'" for m'
  proof -
    have "emod_key m' \<noteq> key" using that IH(5) op(2) by blast
    then show ?thesis using IH(6) that modification_fits_key[of st m' ?st] by auto
  qed
  have "apply_mods ?mods st = ?st" using m(2) by (cases m) simp_all
  then have "apply_mods (?mods @ mods') st = (\<lambda>k. pending (kop # ops) k (st k))"
    using trans[OF IH(3) view] by (simp only: apply_mods_simps)
  moreover have "distinct (map emod_key (?mods @ mods'))"
    using IH(4,5) m(2) op(2) by (cases m) auto
  moreover have "emod_key ` set (?mods @ mods') \<subseteq> fst ` set (kop # ops)"
    using IH(5) m(2) kop by (cases m) auto
  moreover have "\<forall>m \<in> set (?mods @ mods'). modification_fits st block m"
    using fits m(2) by (cases m) auto
  moreover have "fold_run (modify_step env block) (kop # ops) (mods, c) = Some (Inr (mods @ (?mods @ mods'), c'))"
    using step IH(1) by simp
  ultimately show ?case using IH(2) unfolding view by blast
qed

text \<open>Filling the cache with what the store has for the missing keys.\<close>

lemma fill_spec:
  assumes "pq_laws (ce_queue env)" and "current_ok P env st c" and "\<forall>(k, e) \<in> set kvs. answers P (st k) (Some e)"
  shows "current_ok P env st (fill env kvs c)
    \<and> (\<forall>k. lfu_map (ce_queue env) (fill env kvs c) k = None \<longleftrightarrow>
         lfu_map (ce_queue env) c k = None \<and> k \<notin> fst ` set kvs)"
  using assms(2,3)
proof (induction kvs arbitrary: c)
  case Nil
  then show ?case by (simp add: fill_def)
next
  case (Cons kv kvs)
  obtain k e where kv: "kv = (k, e)" by (cases kv)
  let ?c = "lfu_insert (ce_queue env) (ce_sizes env) k (Some e) c"
  have "current_ok P env st ?c" using current_ok_insert_same[OF assms(1) Cons.prems(1)] Cons.prems(2) kv by simp
  moreover have "fill env (kv # kvs) c = fill env kvs ?c" by (simp add: fill_def kv)
  ultimately show ?case
    using Cons.IH[of ?c] Cons.prems(2) lfu_insert_spec(1)[OF assms(1), of "ce_sizes env" k "Some e" c] kv by auto
qed

text \<open>
  Immutable entities are assumed to be new: an immutable entity that is not in the cache and has a
  pending operation is not in the store.
\<close>

definition well_behaved :: "'q cache_env \<Rightarrow> store_view \<Rightarrow> 'q entity_cache \<Rightarrow> bool" where
  "well_behaved env st self \<longleftrightarrow>
     (\<forall>k \<in> fst ` set (ec_updates self). ce_is_immutable env (key_type k) \<longrightarrow>
        lfu_contains_key (ce_queue env) k (ec_current self) \<or> st k = None)"

lemma missing_filled:
  assumes "env_ok env" and "store_reads P env st" and "cache_ok P env st self" and "well_behaved env st self"
    and "rs_get_many (ce_store env) (missing_keys env self) = Inr kvs"
  shows "current_ok P env st (fill env kvs (ec_current self))"
    and "\<forall>k \<in> fst ` set (ec_updates self).
      lfu_map (ce_queue env) (fill env kvs (ec_current self)) k = None \<longrightarrow> st k = None"
proof -
  have Q: "pq_laws (ce_queue env)" using assms(1) by (simp add: env_ok_def)
  have cur: "current_ok P env st (ec_current self)" using assms(3) by (simp add: cache_ok_def)
  obtain kvs' where kvs': "rs_get_many (ce_store env) (missing_keys env self) = Inr kvs'" "distinct (map fst kvs')"
    "\<forall>k. if k \<in> set (missing_keys env self) then answers P (st k) (map_of kvs' k) else map_of kvs' k = None"
    using assms(2) unfolding store_reads_def by blast
  have "kvs' = kvs" using kvs'(1) assms(5) by simp
  with kvs' have kvs: "distinct (map fst kvs)"
    "\<forall>k. if k \<in> set (missing_keys env self) then answers P (st k) (map_of kvs k) else map_of kvs k = None"
    by blast+
  have read: "\<forall>(k, e) \<in> set kvs. answers P (st k) (Some e)"
  proof (intro ballI, clarify)
    fix k e assume "(k, e) \<in> set kvs"
    then have "map_of kvs k = Some e" using kvs(1) by simp
    then show "answers P (st k) (Some e)" using kvs(2) by (metis option.distinct(1))
  qed
  note filled = fill_spec[OF Q cur read]
  then show "current_ok P env st (fill env kvs (ec_current self))" by blast
  show "\<forall>k \<in> fst ` set (ec_updates self).
      lfu_map (ce_queue env) (fill env kvs (ec_current self)) k = None \<longrightarrow> st k = None"
  proof (intro ballI impI)
    fix k assume k: "k \<in> fst ` set (ec_updates self)"
      and none: "lfu_map (ce_queue env) (fill env kvs (ec_current self)) k = None"
    then have absent: "\<not> lfu_contains_key (ce_queue env) k (ec_current self)" "k \<notin> fst ` set kvs"
      using filled by (auto simp: lfu_contains_key_iff)
    show "st k = None"
    proof (cases "ce_is_immutable env (key_type k)")
      case True
      then show ?thesis using assms(4) k absent(1) by (auto simp: well_behaved_def)
    next
      case False
      then have "k \<in> set (missing_keys env self)" using k absent(1) by (auto simp: missing_keys_def)
      then have "answers P (st k) (map_of kvs k)" using kvs(2) by metis
      moreover have "map_of kvs k = None" using absent(2) by (simp add: map_of_eq_None_iff)
      ultimately show ?thesis by (simp add: answers_def)
    qed
  qed
qed

lemma current_ok_sub:
  assumes "current_ok P env st c" and "weighs (ce_queue env) c'" and "lfu_inv (ce_queue env) c'"
    and "lfu_dead_weight c' = lfu_dead_weight c" and "lfu_map (ce_queue env) c' \<subseteq>\<^sub>m lfu_map (ce_queue env) c"
  shows "current_ok P env st c'"
proof -
  have "lfu_map (ce_queue env) c k = Some v" if "lfu_map (ce_queue env) c' k = Some v" for k v
    using assms(5) that by (metis domI map_le_def)
  then show ?thesis using assms(1-4) unfolding current_ok_def by metis
qed

lemma evict_loop_dead_weight:
  assumes "pq_laws Q" and "evict_loop Q dw mx ev c = Some (Inr (ev', c'))"
  shows "lfu_dead_weight c' = lfu_dead_weight c"
  using assms(2)
proof (induction "card (dom (lfu_items Q c))" arbitrary: c ev rule: less_induct)
  case less
  show ?case
  proof (cases "lfu_total_weight c + dw > mx")
    case False
    then show ?thesis using less.prems by (subst (asm) evict_loop_step) simp
  next
    case True
    then obtain e p queue where pop: "pq_pop Q (lfu_queue c) = Some ((e, p), queue)"
      "evict_loop Q dw mx (ev + ce_weight e) (lighter Q queue (ce_weight e) c) = Some (Inr (ev', c'))"
      using less.prems by (subst (asm) evict_loop_step) (auto split: option.splits)
    from less.hyps[OF lighter_items(3)[OF assms(1) pop(1)] pop(2)] show ?thesis by (simp add: lighter_def)
  qed
qed

lemma evict_current:
  assumes "pq_laws (ce_queue env)" and "current_ok P env st c"
  obtains stats c' where "evict_and_stats (ce_queue env) S mx c = Some (Inr (stats, c'))"
    "current_ok P env st c'" "lfu_total_weight c' \<le> mx"
proof -
  let ?Q = "ce_queue env"
  have c: "weighs ?Q c" "\<not> lfu_dead_weight c" "lfu_inv ?Q c" using assms(2) by (simp_all add: current_ok_def)
  obtain st' c' where e: "evict_with_period ?Q S mx STALE_PERIOD c = Some (Inr (st', c'))"
    "weighs ?Q c'" "lfu_total_weight c' \<le> mx" "lfu_map ?Q c' \<subseteq>\<^sub>m lfu_map ?Q c" "lfu_inv ?Q c'"
    using evict_with_period_spec[OF assms(1) c(1,2), of S mx STALE_PERIOD] c(3) by blast
  have "lfu_dead_weight c' = lfu_dead_weight c"
  proof (cases "lfu_total_weight c \<le> mx")
    case True
    then show ?thesis using e(1) by (simp add: evict_with_period_def)
  next
    case False
    let ?m = "count_stale ?Q STALE_PERIOD c"
    obtain ev where "evict_loop ?Q (dead_weight_of ?Q S ?m) mx 0 ?m = Some (Inr (ev, c'))"
      using e(1) False by (auto simp: evict_with_period_def bind_run_def Let_def split: option.splits sum.splits)
    from evict_loop_dead_weight[OF assms(1) this] show ?thesis
      using count_stale_spec(5)[OF assms(1)] by simp
  qed
  from current_ok_sub[OF assms(2) e(2) e(5) this e(4)]
  show thesis using that e(1,3) by (simp add: evict_and_stats_def)
qed

text \<open>The modifications of a block.\<close>

theorem as_modifications_spec:
  assumes "env_ok env" and "store_reads P env st" and "cache_ok P env st self" and "well_behaved env st self"
    and "\<not> ec_in_handler self"
  shows "\<exists>r. as_modifications env block self = Some (Inr r)
    \<and> apply_mods (mc_modifications r) st = cache_view st self
    \<and> distinct (map emod_key (mc_modifications r))
    \<and> emod_key ` set (mc_modifications r) \<subseteq> fst ` set (ec_updates self)
    \<and> (\<forall>m \<in> set (mc_modifications r). modification_fits st block m)
    \<and> current_ok P env (cache_view st self) (mc_entity_lfu_cache r)
    \<and> lfu_total_weight (mc_entity_lfu_cache r) \<le> ce_cache_size env"
proof -
  have Q: "pq_laws (ce_queue env)" and h: "hash_order_ok env" using assms(1) by (simp_all add: env_ok_def)
  let ?ops = "ce_hash_order env (ec_updates self)"
  have ops: "ops_ok P (ec_updates self)" using assms(3) by (simp add: cache_ok_def updates_ok_def)
  note order = pending_reorder[OF h ops]
  obtain kvs where kvs: "rs_get_many (ce_store env) (missing_keys env self) = Inr kvs"
    using assms(2) unfolding store_reads_def by blast
  note filled = missing_filled[OF assms(1-4) kvs]
  have view: "(\<lambda>k. pending ?ops k (st k)) = cache_view st self"
    using assms(3,5) by (simp add: order(2) cache_view_def cache_ok_def updates_ok_def)
  obtain mods c where mods: "fold_run (modify_step env block) ?ops ([], fill env kvs (ec_current self)) = Some (Inr (mods, c))"
    "current_ok P env (cache_view st self) c" "apply_mods mods st = cache_view st self" "distinct (map emod_key mods)"
    "emod_key ` set mods \<subseteq> fst ` set (ec_updates self)" "\<forall>m \<in> set mods. modification_fits st block m"
    using modify_loop[OF Q filled(1) order(1), of block "[]"] filled(2) unfolding view order(3) by auto
  obtain stats c' where c': "evict_and_stats (ce_queue env) (ce_sizes env) (ce_cache_size env) c = Some (Inr (stats, c'))"
    "current_ok P env (cache_view st self) c'" "lfu_total_weight c' \<le> ce_cache_size env"
    by (rule evict_current[OF Q mods(2), of "ce_sizes env" "ce_cache_size env"]) (rule that)
  have "as_modifications env block self = Some (Inr \<lparr>mc_modifications = mods, mc_entity_lfu_cache = c', mc_evict_stats = stats\<rparr>)"
    using assms(5) kvs mods(1) c'(1) by (simp add: as_modifications_def)
  then show ?thesis using mods c' by simp
qed

end
