(* ===== verification/Data_Source.thy ===== *)
theory Data_Source
  imports Deployment_Store Rollup
begin

text \<open>
  Data sources of all kinds, \<open>graph/src/data_source/mod.rs\<close>, \<open>offchain.rs\<close>, \<open>subgraph.rs\<close> and
  \<open>causality_region.rs\<close>. The data sources of a chain are those of the trait \<open>Blockchain\<close>, a record of
  functions here. A file data source remembers in an atomic cell at which block it was processed;
  all its clones share the cell, so the cells are a heap.
\<close>

section \<open>Causality regions\<close>

text \<open>The sequence is its current value.\<close>

definition seq_from_current :: "causality_region option \<Rightarrow> causality_region" where
  "seq_from_current cr = (case cr of None \<Rightarrow> CR_ONCHAIN | Some cr \<Rightarrow> cr)"

definition seq_next_val :: "causality_region \<Rightarrow> causality_region \<times> causality_region" where
  "seq_next_val seq = (seq + 1, seq + 1)"

section \<open>File data sources\<close>

datatype source = Ipfs string | Arweave string

text \<open>Both kinds of sources have an address, the bytes of the path or of the base64 string.\<close>

fun source_address :: "source \<Rightarrow> nat list option" where
  "source_address (Ipfs path) = Some (map of_char path)"
| "source_address (Arweave base64) = Some (map of_char base64)"

fun source_into_bytes :: "source \<Rightarrow> nat list" where
  "source_into_bytes (Ipfs path) = map of_char path"
| "source_into_bytes (Arweave base64) = map of_char base64"

datatype offchain_kind = IpfsKind | ArweaveKind

record offchain_mapping =
  om_entities :: "entity_type list"
  om_handler :: string
  om_runtime :: "nat list"

record offchain_data_source =
  od_kind :: offchain_kind
  od_name :: string
  od_manifest_idx :: nat
  od_source :: source
  od_mapping :: offchain_mapping
  od_context :: "string option"
  od_creation_block :: "block_number option"
  od_done_at :: nat
  od_causality_region :: causality_region

record offchain_template =
  ot_kind :: offchain_kind
  ot_name :: string
  ot_manifest_idx :: nat
  ot_mapping :: offchain_mapping

definition NOT_DONE_VALUE :: int where
  "NOT_DONE_VALUE = - 1"

text \<open>The heap of the cells; \<open>None\<close> of \<open>mark_processed_at\<close> is its failed assertion.\<close>

type_synonym cells = "int list"

definition mark_processed_at :: "offchain_data_source \<Rightarrow> block_number \<Rightarrow> cells \<Rightarrow> cells option" where
  "mark_processed_at self block cells =
     (if block = NOT_DONE_VALUE then None else Some (cells[od_done_at self := block]))"

definition is_processed :: "cells \<Rightarrow> offchain_data_source \<Rightarrow> bool" where
  "is_processed cells self \<longleftrightarrow> cells ! od_done_at self \<noteq> NOT_DONE_VALUE"

definition od_done_block :: "cells \<Rightarrow> offchain_data_source \<Rightarrow> block_number option" where
  "od_done_block cells self =
     (if cells ! od_done_at self = NOT_DONE_VALUE then None else Some (cells ! od_done_at self))"

definition od_set_done_at :: "offchain_data_source \<Rightarrow> block_number option \<Rightarrow> cells \<Rightarrow> cells" where
  "od_set_done_at self block cells =
     cells[od_done_at self := (case block of None \<Rightarrow> NOT_DONE_VALUE | Some b \<Rightarrow> b)]"

definition od_is_duplicate_of :: "offchain_data_source \<Rightarrow> offchain_data_source \<Rightarrow> bool" where
  "od_is_duplicate_of a b \<longleftrightarrow>
     od_manifest_idx a = od_manifest_idx b \<and> od_source a = od_source b \<and> od_context a = od_context b"

text \<open>
  The context of a data source is stored as JSON. The conversions, \<open>serde_json::to_value\<close> and \<open>from_value\<close>, are parameters:
  without a value the \<open>unwrap\<close> of the first one panics, and the second one is an error.
\<close>

record context_serde =
  cs_to_value :: "string \<Rightarrow> string option"
  cs_from_value :: "string \<Rightarrow> string option"

text \<open>What serde documents for derived implementations: reading a value that was written gives the context back.\<close>

definition serde_laws :: "context_serde \<Rightarrow> bool" where
  "serde_laws J \<longleftrightarrow> (\<forall>c v. cs_to_value J c = Some v \<longrightarrow> cs_from_value J v = Some c)"

definition context_to_value :: "context_serde \<Rightarrow> string option \<Rightarrow> string option option" where
  "context_to_value J context = (case context of None \<Rightarrow> Some None | Some c \<Rightarrow> map_option Some (cs_to_value J c))"

definition context_from_value :: "context_serde \<Rightarrow> string option \<Rightarrow> string option option" where
  "context_from_value J v = (case v of None \<Rightarrow> Some None | Some v \<Rightarrow> map_option Some (cs_from_value J v))"

lemma context_round_trip: "serde_laws J \<Longrightarrow> context_to_value J context = Some v \<Longrightarrow> context_from_value J v = Some context"
  by (auto simp: serde_laws_def context_to_value_def context_from_value_def split: option.splits)

text \<open>\<open>None\<close> is a panic.\<close>

definition od_as_stored :: "context_serde \<Rightarrow> cells \<Rightarrow> offchain_data_source \<Rightarrow> stored_data_source option" where
  "od_as_stored J cells self =
     map_option (\<lambda>context.
       \<lparr>sd_manifest_idx = od_manifest_idx self, sd_param = Some (source_into_bytes (od_source self)),
        sd_context = context, sd_creation_block = od_creation_block self,
        sd_done_at = od_done_block cells self, sd_causality_region = od_causality_region self\<rparr>)
       (context_to_value J (od_context self))"

text \<open>
  \<open>try_parse_source\<close> reads back the bytes; a path is parsed by \<open>parse_path\<close>, and base64 strings are any
  bytes that are characters.
\<close>

definition try_parse_source :: "(string \<Rightarrow> string option) \<Rightarrow> offchain_kind \<Rightarrow> nat list \<Rightarrow> source option" where
  "try_parse_source parse_path kind bs =
     (case kind of
        IpfsKind \<Rightarrow> map_option Ipfs (parse_path (map char_of bs))
      | ArweaveKind \<Rightarrow> Some (Arweave (map char_of bs)))"

datatype ds_error =
    NotOffchainTemplate
  | SourceMissing string
  | NoParam
  | BadParam
  | BadContext
  | MultipleHandlers string
  | NoTemplateIdx
  | NoTemplate
  | TooManyDataSources
  | NotOrdered
  | ChainError string

text \<open>A cell is allocated at the end of the heap.\<close>

definition od_from_stored :: "context_serde \<Rightarrow> (string \<Rightarrow> string option) \<Rightarrow> offchain_template \<Rightarrow> stored_data_source \<Rightarrow> cells
    \<Rightarrow> (ds_error, offchain_data_source \<times> cells) result" where
  "od_from_stored J parse_path template stored cells =
     (case sd_param stored of
        None \<Rightarrow> Inl NoParam
      | Some param \<Rightarrow>
          (case try_parse_source parse_path (ot_kind template) param of
             None \<Rightarrow> Inl BadParam
           | Some src \<Rightarrow>
               (case context_from_value J (sd_context stored) of
                  None \<Rightarrow> Inl BadContext
                | Some context \<Rightarrow>
                    Inr (\<lparr>od_kind = ot_kind template, od_name = ot_name template,
                       od_manifest_idx = sd_manifest_idx stored, od_source = src, od_mapping = ot_mapping template,
                       od_context = context, od_creation_block = sd_creation_block stored,
                       od_done_at = length cells, od_causality_region = sd_causality_region stored\<rparr>,
                     cells @ [case sd_done_at stored of None \<Rightarrow> NOT_DONE_VALUE | Some b \<Rightarrow> b]))))"

text \<open>A template with the parameters of a new data source, from \<open>instance.rs\<close> of the component.\<close>

datatype 'ont ds_template = OnchainTemplate 'ont | OffchainTemplate offchain_template

record 'ont ds_info =
  di_template :: "'ont ds_template"
  di_params :: "string list"
  di_context :: "string option"
  di_creation_block :: block_number

fun is_onchain_template :: "'ont ds_template \<Rightarrow> bool" where
  "is_onchain_template (OnchainTemplate t) = True"
| "is_onchain_template (OffchainTemplate t) = False"

datatype creation_error = Ignore string | CreationError ds_error

definition od_from_template_info :: "(string \<Rightarrow> string option) \<Rightarrow> 'ont ds_info \<Rightarrow> causality_region \<Rightarrow> cells
    \<Rightarrow> (creation_error, offchain_data_source \<times> cells) result" where
  "od_from_template_info parse_path info cr cells =
     (case di_template info of
        OnchainTemplate t \<Rightarrow> Inl (CreationError NotOffchainTemplate)
      | OffchainTemplate t \<Rightarrow>
          (case di_params info of
             [] \<Rightarrow> Inl (CreationError (SourceMissing (ot_name t)))
           | param # params \<Rightarrow>
               bind_res (case ot_kind t of
                   IpfsKind \<Rightarrow> (case parse_path param of None \<Rightarrow> Inl (Ignore param) | Some path \<Rightarrow> Inr (Ipfs path))
                 | ArweaveKind \<Rightarrow> Inr (Arweave param)) (\<lambda>src.
                 Inr (\<lparr>od_kind = ot_kind t, od_name = ot_name t, od_manifest_idx = ot_manifest_idx t,
                    od_source = src, od_mapping = ot_mapping t, od_context = di_context info,
                    od_creation_block = Some (di_creation_block info), od_done_at = length cells,
                    od_causality_region = cr\<rparr>,
                  cells @ [NOT_DONE_VALUE]))))"

section \<open>Subgraph data sources\<close>

record entity_handler =
  enh_handler :: string
  enh_entity :: string

record subgraph_data_source =
  sg_source_address :: string
  sg_start_block :: block_number
  sg_handlers :: "entity_handler list"
  sg_manifest_idx :: nat
  sg_creation_block :: "block_number option"
  sg_runtime :: "nat list"

text \<open>A trigger of a source subgraph: the deployment it comes from, the type and the entity.\<close>

record 'd subgraph_trigger =
  st_source :: string
  st_entity_type :: string
  st_data :: 'd

section \<open>Triggers and data sources of all kinds\<close>

record offchain_trigger =
  oc_source :: source
  oc_data :: "nat list"

datatype ('ct, 'd) trigger_data =
    OnchainTrigger 'ct
  | OffchainTrigger offchain_trigger
  | SubgraphTrigger "'d subgraph_trigger"

datatype ('mt, 'd) mapping_trigger =
    OnchainMapping 'mt
  | OffchainMapping offchain_trigger
  | SubgraphMapping "'d subgraph_trigger"

record 't trigger_with_handler =
  th_trigger :: 't
  th_handler :: string
  th_block_ptr :: block_ptr
  th_timestamp :: "block_time option"

text \<open>
  The trait \<open>DataSource\<close> of a chain. \<open>match_and_decode\<close> gets the block as its pointer and time.
\<close>

record ('on, 'ont, 'ct, 'mt) chain =
  ch_address :: "'on \<Rightarrow> nat list option"
  ch_creation_block :: "'on \<Rightarrow> block_number option"
  ch_end_block :: "'on \<Rightarrow> block_number option"
  ch_runtime :: "'on \<Rightarrow> nat list option"
  ch_is_duplicate_of :: "'on \<Rightarrow> 'on \<Rightarrow> bool"
  ch_as_stored :: "'on \<Rightarrow> stored_data_source option"
  ch_match_and_decode :: "'on \<Rightarrow> 'ct \<Rightarrow> block_ptr \<Rightarrow> block_time \<Rightarrow> (ds_error, 'mt trigger_with_handler option) result"
  ch_trigger_address :: "'ct \<Rightarrow> nat list option"
  ch_from_template_info :: "'ont ds_info \<Rightarrow> 'ont \<Rightarrow> (creation_error, 'on) result"
  ch_template_idx :: "'ont \<Rightarrow> nat option"

datatype 'on any_data_source =
    Onchain 'on
  | Offchain offchain_data_source
  | Subgraph subgraph_data_source

fun ds_any_address :: "('on, 'ont, 'ct, 'mt) chain \<Rightarrow> 'on any_data_source \<Rightarrow> nat list option" where
  "ds_any_address C (Onchain ds) = ch_address C ds"
| "ds_any_address C (Offchain ds) = source_address (od_source ds)"
| "ds_any_address C (Subgraph ds) = Some (map of_char (sg_source_address ds))"

fun creation_block :: "('on, 'ont, 'ct, 'mt) chain \<Rightarrow> 'on any_data_source \<Rightarrow> block_number option" where
  "creation_block C (Onchain ds) = ch_creation_block C ds"
| "creation_block C (Offchain ds) = od_creation_block ds"
| "creation_block C (Subgraph ds) = sg_creation_block ds"

fun is_chain_based :: "'on any_data_source \<Rightarrow> bool" where
  "is_chain_based (Onchain ds) = True"
| "is_chain_based (Offchain ds) = False"
| "is_chain_based (Subgraph ds) = True"

fun as_onchain :: "'on any_data_source \<Rightarrow> 'on option" where
  "as_onchain (Onchain ds) = Some ds"
| "as_onchain (Offchain ds) = None"
| "as_onchain (Subgraph ds) = None"

fun as_offchain :: "'on any_data_source \<Rightarrow> offchain_data_source option" where
  "as_offchain (Onchain ds) = None"
| "as_offchain (Offchain ds) = Some ds"
| "as_offchain (Subgraph ds) = None"

fun ds_runtime :: "('on, 'ont, 'ct, 'mt) chain \<Rightarrow> 'on any_data_source \<Rightarrow> nat list option" where
  "ds_runtime C (Onchain ds) = ch_runtime C ds"
| "ds_runtime C (Offchain ds) = Some (om_runtime (od_mapping ds))"
| "ds_runtime C (Subgraph ds) = Some (sg_runtime ds)"

fun is_duplicate_of :: "('on, 'ont, 'ct, 'mt) chain \<Rightarrow> 'on any_data_source \<Rightarrow> 'on any_data_source \<Rightarrow> bool" where
  "is_duplicate_of C (Onchain a) (Onchain b) = ch_is_duplicate_of C a b"
| "is_duplicate_of C (Offchain a) (Offchain b) = od_is_duplicate_of a b"
| "is_duplicate_of C _ _ = False"

fun causality_region_of :: "'on any_data_source \<Rightarrow> causality_region" where
  "causality_region_of (Onchain ds) = CR_ONCHAIN"
| "causality_region_of (Offchain ds) = od_causality_region ds"
| "causality_region_of (Subgraph ds) = CR_ONCHAIN"

datatype entity_type_access = AnyType | Restricted "entity_type list"

fun access_allows :: "entity_type_access \<Rightarrow> entity_type \<Rightarrow> bool" where
  "access_allows AnyType t = True"
| "access_allows (Restricted ts) t = (t \<in> set ts)"

fun ds_entities :: "'on any_data_source \<Rightarrow> entity_type_access" where
  "ds_entities (Onchain ds) = AnyType"
| "ds_entities (Offchain ds) = Restricted (om_entities (od_mapping ds))"
| "ds_entities (Subgraph ds) = AnyType"

text \<open>\<open>None\<close> is a panic, for a subgraph data source the \<open>todo!()\<close>.\<close>

fun as_stored_dynamic :: "('on, 'ont, 'ct, 'mt) chain \<Rightarrow> context_serde \<Rightarrow> cells \<Rightarrow> 'on any_data_source \<Rightarrow> stored_data_source option" where
  "as_stored_dynamic C J cells (Onchain ds) = ch_as_stored C ds"
| "as_stored_dynamic C J cells (Offchain ds) = od_as_stored J cells ds"
| "as_stored_dynamic C J cells (Subgraph ds) = None"

section \<open>Matching triggers\<close>

definition od_match_and_decode :: "cells \<Rightarrow> offchain_data_source \<Rightarrow> offchain_trigger
    \<Rightarrow> ('mt, 'd) mapping_trigger trigger_with_handler option" where
  "od_match_and_decode cells self trigger =
     (if od_source self \<noteq> oc_source trigger \<or> is_processed cells self then None
      else Some \<lparr>th_trigger = OffchainMapping trigger, th_handler = om_handler (od_mapping self),
             th_block_ptr = \<lparr>hash = '''', number = (case od_creation_block self of None \<Rightarrow> 0 | Some b \<Rightarrow> b)\<rparr>,
             th_timestamp = None\<rparr>)"

text \<open>The declared calls of a handler are left out.\<close>

definition sg_match_and_decode :: "block_ptr \<Rightarrow> block_time \<Rightarrow> subgraph_data_source \<Rightarrow> 'd subgraph_trigger
    \<Rightarrow> (ds_error, ('mt, 'd) mapping_trigger trigger_with_handler option) result" where
  "sg_match_and_decode ptr time self trigger =
     (if sg_source_address self \<noteq> st_source trigger then Inr None
      else
        let matching = filter (\<lambda>h. enh_entity h = st_entity_type trigger) (sg_handlers self)
        in if matching = [] then Inr None
           else if butlast matching \<noteq> [] then Inl (MultipleHandlers (st_entity_type trigger))
           else Inr (Some \<lparr>th_trigger = SubgraphMapping trigger, th_handler = enh_handler (last matching),
                  th_block_ptr = ptr, th_timestamp = Some time\<rparr>))"

definition has_expired :: "('on, 'ont, 'ct, 'mt) chain \<Rightarrow> 'on \<Rightarrow> block_number \<Rightarrow> bool" where
  "has_expired C ds block \<longleftrightarrow> (case ch_end_block C ds of None \<Rightarrow> False | Some e \<Rightarrow> block > e)"

fun ds_match_and_decode :: "('on, 'ont, 'ct, 'mt) chain \<Rightarrow> cells \<Rightarrow> block_ptr \<Rightarrow> block_time
    \<Rightarrow> 'on any_data_source \<Rightarrow> ('ct, 'd) trigger_data
    \<Rightarrow> (ds_error, ('mt, 'd) mapping_trigger trigger_with_handler option) result" where
  "ds_match_and_decode C cells ptr time (Onchain ds) trigger =
     (if has_expired C ds (number ptr) then Inr None
      else (case trigger of
              OnchainTrigger t \<Rightarrow>
                bind_res (ch_match_and_decode C ds t ptr time) (\<lambda>r. Inr (map_option (\<lambda>h.
                  \<lparr>th_trigger = OnchainMapping (th_trigger h), th_handler = th_handler h,
                   th_block_ptr = th_block_ptr h, th_timestamp = th_timestamp h\<rparr>) r))
            | _ \<Rightarrow> Inr None))"
| "ds_match_and_decode C cells ptr time (Offchain ds) trigger =
     (case trigger of OffchainTrigger t \<Rightarrow> Inr (od_match_and_decode cells ds t) | _ \<Rightarrow> Inr None)"
| "ds_match_and_decode C cells ptr time (Subgraph ds) trigger =
     (case trigger of SubgraphTrigger t \<Rightarrow> sg_match_and_decode ptr time ds t | _ \<Rightarrow> Inr None)"

section \<open>What a stored file data source keeps\<close>

text \<open>
  Storing a file data source and loading it again gives it back, with a new cell that holds the same
  block, if the path can be parsed again and the block is not the mark itself.
\<close>

lemma offchain_stored_round_trip:
  assumes "od_done_at ds < length cells" and "ot_kind t = od_kind ds" and "ot_name t = od_name ds"
    and "ot_mapping t = od_mapping ds"
    and "serde_laws J" and "od_as_stored J cells ds = Some stored"
    and "case od_source ds of Ipfs p \<Rightarrow> od_kind ds = IpfsKind \<and> parse_path p = Some p | Arweave b \<Rightarrow> od_kind ds = ArweaveKind"
  shows "od_from_stored J parse_path t stored cells =
    Inr (ds\<lparr>od_done_at := length cells\<rparr>, cells @ [cells ! od_done_at ds])"
  using assms context_round_trip[OF assms(5)]
  by (cases "od_source ds")
     (auto simp: od_from_stored_def od_as_stored_def try_parse_source_def od_done_block_def comp_def)

lemma od_duplicate_address: "od_is_duplicate_of a b \<Longrightarrow> source_address (od_source a) = source_address (od_source b)"
  by (simp add: od_is_duplicate_of_def)

end
