(* ===== verification/Block_State.thy ===== *)
theory Block_State
  imports Cache_Modifications Data_Source
begin

text \<open>
  Writing through the entity cache, and \<open>BlockState\<close> of \<open>graph/src/components/subgraph/instance.rs\<close>,
  which the handlers of a block share: the entity cache, the data sources created in the block, the
  deterministic errors and the write capacity that is left.
\<close>

section \<open>Setting an entity\<close>

lemma cache_view_current [simp]:
  "cache_view st (self\<lparr>ec_vid_seq := n\<rparr>) = cache_view st self"
  "cache_view st (self\<lparr>ec_current := c\<rparr>) = cache_view st self"
  by (simp_all add: cache_view_def)

lemma updates_ok_current [simp]:
  "updates_ok P (self\<lparr>ec_vid_seq := n\<rparr>) = updates_ok P self"
  "updates_ok P (self\<lparr>ec_current := c\<rparr>) = updates_ok P self"
  by (simp_all add: updates_ok_def)

lemma read_back_spec:
  assumes "env_ok env" and "store_reads P env st" and "cache_ok P env st self" and "cache_view st self key \<noteq> None"
  obtains v self' where "answers P (cache_view st self key) (Some v)"
    "read_back env key self = Some (case validate (ce_object_type env) key v of
       Inl err \<Rightarrow> Inl (InvalidEntity err) | Inr u \<Rightarrow> Inr (), self')"
    "cache_ok P env st self'" "cache_view st self' = cache_view st self"
proof -
  obtain e self' where e: "cache_get env key StoreScope self = Some (Inr e, self')"
    "answers P (cache_view st self key) e" "cache_ok P env st self'" "cache_view st self' = cache_view st self"
    by (rule cache_get_spec[OF assms(1-3), of key]) (rule that)
  obtain v where "e = Some v" using e(2) assms(4) by (cases e) (simp_all add: answers_def)
  then show thesis using that[of v self'] e by (simp add: read_back_def)
qed

text \<open>
  A write within the capacity always changes what the cache shows; it reports the error of the entity merged with
  the existing one if the entity is invalid by itself, and otherwise none.
\<close>

theorem cache_set_spec:
  assumes "env_ok env" and "store_reads P env st" and "cache_ok P env st self"
    and "entity_ok P e" and "VID_FIELD \<in> words_of P" and "obj_get e VID_FIELD = None"
    and "check_capacity env key e capacity self = Inr capacity'"
  shows "\<exists>r v self'. cache_set env key e block capacity self = Some (r, capacity', self')
    \<and> cache_ok P env st self'
    \<and> cache_view st self' = (cache_view st self)(key := seen_op (UpdateOp e) (cache_view st self key))
    \<and> answers P (cache_view st self' key) (Some v)
    \<and> r = (if validate (ce_object_type env) key e = Inr () then Inr ()
           else case validate (ce_object_type env) key v of Inl verr \<Rightarrow> Inl (InvalidEntity verr) | Inr u \<Rightarrow> Inr ())"
proof -
  let ?s0 = "self\<lparr>ec_vid_seq := ec_vid_seq self + 1\<rparr>"
  let ?vid = "block_vid block (ec_vid_seq self)"
  obtain e' where e': "set_vid ?vid e = Inr (None, e')" "entity_ok P e'" "public_attrs e' = public_attrs e"
    using set_vid_spec[OF assms(4,5), of ?vid] assms(6) entity_vid_set by metis
  have "updates_ok P ?s0" using assms(3) by (simp add: cache_ok_def)
  moreover have "op_ok P (UpdateOp e')" using e'(2) by simp
  ultimately obtain s1 where s1: "entity_op key (UpdateOp e') ?s0 = Some s1" "updates_ok P s1"
    "cache_view st s1 = (cache_view st ?s0)(key := seen_op (UpdateOp e') (cache_view st ?s0 key))"
    "ec_current s1 = ec_current ?s0" using entity_op_spec[of P ?s0 "UpdateOp e'" key st] by metis
  have ok: "cache_ok P env st s1" using s1(2,4) assms(3) by (simp add: cache_ok_def)
  have "seen_op (UpdateOp e') x = seen_op (UpdateOp e) x" for x
    using e'(3) by (cases x) (simp_all add: seen_def)
  then have view: "cache_view st s1 = (cache_view st self)(key := seen_op (UpdateOp e) (cache_view st self key))"
    using s1(3) by simp
  have "cache_view st s1 key \<noteq> None"
    unfolding view by (cases "cache_view st self key") simp_all
  from read_back_spec[OF assms(1,2) ok this] obtain v s2 where v: "answers P (cache_view st s1 key) (Some v)"
    "read_back env key s1 = Some (case validate (ce_object_type env) key v of
       Inl err \<Rightarrow> Inl (InvalidEntity err) | Inr u \<Rightarrow> Inr (), s2)"
    "cache_ok P env st s2" "cache_view st s2 = cache_view st s1" by metis
  show ?thesis
  proof (cases "validate (ce_object_type env) key e = Inr ()")
    case True
    then have "cache_set env key e block capacity self = Some (Inr (), capacity', s1)"
      using assms(7) e'(1) s1(1) by (simp add: cache_set_def Let_def)
    then show ?thesis using ok view v(1) True by (intro exI[of _ "Inr ()"] exI[of _ v] exI[of _ s1]) simp
  next
    case False
    let ?r = "case validate (ce_object_type env) key v of Inl err \<Rightarrow> Inl (InvalidEntity err) | Inr u \<Rightarrow> Inr ()"
    have "cache_set env key e block capacity self = Some (?r, capacity', s2)"
      using False assms(7) e'(1) s1(1) v(2) by (simp add: cache_set_def Let_def)
    moreover have "cache_view st s2 = (cache_view st self)(key := seen_op (UpdateOp e) (cache_view st self key))"
      using v(4) view by simp
    ultimately show ?thesis using v(1,3,4) False by (intro exI[of _ ?r] exI[of _ v] exI[of _ s2]) simp
  qed
qed

text \<open>
  The limit is only enforced for entities that the cache does not have yet. For the others the
  subtraction goes below zero and the remaining capacity becomes larger than it ever was.
\<close>

lemma write_capacity_wraps:
  assumes "lfu_contains_key (ce_queue env) key (ec_current self)" and "ce_entity_weight env e > remaining"
  shows "\<exists>left. check_capacity env key e (Some remaining) self = Inr (Some left)
    \<and> unat left = 2 ^ 64 + unat remaining - unat (ce_entity_weight env e) \<and> left > remaining"
proof -
  let ?w = "ce_entity_weight env e"
  have w: "unat remaining < unat ?w" "unat ?w < 2 ^ 64"
    using assms(2) unsigned_less[of ?w, where ?'a = nat] by (simp_all add: word_less_nat_alt)
  have "unat (remaining - ?w) = 2 ^ 64 + unat remaining - unat ?w"
    using w by (simp add: unat_sub_if_size word_size)
  then show ?thesis using assms w
    by (intro exI[of _ "remaining - ?w"]) (simp add: check_capacity_def word_less_nat_alt)
qed

section \<open>The state of a block\<close>

text \<open>\<open>'ont\<close> is the type of the templates of the chain, \<open>'err\<close> that of errors.\<close>

record ('q, 'ont, 'err) block_state =
  bs_entity_cache :: "'q entity_cache"
  bs_deterministic_errors :: "'err list"
  bs_created_data_sources :: "'ont ds_info list"
  bs_persisted_data_sources :: "stored_data_source list"
  bs_handler_created_data_sources :: "'ont ds_info list"
  bs_processed_data_sources :: "stored_data_source list"
  bs_in_handler :: bool
  bs_write_capacity_remaining :: "64 word"

definition block_state_new :: "64 word \<Rightarrow> 'q lfu_cache \<Rightarrow> ('q, 'ont, 'err) block_state" where
  "block_state_new block_write_capacity lfu_cache =
     \<lparr>bs_entity_cache = with_current lfu_cache, bs_deterministic_errors = [], bs_created_data_sources = [],
      bs_persisted_data_sources = [], bs_handler_created_data_sources = [], bs_processed_data_sources = [],
      bs_in_handler = False, bs_write_capacity_remaining = block_write_capacity\<rparr>"

definition saturating_sub :: "64 word \<Rightarrow> 64 word \<Rightarrow> 64 word" where
  "saturating_sub a b = (if a < b then 0 else a - b)"

definition block_state_extend :: "'q cache_env \<Rightarrow> ('q, 'ont, 'err) block_state
    \<Rightarrow> ('q, 'ont, 'err) block_state \<Rightarrow> ('q, 'ont, 'err) block_state option" where
  "block_state_extend env other self =
     (if bs_in_handler other then None
      else
        let self = (if bs_in_handler self
              then self\<lparr>bs_handler_created_data_sources := bs_handler_created_data_sources self @ bs_created_data_sources other\<rparr>
              else self\<lparr>bs_created_data_sources := bs_created_data_sources self @ bs_created_data_sources other\<rparr>);
            self = self\<lparr>bs_deterministic_errors := bs_deterministic_errors self @ bs_deterministic_errors other\<rparr>
        in map_option (\<lambda>cache. self\<lparr>bs_entity_cache := cache,
               bs_processed_data_sources := bs_processed_data_sources self @ bs_processed_data_sources other,
               bs_persisted_data_sources := bs_persisted_data_sources self @ bs_persisted_data_sources other,
               bs_write_capacity_remaining :=
                 saturating_sub (bs_write_capacity_remaining self) (bs_write_capacity_remaining other)\<rparr>)
             (cache_extend env (bs_entity_cache other) (bs_entity_cache self)))"

definition has_errors :: "('q, 'ont, 'err) block_state \<Rightarrow> bool" where
  "has_errors self \<longleftrightarrow> bs_deterministic_errors self \<noteq> []"

definition has_created_data_sources :: "('q, 'ont, 'err) block_state \<Rightarrow> bool option" where
  "has_created_data_sources self =
     (if bs_in_handler self then None else Some (bs_created_data_sources self \<noteq> []))"

definition has_created_on_chain_data_sources :: "('q, 'ont, 'err) block_state \<Rightarrow> bool option" where
  "has_created_on_chain_data_sources self =
     (if bs_in_handler self then None
      else Some (list_ex (\<lambda>ds. is_onchain_template (di_template ds)) (bs_created_data_sources self)))"

definition drain_created_data_sources :: "('q, 'ont, 'err) block_state
    \<Rightarrow> ('ont ds_info list \<times> ('q, 'ont, 'err) block_state) option" where
  "drain_created_data_sources self =
     (if bs_in_handler self then None
      else Some (bs_created_data_sources self, self\<lparr>bs_created_data_sources := []\<rparr>))"

definition bs_enter_handler :: "('q, 'ont, 'err) block_state \<Rightarrow> ('q, 'ont, 'err) block_state option" where
  "bs_enter_handler self =
     (if bs_in_handler self then None
      else map_option (\<lambda>c. self\<lparr>bs_in_handler := True, bs_entity_cache := c\<rparr>) (enter_handler (bs_entity_cache self)))"

definition bs_exit_handler :: "'q cache_env \<Rightarrow> ('q, 'ont, 'err) block_state
    \<Rightarrow> ('q, 'ont, 'err) block_state option" where
  "bs_exit_handler env self =
     (if \<not> bs_in_handler self then None
      else map_option (\<lambda>c. self\<lparr>bs_in_handler := False,
             bs_created_data_sources := bs_created_data_sources self @ bs_handler_created_data_sources self,
             bs_handler_created_data_sources := [], bs_entity_cache := c\<rparr>)
           (exit_handler env (bs_entity_cache self)))"

definition bs_discard_changes :: "'err \<Rightarrow> ('q, 'ont, 'err) block_state
    \<Rightarrow> ('q, 'ont, 'err) block_state option" where
  "bs_discard_changes e self =
     (if \<not> bs_in_handler self then None
      else map_option (\<lambda>c. self\<lparr>bs_in_handler := False, bs_handler_created_data_sources := [],
             bs_entity_cache := c, bs_deterministic_errors := bs_deterministic_errors self @ [e]\<rparr>)
           (exit_handler_and_discard_changes (bs_entity_cache self)))"

definition push_created_data_source :: "'ont ds_info \<Rightarrow> ('q, 'ont, 'err) block_state
    \<Rightarrow> ('q, 'ont, 'err) block_state option" where
  "push_created_data_source ds self =
     (if \<not> bs_in_handler self then None
      else Some (self\<lparr>bs_handler_created_data_sources := bs_handler_created_data_sources self @ [ds]\<rparr>))"

definition persist_data_source :: "stored_data_source \<Rightarrow> ('q, 'ont, 'err) block_state
    \<Rightarrow> ('q, 'ont, 'err) block_state" where
  "persist_data_source ds self = self\<lparr>bs_persisted_data_sources := bs_persisted_data_sources self @ [ds]\<rparr>"

section \<open>Handlers are transactions\<close>

definition block_state_ok :: "pool_ref \<Rightarrow> 'q cache_env \<Rightarrow> store_view \<Rightarrow> ('q, 'ont, 'err) block_state \<Rightarrow> bool" where
  "block_state_ok P env st self \<longleftrightarrow>
     cache_ok P env st (bs_entity_cache self) \<and> ec_in_handler (bs_entity_cache self) = bs_in_handler self
     \<and> (bs_in_handler self \<or> bs_handler_created_data_sources self = [])"

definition bs_view :: "store_view \<Rightarrow> ('q, 'ont, 'err) block_state \<Rightarrow> store_view" where
  "bs_view st self = cache_view st (bs_entity_cache self)"

lemma block_state_new_ok:
  "current_ok P env st c \<Longrightarrow> block_state_ok P env st (block_state_new cap c) \<and> bs_view st (block_state_new cap c) = st"
  by (simp add: block_state_ok_def block_state_new_def with_current_ok bs_view_def)
     (simp add: with_current_def)

lemma bs_enter_handler_spec:
  assumes "block_state_ok P env st self" and "\<not> bs_in_handler self"
  obtains self' where "bs_enter_handler self = Some self'" "block_state_ok P env st self'" "bs_in_handler self'"
    "bs_view st self' = bs_view st self" "bs_created_data_sources self' = bs_created_data_sources self"
    "bs_handler_created_data_sources self' = []" "ec_handler_updates (bs_entity_cache self') = []"
    "ec_updates (bs_entity_cache self') = ec_updates (bs_entity_cache self)"
  using assms
  by (intro that[of "self\<lparr>bs_in_handler := True, bs_entity_cache := (bs_entity_cache self)\<lparr>ec_in_handler := True\<rparr>\<rparr>"])
     (auto simp: bs_enter_handler_def enter_handler_def block_state_ok_def cache_ok_def updates_ok_def
       bs_view_def cache_view_def)

text \<open>
  A handler that ends well adds its data sources and leaves the view as it saw it last; one that
  fails leaves the view and the data sources as they were before it, and the error.
\<close>

lemma bs_exit_handler_spec:
  assumes "hash_order_ok env" and "block_state_ok P env st self" and "bs_in_handler self"
  obtains self' where "bs_exit_handler env self = Some self'" "block_state_ok P env st self'" "\<not> bs_in_handler self'"
    "bs_view st self' = bs_view st self"
    "bs_created_data_sources self' = bs_created_data_sources self @ bs_handler_created_data_sources self"
    "bs_deterministic_errors self' = bs_deterministic_errors self"
proof -
  let ?c = "bs_entity_cache self"
  have c: "updates_ok P ?c" "ec_in_handler ?c" using assms(2,3) by (simp_all add: block_state_ok_def cache_ok_def)
  obtain c' where "exit_handler env ?c = Some c'" "updates_ok P c'" "\<not> ec_in_handler c'"
    "cache_view st c' = cache_view st ?c" "ec_current c' = ec_current ?c"
    by (rule exit_handler_spec[OF assms(1) c, of st]) (rule that)
  then show thesis
    using assms(2,3) that[of "self\<lparr>bs_in_handler := False,
             bs_created_data_sources := bs_created_data_sources self @ bs_handler_created_data_sources self,
             bs_handler_created_data_sources := [], bs_entity_cache := c'\<rparr>"]
    by (simp add: bs_exit_handler_def block_state_ok_def cache_ok_def bs_view_def)
qed

lemma bs_discard_changes_spec:
  assumes "block_state_ok P env st self" and "bs_in_handler self"
  obtains self' where "bs_discard_changes e self = Some self'" "block_state_ok P env st self'" "\<not> bs_in_handler self'"
    "bs_view st self' = (\<lambda>k. pending (ec_updates (bs_entity_cache self)) k (st k))"
    "bs_created_data_sources self' = bs_created_data_sources self"
    "bs_deterministic_errors self' = bs_deterministic_errors self @ [e]"
  using assms
  by (intro that[of "self\<lparr>bs_in_handler := False, bs_handler_created_data_sources := [],
        bs_entity_cache := (bs_entity_cache self)\<lparr>ec_in_handler := False, ec_handler_updates := []\<rparr>,
        bs_deterministic_errors := bs_deterministic_errors self @ [e]\<rparr>"])
     (auto simp: bs_discard_changes_def exit_handler_and_discard_changes_def block_state_ok_def cache_ok_def
       updates_ok_def bs_view_def cache_view_def)

text \<open>
  Extending a block state by one that started with the same capacity subtracts the capacity that the
  other one has \<^emph>\<open>left\<close>: what remains is the difference of what the two have used, usually nothing.
\<close>

lemma extended_capacity:
  assumes "block_state_extend env other self = Some self'"
    and "bs_write_capacity_remaining self = capacity - used" and "used \<le> capacity"
    and "bs_write_capacity_remaining other = capacity - used'" and "used' \<le> capacity"
  shows "bs_write_capacity_remaining self' = saturating_sub used' used"
proof -
  have "bs_write_capacity_remaining self' =
      saturating_sub (bs_write_capacity_remaining self) (bs_write_capacity_remaining other)"
    using assms(1) by (auto simp: block_state_extend_def Let_def split: if_splits)
  also have "\<dots> = saturating_sub used' used"
  proof -
    have "capacity - used < capacity - used' \<longleftrightarrow> used' < used"
      using assms(3,5) unfolding word_less_nat_alt word_le_nat_alt by (auto simp: unat_sub word_le_nat_alt)
    then show ?thesis by (simp add: saturating_sub_def assms(2,4))
  qed
  finally show ?thesis .
qed

end
