(* ===== verification/List_Queue.thy ===== *)
theory List_Queue
  imports Lfu_Cache "HOL-Library.AList"
begin

text \<open>
  A priority queue as a list of entries, the first one with a key counting. It satisfies the laws
  that the LFU cache asks of its queue, and computes.
\<close>

type_synonym ('k, 'v) list_queue = "(('k, 'v) cache_entry \<times> priority) list"

definition keyed :: "('k, 'v) list_queue \<Rightarrow> ('k \<times> ('k, 'v) cache_entry \<times> priority) list" where
  "keyed q = map (\<lambda>(e, p). (ce_key e, (e, p))) q"

definition entries :: "('k, 'v) list_queue \<Rightarrow> ('k \<times> ('k, 'v) cache_entry \<times> priority) list" where
  "entries q = AList.clearjunk (keyed q)"

fun most_urgent :: "('k, 'v) cache_entry \<times> priority \<Rightarrow> ('k, 'v) list_queue \<Rightarrow> ('k, 'v) cache_entry \<times> priority" where
  "most_urgent x [] = x"
| "most_urgent x (y # ys) = most_urgent (if snd x < snd y then y else x) ys"

definition change_entry :: "'k \<Rightarrow> (('k, 'v) cache_entry \<times> priority \<Rightarrow> ('k, 'v) cache_entry \<times> priority)
    \<Rightarrow> ('k, 'v) list_queue \<Rightarrow> ('k, 'v) list_queue" where
  "change_entry k f q = map (\<lambda>(e, p). if ce_key e = k then f (e, p) else (e, p)) q"

definition queue_pop :: "('k, 'v) list_queue \<Rightarrow> ((('k, 'v) cache_entry \<times> priority) \<times> ('k, 'v) list_queue) option" where
  "queue_pop q =
     (case map snd (entries q) of
        [] \<Rightarrow> None
      | x # xs \<Rightarrow>
          let top = most_urgent x xs
          in Some (top, filter (\<lambda>y. ce_key (fst y) \<noteq> ce_key (fst top)) (x # xs)))"

definition list_queue :: "(('k, 'v) list_queue, 'k, 'v) priority_queue" where
  "list_queue = \<lparr>pq_new = [],
     pq_push = (\<lambda>e p q. (e, p) # q),
     pq_get = (\<lambda>q. map_of (keyed q)),
     pq_get_mut = (\<lambda>k f. change_entry k (\<lambda>(e, p). (f e, p))),
     pq_change_priority = (\<lambda>k p q. (map_option snd (map_of (keyed q) k), change_entry k (\<lambda>(e, p'). (e, p)) q)),
     pq_change_priority_by = (\<lambda>k f. change_entry k (\<lambda>(e, p). (e, f p))),
     pq_pop = queue_pop,
     pq_len = (\<lambda>q. length (entries q)),
     pq_iter_mut = (\<lambda>f. map (\<lambda>(e, p). f e p)),
     pq_into_iter = (\<lambda>q. map snd (entries q)),
     pq_extend = (\<lambda>es q. q @ es)\<rparr>"

lemma keyed_simps [simp]:
  "keyed [] = []"
  "keyed (x # q) = (ce_key (fst x), x) # keyed q"
  "keyed (q @ q') = keyed q @ keyed q'"
  by (simp_all add: keyed_def split: prod.splits)

lemma keyed_key: "(k, x) \<in> set (keyed q) \<Longrightarrow> ce_key (fst x) = k"
  by (auto simp: keyed_def)

lemma entries_map: "map_of (entries q) = map_of (keyed q)" "distinct (map fst (entries q))"
  by (simp_all add: entries_def map_of_clearjunk distinct_clearjunk)

lemma entries_iff: "(k, x) \<in> set (entries q) \<longleftrightarrow> map_of (keyed q) k = Some x"
  by (metis entries_map map_of_eq_Some_iff)

lemma entries_key: "(k, x) \<in> set (entries q) \<Longrightarrow> k = ce_key (fst x)"
  unfolding entries_iff by (drule map_of_SomeD) (simp add: keyed_key)

lemma entries_keyed: "entries q = keyed (map snd (entries q))"
proof -
  have "keyed (map snd xs) = xs" if "\<forall>(k, x) \<in> set xs. k = ce_key (fst x)"
    for xs :: "('k \<times> ('k, 'v) cache_entry \<times> priority) list"
    using that by (induction xs) auto
  moreover have "\<forall>(k, x) \<in> set (entries q). k = ce_key (fst x)" using entries_key by fast
  ultimately have "keyed (map snd (entries q)) = entries q" .
  then show ?thesis by simp
qed

lemma change_entry_map:
  assumes "\<And>x. ce_key (fst (f x)) = ce_key (fst x)"
  shows "map_of (keyed (change_entry k f q)) = (map_of (keyed q))(k := map_option f (map_of (keyed q) k))"
proof (induction q)
  case (Cons x q)
  obtain e p where x: "x = (e, p)" by (cases x)
  have "ce_key (fst (f (e, p))) = ce_key e" using assms[of "(e, p)"] by simp
  then show ?case using Cons unfolding x by (auto simp: change_entry_def)
qed (simp add: change_entry_def fun_upd_idem)

lemma map_iter_mut:
  assumes "\<And>e p. ce_key (fst (f e p)) = ce_key e"
  shows "map_of (keyed (map (\<lambda>(e, p). f e p) q)) k = map_option (\<lambda>(e, p). f e p) (map_of (keyed q) k)"
  by (induction q) (auto simp: assms)

lemma map_fst_keyed: "map fst (keyed q) = map (ce_key \<circ> fst) q"
  by (induction q) simp_all

lemma most_urgent_mem: "most_urgent x xs \<in> set (x # xs)"
proof (induction xs arbitrary: x)
  case (Cons y xs)
  show ?case using Cons.IH[of "if snd x < snd y then y else x"] by (auto split: if_splits)
qed simp

lemma most_urgent_max: "y \<in> set (x # xs) \<Longrightarrow> snd y \<le> snd (most_urgent x xs)"
proof (induction xs arbitrary: x y)
  case (Cons z xs)
  let ?m = "if snd x < snd z then z else x"
  have "snd x \<le> snd ?m" "snd z \<le> snd ?m" by auto
  then show ?case using Cons.IH[of ?m ?m] Cons.IH[of y ?m] Cons.prems by auto
qed simp

lemma keyed_filter: "keyed (filter (\<lambda>x. ce_key (fst x) \<noteq> k) q) = AList.delete k (keyed q)"
  by (induction q) (auto simp: AList.delete_eq)

lemma queue_pop_None: "queue_pop q = None \<longleftrightarrow> map_of (keyed q) = Map.empty"
proof -
  have "queue_pop q = None \<longleftrightarrow> entries q = []" by (cases "entries q") (simp_all add: queue_pop_def Let_def)
  also have "\<dots> \<longleftrightarrow> map_of (keyed q) = Map.empty" unfolding entries_map(1)[symmetric] by (cases "entries q") (auto dest: fun_cong)
  finally show ?thesis .
qed

lemma queue_pop_Some:
  assumes "queue_pop q = Some ((e, p), q')"
  shows "map_of (keyed q) (ce_key e) = Some (e, p)"
    and "map_of (keyed q') = (map_of (keyed q))(ce_key e := None)"
    and "map_of (keyed q) k = Some (e', p') \<Longrightarrow> p' \<le> p"
proof -
  obtain x xs where xs: "map snd (entries q) = x # xs" "most_urgent x xs = (e, p)"
    and q': "q' = filter (\<lambda>y. ce_key (fst y) \<noteq> ce_key e) (map snd (entries q))"
    using assms by (auto simp: queue_pop_def Let_def split: list.splits)
  have "(e, p) \<in> set (map snd (entries q))" unfolding xs(1) using most_urgent_mem[of x xs] xs(2) by simp
  then obtain k0 where "(k0, (e, p)) \<in> set (entries q)" by auto
  with entries_key[OF this] show "map_of (keyed q) (ce_key e) = Some (e, p)" by (simp add: entries_iff)
  show "map_of (keyed q') = (map_of (keyed q))(ce_key e := None)"
    unfolding q' keyed_filter entries_keyed[symmetric] by (simp add: entries_map delete_conv')
  show "p' \<le> p" if "map_of (keyed q) k = Some (e', p')"
  proof -
    have "(e', p') \<in> set (x # xs)" using that unfolding xs(1)[symmetric] entries_iff[symmetric] by force
    then show ?thesis using most_urgent_max[of "(e', p')" x xs] xs(2) by simp
  qed
qed

lemma keyed_extend:
  assumes "\<forall>(e, p) \<in> set es. map_of (keyed q) (ce_key e) = None"
  shows "map_of (keyed (q @ es)) = map_of (keyed q) ++ map_of (keyed es)"
proof -
  have "dom (map_of (keyed es)) \<inter> dom (map_of (keyed q)) = {}"
  proof (rule ccontr)
    assume "dom (map_of (keyed es)) \<inter> dom (map_of (keyed q)) \<noteq> {}"
    then obtain k x y where "map_of (keyed es) k = Some x" "map_of (keyed q) k = Some y" by auto
    moreover from this(1) have "x \<in> set es" "ce_key (fst x) = k" by (auto simp: keyed_def dest!: map_of_SomeD)
    ultimately show False using assms by (cases x) auto
  qed
  then show ?thesis unfolding keyed_simps(3) map_of_append by (rule map_add_comm)
qed

lemma entries_laws:
  fixes q :: "('k, 'v) list_queue"
  shows "length (entries q) = card (dom (map_of (keyed q)))"
    and "map_of (keyed q) k = Some (e, p) \<Longrightarrow> ce_key e = k"
    and "distinct (map (ce_key \<circ> fst) (map snd (entries q)))"
    and "(e, p) \<in> set (map snd (entries q)) \<longleftrightarrow> map_of (keyed q) (ce_key e) = Some (e, p)"
proof -
  show "length (entries q) = card (dom (map_of (keyed q)))"
    unfolding entries_map(1)[symmetric] dom_map_of_conv_image_fst using entries_map(2)[of q]
    by (metis distinct_card length_map set_map)
  show "ce_key e = k" if "map_of (keyed q) k = Some (e, p)"
    using that by (auto dest!: map_of_SomeD keyed_key)
  show "distinct (map (ce_key \<circ> fst) (map snd (entries q)))"
    using entries_map(2)[of q] by (simp only: map_fst_keyed[symmetric] entries_keyed[symmetric])
  show "(e, p) \<in> set (map snd (entries q)) \<longleftrightarrow> map_of (keyed q) (ce_key e) = Some (e, p)"
    unfolding entries_iff[symmetric] using entries_key by force
qed

lemma list_queue_laws: "pq_laws (list_queue :: (('k, 'v) list_queue, 'k, 'v) priority_queue)"
  unfolding pq_laws_def list_queue_def priority_queue.simps
proof (intro conjI)
  show "\<forall>q e (p :: priority) q'. queue_pop q = Some ((e, p), q') \<longrightarrow>
      map_of (keyed q) (ce_key e) = Some (e, p) \<and> map_of (keyed q') = (map_of (keyed q))(ce_key e := None)
      \<and> (\<forall>k e' p'. map_of (keyed q) k = Some (e', p') \<longrightarrow> p' \<le> p)"
    by (intro allI impI conjI) (fact queue_pop_Some(1), fact queue_pop_Some(2), rule queue_pop_Some(3))
  show "\<forall>q es. distinct (map (ce_key \<circ> fst) es) \<and> (\<forall>(e, p) \<in> set es. map_of (keyed q) (ce_key e) = None) \<longrightarrow>
      map_of (keyed (q @ es)) = map_of (keyed q) ++ map_of (map (\<lambda>(e, p). (ce_key e, (e, p))) es)"
    unfolding keyed_def[of es for es, symmetric] by (intro allI impI keyed_extend) simp
  show "\<forall>q f. (\<forall>e p. ce_key (fst (f e p)) = ce_key e) \<longrightarrow>
      map_of (keyed (map (\<lambda>(e, p). f e p) q)) = (\<lambda>k. map_option (\<lambda>(e, p). f e p) (map_of (keyed q) k))"
    by (intro allI impI ext map_iter_mut) blast
  show "\<forall>q k (e :: ('k, 'v) cache_entry) (p :: priority). map_of (keyed q) k = Some (e, p) \<longrightarrow> ce_key e = k"
    using entries_laws(2) by blast
  show "\<forall>q k f. (\<forall>e. ce_key (f e) = ce_key e) \<longrightarrow> map_of (keyed (change_entry k (\<lambda>(e, p). (f e, p)) q)) =
      (map_of (keyed q))(k := map_option (\<lambda>(e, p). (f e, p)) (map_of (keyed q) k))"
    by (intro allI impI change_entry_map) (simp split: prod.splits)
  show "\<forall>q k f. map_of (keyed (change_entry k (\<lambda>(e, p). (e, f p)) q)) =
      (map_of (keyed q))(k := map_option (\<lambda>(e, p). (e, f p)) (map_of (keyed q) k))"
    by (intro allI change_entry_map) (simp split: prod.splits)
  show "\<forall>q k p. fst (map_option snd (map_of (keyed q) k), change_entry k (\<lambda>(e, p'). (e, p)) q) =
        map_option snd (map_of (keyed q) k)
      \<and> map_of (keyed (snd (map_option snd (map_of (keyed q) k), change_entry k (\<lambda>(e, p'). (e, p)) q))) =
        (map_of (keyed q))(k := map_option (\<lambda>(e, p'). (e, p)) (map_of (keyed q) k))"
    unfolding fst_conv snd_conv by (intro allI conjI refl change_entry_map) (simp split: prod.splits)
  show "\<forall>q. distinct (map (ce_key \<circ> fst) (map snd (entries q)))
      \<and> (\<forall>e p. (e, p) \<in> set (map snd (entries q)) \<longleftrightarrow> map_of (keyed q) (ce_key e) = Some (e, p))"
    using entries_laws(3,4) by blast
qed (simp_all add: queue_pop_None entries_laws finite_dom_map_of)

end
