(* ===== verification/Memory_Store.thy ===== *)
theory Memory_Store
  imports Block_State List_Queue
begin

text \<open>
  An environment for the entity cache that computes: a list of entities as the store, the list queue
  and the order of insertion as the order of hash maps. It keeps what the cache asks of its
  environment.
\<close>

definition stored :: "pool_ref \<Rightarrow> (entity_key \<times> entity) list \<Rightarrow> bool" where
  "stored P kvs \<longleftrightarrow> distinct (map fst kvs) \<and> (\<forall>(k, e) \<in> set kvs. entity_ok P e)"

definition memory_store :: "(entity_key \<times> entity) list \<Rightarrow> read_store" where
  "memory_store kvs = \<lparr>rs_get = (\<lambda>k. Inr (map_of kvs k)),
     rs_get_many = (\<lambda>ks. Inr (filter (\<lambda>(k, e). k \<in> set ks) kvs)),
     rs_get_derived = (\<lambda>q. Inr (filter (\<lambda>(k, e). query_matches q k e) kvs))\<rparr>"

definition store_view_of :: "(entity_key \<times> entity) list \<Rightarrow> store_view" where
  "store_view_of kvs = (\<lambda>k. map_option seen (map_of kvs k))"

text \<open>An entity weighs 100, the cache holds as much as \<open>limit\<close>, and no type is immutable.\<close>

definition memory_env :: "(entity_type \<Rightarrow> field list option) \<Rightarrow> 64 word \<Rightarrow> (entity_key \<times> entity) list
    \<Rightarrow> (entity_key, entity option) list_queue cache_env" where
  "memory_env types limit kvs = \<lparr>ce_queue = list_queue,
     ce_sizes = \<lparr>entry_weight = (\<lambda>k v. 100), entry_size = 80\<rparr>,
     ce_store = memory_store kvs, ce_object_type = types, ce_is_immutable = (\<lambda>t. False),
     ce_field_related = (\<lambda>r. Inr (lr_entity_type r, lr_entity_field r)),
     ce_entity_weight = (\<lambda>e. 100), ce_cache_size = limit, ce_hash_order = id\<rparr>"

lemma memory_env_simps [simp]:
  "ce_queue (memory_env types limit kvs) = list_queue"
  "ce_store (memory_env types limit kvs) = memory_store kvs"
  "ce_hash_order (memory_env types limit kvs) = id"
  "ce_object_type (memory_env types limit kvs) = types"
  "ce_is_immutable (memory_env types limit kvs) = (\<lambda>t. False)"
  "ce_entity_weight (memory_env types limit kvs) = (\<lambda>e. 100)"
  "ce_cache_size (memory_env types limit kvs) = limit"
  "ce_sizes (memory_env types limit kvs) = \<lparr>entry_weight = (\<lambda>k v. 100), entry_size = 80\<rparr>"
  by (simp_all add: memory_env_def)

lemma memory_env_ok [simp]: "env_ok (memory_env types limit kvs)" "hash_order_ok (memory_env types limit kvs)"
  by (simp_all add: env_ok_def hash_order_ok_def list_queue_laws)

lemma map_of_filter_keys: "map_of (filter (\<lambda>(k, e). P k) kvs) k = (if P k then map_of kvs k else None)"
  by (induction kvs) auto

lemma memory_store_reads:
  assumes "stored P kvs"
  shows "store_reads P (memory_env types limit kvs) (store_view_of kvs)"
proof -
  have ok: "answers P (store_view_of kvs k) (map_of kvs k)" for k
    using assms by (auto simp: answers_def store_view_of_def stored_def dest: map_of_SomeD)
  moreover have "distinct (map fst (filter (\<lambda>(k, e). k \<in> set ks) kvs))" for ks
    using assms by (simp add: stored_def distinct_map_filter)
  ultimately show ?thesis
    by (simp add: store_reads_def memory_store_def map_of_filter_keys)
qed

lemma new_cache_ok: "pq_laws (ce_queue env) \<Longrightarrow> current_ok P env st (lfu_new (ce_queue env) False)"
  using lfu_new_map[of "ce_queue env" False] lfu_new_weighs[of "ce_queue env" False]
  by (simp add: current_ok_def) (simp add: lfu_new_def)

lemma memory_cache_ok: "cache_ok P (memory_env types limit kvs) st (entity_cache_new (memory_env types limit kvs) False)"
  unfolding entity_cache_new_def by (rule with_current_ok) (rule new_cache_ok, simp add: list_queue_laws)

text \<open>Nothing is immutable in this environment.\<close>

lemma memory_well_behaved [simp]: "well_behaved (memory_env types limit kvs) st self"
  by (simp add: well_behaved_def)

section \<open>An example\<close>

text \<open>Accounts with an owner and a balance; the digest is for the proof of indexing.\<close>

definition account_pool :: pool_ref where
  "account_pool = PoolRef 0 (the (pool_from_iter [''id'', ''vid'', ''owner'', ''balance'', ''digest'']))"

definition account :: "(string \<times> store_value) list \<Rightarrow> entity" where
  "account kvs = (case entity_make account_pool ((''id'', VString ''a'') # kvs) of Inl err \<Rightarrow> obj_new account_pool | Inr e \<Rightarrow> e)"

definition account_key :: "string \<Rightarrow> entity_key" where
  "account_key s = \<lparr>key_type = ''Account'', key_id = IdString s, key_causality_region = 0\<rparr>"

lemma account_pool_ok: "pool_ok (ref_pool account_pool)"
proof -
  obtain p where p: "intern_all [''id'', ''vid'', ''owner'', ''balance'', ''digest''] pool_new = Some p"
    by (simp add: pool_intern_def pool_new_def atom_try_from_def TOMBSTONE_KEY_def)
  then show ?thesis using intern_all_ok[OF pool_new_ok(1) p] by (simp add: account_pool_def pool_from_iter_def)
qed

lemma account_words: "words_of account_pool = {''id'', ''vid'', ''owner'', ''balance'', ''digest''}"
proof -
  obtain p where p: "intern_all [''id'', ''vid'', ''owner'', ''balance'', ''digest''] pool_new = Some p"
    by (simp add: pool_intern_def pool_new_def atom_try_from_def TOMBSTONE_KEY_def)
  then show ?thesis using intern_all_ok[OF pool_new_ok(1) p]
    by (simp add: account_pool_def pool_from_iter_def words_of_def)
qed

lemma account_spec:
  assumes "fst ` set kvs \<subseteq> words_of account_pool" and "''id'' \<notin> fst ` set kvs"
  shows "entity_ok account_pool (account kvs)" and "obj_get (account kvs) = map_of (rev kvs @ [(''id'', VString ''a'')])"
proof -
  let ?kvs = "(''id'', VString ''a'') # kvs"
  have new: "entity_ok account_pool (obj_new account_pool)"
    using account_pool_ok by (simp add: entity_ok_def obj_new_ok) (simp add: obj_new_def)
  from assms(1) have "fst ` set ?kvs \<subseteq> words_of account_pool" by (auto simp: account_words)
  with merge_iter_spec[OF new, of ?kvs] obtain e where e: "merge_iter ?kvs (obj_new account_pool) = Inr e"
    "obj_get e = map_of (rev ?kvs)"
    by (auto simp: obj_new_get split: sum.splits intern_error.splits)
  have "map_of (rev kvs) ''id'' = None" using assms(2) by (auto simp: map_of_eq_None_iff)
  then have "check_id e = Inr ()" using e(2) by (simp add: check_id_def entity_get_def ID_def VID_FIELD_def map_add_def)
  with e have m: "entity_make account_pool ?kvs = Inr (account kvs)" "account kvs = e"
    by (simp_all add: entity_make_def account_def)
  show "entity_ok account_pool (account kvs)" "obj_get (account kvs) = map_of (rev kvs @ [(''id'', VString ''a'')])"
    using entity_make_spec[OF account_pool_ok m(1)] by simp_all
qed

end
