(* ===== verification/Cache_Properties.thy ===== *)
theory Cache_Properties
  imports Memory_Store
begin

text \<open>
  The properties of interned objects, entities, the LFU cache, the entity cache and the state of a
  block, and their witnesses on an account that is stored with a balance of 5.
\<close>

section \<open>Interned objects\<close>

text \<open>
  What \<open>AtomPool::lookup\<close> and \<open>AtomPool::get\<close> of a pool say of a word and an atom is the same:
  after interning a word, the atom it got leads back to it, and every word that was there before
  keeps its atom. Interning a word that is already there changes nothing.
\<close>

lemma interned_word_round_trip:
  assumes "pool_ok p" and "pool_intern w p = Some (a, p')"
  shows "pool_get p' a = Some w \<and> pool_lookup p' w = Some a
    \<and> (\<forall>v b. pool_lookup p v = Some b \<longrightarrow> pool_lookup p' v = Some b \<and> pool_get p' b = Some v)
    \<and> (pool_lookup p w \<noteq> None \<longrightarrow> p' = p) \<and> pool_ok p'"
proof -
  have ok: "pool_ok p'" "pool_lookup p' w = Some a" using pool_intern_ok[OF assms] by simp_all
  moreover have "pool_lookup p' v = Some b \<and> pool_get p' b = Some v" if "pool_lookup p v = Some b" for v b
    using pool_intern_stable[OF assms that] pool_lookup_get[OF ok(1)] by simp
  moreover have "p' = p" if "pool_lookup p w \<noteq> None" using assms(2) that by (auto simp: pool_intern_def)
  ultimately show ?thesis using pool_lookup_get[OF ok(1)] by simp
qed

text \<open>
  \<open>AtomPool::child\<close> numbers the atoms of the new pool from the number of atoms of its base alone.
  A child of a pool that itself extends a non-empty pool gives a new word an atom that a different
  word already has: the two words are the same key in every object of that pool.
\<close>

lemma grandchild_pool_reuses_atom:
  assumes "pool_ok p" and "pool_base_sym p \<noteq> 0" and "pool_child p = Some c" and "w \<notin> set (pool_list p)"
  shows "\<exists>a v c'. pool_intern w c = Some (a, c') \<and> v \<noteq> w
    \<and> pool_lookup c' w = Some a \<and> pool_lookup c' v = Some a"
proof -
  let ?n = "length (pool_atoms p)"
  have n: "?n < length (pool_list p)" "?n < 2 ^ 16 - 1"
    using pool_size[OF assms(1)] assms(2) pool_ok_list[OF assms(1)] by (auto simp: unat_eq_zero dest: unat_gt_0[THEN iffD2])
  then have "pool_child p = Some (AtomPool (Some p) (of_nat ?n) [] (\<lambda>_. None))"
    by (simp add: pool_child_def atom_try_from_def)
  with assms(3) have c: "c = AtomPool (Some p) (of_nat ?n) [] (\<lambda>_. None)" by simp
  have u: "unat (of_nat ?n :: 16 word) = ?n" using n(2) by (simp add: unat_of_nat)
  let ?a = "of_nat ?n :: 16 word" and ?v = "pool_list p ! length (pool_atoms p)"
  have v: "pool_lookup p ?v = Some ?a" using n(1) u by (simp add: pool_lookup_list[OF assms(1)] vec_get_def)
  have w: "pool_lookup p w = None" using assms(4) by (simp add: pool_lookup_None[OF assms(1)])
  have t: "?a \<noteq> TOMBSTONE_KEY" using n(2) u by (metis TOMBSTONE_KEY_def pool_lookup_not_tombstone[OF assms(1)] v)
  have "pool_intern w c = Some (?a, AtomPool (Some p) ?a [w] ((\<lambda>_. None)(w \<mapsto> ?a)))"
    using n(2) u w t unfolding c by (simp add: pool_intern_def atom_try_from_def)
  moreover have "?v \<noteq> w" using v w by auto
  ultimately show ?thesis using v w by fastforce
qed

text \<open>
  C28: \<open>PartialEq\<close> for \<open>Object\<close>, in either of its two ways (by atoms over one pool, by names over two
  pools), never panics and is true exactly if both objects map the same keys to the same values,
  whatever the order of their entries and the tombstones they hold.
\<close>

theorem object_equality_is_map_equality:
  assumes "obj_ok self" and "obj_ok other" and "pools_agree self other"
  shows "object_eq self other = Some (obj_get self = obj_get other)"
  using assms by (rule object_eq_iff)

lemma account_ok:
  "entity_ok account_pool (account [])" "entity_ok account_pool (account [(''balance'', VInt 5)])"
  "entity_ok account_pool (account [(''balance'', VInt 5), (''owner'', VString ''o'')])"
  "entity_ok account_pool (account [(''owner'', VString ''o''), (''balance'', VInt 5)])"
  "entity_ok account_pool (account [(''balance'', VNull)])"
  by (simp_all add: account_spec account_words)

lemma account_maps:
  "obj_get (account [(''balance'', VInt 5)]) = [''balance'' \<mapsto> VInt 5, ''id'' \<mapsto> VString ''a'']"
  "obj_get (account [(''balance'', VInt 5), (''owner'', VString ''o'')]) =
     [''owner'' \<mapsto> VString ''o'', ''balance'' \<mapsto> VInt 5, ''id'' \<mapsto> VString ''a'']"
  "obj_get (account [(''owner'', VString ''o''), (''balance'', VInt 5)]) =
     [''balance'' \<mapsto> VInt 5, ''owner'' \<mapsto> VString ''o'', ''id'' \<mapsto> VString ''a'']"
  "obj_get (account [(''balance'', VNull)]) = [''balance'' \<mapsto> VNull, ''id'' \<mapsto> VString ''a'']"
  by (subst account_spec(2), simp add: account_words, simp, simp, rule ext, simp)+

theorem object_equality_is_map_equality_witness:
  "object_eq (account [(''balance'', VInt 5), (''owner'', VString ''o'')])
     (account [(''owner'', VString ''o''), (''balance'', VInt 5)]) = Some True"
proof -
  note ok = account_ok(3,4)
  have "obj_get (account [(''balance'', VInt 5), (''owner'', VString ''o'')]) =
      obj_get (account [(''owner'', VString ''o''), (''balance'', VInt 5)])"
    unfolding account_maps by (rule ext) simp
  with object_equality_is_map_equality[OF entity_ok_simps(2)[OF ok(1)] entity_ok_simps(2)[OF ok(2)] entity_ok_simps(3)[OF ok]]
  show ?thesis by simp
qed

section \<open>Entities\<close>

text \<open>
  \<open>Entity::sorted\<close> depends on nothing but the attributes that are visible from outside: entities
  that agree on them give the same sequence of pairs, ordered by name, without the vid and without a
  name twice. This is what makes the proof of indexing independent of how an entity was built.
\<close>

lemma sorted_attributes_are_canonical:
  assumes "entity_ok P e" and "entity_ok P f" and "public_attrs e = public_attrs f"
  shows "\<exists>kvs. entity_sorted e = Some kvs \<and> entity_sorted f = Some kvs
    \<and> map_of kvs = public_attrs e \<and> sorted (map fst kvs) \<and> distinct (map fst kvs)"
  using entity_sorted_unique[OF assms] entity_sorted_spec[OF assms(1)] by auto

text \<open>
  \<open>Entity::validate\<close> accepts exactly the entities that conform to their type: every derived field
  is unset, every other field that is set has a value that can be assigned to the field's type, list
  by list and element by element, and no field that must not be null is missing. Entities of the
  proof of indexing are not checked; a type that is not in the schema has no valid entity.
\<close>

lemma validation_is_conformance:
  "validate types key e = Inr () \<longleftrightarrow> key_type key = POI_OBJECT
     \<or> (\<exists>fs. types (key_type key) = Some fs \<and> (\<forall>f \<in> set fs. field_conforms (public_attrs e) f))"
  by (rule validate_iff)

definition account_fields :: "field list" where
  "account_fields =
     [\<lparr>f_name = ''id'', f_type = NonNullType (NamedType ''String''), f_value_type = TString, f_derived_from = None\<rparr>,
      \<lparr>f_name = ''owner'', f_type = NamedType ''String'', f_value_type = TString, f_derived_from = None\<rparr>,
      \<lparr>f_name = ''balance'', f_type = NonNullType (NamedType ''Int''), f_value_type = TInt, f_derived_from = None\<rparr>]"

definition account_types :: "entity_type \<Rightarrow> field list option" where
  "account_types = [''Account'' \<mapsto> account_fields]"

text \<open>
  The vids that \<open>EntityCache::set\<close> and the ids that \<open>generate_id\<close> make out of a block number and a
  sequence number never collide, and vids, read as signed 64-bit numbers, are ordered by the block
  first and the sequence number second, over the whole range of block numbers and of sequence numbers.
\<close>

lemma vids_are_ordered_and_unique:
  assumes "i32_range block" and "i32_range block'"
  shows "(block_vid block seq < block_vid block' seq' \<longleftrightarrow> block < block' \<or> block = block' \<and> uint seq < uint seq')
    \<and> (generate_id t block seq = Inr i \<and> generate_id t block' seq' = Inr i \<longrightarrow> block = block' \<and> seq = seq')
    \<and> generate_id IdTypeInt8 block seq = Inr (IdInt8 (block_vid block seq))"
  using block_vid_less_iff[OF assms] generate_id_inject[OF assms] generate_int8_id[OF assms(1)] by blast

section \<open>The LFU cache\<close>

text \<open>
  C27: \<open>LfuCache::remove\<close> finds the entry to remove by giving it the greatest priority and popping. Its
  assertion that it popped the right entry never fails in a cache that was filled by \<open>insert\<close>: the
  call returns the value of the key, if there is one, and takes the key and nothing else away.
\<close>

theorem lfu_remove_pops_its_key:
  assumes "pq_laws Q" and "lfu_inv Q self"
  shows "\<exists>self'. lfu_remove Q key self = Some (lfu_map Q self key, self') \<and> lfu_inv Q self'
    \<and> lfu_map Q self' = (lfu_map Q self)(key := None)"
  by (rule lfu_remove_spec[OF assms]) blast

definition two_entries :: "bool \<Rightarrow> (string, nat) list_queue lfu_cache" where
  "two_entries dead_weight =
     lfu_insert list_queue \<lparr>entry_weight = (\<lambda>k v. 100), entry_size = 80\<rparr> ''b'' 2
       (lfu_insert list_queue \<lparr>entry_weight = (\<lambda>k v. 100), entry_size = 80\<rparr> ''a'' 1 (lfu_new list_queue dead_weight))"

lemma two_entries_ok:
  "lfu_inv list_queue (two_entries d)" "lfu_map list_queue (two_entries d) = [''a'' \<mapsto> 1, ''b'' \<mapsto> 2]"
  "weighs list_queue (two_entries d)"
  unfolding two_entries_def
  by (intro lfu_insert_spec(2) lfu_insert_weighs lfu_new_weighs lfu_new_map[THEN conjunct2] list_queue_laws,
      simp add: lfu_insert_spec(1)[OF list_queue_laws] lfu_new_map[OF list_queue_laws],
      intro lfu_insert_weighs lfu_new_weighs list_queue_laws)

theorem lfu_remove_pops_its_key_witness:
  "\<exists>self'. lfu_remove list_queue ''a'' (two_entries False) = Some (Some 1, self')
     \<and> lfu_map list_queue self' = [''b'' \<mapsto> 2]"
proof -
  have m: "[''a'' \<mapsto> 1, ''b'' \<mapsto> (2 :: nat)](''a'' := None) = [''b'' \<mapsto> 2]" by (rule ext) simp
  from lfu_remove_pops_its_key[OF list_queue_laws two_entries_ok(1), of "''a''" False] show ?thesis
    unfolding two_entries_ok(2) m by auto
qed

text \<open>
  C26: Without dead weight, eviction always ends and never meets an empty queue: the weight is within the
  limit afterwards and still the sum of the weights of the entries, what is left is a part of the
  cache as it was, and no entry was evicted that had a lower priority for eviction than one that
  stayed.
\<close>

theorem eviction_respects_limit:
  assumes "pq_laws Q" and "weighs Q self" and "\<not> lfu_dead_weight self"
  shows "\<exists>stats new. evict_with_period Q S limit period self = Some (Inr (stats, new))
    \<and> weighs Q new \<and> lfu_total_weight new \<le> limit \<and> lfu_map Q new \<subseteq>\<^sub>m lfu_map Q self
    \<and> (lfu_inv Q self \<longrightarrow> lfu_inv Q new)
    \<and> (\<forall>k e p k' e' p'. lfu_items Q (count_stale Q period self) k = Some (e, p) \<and> lfu_items Q new k = None
         \<and> lfu_items Q new k' = Some (e', p') \<longrightarrow> p' \<le> p)"
  by (rule evict_with_period_spec[OF assms])

theorem eviction_respects_limit_witness:
  "\<exists>stats new. evict_with_period list_queue \<lparr>entry_weight = (\<lambda>k v. 100), entry_size = 80\<rparr> 150 STALE_PERIOD (two_entries False) = Some (Inr (stats, new))
     \<and> lfu_total_weight new \<le> 150 \<and> lfu_map list_queue new \<subseteq>\<^sub>m [''a'' \<mapsto> 1, ''b'' \<mapsto> 2]"
proof -
  have "\<not> lfu_dead_weight (two_entries False)"
    by (simp add: two_entries_def lfu_dead_weight_insert) (simp add: lfu_new_def)
  from eviction_respects_limit[OF list_queue_laws two_entries_ok(3) this, of "\<lparr>entry_weight = (\<lambda>k v. 100), entry_size = 80\<rparr>" 150 STALE_PERIOD]
  show ?thesis unfolding two_entries_ok(2) by blast
qed

text \<open>
  With dead weight, \<open>evict_with_period\<close> compares the limit with the weight plus the dead weight of
  the entries that were there \<^emph>\<open>before\<close> the first one was evicted. If that dead weight alone exceeds the
  limit, it evicts everything and then panics on the empty queue.
\<close>

lemma dead_weight_empties_cache_and_panics:
  assumes "pq_laws Q" and "weighs Q self" and "limit < lfu_total_weight self" and "lfu_dead_weight self"
    and "weight_in (lfu_items Q self) + card (dom (lfu_items Q self)) * (unat (entry_size S) + 40) < 2 ^ 64"
    and "unat limit < card (dom (lfu_items Q self)) * (unat (entry_size S) + 40)"
  shows "evict_with_period Q S limit period self = Some (Inl ())"
  by (rule evict_with_period_panics[OF assms])

section \<open>The entity cache\<close>

text \<open>
  C25: \<open>EntityOp::accumulate\<close> composes: over one pool it never panics, and applying the accumulated
  operation to an entity, or to no entity, succeeds and gives the attributes that applying the two
  operations one after the other gives, nulls aside.
\<close>

theorem accumulated_operation_composes:
  assumes "op_ok P a" and "op_ok P b" and "\<forall>e0. e = Some e0 \<longrightarrow> entity_ok P e0"
  shows "\<exists>c e1 e2 e'. accumulate b a = Some c \<and> apply_to a e = Some (Inr e1) \<and> apply_to b e1 = Some (Inr e2)
    \<and> apply_to c e = Some (Inr e') \<and> map_option seen e' = map_option seen e2"
proof -
  obtain c where c: "accumulate b a = Some c" "op_ok P c" "\<And>x. seen_op c x = seen_op b (seen_op a x)"
    using accumulate_spec[OF assms(1,2)] by blast
  obtain e1 where e1: "apply_to a e = Some (Inr e1)" "map_option seen e1 = seen_op a (map_option seen e)"
    "\<forall>e0. e1 = Some e0 \<longrightarrow> entity_ok P e0" using apply_to_spec[OF assms(1,3)] by blast
  obtain e2 where e2: "apply_to b e1 = Some (Inr e2)" "map_option seen e2 = seen_op b (map_option seen e1)"
    using apply_to_spec[OF assms(2) e1(3)] by blast
  obtain e' where e': "apply_to c e = Some (Inr e')" "map_option seen e' = seen_op c (map_option seen e)"
    using apply_to_spec[OF c(2) assms(3)] by blast
  show ?thesis using c(1,3) e1 e2 e' by auto
qed

theorem accumulated_operation_composes_witness:
  "\<exists>c. accumulate (UpdateOp (account [(''balance'', VNull)])) RemoveOp = Some c
     \<and> (\<exists>e'. apply_to c (Some (account [(''balance'', VInt 5)])) = Some (Inr (Some e')) \<and> seen e' ''balance'' = None)"
proof -
  have "op_ok account_pool (UpdateOp (account [(''balance'', VNull)]))" by (simp add: account_ok)
  moreover have "\<forall>e0. Some (account [(''balance'', VInt 5)]) = Some e0 \<longrightarrow> entity_ok account_pool e0"
    by (simp add: account_ok)
  ultimately obtain c e1 e2 e' where "accumulate (UpdateOp (account [(''balance'', VNull)])) RemoveOp = Some c"
    "apply_to RemoveOp (Some (account [(''balance'', VInt 5)])) = Some (Inr e1)"
    "apply_to (UpdateOp (account [(''balance'', VNull)])) e1 = Some (Inr e2)"
    "apply_to c (Some (account [(''balance'', VInt 5)])) = Some (Inr e')" "map_option seen e' = map_option seen e2"
    using accumulated_operation_composes[of account_pool RemoveOp] by (metis op_ok.simps(1))
  moreover have "seen (account [(''balance'', VNull)]) ''balance'' = None"
    by (simp add: seen_def drop_nulls_def visible_alt account_maps)
  ultimately show ?thesis by auto
qed

text \<open>
  The account in the store has a balance of 5; in the cache it is being removed and created again with
  an owner and no balance.
\<close>

definition bank :: "(entity_key \<times> entity) list" where
  "bank = [(account_key ''a'', account [(''balance'', VInt 5)])]"

definition bank_env :: "(entity_key, entity option) list_queue cache_env" where
  "bank_env = memory_env account_types 1000 bank"

definition bank_cache :: "(entity_key, entity option) list_queue entity_cache" where
  "bank_cache = (entity_cache_new bank_env False)\<lparr>ec_updates :=
     [(account_key ''a'', OverwriteOp (account [(''balance'', VInt 5), (''owner'', VString ''o'')]))]\<rparr>"

lemma bank_ok:
  "env_ok bank_env" "hash_order_ok bank_env" "store_reads account_pool bank_env (store_view_of bank)"
  "well_behaved bank_env st self" "stored account_pool bank"
proof -
  show "stored account_pool bank" by (simp add: stored_def bank_def account_ok)
  then show "store_reads account_pool bank_env (store_view_of bank)"
    unfolding bank_env_def by (rule memory_store_reads)
qed (simp_all add: bank_env_def)

lemma bank_cache_ok: "cache_ok account_pool bank_env (store_view_of bank) bank_cache" "\<not> ec_in_handler bank_cache"
  using memory_cache_ok[of account_pool account_types 1000 bank "store_view_of bank"]
  by (simp_all add: bank_cache_def bank_env_def cache_ok_def updates_ok_def account_ok)
     (simp add: entity_cache_new_def with_current_def)

lemma bank_view:
  "cache_view (store_view_of bank) bank_cache (account_key ''a'') =
     Some [''owner'' \<mapsto> VString ''o'', ''balance'' \<mapsto> VInt 5, ''id'' \<mapsto> VString ''a'']"
proof -
  have "seen (account [(''balance'', VInt 5), (''owner'', VString ''o'')]) =
      [''owner'' \<mapsto> VString ''o'', ''balance'' \<mapsto> VInt 5, ''id'' \<mapsto> VString ''a'']"
    unfolding seen_def drop_nulls_def visible_alt account_maps by (rule ext) (simp add: VID_FIELD_def)
  then show ?thesis
    by (simp add: cache_view_def bank_cache_def entity_cache_new_def with_current_def pending_def)
qed

text \<open>
  C24: \<open>EntityCache::get\<close> returns what the view of the cache, the store changed by the operations of the
  block and then by those of the running handler, has for the key; it leaves the view as it is and
  the cache consistent with the store. In the scope of the block it returns what the pending
  operations make of an empty store, without reading.
\<close>

theorem cache_get_reads_the_view:
  assumes "env_ok env" and "store_reads P env st" and "cache_ok P env st self"
  shows "(\<exists>e self'. cache_get env key StoreScope self = Some (Inr e, self')
      \<and> answers P (cache_view st self key) e \<and> cache_ok P env st self' \<and> cache_view st self' = cache_view st self)
    \<and> (\<exists>e. cache_get env key InBlock self = Some (Inr e, self) \<and> answers P (cache_view (\<lambda>_. None) self key) e)"
proof -
  have "updates_ok P self" using assms(3) by (simp add: cache_ok_def)
  then show ?thesis
    using cache_get_spec[OF assms, of key] cache_get_in_block_spec[of P self env key] by metis
qed

theorem cache_get_reads_the_view_witness:
  "\<exists>e self'. cache_get bank_env (account_key ''a'') StoreScope bank_cache = Some (Inr (Some e), self')
     \<and> seen e ''owner'' = Some (VString ''o'')"
proof -
  from cache_get_reads_the_view[OF bank_ok(1,3) bank_cache_ok(1), of "account_key ''a''"]
  obtain e self' where e: "cache_get bank_env (account_key ''a'') StoreScope bank_cache = Some (Inr e, self')"
    "answers account_pool (cache_view (store_view_of bank) bank_cache (account_key ''a'')) e" by auto
  then show ?thesis unfolding bank_view by (auto simp: answers_def)
qed

text \<open>
  C2: \<open>as_modifications\<close> of a cache that is consistent with the store never panics and returns
  modifications that turn the store into what the cache showed: at most one per entity and only for
  entities with a pending operation, all in the given block, \<open>Insert\<close> only where the store has no
  entity and \<open>Overwrite\<close> and \<open>Remove\<close> only where it has one. The LFU cache that is kept for the next
  block agrees with the new store and is within its limit.
\<close>

theorem block_modifications_refine_view:
  assumes "env_ok env" and "store_reads P env st" and "cache_ok P env st self" and "well_behaved env st self"
    and "\<not> ec_in_handler self"
  shows "\<exists>r. as_modifications env block self = Some (Inr r)
    \<and> apply_mods (mc_modifications r) st = cache_view st self
    \<and> distinct (map emod_key (mc_modifications r))
    \<and> emod_key ` set (mc_modifications r) \<subseteq> fst ` set (ec_updates self)
    \<and> (\<forall>m \<in> set (mc_modifications r). modification_fits st block m)
    \<and> current_ok P env (cache_view st self) (mc_entity_lfu_cache r)
    \<and> lfu_total_weight (mc_entity_lfu_cache r) \<le> ce_cache_size env"
  by (rule as_modifications_spec[OF assms])

theorem block_modifications_refine_view_witness:
  "\<exists>r. as_modifications bank_env 7 bank_cache = Some (Inr r)
     \<and> (\<exists>m. apply_mods (mc_modifications r) (store_view_of bank) (account_key ''a'') = Some m \<and> m ''owner'' = Some (VString ''o''))"
proof -
  from block_modifications_refine_view[OF bank_ok(1,3) bank_cache_ok(1) bank_ok(4) bank_cache_ok(2), of 7]
  obtain r where "as_modifications bank_env 7 bank_cache = Some (Inr r)"
    "apply_mods (mc_modifications r) (store_view_of bank) = cache_view (store_view_of bank) bank_cache" by blast
  then show ?thesis using bank_view by auto
qed

text \<open>
  C18: \<open>EntityCache::set\<close> within the write capacity changes the view at its key, and only there, by
  merging the given attributes into those that are shown, null removing one; it never panics. It succeeds for an entity that is valid by
  itself; for any other it returns what validating the entity as it is after the merge gives, with that error. So it fails exactly if the
  entity is invalid by itself \<^emph>\<open>and\<close> after the merge, and the write stays in the cache even then.
\<close>

theorem set_merges_into_the_view:
  assumes "env_ok env" and "store_reads P env st" and "cache_ok P env st self"
    and "entity_ok P e" and "VID_FIELD \<in> words_of P" and "obj_get e VID_FIELD = None"
    and "check_capacity env key e capacity self = Inr capacity'"
  shows "\<exists>r v self'. cache_set env key e block capacity self = Some (r, capacity', self')
    \<and> cache_ok P env st self'
    \<and> cache_view st self' = (cache_view st self)(key := seen_op (UpdateOp e) (cache_view st self key))
    \<and> answers P (cache_view st self' key) (Some v)
    \<and> r = (if validate (ce_object_type env) key e = Inr () then Inr ()
           else case validate (ce_object_type env) key v of Inl verr \<Rightarrow> Inl (InvalidEntity verr) | Inr u \<Rightarrow> Inr ())"
  by (rule cache_set_spec[OF assms])

theorem set_merges_into_the_view_witness:
  "\<exists>r self'. cache_set bank_env (account_key ''a'') (account [(''balance'', VInt 5)]) 7 (Some 500) bank_cache =
       Some (r, Some 400, self')
     \<and> (\<exists>m. cache_view (store_view_of bank) self' (account_key ''a'') = Some m \<and> m ''owner'' = Some (VString ''o''))"
proof -
  have cap: "check_capacity bank_env (account_key ''a'') (account [(''balance'', VInt 5)]) (Some 500) bank_cache = Inr (Some 400)"
    by (simp add: check_capacity_def bank_env_def)
  have "VID_FIELD \<in> words_of account_pool" by (simp add: account_words VID_FIELD_def)
  moreover have "obj_get (account [(''balance'', VInt 5)]) VID_FIELD = None" by (simp add: account_maps VID_FIELD_def)
  ultimately obtain r self' where "cache_set bank_env (account_key ''a'') (account [(''balance'', VInt 5)]) 7 (Some 500) bank_cache =
      Some (r, Some 400, self')"
    "cache_view (store_view_of bank) self' = (cache_view (store_view_of bank) bank_cache)(account_key ''a'' :=
       seen_op (UpdateOp (account [(''balance'', VInt 5)])) (cache_view (store_view_of bank) bank_cache (account_key ''a'')))"
    using set_merges_into_the_view[OF bank_ok(1,3) bank_cache_ok(1) account_ok(2) _ _ cap, of 7] by blast
  then show ?thesis by (auto simp: bank_view update_map_def visible_alt account_maps VID_FIELD_def)
qed

text \<open>
  The write limit of a block is not enforced for an entity that the cache holds already: the
  subtraction of its weight wraps below zero, and the capacity that is left is larger than it was.
\<close>

lemma write_limit_wraps:
  assumes "lfu_contains_key (ce_queue env) key (ec_current self)" and "ce_entity_weight env e > remaining"
  shows "\<exists>left. check_capacity env key e (Some remaining) self = Inr (Some left)
    \<and> unat left = 2 ^ 64 + unat remaining - unat (ce_entity_weight env e) \<and> left > remaining"
  by (rule write_capacity_wraps[OF assms])

text \<open>
  \<open>BlockState::extend\<close> subtracts from the remaining write capacity what the other state has \<^emph>\<open>left\<close>, not
  what it has used: for two states that started with the same capacity, the difference of what they
  used remains, and nothing if the other one used no more than this one.
\<close>

lemma extend_loses_write_capacity:
  assumes "block_state_extend env other self = Some self'"
    and "bs_write_capacity_remaining self = capacity - used" and "used \<le> capacity"
    and "bs_write_capacity_remaining other = capacity - used'" and "used' \<le> capacity"
  shows "bs_write_capacity_remaining self' = saturating_sub used' used"
  by (rule extended_capacity[OF assms])

text \<open>
  \<open>load_related\<close> returns an entity that is related to the given one in the store although a change
  pending in the block has moved it to another one: the operation is applied to what the store
  returned, but the query is not checked again.
\<close>

lemma load_related_keeps_moved_entity:
  assumes "hash_order_ok env" and "ce_field_related env eref = Inr (t, field)" and "field \<noteq> VID_FIELD"
    and "rs_get_derived (ce_store env) \<lparr>dq_entity_type = t, dq_entity_field = field, dq_value = lr_entity_id eref,
           dq_causality_region = lr_causality_region eref\<rparr> = Inr [(key, e)]"
    and "entity_ok P e" and "entity_ok P u"
    and "ec_updates self = [(key, UpdateOp u)]" and "ec_handler_updates self = []"
    and "obj_get u field = Some v" and "v \<noteq> VNull" and "\<not> id_eq_value (lr_entity_id eref) v"
  shows "\<exists>e' self'. load_related env eref self = Some (Inr [e'], self') \<and> entity_get e' field = Some v"
proof -
  have order: "ce_hash_order env ops = ops" if len: "length ops \<le> 1" for ops
  proof -
    have m: "mset (ce_hash_order env ops) = mset ops" using assms(1) by (simp add: hash_order_ok_def)
    consider "ops = []" | x where "ops = [x]" using that len by (cases ops; cases "tl ops") auto
    then show ?thesis using m by cases auto
  qed
  obtain e' where e': "merge_remove_null_fields u e = Some (Inr e')" "obj_get e' = update_map (obj_get e) (obj_get u)"
    by (rule merge_remove_null_fields_spec[OF assms(5,6)])
  then have "entity_get e' field = Some v" using assms(3,9,10) by (simp add: entity_get_def update_map_def)
  moreover have "related_entities env q [(key, e)] self' = Some (Inr [(key, e')])"
    if "ec_updates self' = [(key, UpdateOp u)]" "ec_handler_updates self' = []" for q and self' :: "'a entity_cache"
    using that e'(1)
    by (simp add: related_entities_def order update_stored_def pending_op_def apply_named_def add_updated_def)
  ultimately show ?thesis using assms(2,4,7,8) by (simp add: load_related_def Let_def)
qed

definition holding :: "string \<Rightarrow> entity" where
  "holding owner = account [(''owner'', VString owner)]"

lemma holding_ok: "entity_ok account_pool (holding s)" "obj_get (holding s) = [''owner'' \<mapsto> VString s, ''id'' \<mapsto> VString ''a'']"
  unfolding holding_def by (simp add: account_spec account_words)
     (subst account_spec(2), simp add: account_words, simp, rule ext, simp)

end
