(* ===== verification/Host_Index.thy ===== *)
theory Host_Index
  imports Prelude Intern "HOL-Library.Option_ord" "HOL-Library.Multiset"
begin

text \<open>
  The collections of runtime hosts, \<open>core/src/subgraph/context/instance/hosts.rs\<close>: \<open>OnchainHosts\<close>, a
  vector that is partitioned by address with the indexes of its entries, and \<open>OffchainHosts\<close>, indexed by
  creation block and by address. A host is of any type; its address, its creation block, its
  equality and the identity of its reference are parameters.
\<close>

section \<open>Hosts of a chain\<close>

record 'h onchain_hosts =
  oh_hosts :: "'h list"
  oh_by_address :: "nat list \<Rightarrow> nat list option"
  oh_without_address :: "nat list"

definition oh_new :: "'h onchain_hosts" where
  "oh_new = \<lparr>oh_hosts = [], oh_by_address = (\<lambda>_. None), oh_without_address = []\<rparr>"

definition or_empty :: "'a list option \<Rightarrow> 'a list" where
  "or_empty xs = (case xs of None \<Rightarrow> [] | Some xs \<Rightarrow> xs)"

text \<open>\<open>any\<close> over indexes; \<open>None\<close> is an index out of bounds.\<close>

fun any_indexed :: "('h \<Rightarrow> bool) \<Rightarrow> 'h list \<Rightarrow> nat list \<Rightarrow> bool option" where
  "any_indexed P hosts [] = Some False"
| "any_indexed P hosts (i # is) =
     (case vec_get hosts i of None \<Rightarrow> None | Some h \<Rightarrow> if P h then Some True else any_indexed P hosts is)"

definition oh_contains :: "('h \<Rightarrow> nat list option) \<Rightarrow> ('h \<Rightarrow> 'h \<Rightarrow> bool) \<Rightarrow> 'h onchain_hosts \<Rightarrow> 'h \<Rightarrow> bool option" where
  "oh_contains address eq self other =
     any_indexed (\<lambda>h. eq h other) (oh_hosts self)
       (or_empty (case address other of Some a \<Rightarrow> oh_by_address self a | None \<Rightarrow> Some (oh_without_address self)))"

definition oh_last :: "'h onchain_hosts \<Rightarrow> 'h option" where
  "oh_last self = (if oh_hosts self = [] then None else Some (last (oh_hosts self)))"

definition oh_len :: "'h onchain_hosts \<Rightarrow> nat" where
  "oh_len self = length (oh_hosts self)"

text \<open>The assertion of \<open>push\<close> that the data source is that of a chain is made by its caller.\<close>

definition oh_push :: "('h \<Rightarrow> nat list option) \<Rightarrow> 'h \<Rightarrow> 'h onchain_hosts \<Rightarrow> 'h onchain_hosts" where
  "oh_push address host self =
     (let self = self\<lparr>oh_hosts := oh_hosts self @ [host]\<rparr>;
          idx = length (oh_hosts self) - 1
      in case address host of
           Some a \<Rightarrow> self\<lparr>oh_by_address := (oh_by_address self)(a \<mapsto> or_empty (oh_by_address self a) @ [idx])\<rparr>
         | None \<Rightarrow> self\<lparr>oh_without_address := oh_without_address self @ [idx]\<rparr>)"

definition vec_pop :: "'a list \<Rightarrow> ('a \<times> 'a list) option" where
  "vec_pop xs = (if xs = [] then None else Some (last xs, butlast xs))"

text \<open>\<open>None\<close> is a failed assertion or an \<open>unwrap\<close> of nothing.\<close>

definition oh_pop :: "('h \<Rightarrow> nat list option) \<Rightarrow> 'h onchain_hosts \<Rightarrow> 'h onchain_hosts option" where
  "oh_pop address self =
     (case vec_pop (oh_hosts self) of
        None \<Rightarrow> Some self
      | Some (host, hosts) \<Rightarrow>
          let self = self\<lparr>oh_hosts := hosts\<rparr>
          in case address host of
               Some a \<Rightarrow>
                 (case Option.bind (oh_by_address self a) vec_pop of
                    None \<Rightarrow> None
                  | Some (idx, rest) \<Rightarrow>
                      if idx \<noteq> length (oh_hosts self) then None
                      else Some (self\<lparr>oh_by_address := (oh_by_address self)(a \<mapsto> rest)\<rparr>))
             | None \<Rightarrow>
                 (case vec_pop (oh_without_address self) of
                    None \<Rightarrow> None
                  | Some (idx, rest) \<Rightarrow>
                      if idx \<noteq> length (oh_hosts self) then None
                      else Some (self\<lparr>oh_without_address := rest\<rparr>)))"

definition oh_matches_by_address :: "nat list option \<Rightarrow> 'h onchain_hosts \<Rightarrow> 'h list option" where
  "oh_matches_by_address address self =
     (case address of
        None \<Rightarrow> Some (oh_hosts self)
      | Some a \<Rightarrow>
          those (map (vec_get (oh_hosts self)) (sort (or_empty (oh_by_address self a) @ oh_without_address self))))"

subsection \<open>The partition\<close>

definition indexes :: "('h \<Rightarrow> bool) \<Rightarrow> 'h list \<Rightarrow> nat list" where
  "indexes P hosts = filter (\<lambda>i. P (hosts ! i)) [0..<length hosts]"

definition oh_ok :: "('h \<Rightarrow> nat list option) \<Rightarrow> 'h onchain_hosts \<Rightarrow> bool" where
  "oh_ok address self \<longleftrightarrow>
     (\<forall>a. or_empty (oh_by_address self a) = indexes (\<lambda>h. address h = Some a) (oh_hosts self))
     \<and> oh_without_address self = indexes (\<lambda>h. address h = None) (oh_hosts self)"

lemma or_empty_simps [simp]: "or_empty None = []" "or_empty (Some xs) = xs"
  by (simp_all add: or_empty_def)

lemma indexes_snoc:
  "indexes P (hosts @ [h]) = indexes P hosts @ (if P h then [length hosts] else [])"
proof -
  have "filter (\<lambda>i. P ((hosts @ [h]) ! i)) [0..<length hosts] = indexes P hosts"
    unfolding indexes_def by (intro filter_cong) (simp_all add: nth_append)
  then show ?thesis by (simp add: indexes_def)
qed

lemma indexes_Nil [simp]: "indexes P [] = []"
  by (simp add: indexes_def)

lemma oh_new_ok: "oh_ok address oh_new"
  by (simp add: oh_ok_def oh_new_def)

lemma oh_push_ok:
  assumes "oh_ok address self"
  shows "oh_ok address (oh_push address host self)" and "oh_hosts (oh_push address host self) = oh_hosts self @ [host]"
  using assms by (cases "address host"; auto simp: oh_push_def Let_def oh_ok_def indexes_snoc)+

lemma oh_pop_ok:
  assumes "oh_ok address self"
  obtains self' where "oh_pop address self = Some self'" "oh_ok address self'"
    "oh_hosts self' = butlast (oh_hosts self)"
proof (cases "oh_hosts self = []")
  case True
  then show thesis using assms that[of self] by (simp add: oh_pop_def vec_pop_def)
next
  case False
  define hosts host where "hosts = butlast (oh_hosts self)" and "host = last (oh_hosts self)"
  have h: "oh_hosts self = hosts @ [host]" using False by (simp add: hosts_def host_def)
  have ok: "or_empty (oh_by_address self a) = indexes (\<lambda>h. address h = Some a) hosts @ (if address host = Some a then [length hosts] else [])"
    "oh_without_address self = indexes (\<lambda>h. address h = None) hosts @ (if address host = None then [length hosts] else [])" for a
    using assms by (simp_all add: oh_ok_def h indexes_snoc)
  show thesis
  proof (cases "address host")
    case None
    have "oh_pop address self = Some (self\<lparr>oh_hosts := hosts, oh_without_address := indexes (\<lambda>h. address h = None) hosts\<rparr>)"
      by (simp add: oh_pop_def vec_pop_def h None ok)
    then show thesis using ok None by (intro that) (auto simp: oh_ok_def h)
  next
    case (Some a)
    have "oh_by_address self a = Some (indexes (\<lambda>h. address h = Some a) hosts @ [length hosts])"
      using ok(1)[of a] Some by (cases "oh_by_address self a") simp_all
    then have "oh_pop address self = Some (self\<lparr>oh_hosts := hosts,
        oh_by_address := (oh_by_address self)(a \<mapsto> indexes (\<lambda>h. address h = Some a) hosts)\<rparr>)"
      by (simp add: oh_pop_def vec_pop_def h Some)
    then show thesis using ok Some by (intro that) (auto simp: oh_ok_def h)
  qed
qed

text \<open>Popping undoes pushing up to keys without indexes.\<close>

lemma sorted_indexes_merge:
  assumes "\<And>h. \<not> (P h \<and> Q h)"
  shows "sort (indexes P hosts @ indexes Q hosts) = indexes (\<lambda>h. P h \<or> Q h) hosts"
proof (rule sorted_distinct_set_unique)
  show "sorted (indexes (\<lambda>h. P h \<or> Q h) hosts)" "distinct (indexes (\<lambda>h. P h \<or> Q h) hosts)"
    by (simp_all add: indexes_def sorted_wrt_filter)
  show "distinct (sort (indexes P hosts @ indexes Q hosts))"
    using assms by (auto simp: indexes_def)
qed (auto simp: indexes_def)

lemma those_vec_get: "\<forall>i \<in> set is. i < length xs \<Longrightarrow> those (map (vec_get xs) is) = Some (map ((!) xs) is)"
  by (induction "is") (simp_all add: vec_get_def)

lemma map_indexes: "map ((!) hosts) (indexes P hosts) = filter P hosts"
proof (induction hosts rule: rev_induct)
  case (snoc h hosts)
  have "map ((!) (hosts @ [h])) (indexes P hosts) = map ((!) hosts) (indexes P hosts)"
    by (rule map_cong) (auto simp: indexes_def nth_append)
  then show ?case using snoc by (simp add: indexes_snoc)
qed simp

text \<open>\<open>matches_by_address\<close> is a filter: the hosts with the address or without any, in their order.\<close>

lemma oh_matches_by_address_spec:
  assumes "oh_ok address self"
  shows "oh_matches_by_address a self =
    Some (filter (\<lambda>h. a = None \<or> address h = None \<or> address h = a) (oh_hosts self))"
proof (cases a)
  case (Some x)
  have "sort (or_empty (oh_by_address self x) @ oh_without_address self) =
      indexes (\<lambda>h. address h = Some x \<or> address h = None) (oh_hosts self)"
    using assms sorted_indexes_merge[of "\<lambda>h. address h = Some x" "\<lambda>h. address h = None" "oh_hosts self"]
    by (simp add: oh_ok_def)
  moreover have "\<forall>i \<in> set (indexes (\<lambda>h. address h = Some x \<or> address h = None) (oh_hosts self)). i < length (oh_hosts self)"
    by (simp add: indexes_def)
  ultimately show ?thesis by (simp add: oh_matches_by_address_def Some those_vec_get map_indexes disj_commute)
qed (simp add: oh_matches_by_address_def)

lemma any_indexed_spec:
  "\<forall>i \<in> set is. i < length hosts \<Longrightarrow> any_indexed P hosts is = Some (\<exists>i \<in> set is. P (hosts ! i))"
  by (induction "is") (auto simp: vec_get_def)

text \<open>
  Equality of hosts is that of their data sources up to what duplicates may differ in. All that
  \<open>contains\<close> needs of it is that it respects the address.
\<close>

locale host_equality =
  fixes address :: "'h \<Rightarrow> nat list option" and eq :: "'h \<Rightarrow> 'h \<Rightarrow> bool"
  assumes eq_address: "eq a b \<Longrightarrow> address a = address b"
begin

lemma oh_contains_spec:
  assumes "oh_ok address self"
  shows "oh_contains address eq self other = Some (\<exists>h \<in> set (oh_hosts self). eq h other)"
proof -
  let ?is = "indexes (\<lambda>h. address h = address other) (oh_hosts self)"
  have sel: "or_empty (case address other of Some a \<Rightarrow> oh_by_address self a | None \<Rightarrow> Some (oh_without_address self)) = ?is"
    using assms by (cases "address other") (simp_all add: oh_ok_def)
  have "\<forall>i \<in> set ?is. i < length (oh_hosts self)" by (simp add: indexes_def)
  from any_indexed_spec[OF this, of "\<lambda>h. eq h other"] sel
  have "oh_contains address eq self other = Some (\<exists>i \<in> set ?is. eq (oh_hosts self ! i) other)"
    by (simp add: oh_contains_def)
  also have "(\<exists>i \<in> set ?is. eq (oh_hosts self ! i) other) \<longleftrightarrow> (\<exists>h \<in> set (oh_hosts self). eq h other)"
  proof
    assume "\<exists>i \<in> set ?is. eq (oh_hosts self ! i) other"
    then show "\<exists>h \<in> set (oh_hosts self). eq h other" by (auto simp: indexes_def)
  next
    assume "\<exists>h \<in> set (oh_hosts self). eq h other"
    then obtain i where "i < length (oh_hosts self)" "eq (oh_hosts self ! i) other" by (auto simp: in_set_conv_nth)
    then show "\<exists>i \<in> set ?is. eq (oh_hosts self ! i) other"
      by (intro bexI[of _ i]) (auto simp: indexes_def intro: eq_address)
  qed
  finally show ?thesis .
qed

lemma filter_eq_address:
  "(\<exists>h \<in> set (filter (\<lambda>h. address h = address other) hs). eq h other) \<longleftrightarrow> (\<exists>h \<in> set hs. eq h other)"
  by (auto dest: eq_address)

end

section \<open>Hosts of file data sources\<close>

text \<open>The map by block is ordered: a list of its entries, with \<open>entry(k).or_default().push(v)\<close>.\<close>

fun btree_push :: "'k::linorder \<Rightarrow> 'v \<Rightarrow> ('k \<times> 'v list) list \<Rightarrow> ('k \<times> 'v list) list" where
  "btree_push k v [] = [(k, [v])]"
| "btree_push k v ((k', vs) # m) =
     (if k < k' then (k, [v]) # (k', vs) # m
      else if k = k' then (k', vs @ [v]) # m
      else (k', vs) # btree_push k v m)"

record 'h offchain_hosts =
  fh_by_block :: "(block_number option \<times> 'h list) list"
  fh_by_address :: "nat list \<Rightarrow> 'h list option"
  fh_wildcard_address :: "'h list"

definition fh_new :: "'h offchain_hosts" where
  "fh_new = \<lparr>fh_by_block = [], fh_by_address = (\<lambda>_. None), fh_wildcard_address = []\<rparr>"

definition fh_len :: "'h offchain_hosts \<Rightarrow> nat" where
  "fh_len self = sum_list (map (length \<circ> snd) (fh_by_block self))"

definition fh_all :: "'h offchain_hosts \<Rightarrow> 'h list" where
  "fh_all self = concat (map snd (fh_by_block self))"

definition fh_contains :: "('h \<Rightarrow> nat list option) \<Rightarrow> ('h \<Rightarrow> 'h \<Rightarrow> bool) \<Rightarrow> 'h offchain_hosts \<Rightarrow> 'h \<Rightarrow> bool" where
  "fh_contains address eq self other =
     list_ex (\<lambda>h. eq h other)
       (or_empty (case address other of Some a \<Rightarrow> fh_by_address self a | None \<Rightarrow> Some (fh_wildcard_address self)))"

definition fh_push :: "('h \<Rightarrow> nat list option) \<Rightarrow> ('h \<Rightarrow> block_number option) \<Rightarrow> 'h \<Rightarrow> 'h offchain_hosts
    \<Rightarrow> 'h offchain_hosts" where
  "fh_push address block host self =
     (let self = self\<lparr>fh_by_block := btree_push (block host) host (fh_by_block self)\<rparr>
      in case address host of
           Some a \<Rightarrow> self\<lparr>fh_by_address := (fh_by_address self)(a \<mapsto> or_empty (fh_by_address self a) @ [host])\<rparr>
         | None \<Rightarrow> self\<lparr>fh_wildcard_address := fh_wildcard_address self @ [host]\<rparr>)"

text \<open>The loop over the removed hosts; \<open>None\<close> is an \<open>unwrap\<close> of an address without an entry.\<close>

fun fh_remove_hosts :: "('h \<Rightarrow> nat list option) \<Rightarrow> ('h \<Rightarrow> 'h \<Rightarrow> bool) \<Rightarrow> 'h list \<Rightarrow> 'h offchain_hosts
    \<Rightarrow> 'h offchain_hosts option" where
  "fh_remove_hosts address ptr_eq [] self = Some self"
| "fh_remove_hosts address ptr_eq (host # removed) self =
     (case address host of
        Some a \<Rightarrow>
          (case fh_by_address self a of
             None \<Rightarrow> None
           | Some hosts \<Rightarrow>
               fh_remove_hosts address ptr_eq removed
                 (self\<lparr>fh_by_address := (fh_by_address self)(a \<mapsto> filter (\<lambda>h. \<not> ptr_eq h host) hosts)\<rparr>))
      | None \<Rightarrow>
          fh_remove_hosts address ptr_eq removed
            (self\<lparr>fh_wildcard_address := filter (\<lambda>h. \<not> ptr_eq h host) (fh_wildcard_address self)\<rparr>))"

definition fh_remove_ge_block :: "('h \<Rightarrow> nat list option) \<Rightarrow> ('h \<Rightarrow> 'h \<Rightarrow> bool) \<Rightarrow> block_number \<Rightarrow> 'h offchain_hosts
    \<Rightarrow> 'h offchain_hosts option" where
  "fh_remove_ge_block address ptr_eq block self =
     (let removed = filter (\<lambda>(k, _). Some block \<le> k) (fh_by_block self)
      in fh_remove_hosts address ptr_eq (concat (map snd removed))
           (self\<lparr>fh_by_block := filter (\<lambda>(k, _). k < Some block) (fh_by_block self)\<rparr>))"

definition fh_matches_by_address :: "nat list option \<Rightarrow> 'h offchain_hosts \<Rightarrow> 'h list" where
  "fh_matches_by_address address self =
     (case address of
        None \<Rightarrow> fh_all self
      | Some a \<Rightarrow> or_empty (fh_by_address self a) @ fh_wildcard_address self)"

subsection \<open>The hosts in the order of their insertion\<close>

definition grouped :: "('h \<Rightarrow> 'k::linorder) \<Rightarrow> ('k \<times> 'h list) list \<Rightarrow> bool" where
  "grouped f m \<longleftrightarrow> sorted_wrt (<) (map fst m) \<and> (\<forall>(k, vs) \<in> set m. \<forall>h \<in> set vs. f h = k)"

abbreviation flat :: "('k \<times> 'h list) list \<Rightarrow> 'h list" where
  "flat m \<equiv> concat (map snd m)"

definition fh_ok :: "('h \<Rightarrow> nat list option) \<Rightarrow> ('h \<Rightarrow> block_number option) \<Rightarrow> 'h list \<Rightarrow> 'h offchain_hosts \<Rightarrow> bool" where
  "fh_ok address block hs self \<longleftrightarrow>
     grouped block (fh_by_block self) \<and> (\<forall>k. filter (\<lambda>h. block h = k) (fh_all self) = filter (\<lambda>h. block h = k) hs)
     \<and> (\<forall>a. or_empty (fh_by_address self a) = filter (\<lambda>h. address h = Some a) hs)
     \<and> fh_wildcard_address self = filter (\<lambda>h. address h = None) hs"

lemma grouped_Cons:
  "grouped f ((k, vs) # m) \<longleftrightarrow> grouped f m \<and> (\<forall>h \<in> set vs. f h = k) \<and> (\<forall>x \<in> set m. k < fst x)"
  by (auto simp: grouped_def)

lemma btree_push_keys: "set (map fst (btree_push k v m)) = insert k (set (map fst m))"
  by (induction k v m rule: btree_push.induct) auto

lemma grouped_push: "grouped f m \<Longrightarrow> grouped f (btree_push (f v) v m)"
proof (induction "f v" v m rule: btree_push.induct)
  case (2 v k vs m)
  have "\<forall>x \<in> set (btree_push (f v) v m). k < fst x" if "k < f v"
  proof
    fix x assume "x \<in> set (btree_push (f v) v m)"
    then have "fst x \<in> set (map fst (btree_push (f v) v m))" by simp
    then have "fst x = f v \<or> fst x \<in> fst ` set m" by (simp only: btree_push_keys) auto
    then show "k < fst x" using that 2(2) by (auto simp: grouped_Cons)
  qed
  then show ?case using 2 by (fastforce simp: grouped_Cons)
qed (simp add: grouped_def)

lemma grouped_flat_less: "grouped f m \<Longrightarrow> \<forall>x \<in> set m. k < fst x \<Longrightarrow> filter (\<lambda>h. f h = k) (flat m) = []"
  by (fastforce simp: grouped_def filter_empty_conv)

lemma filter_flat_push:
  "grouped f m \<Longrightarrow> filter (\<lambda>h. f h = k) (flat (btree_push (f v) v m)) =
    filter (\<lambda>h. f h = k) (flat m) @ (if f v = k then [v] else [])"
proof (induction "f v" v m rule: btree_push.induct)
  case (2 v k' vs m)
  show ?case
  proof (cases "k' < f v")
    case True
    then show ?thesis using 2 by (auto simp: grouped_Cons)
  next
    case False
    have "\<forall>x \<in> set m. f v < fst x" using 2(2) False by (auto simp: grouped_Cons)
    then have "filter (\<lambda>h. f h = f v) (flat m) = []" and "f v \<noteq> k' \<Longrightarrow> filter (\<lambda>h. f h = f v) vs = []"
      using grouped_flat_less[of f m "f v"] 2(2) by (auto simp: grouped_Cons filter_empty_conv)
    then show ?thesis using False by auto
  qed
qed simp

lemma fh_new_ok: "fh_ok address block [] fh_new"
  by (simp add: fh_ok_def fh_new_def grouped_def fh_all_def)

lemma fh_push_ok: "fh_ok address block hs self \<Longrightarrow> fh_ok address block (hs @ [host]) (fh_push address block host self)"
  by (cases "address host") (auto simp: fh_ok_def fh_push_def fh_all_def grouped_push filter_flat_push)

text \<open>\<open>all\<close> sorts the hosts by their block and keeps the order within a block.\<close>

lemma grouped_sorted: "grouped f m \<Longrightarrow> sorted (map f (flat m))"
proof (induction m)
  case (Cons x m)
  obtain k vs where x: "x = (k, vs)" by (cases x)
  have "\<forall>h \<in> set (flat m). k \<le> f h"
    using Cons(2) by (fastforce simp: x grouped_Cons grouped_def)
  moreover have "map f vs = replicate (length vs) k"
    using Cons(2) by (auto simp: x grouped_Cons intro: replicate_eqI)
  ultimately show ?case using Cons by (auto simp: x grouped_Cons sorted_append)
qed simp

lemma mset_by_keys:
  assumes "\<And>k. filter (\<lambda>h. f h = k) xs = filter (\<lambda>h. f h = k) ys"
  shows "mset xs = mset ys"
proof (rule multiset_eqI)
  fix h
  have "count (mset zs) h = count (mset (filter (\<lambda>x. f x = f h) zs)) h" for zs
    by (induction zs) auto
  then show "count (mset xs) h = count (mset ys) h" using assms by metis
qed

lemma fh_all_spec:
  assumes "fh_ok address block hs self"
  shows "fh_all self = sort_key block hs" and "fh_len self = length hs" and "set (fh_all self) = set hs"
proof -
  have keys: "\<And>k. filter (\<lambda>h. block h = k) (fh_all self) = filter (\<lambda>h. block h = k) hs"
    using assms by (simp add: fh_ok_def)
  have m: "mset (fh_all self) = mset hs" by (rule mset_by_keys[OF keys])
  moreover have "filter (\<lambda>x. block k = block x) (fh_all self) = filter (\<lambda>x. block k = block x) hs" for k
    using keys[of "block k"] by (simp add: eq_commute[of "block k"])
  moreover have "sorted (map block (fh_all self))"
    using assms grouped_sorted by (auto simp: fh_ok_def fh_all_def)
  ultimately show "fh_all self = sort_key block hs" by (intro properties_for_sort_key[symmetric]) simp_all
  have "fh_len self = length (fh_all self)" by (simp add: fh_len_def fh_all_def length_concat comp_def)
  then show "fh_len self = length hs" using m by (metis size_mset)
  show "set (fh_all self) = set hs" using m by (metis set_mset_mset)
qed

lemma fh_matches_by_address_spec:
  "fh_ok address block hs self \<Longrightarrow> fh_matches_by_address (Some a) self =
    filter (\<lambda>h. address h = Some a) hs @ filter (\<lambda>h. address h = None) hs"
  by (simp add: fh_ok_def fh_matches_by_address_def)

context host_equality
begin

lemma fh_contains_spec:
  assumes "fh_ok address block hs self"
  shows "fh_contains address eq self other \<longleftrightarrow> (\<exists>h \<in> set hs. eq h other)"
proof -
  have "or_empty (case address other of Some a \<Rightarrow> fh_by_address self a | None \<Rightarrow> Some (fh_wildcard_address self)) =
      filter (\<lambda>h. address h = address other) hs"
    using assms by (cases "address other") (simp_all add: fh_ok_def)
  then show ?thesis using filter_eq_address[of other hs] by (simp add: fh_contains_def list_ex_iff)
qed

end

subsection \<open>Removing the hosts of reverted blocks\<close>

lemma filter_ptr_eq:
  assumes "\<forall>a \<in> H. \<forall>b \<in> H. ptr_eq a b \<longleftrightarrow> a = b" and "r \<in> H" and "set hs \<subseteq> H"
  shows "filter (\<lambda>h. \<not> ptr_eq h r) hs = filter (\<lambda>h. h \<noteq> r) hs"
  using assms by (intro filter_cong) auto

lemma fh_remove_hosts_spec:
  assumes ptr: "\<forall>a \<in> H. \<forall>b \<in> H. ptr_eq a b \<longleftrightarrow> a = b"
    and "set rs \<subseteq> H" and "\<forall>a. set (or_empty (fh_by_address self a)) \<subseteq> H" and "set (fh_wildcard_address self) \<subseteq> H"
    and "\<forall>h \<in> set rs. \<forall>a. address h = Some a \<longrightarrow> fh_by_address self a \<noteq> None"
  shows "\<exists>self'. fh_remove_hosts address ptr_eq rs self = Some self' \<and> fh_by_block self' = fh_by_block self
    \<and> (\<forall>a. or_empty (fh_by_address self' a) = filter (\<lambda>h. \<not> (h \<in> set rs \<and> address h = Some a)) (or_empty (fh_by_address self a)))
    \<and> fh_wildcard_address self' = filter (\<lambda>h. \<not> (h \<in> set rs \<and> address h = None)) (fh_wildcard_address self)"
  using assms(2-)
proof (induction rs arbitrary: self)
  case (Cons r rs)
  have r: "r \<in> H" using Cons.prems by simp
  show ?case
  proof (cases "address r")
    case None
    let ?self = "self\<lparr>fh_wildcard_address := filter (\<lambda>h. h \<noteq> r) (fh_wildcard_address self)\<rparr>"
    have step: "fh_remove_hosts address ptr_eq (r # rs) self = fh_remove_hosts address ptr_eq rs ?self"
      using filter_ptr_eq[OF ptr r] Cons.prems None by simp
    have "set (fh_wildcard_address ?self) \<subseteq> H" using Cons.prems by auto
    then obtain self' where s: "fh_remove_hosts address ptr_eq rs ?self = Some self'" "fh_by_block self' = fh_by_block ?self"
      "\<forall>a. or_empty (fh_by_address self' a) = filter (\<lambda>h. \<not> (h \<in> set rs \<and> address h = Some a)) (or_empty (fh_by_address ?self a))"
      "fh_wildcard_address self' = filter (\<lambda>h. \<not> (h \<in> set rs \<and> address h = None)) (fh_wildcard_address ?self)"
      using Cons.IH[of ?self] Cons.prems by force
    have "fh_wildcard_address self' =
        filter (\<lambda>h. \<not> (h \<in> set (r # rs) \<and> address h = None)) (fh_wildcard_address self)"
      using s(4) None by (auto intro!: filter_cong)
    moreover have "or_empty (fh_by_address self' a) =
        filter (\<lambda>h. \<not> (h \<in> set (r # rs) \<and> address h = Some a)) (or_empty (fh_by_address self a))" for a
      using s(3) None by (auto intro!: filter_cong)
    ultimately show ?thesis using step s(1,2) by simp
  next
    case (Some x)
    then obtain hosts where hosts: "fh_by_address self x = Some hosts" using Cons.prems by force
    have "set (or_empty (fh_by_address self x)) \<subseteq> H" using Cons.prems by blast
    then have H: "set hosts \<subseteq> H" using hosts by simp
    let ?self = "self\<lparr>fh_by_address := (fh_by_address self)(x \<mapsto> filter (\<lambda>h. h \<noteq> r) hosts)\<rparr>"
    have step: "fh_remove_hosts address ptr_eq (r # rs) self = fh_remove_hosts address ptr_eq rs ?self"
      using filter_ptr_eq[OF ptr r H] Some hosts by simp
    have "\<forall>a. set (or_empty (fh_by_address ?self a)) \<subseteq> H" using Cons.prems H by auto
    then obtain self' where s: "fh_remove_hosts address ptr_eq rs ?self = Some self'" "fh_by_block self' = fh_by_block ?self"
      "\<forall>a. or_empty (fh_by_address self' a) = filter (\<lambda>h. \<not> (h \<in> set rs \<and> address h = Some a)) (or_empty (fh_by_address ?self a))"
      "fh_wildcard_address self' = filter (\<lambda>h. \<not> (h \<in> set rs \<and> address h = None)) (fh_wildcard_address ?self)"
      using Cons.IH[of ?self] Cons.prems by force
    have "or_empty (fh_by_address self' a) = filter (\<lambda>h. \<not> (h \<in> set (r # rs) \<and> address h = Some a)) (or_empty (fh_by_address self a))" for a
      using s(3) hosts Some by (cases "a = x") (auto intro!: filter_cong)
    moreover have "fh_wildcard_address self' =
        filter (\<lambda>h. \<not> (h \<in> set (r # rs) \<and> address h = None)) (fh_wildcard_address self)"
      using s(4) Some by (auto intro!: filter_cong)
    ultimately show ?thesis using step s(1,2) by simp
  qed
qed simp

lemma grouped_filter: "grouped f m \<Longrightarrow> grouped f (filter P m)"
  by (auto simp: grouped_def sorted_wrt_map intro: sorted_wrt_filter)

lemma grouped_filter_flat:
  "grouped f m \<Longrightarrow> flat (filter (\<lambda>(k, _). P k) m) = filter (\<lambda>h. P (f h)) (flat m)"
proof (induction m)
  case (Cons x m)
  obtain k vs where x: "x = (k, vs)" by (cases x)
  have "filter (\<lambda>h. P (f h)) vs = (if P k then vs else [])"
    using Cons(2) by (auto simp: x grouped_Cons filter_empty_conv intro: filter_True)
  then show ?case using Cons by (simp add: x grouped_Cons)
qed simp

lemma fh_remove_ge_block_ok:
  assumes ptr: "\<forall>a \<in> set hs. \<forall>b \<in> set hs. ptr_eq a b \<longleftrightarrow> a = b" and ok: "fh_ok address block hs self"
  obtains self' where "fh_remove_ge_block address ptr_eq b self = Some self'"
    "fh_ok address block (filter (\<lambda>h. block h < Some b) hs) self'"
proof -
  let ?self = "self\<lparr>fh_by_block := filter (\<lambda>(k, _). k < Some b) (fh_by_block self)\<rparr>"
  let ?rs = "flat (filter (\<lambda>(k, _). Some b \<le> k) (fh_by_block self))"
  have g: "grouped block (fh_by_block self)" using ok by (simp add: fh_ok_def)
  have rs: "set ?rs = {h \<in> set hs. Some b \<le> block h}"
    using grouped_filter_flat[OF g, of "\<lambda>k. Some b \<le> k"] fh_all_spec(3)[OF ok] by (auto simp: fh_all_def)
  have "fh_by_address self a \<noteq> None" if "h \<in> set hs" "address h = Some a" for h a
  proof -
    have "h \<in> set (or_empty (fh_by_address self a))" using that ok by (simp add: fh_ok_def)
    then show ?thesis by (cases "fh_by_address self a") simp_all
  qed
  then have "\<forall>h \<in> set ?rs. \<forall>a. address h = Some a \<longrightarrow> fh_by_address ?self a \<noteq> None" using rs by auto
  then obtain self' where s: "fh_remove_hosts address ptr_eq ?rs ?self = Some self'" "fh_by_block self' = fh_by_block ?self"
    "\<forall>a. or_empty (fh_by_address self' a) = filter (\<lambda>h. \<not> (h \<in> set ?rs \<and> address h = Some a)) (or_empty (fh_by_address self a))"
    "fh_wildcard_address self' = filter (\<lambda>h. \<not> (h \<in> set ?rs \<and> address h = None)) (fh_wildcard_address self)"
    using fh_remove_hosts_spec[OF ptr, of ?rs ?self address] rs ok by (auto simp: fh_ok_def)
  have "fh_all self' = filter (\<lambda>h. block h < Some b) (fh_all self)"
    using grouped_filter_flat[OF g, of "\<lambda>k. k < Some b"] s(2) by (simp add: fh_all_def)
  moreover have "filter (\<lambda>h. block h = k) (filter (\<lambda>h. block h < Some b) (fh_all self)) =
      filter (\<lambda>h. block h = k) (filter (\<lambda>h. block h < Some b) hs)" for k
  proof -
    have "filter (\<lambda>h. block h < Some b) (filter (\<lambda>h. block h = k) (fh_all self)) =
        filter (\<lambda>h. block h < Some b) (filter (\<lambda>h. block h = k) hs)"
      using ok by (simp add: fh_ok_def)
    then show ?thesis by (simp add: conj_commute)
  qed
  moreover have "grouped block (fh_by_block self')" using s(2) grouped_filter[OF g] by simp
  moreover have "or_empty (fh_by_address self' a) = filter (\<lambda>h. address h = Some a) (filter (\<lambda>h. block h < Some b) hs)" for a
    using s(3) ok unfolding rs by (auto simp: fh_ok_def intro!: filter_cong)
  moreover have "fh_wildcard_address self' = filter (\<lambda>h. address h = None) (filter (\<lambda>h. block h < Some b) hs)"
    using s(4) ok unfolding rs by (auto simp: fh_ok_def intro!: filter_cong)
  ultimately have "fh_ok address block (filter (\<lambda>h. block h < Some b) hs) self'"
    by (simp add: fh_ok_def)
  then show thesis using s(1) by (intro that) (simp_all add: fh_remove_ge_block_def)
qed

end
