(* ===== verification/Subgraph_Instance.thy ===== *)
theory Subgraph_Instance
  imports Data_Source Host_Index
begin

text \<open>
  An instance of a subgraph, \<open>core/src/subgraph/context/instance/mod.rs\<close>, and the indexing context
  around it, \<open>core/src/subgraph/context/mod.rs\<close>: the hosts of the data sources, how they are
  added when a handler creates a data source, removed when blocks are reverted, and looked up for a
  trigger. A panic is the outer \<open>None\<close>.
\<close>

section \<open>Hosts\<close>

text \<open>
  A host, \<open>runtime/wasm/src/host.rs\<close>, is behind an \<open>Arc\<close>, whose address is \<open>rh_ptr\<close>; it sends its requests
  to a mapping thread over a channel of type \<open>'s\<close>.
\<close>

record ('on, 's) host =
  rh_ptr :: nat
  rh_data_source :: "'on any_data_source"
  rh_sender :: 's

definition rh_address :: "('on, 'ont, 'ct, 'mt) chain \<Rightarrow> ('on, 's) host \<Rightarrow> nat list option" where
  "rh_address C h = ds_any_address C (rh_data_source h)"

definition rh_creation_block :: "('on, 'ont, 'ct, 'mt) chain \<Rightarrow> ('on, 's) host \<Rightarrow> block_number option" where
  "rh_creation_block C h = creation_block C (rh_data_source h)"

definition rh_eq :: "('on, 'ont, 'ct, 'mt) chain \<Rightarrow> ('on, 's) host \<Rightarrow> ('on, 's) host \<Rightarrow> bool" where
  "rh_eq C a b = is_duplicate_of C (rh_data_source a) (rh_data_source b)"

definition rh_ptr_eq :: "('on, 's) host \<Rightarrow> ('on, 's) host \<Rightarrow> bool" where
  "rh_ptr_eq a b \<longleftrightarrow> rh_ptr a = rh_ptr b"

definition rh_done_at :: "cells \<Rightarrow> ('on, 's) host \<Rightarrow> block_number option" where
  "rh_done_at cells h =
     (case rh_data_source h of
        Onchain ds \<Rightarrow> None
      | Offchain ds \<Rightarrow> od_done_block cells ds
      | Subgraph ds \<Rightarrow> None)"

definition rh_set_done_at :: "('on, 's) host \<Rightarrow> block_number option \<Rightarrow> cells \<Rightarrow> cells" where
  "rh_set_done_at h block cells =
     (case rh_data_source h of
        Onchain ds \<Rightarrow> cells
      | Offchain ds \<Rightarrow> od_set_done_at ds block cells
      | Subgraph ds \<Rightarrow> cells)"

section \<open>The instance\<close>

text \<open>
  The environment: the limit \<open>subgraph_max_data_sources\<close>, the hash of a module and the spawning of its thread, which
  fails for a module that is not valid. \<open>si_next_ptr\<close> is the next address of an \<open>Arc\<close>.
\<close>

record 's instance_env =
  ie_max_data_sources :: nat
  ie_module_hash :: "nat list \<Rightarrow> nat list"
  ie_spawn_mapping :: "nat list \<Rightarrow> (ds_error, 's) result"

record ('on, 's) subgraph_instance =
  si_static_data_sources :: "'on any_data_source list"
  si_onchain_hosts :: "('on, 's) host onchain_hosts"
  si_subgraph_hosts :: "('on, 's) host onchain_hosts"
  si_offchain_hosts :: "('on, 's) host offchain_hosts"
  si_module_cache :: "nat list \<Rightarrow> 's option"
  si_causality_region_seq :: causality_region
  si_next_ptr :: nat

definition si_new :: "'on any_data_source list \<Rightarrow> causality_region \<Rightarrow> ('on, 's) subgraph_instance" where
  "si_new data_sources seq =
     \<lparr>si_static_data_sources = data_sources, si_onchain_hosts = oh_new, si_subgraph_hosts = oh_new,
      si_offchain_hosts = fh_new, si_module_cache = Map.empty, si_causality_region_seq = seq, si_next_ptr = 0\<rparr>"

text \<open>The data sources of the hosts, then those of the manifest that have no host.\<close>

definition onchain_data_sources :: "('on, 'ont, 'ct, 'mt) chain \<Rightarrow> ('on, 's) subgraph_instance \<Rightarrow> 'on list option" where
  "onchain_data_sources C self =
     map_option (\<lambda>dss. dss @ List.map_filter as_onchain
         (filter (\<lambda>ds. ds_runtime C ds = None) (si_static_data_sources self)))
       (those (map (as_onchain \<circ> rh_data_source) (oh_hosts (si_onchain_hosts self))))"

definition new_host :: "('on, 'ont, 'ct, 'mt) chain \<Rightarrow> 's instance_env \<Rightarrow> 'on any_data_source
    \<Rightarrow> ('on, 's) subgraph_instance
    \<Rightarrow> (ds_error, ('on, 's) host option) result \<times> ('on, 's) subgraph_instance" where
  "new_host C env data_source self =
     (case ds_runtime C data_source of
        None \<Rightarrow> (Inr None, self)
      | Some module_bytes \<Rightarrow>
          let module_hash = ie_module_hash env module_bytes
          in (case (case si_module_cache self module_hash of
                 Some sender \<Rightarrow> (Inr sender, self)
               | None \<Rightarrow>
                   (case ie_spawn_mapping env module_bytes of
                      Inl e \<Rightarrow> (Inl e, self)
                    | Inr sender \<Rightarrow>
                        (Inr sender, self\<lparr>si_module_cache := (si_module_cache self)(module_hash \<mapsto> sender)\<rparr>))) of
               (Inl e, self) \<Rightarrow> (Inl e, self)
             | (Inr sender, self) \<Rightarrow>
                 (Inr (Some \<lparr>rh_ptr = si_next_ptr self, rh_data_source = data_source, rh_sender = sender\<rparr>),
                  self\<lparr>si_next_ptr := si_next_ptr self + 1\<rparr>)))"

definition si_hosts_len :: "('on, 's) subgraph_instance \<Rightarrow> nat" where
  "si_hosts_len self = oh_len (si_onchain_hosts self) + fh_len (si_offchain_hosts self)"

definition first_host :: "('on, 's) subgraph_instance \<Rightarrow> ('on, 's) host option" where
  "first_host self = (case oh_hosts (si_onchain_hosts self) of [] \<Rightarrow> None | h # hs \<Rightarrow> Some h)"

definition add_host :: "('on, 'ont, 'ct, 'mt) chain \<Rightarrow> ('on, 's) host \<Rightarrow> ('on, 's) subgraph_instance
    \<Rightarrow> ((ds_error, ('on, 's) host option) result \<times> ('on, 's) subgraph_instance) option" where
  "add_host C host self =
     (case rh_data_source host of
        Onchain ds \<Rightarrow>
          if \<not> Option.bind (oh_last (si_onchain_hosts self)) (rh_creation_block C) \<le> creation_block C (rh_data_source host)
          then Some (Inl NotOrdered, self)
          else (case oh_contains (rh_address C) (rh_eq C) (si_onchain_hosts self) host of
                  None \<Rightarrow> None
                | Some True \<Rightarrow> Some (Inr None, self)
                | Some False \<Rightarrow>
                    Some (Inr (Some host), self\<lparr>si_onchain_hosts := oh_push (rh_address C) host (si_onchain_hosts self)\<rparr>))
      | Offchain ds \<Rightarrow>
          if fh_contains (rh_address C) (rh_eq C) (si_offchain_hosts self) host then Some (Inr None, self)
          else Some (Inr (Some host), self\<lparr>si_offchain_hosts :=
                 fh_push (rh_address C) (rh_creation_block C) host (si_offchain_hosts self)\<rparr>)
      | Subgraph ds \<Rightarrow>
          (case oh_contains (rh_address C) (rh_eq C) (si_subgraph_hosts self) host of
             None \<Rightarrow> None
           | Some True \<Rightarrow> Some (Inr None, self)
           | Some False \<Rightarrow>
               Some (Inr (Some host), self\<lparr>si_subgraph_hosts := oh_push (rh_address C) host (si_subgraph_hosts self)\<rparr>)))"

definition si_add_dynamic_data_source :: "('on, 'ont, 'ct, 'mt) chain \<Rightarrow> 's instance_env \<Rightarrow> 'on any_data_source
    \<Rightarrow> ('on, 's) subgraph_instance
    \<Rightarrow> ((ds_error, ('on, 's) host option) result \<times> ('on, 's) subgraph_instance) option" where
  "si_add_dynamic_data_source C env data_source self =
     (if ie_max_data_sources env \<le> si_hosts_len self then Some (Inl TooManyDataSources, self)
      else (case new_host C env data_source self of
              (Inl e, self) \<Rightarrow> Some (Inl e, self)
            | (Inr None, self) \<Rightarrow> Some (Inr None, self)
            | (Inr (Some host), self) \<Rightarrow> add_host C host self))"

subsection \<open>Reverting blocks\<close>

text \<open>The loop pops hosts from the end while their creation block is reverted.\<close>

lemma oh_pop_hosts: "oh_pop address self = Some self' \<Longrightarrow> oh_hosts self' = butlast (oh_hosts self)"
  by (auto simp: oh_pop_def vec_pop_def Let_def split: if_splits option.splits prod.splits)

definition last_created_from :: "('h \<Rightarrow> block_number option) \<Rightarrow> block_number \<Rightarrow> 'h onchain_hosts \<Rightarrow> bool" where
  "last_created_from block reverted_block self =
     (case oh_last self of None \<Rightarrow> False | Some h \<Rightarrow> Some reverted_block \<le> block h)"

function revert_onchain_hosts :: "('h \<Rightarrow> nat list option) \<Rightarrow> ('h \<Rightarrow> block_number option) \<Rightarrow> block_number
    \<Rightarrow> 'h onchain_hosts \<Rightarrow> 'h onchain_hosts option" where
  "revert_onchain_hosts address block reverted_block self =
     (if last_created_from block reverted_block self
      then (case oh_pop address self of
              None \<Rightarrow> None
            | Some self \<Rightarrow> revert_onchain_hosts address block reverted_block self)
      else Some self)"
  by pat_completeness auto
termination
proof (relation "measure (\<lambda>(address, block, reverted_block, self). length (oh_hosts self))")
  fix address :: "'h \<Rightarrow> nat list option" and block and reverted_block :: block_number and self self'
  assume last: "last_created_from block reverted_block self" and pop: "oh_pop address self = Some self'"
  have "oh_hosts self \<noteq> []" using last by (auto simp: last_created_from_def oh_last_def)
  then show "((address, block, reverted_block, self'), address, block, reverted_block, self)
      \<in> measure (\<lambda>(address, block, reverted_block, self). length (oh_hosts self))"
    by (simp add: oh_pop_hosts[OF pop])
qed simp

declare revert_onchain_hosts.simps [simp del]

text \<open>
  The lazy iterator at the end of \<open>revert_data_sources\<close>: \<open>set_done_at\<close> acts on the cells that the following
  hosts read. The inner \<open>unwrap\<close> of \<open>as_offchain\<close> is of a host that has a \<open>done_at\<close>.
\<close>

fun reset_done_hosts :: "block_number \<Rightarrow> ('on, 's) host list \<Rightarrow> cells \<Rightarrow> (source list \<times> cells) option" where
  "reset_done_hosts reverted_block [] cells = Some ([], cells)"
| "reset_done_hosts reverted_block (host # hosts) cells =
     (if (case rh_done_at cells host of None \<Rightarrow> False | Some done_at \<Rightarrow> reverted_block \<le> done_at)
      then (case as_offchain (rh_data_source host) of
              None \<Rightarrow> None
            | Some ds \<Rightarrow>
                map_option (\<lambda>(sources, cells). (od_source ds # sources, cells))
                  (reset_done_hosts reverted_block hosts (rh_set_done_at host None cells)))
      else reset_done_hosts reverted_block hosts cells)"

definition si_revert_data_sources :: "('on, 'ont, 'ct, 'mt) chain \<Rightarrow> block_number \<Rightarrow> cells
    \<Rightarrow> ('on, 's) subgraph_instance \<Rightarrow> (source list \<times> cells \<times> ('on, 's) subgraph_instance) option" where
  "si_revert_data_sources C reverted_block cells self =
     (case revert_onchain_hosts (rh_address C) (rh_creation_block C) reverted_block (si_onchain_hosts self) of
        None \<Rightarrow> None
      | Some onchain \<Rightarrow>
          (case fh_remove_ge_block (rh_address C) rh_ptr_eq reverted_block (si_offchain_hosts self) of
             None \<Rightarrow> None
           | Some offchain \<Rightarrow>
               let self = self\<lparr>si_onchain_hosts := onchain, si_offchain_hosts := offchain\<rparr>
               in if si_causality_region_seq self = CR_ONCHAIN then Some ([], cells, self)
                  else map_option (\<lambda>(sources, cells). (sources, cells, self))
                         (reset_done_hosts reverted_block (fh_all offchain) cells)))"

subsection \<open>The hosts of a trigger\<close>

definition hosts_for_trigger :: "('on, 'ont, 'ct, 'mt) chain \<Rightarrow> ('on, 's) subgraph_instance
    \<Rightarrow> ('ct, 'd) trigger_data \<Rightarrow> ('on, 's) host list option" where
  "hosts_for_trigger C self trigger =
     (case trigger of
        OnchainTrigger t \<Rightarrow> oh_matches_by_address (ch_trigger_address C t) (si_onchain_hosts self)
      | OffchainTrigger t \<Rightarrow> Some (fh_matches_by_address (source_address (oc_source t)) (si_offchain_hosts self))
      | SubgraphTrigger t \<Rightarrow> oh_matches_by_address (Some (map of_char (st_source t))) (si_subgraph_hosts self))"

definition si_causality_region_next_value :: "('on, 's) subgraph_instance
    \<Rightarrow> causality_region \<times> ('on, 's) subgraph_instance" where
  "si_causality_region_next_value self =
     (let (cr, seq) = seq_next_val (si_causality_region_seq self) in (cr, self\<lparr>si_causality_region_seq := seq\<rparr>))"

section \<open>The indexing context\<close>

text \<open>
  The monitor of file data sources: the requests that each polling monitor holds and what the
  receivers have not delivered yet; a receiver is closed when its monitor has terminated.
\<close>

record offchain_monitor =
  om_ipfs :: "string list"
  om_ipfs_rx :: "(string \<times> nat list) list"
  om_ipfs_closed :: bool
  om_arweave :: "string list"
  om_arweave_rx :: "(string \<times> nat list) list"
  om_arweave_closed :: bool

fun add_source :: "source \<Rightarrow> offchain_monitor \<Rightarrow> offchain_monitor" where
  "add_source (Ipfs path) self = self\<lparr>om_ipfs := om_ipfs self @ [path]\<rparr>"
| "add_source (Arweave base64) self = self\<lparr>om_arweave := om_arweave self @ [base64]\<rparr>"

text \<open>
  \<open>try_recv\<close> in a loop: everything that was received, and then an error if the channel is closed.
  What was taken from the channels before an error is lost.
\<close>

definition ready_offchain_events :: "offchain_monitor \<Rightarrow> (string, offchain_trigger list) result \<times> offchain_monitor" where
  "ready_offchain_events self =
     (let ipfs = map (\<lambda>(p, d). \<lparr>oc_source = Ipfs p, oc_data = d\<rparr>) (om_ipfs_rx self);
          self = self\<lparr>om_ipfs_rx := []\<rparr>
      in if om_ipfs_closed self then (Inl ''ipfs monitor unexpectedly terminated'', self)
         else let arweave = map (\<lambda>(b, d). \<lparr>oc_source = Arweave b, oc_data = d\<rparr>) (om_arweave_rx self);
                  self = self\<lparr>om_arweave_rx := []\<rparr>
              in if om_arweave_closed self then (Inl ''arweave monitor unexpectedly terminated'', self)
                 else (Inr (ipfs @ arweave), self))"

record ('on, 's) indexing_context =
  ic_instance :: "('on, 's) subgraph_instance"
  ic_offchain_monitor :: offchain_monitor

definition ic_revert_data_sources :: "('on, 'ont, 'ct, 'mt) chain \<Rightarrow> block_number \<Rightarrow> cells
    \<Rightarrow> ('on, 's) indexing_context \<Rightarrow> (cells \<times> ('on, 's) indexing_context) option" where
  "ic_revert_data_sources C reverted_block cells self =
     map_option (\<lambda>(removed, cells, inst).
         (cells, \<lparr>ic_instance = inst, ic_offchain_monitor = fold add_source removed (ic_offchain_monitor self)\<rparr>))
       (si_revert_data_sources C reverted_block cells (ic_instance self))"

definition ic_add_dynamic_data_source :: "('on, 'ont, 'ct, 'mt) chain \<Rightarrow> 's instance_env \<Rightarrow> cells
    \<Rightarrow> 'on any_data_source \<Rightarrow> ('on, 's) indexing_context
    \<Rightarrow> ((ds_error, ('on, 's) host option) result \<times> ('on, 's) indexing_context) option" where
  "ic_add_dynamic_data_source C env cells data_source self =
     (let offchain_fields = map_option (\<lambda>ds. (od_source ds, is_processed cells ds)) (as_offchain data_source)
      in map_option (\<lambda>(r, inst).
           let self = self\<lparr>ic_instance := inst\<rparr>
           in case r of
                Inl e \<Rightarrow> (Inl e, self)
              | Inr None \<Rightarrow> (Inr None, self)
              | Inr (Some host) \<Rightarrow>
                  (case offchain_fields of
                     Some (src, False) \<Rightarrow>
                       (Inr (Some host), self\<lparr>ic_offchain_monitor := add_source src (ic_offchain_monitor self)\<rparr>)
                   | _ \<Rightarrow> (Inr (Some host), self)))
         (si_add_dynamic_data_source C env data_source (ic_instance self)))"

definition ic_causality_region_next_value :: "('on, 's) indexing_context
    \<Rightarrow> causality_region \<times> ('on, 's) indexing_context" where
  "ic_causality_region_next_value self =
     (let (cr, inst) = si_causality_region_next_value (ic_instance self) in (cr, self\<lparr>ic_instance := inst\<rparr>))"

end
