(* ===== verification/Instance_Correct.thy ===== *)
theory Instance_Correct
  imports Subgraph_Instance
begin

text \<open>
  What the hosts of an instance satisfy: the indexes agree with the lists of hosts in the order of
  their creation, hosts of a chain are ordered by creation block, no host is a duplicate of another,
  and file data sources have their own causality regions.
\<close>

section \<open>What is asked of a chain\<close>

text \<open>
  Duplicates have the same address, and a trigger with an address only matches data sources with
  that address or without any.
\<close>

locale chain_contract =
  fixes C :: "('on, 'ont, 'ct, 'mt) chain"
  assumes duplicate_address: "ch_is_duplicate_of C a b \<Longrightarrow> ch_address C a = ch_address C b"
    and match_address: "ch_match_and_decode C ds t ptr time \<noteq> Inr None \<Longrightarrow> ch_trigger_address C t = Some x
      \<Longrightarrow> ch_address C ds = None \<or> ch_address C ds = Some x"

section \<open>The invariant\<close>

definition on_hosts :: "('on, 's) subgraph_instance \<Rightarrow> ('on, 's) host list" where
  "on_hosts inst = oh_hosts (si_onchain_hosts inst)"

definition sub_hosts :: "('on, 's) subgraph_instance \<Rightarrow> ('on, 's) host list" where
  "sub_hosts inst = oh_hosts (si_subgraph_hosts inst)"

definition own_region :: "causality_region \<Rightarrow> 'on any_data_source \<Rightarrow> bool" where
  "own_region seq ds \<longleftrightarrow> CR_ONCHAIN < causality_region_of ds \<and> causality_region_of ds \<le> seq"

definition no_duplicates :: "('on, 'ont, 'ct, 'mt) chain \<Rightarrow> ('on, 's) host list \<Rightarrow> bool" where
  "no_duplicates C hs \<longleftrightarrow> sorted_wrt (\<lambda>a b. \<not> rh_eq C a b) hs"

definition on_ok :: "('on, 'ont, 'ct, 'mt) chain \<Rightarrow> ('on, 's) host onchain_hosts \<Rightarrow> bool" where
  "on_ok C self \<longleftrightarrow> oh_ok (rh_address C) self \<and> sorted (map (rh_creation_block C) (oh_hosts self))
     \<and> list_all (\<lambda>h. as_onchain (rh_data_source h) \<noteq> None) (oh_hosts self) \<and> no_duplicates C (oh_hosts self)"

definition sub_ok :: "('on, 'ont, 'ct, 'mt) chain \<Rightarrow> ('on, 's) host onchain_hosts \<Rightarrow> bool" where
  "sub_ok C self \<longleftrightarrow> oh_ok (rh_address C) self
     \<and> list_all (\<lambda>h. is_chain_based (rh_data_source h) \<and> as_onchain (rh_data_source h) = None) (oh_hosts self)"

definition off_ok :: "('on, 'ont, 'ct, 'mt) chain \<Rightarrow> causality_region \<Rightarrow> nat \<Rightarrow> ('on, 's) host list
    \<Rightarrow> ('on, 's) host offchain_hosts \<Rightarrow> bool" where
  "off_ok C seq next_ptr off self \<longleftrightarrow> fh_ok (rh_address C) (rh_creation_block C) off self
     \<and> list_all (\<lambda>h. as_offchain (rh_data_source h) \<noteq> None \<and> own_region seq (rh_data_source h) \<and> rh_ptr h < next_ptr) off
     \<and> inj_on rh_ptr (set off) \<and> no_duplicates C off"

definition instance_ok :: "('on, 'ont, 'ct, 'mt) chain \<Rightarrow> ('on, 's) host list \<Rightarrow> ('on, 's) subgraph_instance \<Rightarrow> bool" where
  "instance_ok C off inst \<longleftrightarrow> on_ok C (si_onchain_hosts inst) \<and> sub_ok C (si_subgraph_hosts inst)
     \<and> off_ok C (si_causality_region_seq inst) (si_next_ptr inst) off (si_offchain_hosts inst)"

lemma oh_new_hosts [simp]: "oh_hosts oh_new = []"
  by (simp add: oh_new_def)

lemma instance_ok_new: "instance_ok C [] (si_new dss seq)"
  by (simp add: instance_ok_def si_new_def on_ok_def sub_ok_def off_ok_def oh_new_ok fh_new_ok no_duplicates_def)

lemma no_duplicates_snoc:
  "no_duplicates C (hs @ [h]) \<longleftrightarrow> no_duplicates C hs \<and> \<not> (\<exists>h' \<in> set hs. rh_eq C h' h)"
  by (auto simp: no_duplicates_def sorted_wrt_append)

lemma off_ok_mono: "off_ok C seq n off self \<Longrightarrow> seq \<le> seq' \<Longrightarrow> n \<le> n' \<Longrightarrow> off_ok C seq' n' off self"
  by (fastforce simp: off_ok_def own_region_def list_all_iff)

lemma instance_ok_next_value:
  "instance_ok C off inst \<Longrightarrow> instance_ok C off (snd (si_causality_region_next_value inst))"
  by (auto simp: instance_ok_def si_causality_region_next_value_def seq_next_val_def intro: off_ok_mono)

section \<open>Adding a data source\<close>

context chain_contract
begin

lemma eq_address: "rh_eq C a b \<Longrightarrow> rh_address C a = rh_address C b"
  by (cases "rh_data_source a"; cases "rh_data_source b")
     (auto simp: rh_eq_def rh_address_def duplicate_address od_duplicate_address)

end

sublocale chain_contract \<subseteq> hosts: host_equality "rh_address C" "rh_eq C"
  by unfold_locales (rule eq_address)

text \<open>The hosts after adding \<open>host\<close> to those of its kind.\<close>

definition appended :: "('on, 's) host \<Rightarrow> ('on, 's) host list \<Rightarrow> ('on, 's) subgraph_instance
    \<Rightarrow> ('on, 's) host list \<Rightarrow> ('on, 's) subgraph_instance \<Rightarrow> bool" where
  "appended host off inst off' inst' \<longleftrightarrow>
     on_hosts inst' = on_hosts inst @ (if as_onchain (rh_data_source host) = None then [] else [host])
     \<and> off' = off @ (if as_offchain (rh_data_source host) = None then [] else [host])
     \<and> sub_hosts inst' = sub_hosts inst @
         (if as_onchain (rh_data_source host) = None \<and> as_offchain (rh_data_source host) = None then [host] else [])"

definition kind_hosts :: "'on any_data_source \<Rightarrow> ('on, 's) host list \<Rightarrow> ('on, 's) subgraph_instance \<Rightarrow> ('on, 's) host list" where
  "kind_hosts ds off inst =
     (case ds of Onchain _ \<Rightarrow> on_hosts inst | Offchain _ \<Rightarrow> off | Subgraph _ \<Rightarrow> sub_hosts inst)"

lemma sorted_map_snoc: "sorted (map f (xs @ [x])) \<longleftrightarrow> sorted (map f xs) \<and> (\<forall>y \<in> set xs. f y \<le> f x)"
  by (auto simp: sorted_append)

lemma sorted_last_ge: "sorted (map f xs) \<Longrightarrow> xs \<noteq> [] \<Longrightarrow> f (last xs) \<le> b \<Longrightarrow> y \<in> set xs \<Longrightarrow> f y \<le> b"
  by (cases xs rule: rev_cases) (auto simp: sorted_append intro: order_trans)

lemma on_ok_push:
  assumes "on_ok C self" and "as_onchain (rh_data_source host) \<noteq> None" and "\<not> (\<exists>h \<in> set (oh_hosts self). rh_eq C h host)"
    and "Option.bind (oh_last self) (rh_creation_block C) \<le> rh_creation_block C host"
  shows "on_ok C (oh_push (rh_address C) host self)"
proof -
  have "\<forall>h \<in> set (oh_hosts self). rh_creation_block C h \<le> rh_creation_block C host"
  proof
    fix h assume h: "h \<in> set (oh_hosts self)"
    then have "oh_hosts self \<noteq> []" by auto
    with assms(4) have "rh_creation_block C (last (oh_hosts self)) \<le> rh_creation_block C host"
      by (simp add: oh_last_def)
    with sorted_last_ge[of "rh_creation_block C" "oh_hosts self"] assms(1) h \<open>oh_hosts self \<noteq> []\<close>
    show "rh_creation_block C h \<le> rh_creation_block C host" by (simp add: on_ok_def)
  qed
  then show ?thesis using assms oh_push_ok[of "rh_address C" self host]
    by (simp add: on_ok_def no_duplicates_snoc sorted_map_snoc del: map_append)
qed

lemma sub_ok_push:
  assumes "sub_ok C self" and "rh_data_source host = Subgraph ds"
  shows "sub_ok C (oh_push (rh_address C) host self)"
  using assms oh_push_ok[of "rh_address C" self host] by (simp add: sub_ok_def)

lemma off_ok_push:
  assumes "off_ok C seq n off self" and "rh_data_source host = Offchain ds" and "own_region seq (rh_data_source host)"
    and "rh_ptr host = n" and "\<not> (\<exists>h \<in> set off. rh_eq C h host)"
  shows "off_ok C seq (n + 1) (off @ [host]) (fh_push (rh_address C) (rh_creation_block C) host self)"
proof -
  have "rh_ptr h \<noteq> n" if "h \<in> set off" for h using assms(1) that by (auto simp: off_ok_def list_all_iff)
  then show ?thesis using assms fh_push_ok[of "rh_address C" "rh_creation_block C" off self host]
    by (auto simp: off_ok_def no_duplicates_snoc list_all_iff)
qed

definition new_host_instance :: "('on, 's) subgraph_instance \<Rightarrow> ('on, 's) subgraph_instance \<Rightarrow> nat \<Rightarrow> bool" where
  "new_host_instance inst inst' n \<longleftrightarrow>
     si_onchain_hosts inst' = si_onchain_hosts inst \<and> si_subgraph_hosts inst' = si_subgraph_hosts inst
     \<and> si_offchain_hosts inst' = si_offchain_hosts inst
     \<and> si_causality_region_seq inst' = si_causality_region_seq inst \<and> si_next_ptr inst' = si_next_ptr inst + n"

lemma new_host_spec:
  "case new_host C env ds inst of
     (Inr (Some host), inst') \<Rightarrow>
       rh_data_source host = ds \<and> rh_ptr host = si_next_ptr inst \<and> new_host_instance inst inst' 1
   | (_, inst') \<Rightarrow> new_host_instance inst inst' 0"
  by (auto simp: new_host_def new_host_instance_def Let_def split: option.split sum.split prod.split)

lemma instance_ok_new_host:
  "instance_ok C off inst \<Longrightarrow> new_host_instance inst inst' 0 \<Longrightarrow> instance_ok C off inst'"
  by (simp add: instance_ok_def new_host_instance_def)

context chain_contract
begin

lemma add_host_spec:
  assumes ok: "instance_ok C off inst" and new: "new_host_instance inst inst1 1" and ptr: "rh_ptr host = si_next_ptr inst"
    and region: "as_offchain (rh_data_source host) \<noteq> None \<Longrightarrow> own_region (si_causality_region_seq inst) (rh_data_source host)"
  obtains r off' inst' where "add_host C host inst1 = Some (r, inst')" "instance_ok C off' inst'"
    "r = Inr (Some host) \<and> \<not> (\<exists>h \<in> set (kind_hosts (rh_data_source host) off inst). rh_eq C h host) \<and> appended host off inst off' inst'
     \<or> (r = Inl NotOrdered \<or> r = Inr None \<and> (\<exists>h \<in> set (kind_hosts (rh_data_source host) off inst). rh_eq C h host))
       \<and> off' = off \<and> on_hosts inst' = on_hosts inst \<and> sub_hosts inst' = sub_hosts inst"
proof -
  note eqs = new[unfolded new_host_instance_def]
  have on: "on_ok C (si_onchain_hosts inst)" and sub: "sub_ok C (si_subgraph_hosts inst)"
    and off: "off_ok C (si_causality_region_seq inst) (si_next_ptr inst) off (si_offchain_hosts inst)"
    using ok by (simp_all add: instance_ok_def)
  have off1: "off_ok C (si_causality_region_seq inst) (si_next_ptr inst + 1) off (si_offchain_hosts inst)"
    using off by (rule off_ok_mono) simp_all
  have inst1: "instance_ok C off inst1" using on sub off1 eqs by (simp add: instance_ok_def)
  have same: "on_hosts inst1 = on_hosts inst" "sub_hosts inst1 = sub_hosts inst"
    using eqs by (simp_all add: on_hosts_def sub_hosts_def)
  let ?dup = "\<exists>h \<in> set (kind_hosts (rh_data_source host) off inst). rh_eq C h host"
  show thesis
  proof (cases "rh_data_source host")
    case (Onchain ds)
    have c: "oh_contains (rh_address C) (rh_eq C) (si_onchain_hosts inst1) host = Some ?dup"
      using hosts.oh_contains_spec[of "si_onchain_hosts inst1" host] on eqs Onchain
      by (simp add: on_ok_def kind_hosts_def on_hosts_def)
    consider (ordered) "Option.bind (oh_last (si_onchain_hosts inst1)) (rh_creation_block C) \<le> rh_creation_block C host" "\<not> ?dup"
      | (dup) "Option.bind (oh_last (si_onchain_hosts inst1)) (rh_creation_block C) \<le> rh_creation_block C host" "?dup"
      | (unordered) "\<not> Option.bind (oh_last (si_onchain_hosts inst1)) (rh_creation_block C) \<le> rh_creation_block C host"
      by blast
    then show thesis
    proof cases
      case ordered
      let ?inst = "inst1\<lparr>si_onchain_hosts := oh_push (rh_address C) host (si_onchain_hosts inst1)\<rparr>"
      have "on_ok C (si_onchain_hosts ?inst)"
        using on_ok_push[of C "si_onchain_hosts inst1" host] on ordered Onchain eqs
        by (simp add: kind_hosts_def on_hosts_def)
      then have "instance_ok C off ?inst" using inst1 by (simp add: instance_ok_def)
      moreover have "appended host off inst off ?inst"
        using Onchain same oh_push_ok(2)[of "rh_address C" "si_onchain_hosts inst1" host] on eqs
        by (simp add: appended_def on_hosts_def sub_hosts_def on_ok_def)
      ultimately show thesis using ordered c Onchain
        by (intro that) (auto simp: add_host_def rh_creation_block_def)
    next
      case dup
      then show thesis using c Onchain inst1 same by (intro that) (auto simp: add_host_def rh_creation_block_def)
    next
      case unordered
      then show thesis using Onchain inst1 same by (intro that) (auto simp: add_host_def rh_creation_block_def)
    qed
  next
    case (Offchain ds)
    have c: "fh_contains (rh_address C) (rh_eq C) (si_offchain_hosts inst1) host \<longleftrightarrow> ?dup"
      using hosts.fh_contains_spec[of "rh_creation_block C" off "si_offchain_hosts inst1" host] off eqs Offchain
      by (simp add: off_ok_def kind_hosts_def)
    show thesis
    proof (cases ?dup)
      case True
      then show thesis using c Offchain inst1 same by (intro that) (auto simp: add_host_def)
    next
      case False
      let ?inst = "inst1\<lparr>si_offchain_hosts := fh_push (rh_address C) (rh_creation_block C) host (si_offchain_hosts inst1)\<rparr>"
      have "own_region (si_causality_region_seq inst) (rh_data_source host)" using region Offchain by simp
      then have "off_ok C (si_causality_region_seq inst) (si_next_ptr inst + 1) (off @ [host]) (si_offchain_hosts ?inst)"
        using off_ok_push[OF off Offchain] ptr False Offchain eqs by (simp add: kind_hosts_def)
      then have "instance_ok C (off @ [host]) ?inst" using on sub eqs by (simp add: instance_ok_def)
      moreover have "appended host off inst (off @ [host]) ?inst"
        using Offchain same by (simp add: appended_def on_hosts_def sub_hosts_def)
      ultimately show thesis using False c Offchain by (intro that) (auto simp: add_host_def)
    qed
  next
    case (Subgraph ds)
    have c: "oh_contains (rh_address C) (rh_eq C) (si_subgraph_hosts inst1) host = Some ?dup"
      using hosts.oh_contains_spec[of "si_subgraph_hosts inst1" host] sub eqs Subgraph
      by (simp add: sub_ok_def kind_hosts_def sub_hosts_def)
    show thesis
    proof (cases ?dup)
      case True
      then show thesis using c Subgraph inst1 same by (intro that) (auto simp: add_host_def)
    next
      case False
      let ?inst = "inst1\<lparr>si_subgraph_hosts := oh_push (rh_address C) host (si_subgraph_hosts inst1)\<rparr>"
      have "instance_ok C off ?inst" using sub_ok_push[OF sub Subgraph] inst1 eqs by (simp add: instance_ok_def)
      moreover have "appended host off inst off ?inst"
        using Subgraph same oh_push_ok(2)[of "rh_address C" "si_subgraph_hosts inst1" host] sub eqs
        by (simp add: appended_def on_hosts_def sub_hosts_def sub_ok_def)
      ultimately show thesis using False c Subgraph by (intro that) (auto simp: add_host_def)
    qed
  qed
qed

end


section \<open>Reverting\<close>

lemma butlast_filter_sorted:
  assumes "sorted (map f xs)" and "xs \<noteq> []" and "b \<le> f (last xs)"
  shows "filter (\<lambda>x. f x < b) (butlast xs) = filter (\<lambda>x. f x < b) xs"
  using assms by (cases xs rule: rev_cases) auto

lemma sorted_all_less:
  assumes "sorted (map f xs)" and "xs \<noteq> [] \<Longrightarrow> f (last xs) < b"
  shows "filter (\<lambda>x. f x < b) xs = xs"
  using assms by (cases xs rule: rev_cases) (auto simp: sorted_append intro!: filter_True)

text \<open>Popping from the end is filtering, since hosts are ordered by creation block.\<close>

lemma revert_onchain_hosts_spec:
  assumes "oh_ok address self" and "sorted (map block (oh_hosts self))"
  shows "\<exists>self'. revert_onchain_hosts address block b self = Some self' \<and> oh_ok address self'
    \<and> oh_hosts self' = filter (\<lambda>h. block h < Some b) (oh_hosts self)"
  using assms
proof (induction address block b self rule: revert_onchain_hosts.induct)
  case (1 address block b self)
  show ?case
  proof (cases "last_created_from block b self")
    case True
    then have ne: "oh_hosts self \<noteq> []" and last: "Some b \<le> block (last (oh_hosts self))"
      by (auto simp: last_created_from_def oh_last_def split: if_splits)
    obtain popped where pop: "oh_pop address self = Some popped" "oh_ok address popped" "oh_hosts popped = butlast (oh_hosts self)"
      by (rule oh_pop_ok[OF 1(2)])
    have "sorted (map block (oh_hosts popped))"
      using 1(3) pop(3) by (simp add: map_butlast sorted_butlast)
    with 1(1)[OF True pop(1) pop(2)] obtain self' where "revert_onchain_hosts address block b popped = Some self'"
      "oh_ok address self'" "oh_hosts self' = filter (\<lambda>h. block h < Some b) (oh_hosts popped)" by auto
    then show ?thesis using True pop butlast_filter_sorted[OF 1(3) ne last]
      by (subst revert_onchain_hosts.simps) simp
  next
    case False
    then have "oh_hosts self \<noteq> [] \<Longrightarrow> block (last (oh_hosts self)) < Some b"
      by (auto simp: last_created_from_def oh_last_def)
    then show ?thesis using False 1 sorted_all_less[OF 1(3)]
      by (subst revert_onchain_hosts.simps) simp
  qed
qed

abbreviation done_from :: "block_number \<Rightarrow> cells \<Rightarrow> ('on, 's) host \<Rightarrow> bool" where
  "done_from b cells h \<equiv> (case rh_done_at cells h of None \<Rightarrow> False | Some d \<Rightarrow> b \<le> d)"

definition host_source :: "('on, 's) host \<Rightarrow> source option" where
  "host_source h = map_option od_source (as_offchain (rh_data_source h))"

definition host_cell :: "('on, 's) host \<Rightarrow> nat" where
  "host_cell h = (case as_offchain (rh_data_source h) of None \<Rightarrow> 0 | Some ds \<Rightarrow> od_done_at ds)"

definition own_cells :: "cells \<Rightarrow> ('on, 's) host list \<Rightarrow> bool" where
  "own_cells cells off \<longleftrightarrow> inj_on host_cell (set off) \<and> (\<forall>h \<in> set off. host_cell h < length cells)"

lemma done_at_offchain:
  "rh_data_source h = Offchain ds \<Longrightarrow> rh_done_at cells h =
    (if cells ! host_cell h = NOT_DONE_VALUE then None else Some (cells ! host_cell h))"
  by (simp add: rh_done_at_def od_done_block_def host_cell_def)

lemma set_done_at_offchain:
  "rh_data_source h = Offchain ds \<Longrightarrow> rh_set_done_at h None cells = cells[host_cell h := NOT_DONE_VALUE]"
  by (simp add: rh_set_done_at_def od_set_done_at_def host_cell_def)

lemma offchain_obtain:
  assumes "\<forall>h \<in> set hs. as_offchain (rh_data_source h) \<noteq> None" and "x \<in> set hs"
  obtains od where "rh_data_source x = Offchain od"
  using assms by (cases "rh_data_source x") fastforce+

text \<open>
  The sources of the hosts that were done at or after the block are returned and their cells are
  reset; no other cell changes.
\<close>

lemma reset_done_hosts_spec:
  assumes "\<forall>h \<in> set hs. as_offchain (rh_data_source h) \<noteq> None" and "distinct (map host_cell hs)"
    and "\<forall>h \<in> set hs. host_cell h < length cells"
  shows "\<exists>cells'. reset_done_hosts b hs cells =
      Some (map (the \<circ> host_source) (filter (done_from b cells) hs), cells') \<and> length cells' = length cells
    \<and> (\<forall>i < length cells. cells' ! i =
        (if \<exists>h \<in> set hs. done_from b cells h \<and> host_cell h = i then NOT_DONE_VALUE else cells ! i))"
  using assms
proof (induction hs arbitrary: cells)
  case (Cons h hs)
  obtain ds where ds: "rh_data_source h = Offchain ds" by (rule offchain_obtain[OF Cons.prems(1), of h]) simp_all
  define cells1 where "cells1 = (if done_from b cells h then cells[host_cell h := NOT_DONE_VALUE] else cells)"
  have len1: "length cells1 = length cells" by (simp add: cells1_def)
  have same: "rh_done_at cells1 x = rh_done_at cells x" if "x \<in> set hs" for x
  proof -
    obtain od where "rh_data_source x = Offchain od"
      using offchain_obtain[OF Cons.prems(1), of x] \<open>x \<in> set hs\<close> by auto
    moreover have "host_cell x \<noteq> host_cell h" using Cons.prems(2) that by (auto simp: rev_image_eqI)
    ultimately show ?thesis by (simp add: done_at_offchain cells1_def)
  qed
  then have filt: "filter (done_from b cells1) hs = filter (done_from b cells) hs"
    by (intro filter_cong) simp_all
  obtain cells' where r: "reset_done_hosts b hs cells1 = Some (map (the \<circ> host_source) (filter (done_from b cells) hs), cells')"
    and len: "length cells' = length cells"
    and get: "\<forall>i < length cells. cells' ! i =
      (if \<exists>x \<in> set hs. done_from b cells1 x \<and> host_cell x = i then NOT_DONE_VALUE else cells1 ! i)"
    using Cons.IH[of cells1] Cons.prems unfolding filt len1 by auto
  have "cells' ! i = (if \<exists>x \<in> set (h # hs). done_from b cells x \<and> host_cell x = i then NOT_DONE_VALUE else cells ! i)"
    if "i < length cells" for i
  proof -
    have "(\<exists>x \<in> set hs. done_from b cells1 x \<and> host_cell x = i) \<longleftrightarrow> (\<exists>x \<in> set hs. done_from b cells x \<and> host_cell x = i)"
      using same by auto
    with get that have "cells' ! i = (if \<exists>x \<in> set hs. done_from b cells x \<and> host_cell x = i then NOT_DONE_VALUE else cells1 ! i)"
      by simp
    then show ?thesis using that by (cases "i = host_cell h") (auto simp: nth_list_update cells1_def)
  qed
  moreover have "reset_done_hosts b (h # hs) cells =
      Some (map (the \<circ> host_source) (filter (done_from b cells) (h # hs)), cells')"
    using r ds by (cases "done_from b cells h") (simp_all add: set_done_at_offchain host_source_def cells1_def)
  ultimately show ?case using len by blast
qed simp

lemma on_ok_filter:
  assumes "on_ok C self" and "oh_ok (rh_address C) self'" and "oh_hosts self' = filter P (oh_hosts self)"
  shows "on_ok C self'"
  using assms by (auto simp: on_ok_def no_duplicates_def list_all_iff sorted_filter sorted_wrt_filter)

lemma off_ok_filter:
  assumes "off_ok C seq n off self" and "fh_ok (rh_address C) (rh_creation_block C) (filter P off) self'"
  shows "off_ok C seq n (filter P off) self'"
  using assms by (auto simp: off_ok_def no_duplicates_def list_all_iff sorted_wrt_filter inj_on_def)

lemma distinct_hosts:
  assumes "no_duplicates C off" and "\<forall>h \<in> set off. as_offchain (rh_data_source h) \<noteq> None"
  shows "distinct off"
  using assms
proof (induction off)
  case (Cons h off)
  obtain od where "rh_data_source h = Offchain od" by (rule offchain_obtain[OF Cons.prems(2), of h]) simp_all
  then have "rh_eq C h h" by (simp add: rh_eq_def od_is_duplicate_of_def)
  then show ?case using Cons by (auto simp: no_duplicates_def)
qed simp

text \<open>
  Reverting keeps exactly the hosts that were created before the block; \<open>cells'\<close> is as before but for the
  file data sources that are left and were done from the block on.
\<close>

lemma revert_data_sources_spec:
  fixes inst :: "('on, 's) subgraph_instance" and b :: block_number
  assumes ok: "instance_ok C off inst" and cells: "own_cells cells off"
  defines "kept \<equiv> filter (\<lambda>h. rh_creation_block C h < Some b) off"
  shows "\<exists>cells' inst'. si_revert_data_sources C b cells inst =
      Some (map (the \<circ> host_source) (filter (done_from b cells) (sort_key (rh_creation_block C) kept)), cells', inst')
    \<and> instance_ok C kept inst' \<and> on_hosts inst' = filter (\<lambda>h. rh_creation_block C h < Some b) (on_hosts inst)
    \<and> sub_hosts inst' = sub_hosts inst \<and> length cells' = length cells
    \<and> (\<forall>i < length cells. cells' ! i =
        (if \<exists>h \<in> set kept. done_from b cells h \<and> host_cell h = i then NOT_DONE_VALUE else cells ! i))"
proof -
  have on: "on_ok C (si_onchain_hosts inst)" and sub: "sub_ok C (si_subgraph_hosts inst)"
    and off: "off_ok C (si_causality_region_seq inst) (si_next_ptr inst) off (si_offchain_hosts inst)"
    using ok by (simp_all add: instance_ok_def)
  obtain onchain where onchain: "revert_onchain_hosts (rh_address C) (rh_creation_block C) b (si_onchain_hosts inst) = Some onchain"
    "oh_ok (rh_address C) onchain" "oh_hosts onchain = filter (\<lambda>h. rh_creation_block C h < Some b) (on_hosts inst)"
    using revert_onchain_hosts_spec[of "rh_address C" "si_onchain_hosts inst" "rh_creation_block C" b] on
    by (auto simp: on_ok_def on_hosts_def)
  have ptr: "\<forall>x \<in> set off. \<forall>y \<in> set off. rh_ptr_eq x y \<longleftrightarrow> x = y"
    using off by (auto simp: off_ok_def rh_ptr_eq_def dest: inj_onD)
  obtain offchain where offchain: "fh_remove_ge_block (rh_address C) rh_ptr_eq b (si_offchain_hosts inst) = Some offchain"
    "fh_ok (rh_address C) (rh_creation_block C) kept offchain"
    using fh_remove_ge_block_ok[OF ptr, of "rh_address C" "rh_creation_block C" "si_offchain_hosts inst" b] off
    unfolding off_ok_def kept_def by blast
  let ?inst = "inst\<lparr>si_onchain_hosts := onchain, si_offchain_hosts := offchain\<rparr>"
  have inst: "instance_ok C kept ?inst"
    using on_ok_filter[OF on onchain(2)] onchain(3) sub off_ok_filter[OF off] offchain(2)
    by (simp add: instance_ok_def on_hosts_def kept_def)
  have all: "fh_all offchain = sort_key (rh_creation_block C) kept" by (rule fh_all_spec[OF offchain(2)])
  show ?thesis
  proof (cases "si_causality_region_seq inst = CR_ONCHAIN")
    case True
    then have "off = []" using off by (cases off) (auto simp: off_ok_def own_region_def)
    then show ?thesis using True onchain offchain inst
      by (intro exI[of _ cells] exI[of _ ?inst]) (simp add: si_revert_data_sources_def kept_def on_hosts_def sub_hosts_def)
  next
    case False
    let ?all = "sort_key (rh_creation_block C) kept"
    have "distinct off" using off by (auto simp: off_ok_def list_all_iff intro: distinct_hosts)
    then have "distinct (map host_cell ?all)"
      using cells by (auto simp: distinct_map kept_def own_cells_def inj_on_def)
    moreover have "\<forall>h \<in> set ?all. as_offchain (rh_data_source h) \<noteq> None" "\<forall>h \<in> set ?all. host_cell h < length cells"
      using off cells by (auto simp: kept_def off_ok_def list_all_iff own_cells_def)
    ultimately obtain cells' where r: "reset_done_hosts b ?all cells = Some (map (the \<circ> host_source) (filter (done_from b cells) ?all), cells')"
      "length cells' = length cells" "\<forall>i < length cells. cells' ! i =
        (if \<exists>h \<in> set ?all. done_from b cells h \<and> host_cell h = i then NOT_DONE_VALUE else cells ! i)"
      using reset_done_hosts_spec[of ?all cells b] by blast
    have "si_revert_data_sources C b cells inst = Some (map (the \<circ> host_source) (filter (done_from b cells) ?all), cells', ?inst)"
      using False onchain(1) offchain(1) r(1) by (simp add: si_revert_data_sources_def all)
    moreover have "on_hosts ?inst = filter (\<lambda>h. rh_creation_block C h < Some b) (on_hosts inst)" "sub_hosts ?inst = sub_hosts inst"
      using onchain(3) by (simp_all add: on_hosts_def sub_hosts_def)
    ultimately show ?thesis using inst r(2,3) by (intro exI[of _ cells'] exI[of _ ?inst]) simp
  qed
qed


section \<open>The hosts of a trigger\<close>

definition decodes :: "('on, 'ont, 'ct, 'mt) chain \<Rightarrow> cells \<Rightarrow> block_ptr \<Rightarrow> block_time \<Rightarrow> ('ct, 'd) trigger_data
    \<Rightarrow> ('on, 's) host \<Rightarrow> bool" where
  "decodes C cells ptr time t h \<longleftrightarrow>
     (case ds_match_and_decode C cells ptr time (rh_data_source h) t of Inr None \<Rightarrow> False | _ \<Rightarrow> True)"

definition trigger_hosts :: "('on, 's) host list \<Rightarrow> ('on, 's) subgraph_instance \<Rightarrow> ('ct, 'd) trigger_data
    \<Rightarrow> ('on, 's) host list" where
  "trigger_hosts off inst t =
     (case t of OnchainTrigger _ \<Rightarrow> on_hosts inst | OffchainTrigger _ \<Rightarrow> off | SubgraphTrigger _ \<Rightarrow> sub_hosts inst)"

lemma map_of_char_inj: "map of_char s = (map of_char s' :: nat list) \<longleftrightarrow> s = s'"
  by (rule inj_map_eq_map) (simp add: inj_def)

lemma decodes_offchain:
  "decodes C cells ptr time (OffchainTrigger t) h \<Longrightarrow> \<exists>ds. rh_data_source h = Offchain ds \<and> od_source ds = oc_source t"
  by (cases "rh_data_source h") (auto simp: decodes_def od_match_and_decode_def split: if_splits)

lemma decodes_subgraph:
  "decodes C cells ptr time (SubgraphTrigger t) h \<Longrightarrow> \<exists>ds. rh_data_source h = Subgraph ds \<and> sg_source_address ds = st_source t"
  by (cases "rh_data_source h") (auto simp: decodes_def sg_match_and_decode_def split: if_splits)

lemma filter_implied: "(\<And>h. P h \<Longrightarrow> Q h) \<Longrightarrow> filter P (filter Q hs) = filter P hs"
  by (induction hs) auto

context chain_contract
begin

lemma decodes_onchain:
  assumes "decodes C cells ptr time (OnchainTrigger t) h" and "ch_trigger_address C t = Some x"
  shows "rh_address C h = None \<or> rh_address C h = Some x"
proof (cases "rh_data_source h")
  case (Onchain ds)
  then have "ch_match_and_decode C ds t ptr time \<noteq> Inr None"
    using assms(1) by (auto simp: decodes_def split: if_splits)
  from match_address[OF this assms(2)] Onchain show ?thesis by (simp add: rh_address_def)
qed (use assms(1) in \<open>simp_all add: decodes_def\<close>)

text \<open>The hosts that are looked up hold every host that decodes the trigger, in the same order.\<close>

lemma hosts_for_trigger_spec:
  assumes ok: "instance_ok C off inst"
  obtains hs where "hosts_for_trigger C inst t = Some hs" "set hs \<subseteq> set (trigger_hosts off inst t)"
    "filter (decodes C cells ptr time t) hs = filter (decodes C cells ptr time t) (trigger_hosts off inst t)"
proof (cases t)
  case (OnchainTrigger ct)
  let ?Q = "\<lambda>h. ch_trigger_address C ct = None \<or> rh_address C h = None \<or> rh_address C h = ch_trigger_address C ct"
  have q: "?Q h" if "decodes C cells ptr time t h" for h
    using that decodes_onchain[of cells ptr time ct h] OnchainTrigger by (cases "ch_trigger_address C ct") auto
  show thesis
    using ok OnchainTrigger oh_matches_by_address_spec[of "rh_address C" "si_onchain_hosts inst" "ch_trigger_address C ct"]
      filter_implied[of "decodes C cells ptr time t" ?Q "on_hosts inst"] q
    by (intro that[of "filter ?Q (on_hosts inst)"])
       (auto simp: hosts_for_trigger_def trigger_hosts_def instance_ok_def on_ok_def on_hosts_def simp del: filter_filter)
next
  case (OffchainTrigger oc)
  obtain a where a: "source_address (oc_source oc) = Some a" by (cases "oc_source oc") auto
  have addr: "rh_address C h = Some a" if "decodes C cells ptr time t h" for h
    using decodes_offchain that a OffchainTrigger by (fastforce simp: rh_address_def)
  have "fh_ok (rh_address C) (rh_creation_block C) off (si_offchain_hosts inst)"
    using ok by (simp add: instance_ok_def off_ok_def)
  note m = fh_matches_by_address_spec[OF this, of a]
  let ?hs = "filter (\<lambda>h. rh_address C h = Some a) off @ filter (\<lambda>h. rh_address C h = None) off"
  have "filter (decodes C cells ptr time t) (filter (\<lambda>h. rh_address C h = None) off) = []"
    using addr by (auto simp: filter_empty_conv)
  moreover have "filter (decodes C cells ptr time t) (filter (\<lambda>h. rh_address C h = Some a) off) =
      filter (decodes C cells ptr time t) off"
    by (rule filter_implied) (rule addr)
  ultimately have "filter (decodes C cells ptr time t) ?hs = filter (decodes C cells ptr time t) off"
    by (simp only: filter_append append_Nil2)
  then show thesis using m a OffchainTrigger
    by (intro that[of ?hs]) (auto simp: hosts_for_trigger_def trigger_hosts_def simp del: filter_filter)
next
  case (SubgraphTrigger st)
  let ?a = "map of_char (st_source st) :: nat list"
  let ?Q = "\<lambda>h. Some ?a = None \<or> rh_address C h = None \<or> rh_address C h = Some ?a"
  have q: "?Q h" if "decodes C cells ptr time t h" for h
    using decodes_subgraph that SubgraphTrigger by (fastforce simp: rh_address_def)
  show thesis
    using ok SubgraphTrigger oh_matches_by_address_spec[of "rh_address C" "si_subgraph_hosts inst" "Some ?a"]
      filter_implied[of "decodes C cells ptr time t" ?Q "sub_hosts inst"] q
    by (intro that[of "filter ?Q (sub_hosts inst)"])
       (auto simp: hosts_for_trigger_def trigger_hosts_def instance_ok_def sub_ok_def sub_hosts_def simp del: filter_filter)
qed

text \<open>Adding a data source: no panic, and the host is appended unless it is a duplicate, out of order or refused.\<close>

lemma add_dynamic_data_source_spec:
  assumes ok: "instance_ok C off inst"
    and region: "as_offchain ds \<noteq> None \<Longrightarrow> own_region (si_causality_region_seq inst) ds"
  obtains r off' inst' where "si_add_dynamic_data_source C env ds inst = Some (r, inst')" "instance_ok C off' inst'"
    "case r of
       Inr (Some host) \<Rightarrow> rh_data_source host = ds \<and> length (on_hosts inst) + length off < ie_max_data_sources env
         \<and> \<not> (\<exists>h \<in> set (kind_hosts ds off inst). rh_eq C h host) \<and> appended host off inst off' inst'
     | _ \<Rightarrow> off' = off \<and> on_hosts inst' = on_hosts inst \<and> sub_hosts inst' = sub_hosts inst"
proof (cases "ie_max_data_sources env \<le> si_hosts_len inst")
  case True
  then show thesis using ok by (intro that) (auto simp: si_add_dynamic_data_source_def)
next
  case False
  have len: "si_hosts_len inst = length (on_hosts inst) + length off"
    using ok fh_all_spec(2) by (auto simp: si_hosts_len_def oh_len_def on_hosts_def instance_ok_def off_ok_def)
  obtain r1 inst1 where new: "new_host C env ds inst = (r1, inst1)" by (cases "new_host C env ds inst")
  show thesis
  proof (cases "\<exists>host. r1 = Inr (Some host)")
    case False
    then have "new_host_instance inst inst1 0"
      using new_host_spec[where C = C and env = env and ds = ds and inst = inst] new by (auto split: sum.splits option.splits)
    then show thesis using False \<open>\<not> ie_max_data_sources env \<le> _\<close> new instance_ok_new_host[OF ok]
      by (cases r1) (intro that, auto simp: si_add_dynamic_data_source_def new_host_instance_def on_hosts_def sub_hosts_def
        split: option.split)+
  next
    case True
    then obtain host where r1: "r1 = Inr (Some host)" by blast
    have host: "rh_data_source host = ds" "rh_ptr host = si_next_ptr inst" "new_host_instance inst inst1 1"
      using new_host_spec[where C = C and env = env and ds = ds and inst = inst] new r1 by simp_all
    show thesis
      by (rule add_host_spec[OF ok host(3,2)])
         (use region host(1) in simp, rule that, use False new r1 len host(1) in \<open>auto simp: si_add_dynamic_data_source_def\<close>)
  qed
qed

end

end
