(* ===== verification/Proof_Of_Indexing.thy ===== *)
theory Proof_Of_Indexing
  imports Prelude "HOL-Library.Multiset" "HOL-Library.AList"
begin

text \<open>
  The proof of indexing, \<open>graph/src/components/subgraph/proof_of_indexing/\<close>: the events of a block go,
  one by one, into a hash per causality region, which is stored after the block and continued at the next one;
  from the stored hashes, the finisher makes the digest. The crates \<open>stable_hash\<close> and \<open>stable_hash_legacy\<close> are parameters.
\<close>

section \<open>Hashers\<close>

datatype 'e poi_event =
    RemoveEntity string string
  | SetEntity string string 'e
  | DeterministicError nat

text \<open>The values that are hashed: events, lengths, strings, bytes and optional bytes.\<close>

datatype 'e hashable =
    HEvent "'e poi_event"
  | HLen nat
  | HStr string
  | HBytes "nat list"
  | HOptBytes "nat list option"

text \<open>
  What the code uses of the two crates. \<open>fs_digest\<close> is the Keccak hash of what \<open>finish\<close> returns.
\<close>

record ('a, 'e, 'h) fast_hasher =
  fs_root :: 'a
  fs_child :: "'a \<Rightarrow> nat \<Rightarrow> 'a"
  fs_new :: 'h
  fs_hash :: "'e hashable \<Rightarrow> 'a \<Rightarrow> 'h \<Rightarrow> 'h"
  fs_mixin :: "'h \<Rightarrow> 'h \<Rightarrow> 'h"
  fs_to_bytes :: "'h \<Rightarrow> nat list"
  fs_from_bytes :: "nat list \<Rightarrow> 'h"
  fs_digest :: "'h \<Rightarrow> nat list"

record ('s, 'e, 'l) legacy_hasher =
  ls_root :: 's
  ls_skip :: "nat \<Rightarrow> 's \<Rightarrow> 's"
  ls_next_child :: "'s \<Rightarrow> 's"
  ls_new :: 'l
  ls_hash :: "'e hashable \<Rightarrow> 's \<Rightarrow> 'l \<Rightarrow> 'l"
  ls_finish_unordered :: "'l \<Rightarrow> 'l \<Rightarrow> 'l"
  ls_to_bytes :: "'l \<Rightarrow> nat list"
  ls_from_bytes :: "nat list \<Rightarrow> 'l"
  ls_finish :: "'l \<Rightarrow> nat list"

record ('a, 'e, 'h, 's, 'l) hash_env =
  he_fast :: "('a, 'e, 'h) fast_hasher"
  he_legacy :: "('s, 'e, 'l) legacy_hasher"
  he_sha256 :: "nat list \<Rightarrow> nat list"

datatype poi_version = FastVersion | LegacyVersion

datatype ('h, 'l) hashers = Fast 'h | Legacy 'l

definition STABLE_HASH_LEN :: nat where
  "STABLE_HASH_LEN = 32"

definition hashers_new :: "('a, 'e, 'h, 's, 'l) hash_env \<Rightarrow> poi_version \<Rightarrow> ('h, 'l) hashers" where
  "hashers_new E version =
     (case version of LegacyVersion \<Rightarrow> Legacy (ls_new (he_legacy E)) | FastVersion \<Rightarrow> Fast (fs_new (he_fast E)))"

definition hashers_from_bytes :: "('a, 'e, 'h, 's, 'l) hash_env \<Rightarrow> nat list \<Rightarrow> ('h, 'l) hashers" where
  "hashers_from_bytes E bs =
     (if length bs = STABLE_HASH_LEN then Fast (fs_from_bytes (he_fast E) bs)
      else Legacy (ls_from_bytes (he_legacy E) bs))"

definition address_of :: "('a, 'e, 'h) fast_hasher \<Rightarrow> nat list \<Rightarrow> 'a" where
  "address_of F children = fold (\<lambda>i s. fs_child F s i) children (fs_root F)"

definition traverse_seq_no :: "('s, 'e, 'l) legacy_hasher \<Rightarrow> nat list \<Rightarrow> 's" where
  "traverse_seq_no L counts = fold (\<lambda>i s. ls_next_child L (ls_skip L i s)) counts (ls_root L)"

fun hashers_write :: "('a, 'e, 'h, 's, 'l) hash_env \<Rightarrow> 'e hashable \<Rightarrow> nat list \<Rightarrow> ('h, 'l) hashers \<Rightarrow> ('h, 'l) hashers" where
  "hashers_write E v children (Fast fast) = Fast (fs_hash (he_fast E) v (address_of (he_fast E) children) fast)"
| "hashers_write E v children (Legacy legacy) =
     Legacy (ls_hash (he_legacy E) v (traverse_seq_no (he_legacy E) children) legacy)"

section \<open>The stream of a causality region\<close>

record ('h, 'l) block_event_stream =
  es_vec_length :: nat
  es_handler_start :: nat
  es_block_index :: nat
  es_hasher :: "('h, 'l) hashers"

text \<open>The block number is not negative, a panic otherwise; it is a natural number here.\<close>

definition stream_new :: "('a, 'e, 'h, 's, 'l) hash_env \<Rightarrow> nat \<Rightarrow> poi_version \<Rightarrow> ('h, 'l) block_event_stream" where
  "stream_new E block_number version =
     \<lparr>es_vec_length = 0, es_handler_start = 0, es_block_index = block_number, es_hasher = hashers_new E version\<rparr>"

definition stream_pause :: "('a, 'e, 'h, 's, 'l) hash_env \<Rightarrow> nat list option \<Rightarrow> ('h, 'l) block_event_stream \<Rightarrow> nat list" where
  "stream_pause E prev self =
     (case hashers_write E (HLen (es_vec_length self)) [1, 0, es_block_index self, 0] (es_hasher self) of
        Legacy digest \<Rightarrow>
          ls_to_bytes (he_legacy E) (case prev of
             None \<Rightarrow> digest
           | Some p \<Rightarrow> ls_finish_unordered (he_legacy E) digest (ls_from_bytes (he_legacy E) p))
      | Fast digest \<Rightarrow>
          fs_to_bytes (he_fast E) (case prev of
             None \<Rightarrow> digest
           | Some p \<Rightarrow>
               let p = (if length p = STABLE_HASH_LEN then p else he_sha256 E p)
               in fs_mixin (he_fast E) digest (fs_from_bytes (he_fast E) p)))"

definition stream_write :: "('a, 'e, 'h, 's, 'l) hash_env \<Rightarrow> 'e poi_event \<Rightarrow> ('h, 'l) block_event_stream
    \<Rightarrow> ('h, 'l) block_event_stream" where
  "stream_write E event self =
     self\<lparr>es_hasher := hashers_write E (HEvent event) [1, 0, es_block_index self, 0, es_vec_length self] (es_hasher self),
          es_vec_length := es_vec_length self + 1\<rparr>"

definition stream_start_handler :: "('h, 'l) block_event_stream \<Rightarrow> ('h, 'l) block_event_stream" where
  "stream_start_handler self = self\<lparr>es_handler_start := es_vec_length self\<rparr>"

section \<open>The proof of indexing of a block\<close>

record ('h, 'l) proof_of_indexing =
  pi_version :: poi_version
  pi_block_number :: nat
  pi_per_causality_region :: "(string \<times> ('h, 'l) block_event_stream) list"

definition poi_new :: "nat \<Rightarrow> poi_version \<Rightarrow> ('h, 'l) proof_of_indexing" where
  "poi_new block_number version =
     \<lparr>pi_version = version, pi_block_number = block_number, pi_per_causality_region = []\<rparr>"

definition region_stream :: "('a, 'e, 'h, 's, 'l) hash_env \<Rightarrow> string \<Rightarrow> ('h, 'l) proof_of_indexing
    \<Rightarrow> ('h, 'l) block_event_stream" where
  "region_stream E cr self =
     (case map_of (pi_per_causality_region self) cr of
        Some s \<Rightarrow> s
      | None \<Rightarrow> stream_new E (pi_block_number self) (pi_version self))"

definition with_causality_region :: "('a, 'e, 'h, 's, 'l) hash_env \<Rightarrow> string
    \<Rightarrow> (('h, 'l) block_event_stream \<Rightarrow> ('h, 'l) block_event_stream) \<Rightarrow> ('h, 'l) proof_of_indexing
    \<Rightarrow> ('h, 'l) proof_of_indexing" where
  "with_causality_region E cr f self =
     self\<lparr>pi_per_causality_region := AList.update cr (f (region_stream E cr self)) (pi_per_causality_region self)\<rparr>"

definition poi_write :: "('a, 'e, 'h, 's, 'l) hash_env \<Rightarrow> string \<Rightarrow> 'e poi_event \<Rightarrow> ('h, 'l) proof_of_indexing
    \<Rightarrow> ('h, 'l) proof_of_indexing" where
  "poi_write E cr event self = with_causality_region E cr (stream_write E event) self"

definition poi_start_handler :: "('a, 'e, 'h, 's, 'l) hash_env \<Rightarrow> string \<Rightarrow> ('h, 'l) proof_of_indexing
    \<Rightarrow> ('h, 'l) proof_of_indexing" where
  "poi_start_handler E cr self = with_causality_region E cr stream_start_handler self"

definition poi_write_deterministic_error :: "('a, 'e, 'h, 's, 'l) hash_env \<Rightarrow> string \<Rightarrow> ('h, 'l) proof_of_indexing
    \<Rightarrow> ('h, 'l) proof_of_indexing" where
  "poi_write_deterministic_error E cr self =
     (let redacted_events = es_vec_length (region_stream E cr self) - es_handler_start (region_stream E cr self)
      in poi_write E cr (DeterministicError redacted_events) (with_causality_region E cr id self))"

text \<open>\<open>SharedProofOfIndexing\<close>: events of file data sources are ignored, \<open>None\<close>.\<close>

type_synonym ('h, 'l) shared_poi = "('h, 'l) proof_of_indexing option"

definition write_event :: "('a, 'e, 'h, 's, 'l) hash_env \<Rightarrow> 'e poi_event \<Rightarrow> string \<Rightarrow> ('h, 'l) shared_poi \<Rightarrow> ('h, 'l) shared_poi" where
  "write_event E event cr poi = map_option (poi_write E cr event) poi"

definition start_handler :: "('a, 'e, 'h, 's, 'l) hash_env \<Rightarrow> string \<Rightarrow> ('h, 'l) shared_poi \<Rightarrow> ('h, 'l) shared_poi" where
  "start_handler E cr poi = map_option (poi_start_handler E cr) poi"

definition write_deterministic_error :: "('a, 'e, 'h, 's, 'l) hash_env \<Rightarrow> string \<Rightarrow> ('h, 'l) shared_poi \<Rightarrow> ('h, 'l) shared_poi" where
  "write_deterministic_error E cr poi = map_option (poi_write_deterministic_error E cr) poi"

section \<open>The finisher\<close>

record ('h, 'l) poi_finisher =
  fi_block_number :: nat
  fi_state :: "('h, 'l) hashers"
  fi_causality_count :: nat

definition finisher_new :: "('a, 'e, 'h, 's, 'l) hash_env \<Rightarrow> nat \<Rightarrow> nat list \<Rightarrow> string \<Rightarrow> nat list option \<Rightarrow> poi_version
    \<Rightarrow> ('h, 'l) poi_finisher" where
  "finisher_new E block_number block_hash subgraph_id indexer version =
     (let state = hashers_new E version;
          state = hashers_write E (HStr subgraph_id) [1] state;
          state = hashers_write E (HBytes block_hash) [2] state;
          state = hashers_write E (HOptBytes indexer) [3] state
      in \<lparr>fi_block_number = block_number, fi_state = state, fi_causality_count = 0\<rparr>)"

definition add_causality_region :: "('a, 'e, 'h, 's, 'l) hash_env \<Rightarrow> string \<Rightarrow> nat list \<Rightarrow> ('h, 'l) poi_finisher
    \<Rightarrow> ('h, 'l) poi_finisher" where
  "add_causality_region E name region self =
     (let state = hashers_from_bytes E region;
          state = hashers_write E (HLen (fi_block_number self + 1)) [1, 0] state;
          state = hashers_write E (HStr name) [0] state;
          new_state = (case state of
              Legacy legacy \<Rightarrow> hashers_write E (HBytes (ls_finish (he_legacy E) legacy)) [0, 1] (fi_state self)
            | Fast fast \<Rightarrow> hashers_write E (HBytes (fs_to_bytes (he_fast E) fast)) [0] (fi_state self))
      in self\<lparr>fi_state := new_state, fi_causality_count := fi_causality_count self + 1\<rparr>)"

definition finisher_finish :: "('a, 'e, 'h, 's, 'l) hash_env \<Rightarrow> ('h, 'l) poi_finisher \<Rightarrow> nat list" where
  "finisher_finish E self =
     (case fi_state self of
        Legacy legacy \<Rightarrow>
          ls_finish (he_legacy E) (ls_hash (he_legacy E) (HLen (fi_causality_count self))
            (traverse_seq_no (he_legacy E) [0, 2]) legacy)
      | Fast fast \<Rightarrow> fs_digest (he_fast E) fast)"

section \<open>The reference implementation\<close>

text \<open>
  \<open>reference.rs\<close> derives the hash of the whole history from its types: the fields of a structure and the elements of a vector
  are hashed at the children of its address, a vector adds its length, and a map adds the bytes of
  the hash of each of its pairs.
\<close>

record 'e ref_poi =
  rp_causality_regions :: "(string \<times> 'e poi_event list list) list"
  rp_subgraph_id :: string
  rp_block_hash :: "nat list"
  rp_indexer :: "nat list option"

definition hash_vec :: "('a, 'e, 'h) fast_hasher \<Rightarrow> ('x \<Rightarrow> 'a \<Rightarrow> 'h \<Rightarrow> 'h) \<Rightarrow> 'x list \<Rightarrow> 'a \<Rightarrow> 'h \<Rightarrow> 'h" where
  "hash_vec F f xs a h =
     fs_hash F (HLen (length xs)) a (fold (\<lambda>(i, x). f x (fs_child F a i)) (enumerate 0 xs) h)"

definition hash_block :: "('a, 'e, 'h) fast_hasher \<Rightarrow> 'e poi_event list \<Rightarrow> 'a \<Rightarrow> 'h \<Rightarrow> 'h" where
  "hash_block F events a h = hash_vec F (\<lambda>e. fs_hash F (HEvent e)) events (fs_child F a 0) h"

definition hash_region :: "('a, 'e, 'h) fast_hasher \<Rightarrow> 'e poi_event list list \<Rightarrow> 'a \<Rightarrow> 'h \<Rightarrow> 'h" where
  "hash_region F blocks a h = hash_vec F (hash_block F) blocks (fs_child F a 0) h"

definition hash_regions :: "('a, 'e, 'h) fast_hasher \<Rightarrow> (string \<times> 'e poi_event list list) list \<Rightarrow> 'a \<Rightarrow> 'h \<Rightarrow> 'h" where
  "hash_regions F regions a h =
     fold (\<lambda>(name, blocks). fs_hash F (HBytes (fs_to_bytes F
         (hash_region F blocks (fs_child F (fs_root F) 1)
            (fs_hash F (HStr name) (fs_child F (fs_root F) 0) (fs_new F))))) a) regions h"

definition reference_digest :: "('a, 'e, 'h) fast_hasher \<Rightarrow> 'e ref_poi \<Rightarrow> nat list" where
  "reference_digest F poi =
     fs_digest F
       (fs_hash F (HOptBytes (rp_indexer poi)) (fs_child F (fs_root F) 3)
         (fs_hash F (HBytes (rp_block_hash poi)) (fs_child F (fs_root F) 2)
           (fs_hash F (HStr (rp_subgraph_id poi)) (fs_child F (fs_root F) 1)
             (hash_regions F (rp_causality_regions poi) (fs_child F (fs_root F) 0) (fs_new F)))))"

section \<open>Indexing a chain\<close>

text \<open>
  What the processing of a block asks of the proof of indexing: each trigger starts a handler in the region of its
  data source, the handlers write events, and a trigger that failed deterministically ends with an error.
\<close>

datatype 'e poi_call =
    StartHandler string
  | WriteEvent string "'e poi_event"
  | FailedTrigger string

fun call_region :: "'e poi_call \<Rightarrow> string" where
  "call_region (StartHandler cr) = cr"
| "call_region (WriteEvent cr e) = cr"
| "call_region (FailedTrigger cr) = cr"

fun run_poi_call :: "('a, 'e, 'h, 's, 'l) hash_env \<Rightarrow> 'e poi_call \<Rightarrow> ('h, 'l) proof_of_indexing \<Rightarrow> ('h, 'l) proof_of_indexing" where
  "run_poi_call E (StartHandler cr) poi = poi_start_handler E cr poi"
| "run_poi_call E (WriteEvent cr e) poi = poi_write E cr e poi"
| "run_poi_call E (FailedTrigger cr) poi = poi_write_deterministic_error E cr poi"

text \<open>
  The calls of a block go into the streams of their regions, and the streams continue the
  stored hashes, as \<open>update_proof_of_indexing\<close> of the runner does with the entities of type \<open>Poi$\<close>.
\<close>

definition store_streams :: "('a, 'e, 'h, 's, 'l) hash_env \<Rightarrow> ('h, 'l) proof_of_indexing
    \<Rightarrow> (string \<Rightarrow> nat list option) \<Rightarrow> (string \<Rightarrow> nat list option)" where
  "store_streams E poi db =
     fold (\<lambda>(name, stream) db. db(name \<mapsto> stream_pause E (db name) stream)) (pi_per_causality_region poi) db"

definition block_poi :: "('a, 'e, 'h, 's, 'l) hash_env \<Rightarrow> poi_version \<Rightarrow> nat \<Rightarrow> 'e poi_call list
    \<Rightarrow> ('h, 'l) proof_of_indexing" where
  "block_poi E version n calls = fold (run_poi_call E) calls (poi_new n version)"

definition index_block :: "('a, 'e, 'h, 's, 'l) hash_env \<Rightarrow> poi_version \<Rightarrow> nat \<Rightarrow> 'e poi_call list
    \<Rightarrow> (string \<Rightarrow> nat list option) \<Rightarrow> (string \<Rightarrow> nat list option)" where
  "index_block E version n calls db =
     store_streams E (block_poi E version n calls) db"

definition index_chain :: "('a, 'e, 'h, 's, 'l) hash_env \<Rightarrow> poi_version \<Rightarrow> 'e poi_call list list
    \<Rightarrow> (string \<Rightarrow> nat list option)" where
  "index_chain E version blocks =
     fold (\<lambda>(n, calls). index_block E version n calls) (enumerate 0 blocks) Map.empty"

definition online_digest :: "('a, 'e, 'h, 's, 'l) hash_env \<Rightarrow> poi_version \<Rightarrow> string list
    \<Rightarrow> 'e poi_call list list \<Rightarrow> nat list \<Rightarrow> string \<Rightarrow> nat list option \<Rightarrow> nat list" where
  "online_digest E version names blocks block_hash subgraph_id indexer =
     (let db = index_chain E version blocks
      in finisher_finish E
           (fold (\<lambda>name. case db name of None \<Rightarrow> id | Some region \<Rightarrow> add_causality_region E name region) names
              (finisher_new E (length blocks - 1) block_hash subgraph_id indexer version)))"

section \<open>The online and the reference implementation agree\<close>

text \<open>
  What is documented of the fast hasher: it is unordered, a pause can be resumed from its bytes, mixing in a hasher
  adds what was written to it, and a length of zero is a default value that writes nothing.
\<close>

definition fast_hasher_laws :: "('a, 'e, 'h) fast_hasher \<Rightarrow> bool" where
  "fast_hasher_laws F \<longleftrightarrow>
     (\<forall>v a w b h. fs_hash F v a (fs_hash F w b h) = fs_hash F w b (fs_hash F v a h))
     \<and> (\<forall>v a h g. fs_mixin F (fs_hash F v a h) g = fs_hash F v a (fs_mixin F h g))
     \<and> (\<forall>g. fs_mixin F (fs_new F) g = g)
     \<and> (\<forall>h. fs_from_bytes F (fs_to_bytes F h) = h) \<and> (\<forall>h. length (fs_to_bytes F h) = STABLE_HASH_LEN)
     \<and> (\<forall>a h. fs_hash F (HLen 0) a h = h)"

text \<open>Writes with their paths; only which writes there are matters, not their order.\<close>

definition writes :: "('a, 'e, 'h) fast_hasher \<Rightarrow> ('e hashable \<times> nat list) list \<Rightarrow> 'h \<Rightarrow> 'h" where
  "writes F ws h = fold (\<lambda>(v, p). fs_hash F v (address_of F p)) ws h"

lemma writes_simps [simp]:
  "writes F [] h = h"
  "writes F ((v, p) # ws) h = writes F ws (fs_hash F v (address_of F p) h)"
  "writes F (ws @ ws') h = writes F ws' (writes F ws h)"
  by (simp_all add: writes_def)

lemma writes_permuted:
  assumes "fast_hasher_laws F" and "mset ws = mset ws'"
  shows "writes F ws h = writes F ws' h"
proof -
  have "fold (\<lambda>(v, p). fs_hash F v (address_of F p)) ws = fold (\<lambda>(v, p). fs_hash F v (address_of F p)) ws'"
    using assms by (intro fold_multiset_equiv) (auto simp: fast_hasher_laws_def fun_eq_iff)
  then show ?thesis by (simp add: writes_def)
qed

lemma writes_mixin:
  assumes "fast_hasher_laws F"
  shows "fs_mixin F (writes F ws (fs_new F)) g = writes F ws g"
proof (induction ws rule: rev_induct)
  case (snoc w ws)
  then show ?case using assms by (cases w) (simp add: fast_hasher_laws_def)
qed (use assms in \<open>simp add: fast_hasher_laws_def\<close>)

lemma address_child: "address_of F (p @ [i]) = fs_child F (address_of F p) i" "address_of F [] = fs_root F"
  by (simp_all add: address_of_def)

definition event_writes :: "nat \<Rightarrow> 'e poi_event list \<Rightarrow> ('e hashable \<times> nat list) list" where
  "event_writes n events = map (\<lambda>(j, e). (HEvent e, [1, 0, n, 0, j])) (enumerate 0 events)"

definition block_writes :: "nat \<Rightarrow> 'e poi_event list \<Rightarrow> ('e hashable \<times> nat list) list" where
  "block_writes n events = event_writes n events @ [(HLen (length events), [1, 0, n, 0])]"

definition region_writes :: "'e poi_event list list \<Rightarrow> ('e hashable \<times> nat list) list" where
  "region_writes blocks = concat (map (\<lambda>(n, events). block_writes n events) (enumerate 0 blocks))"

lemma enumerate_snoc: "enumerate n (xs @ [x]) = enumerate n xs @ [(n + length xs, x)]"
  by (induction xs arbitrary: n) simp_all

lemma event_writes_snoc: "event_writes n (es @ [e]) = event_writes n es @ [(HEvent e, [1, 0, n, 0, length es])]"
  by (simp add: event_writes_def enumerate_snoc)

lemma region_writes_snoc: "region_writes (bs @ [es]) = region_writes bs @ block_writes (length bs) es"
  by (simp add: region_writes_def enumerate_snoc)

lemma hash_block_writes:
  "hash_block F events (address_of F [1, 0, n]) h = writes F (block_writes n events) h"
proof -
  have a: "fs_child F (address_of F [1, 0, n]) 0 = address_of F [1, 0, n, 0]"
    "fs_child F (address_of F [1, 0, n, 0]) j = address_of F [1, 0, n, 0, j]" for j
    by (simp_all add: address_of_def)
  have "fold (\<lambda>(i, x). fs_hash F (HEvent x) (fs_child F (address_of F [1, 0, n, 0]) i)) (enumerate 0 events) h =
      writes F (event_writes n events) h"
    by (simp add: event_writes_def writes_def fold_map comp_def case_prod_unfold a del: One_nat_def)
  then show ?thesis by (simp add: hash_block_def hash_vec_def block_writes_def a del: One_nat_def)
qed

lemma hash_region_writes:
  "hash_region F blocks (fs_child F (fs_root F) 1) h =
    writes F (region_writes blocks @ [(HLen (length blocks), [1, 0])]) h"
proof -
  have a: "fs_child F (fs_child F (fs_root F) 1) 0 = address_of F [1, 0]"
    "fs_child F (address_of F [1, 0]) n = address_of F [1, 0, n]" for n
    by (simp_all add: address_of_def)
  have "fold (\<lambda>(i, x). hash_block F x (fs_child F (address_of F [1, 0]) i)) (enumerate 0 blocks) h =
      writes F (region_writes blocks) h"
  proof (induction blocks rule: rev_induct)
    case (snoc es bs)
    then show ?case by (simp add: enumerate_snoc region_writes_snoc a hash_block_writes del: One_nat_def)
  qed (simp add: region_writes_def)
  then show ?thesis by (simp add: hash_region_def hash_vec_def a del: One_nat_def)
qed

subsection \<open>The streams of a block\<close>

text \<open>
  The history of a region in a block: its events, with an error for each failed trigger that counts the events since the
  handler started, and where the last handler started.
\<close>

fun region_call :: "'e poi_call \<Rightarrow> 'e poi_event list \<times> nat \<Rightarrow> 'e poi_event list \<times> nat" where
  "region_call (StartHandler cr) (es, start) = (es, length es)"
| "region_call (WriteEvent cr e) (es, start) = (es @ [e], start)"
| "region_call (FailedTrigger cr) (es, start) = (es @ [DeterministicError (length es - start)], start)"

definition region_history :: "string \<Rightarrow> 'e poi_call list \<Rightarrow> 'e poi_event list \<times> nat" where
  "region_history cr calls = fold region_call (filter (\<lambda>c. call_region c = cr) calls) ([], 0)"

definition region_events :: "string \<Rightarrow> 'e poi_call list \<Rightarrow> 'e poi_event list" where
  "region_events cr calls = fst (region_history cr calls)"

definition touches :: "string \<Rightarrow> 'e poi_call list \<Rightarrow> bool" where
  "touches cr calls \<longleftrightarrow> list_ex (\<lambda>c. call_region c = cr) calls"

definition stream_of :: "('a, 'e, 'h, 's, 'l) hash_env \<Rightarrow> nat \<Rightarrow> 'e poi_event list \<times> nat \<Rightarrow> ('h, 'l) block_event_stream" where
  "stream_of E n h = (fold (stream_write E) (fst h) (stream_new E n FastVersion))\<lparr>es_handler_start := snd h\<rparr>"

lemma stream_write_start: "stream_write E e (s\<lparr>es_handler_start := k\<rparr>) = (stream_write E e s)\<lparr>es_handler_start := k\<rparr>"
  by (simp add: stream_write_def)

lemma stream_of_steps:
  "stream_of E n (es, k)\<lparr>es_handler_start := j\<rparr> = stream_of E n (es, j)"
  "stream_write E e (stream_of E n (es, k)) = stream_of E n (es @ [e], k)"
  "stream_of E n ([], 0) = stream_new E n FastVersion"
  by (simp_all add: stream_of_def stream_write_start) (simp add: stream_new_def)

lemma stream_of_spec:
  "es_vec_length (stream_of E n (es, k)) = length es" "es_block_index (stream_of E n (es, k)) = n"
  "es_hasher (stream_of E n (es, k)) = Fast (writes (he_fast E) (event_writes n es) (fs_new (he_fast E)))"
  "es_handler_start (stream_of E n (es, k)) = k"
proof (induction es rule: rev_induct)
  case (snoc e es)
  note * = stream_of_steps(2)[of E e n es k, symmetric]
  { case 1 show ?case using snoc by (simp add: * stream_write_def) }
  { case 2 show ?case using snoc by (simp add: * stream_write_def) }
  { case 3 show ?case using snoc by (simp add: * stream_write_def event_writes_snoc) }
  { case 4 show ?case using snoc by (simp add: * stream_write_def) }
qed (simp_all add: stream_of_def stream_new_def event_writes_def hashers_new_def)

text \<open>A call changes the stream of its region as it changes the history.\<close>

lemma run_poi_call_spec:
  assumes "region_stream E (call_region c) poi = stream_of E n h"
  shows "map_of (pi_per_causality_region (run_poi_call E c poi)) =
      (map_of (pi_per_causality_region poi))(call_region c \<mapsto> stream_of E n (region_call c h))"
    and "distinct (map fst (pi_per_causality_region poi)) \<Longrightarrow> distinct (map fst (pi_per_causality_region (run_poi_call E c poi)))"
    and "pi_block_number (run_poi_call E c poi) = pi_block_number poi \<and> pi_version (run_poi_call E c poi) = pi_version poi"
proof goal_cases
  case 1
  obtain es k where h: "h = (es, k)" by (cases h)
  show ?case using assms
    by (cases c) (auto simp: h poi_start_handler_def poi_write_def poi_write_deterministic_error_def with_causality_region_def update_conv'
      stream_start_handler_def stream_of_steps stream_of_spec region_stream_def Let_def fun_eq_iff)
next
  case 2
  then show ?case
    by (cases c) (simp_all add: poi_start_handler_def poi_write_def poi_write_deterministic_error_def with_causality_region_def distinct_update Let_def)
next
  case 3
  show ?case
    by (cases c) (simp_all add: poi_start_handler_def poi_write_def poi_write_deterministic_error_def with_causality_region_def Let_def)
qed

lemma poi_streams:
  shows "map_of (pi_per_causality_region (block_poi E FastVersion n calls)) cr =
      (if touches cr calls then Some (stream_of E n (region_history cr calls)) else None)"
    and "distinct (map fst (pi_per_causality_region (block_poi E FastVersion n calls)))"
    and "pi_block_number (block_poi E FastVersion n calls) = n \<and> pi_version (block_poi E FastVersion n calls) = FastVersion"
proof (induction calls arbitrary: cr rule: rev_induct)
  case (snoc c cs)
  let ?poi = "block_poi E FastVersion n"
  have step: "?poi (cs @ [c]) = run_poi_call E c (?poi cs)" by (simp add: block_poi_def)
  have "\<not> touches (call_region c) cs \<Longrightarrow> region_history (call_region c) cs = ([], 0)"
    by (simp add: touches_def region_history_def list_ex_iff filter_empty_conv)
  then have "region_stream E (call_region c) (?poi cs) = stream_of E n (region_history (call_region c) cs)"
    using snoc(1)[of "call_region c"] snoc(3) by (auto simp: region_stream_def stream_of_steps)
  note spec = run_poi_call_spec[OF this]
  { case 1
    show ?case using snoc(1)[of cr] by (auto simp: step spec(1) touches_def region_history_def) }
  { case 2 show ?case using snoc(2) spec(2) by (simp add: step) }
  { case 3 show ?case using snoc(3) spec(3) by (simp add: step) }
qed (simp_all add: block_poi_def poi_new_def touches_def)

subsection \<open>The stored hashes\<close>

lemma fold_streams:
  "distinct (map fst ss) \<Longrightarrow>
    fold (\<lambda>(name, stream) db. db(name \<mapsto> stream_pause E (db name) stream)) ss db cr =
    (case map_of ss cr of None \<Rightarrow> db cr | Some s \<Rightarrow> Some (stream_pause E (db cr) s))"
proof (induction ss arbitrary: db)
  case (Cons x ss)
  obtain name s where x: "x = (name, s)" by (cases x)
  have "map_of ss name = None" using Cons.prems by (simp add: x map_of_eq_None_iff)
  then show ?case using Cons by (auto simp: x split: option.split)
qed simp

lemma store_streams_spec:
  "distinct (map fst (pi_per_causality_region poi)) \<Longrightarrow> store_streams E poi db cr =
    (case map_of (pi_per_causality_region poi) cr of None \<Rightarrow> db cr | Some s \<Rightarrow> Some (stream_pause E (db cr) s))"
  unfolding store_streams_def by (rule fold_streams)

lemma stream_pause_spec:
  assumes "fast_hasher_laws (he_fast E)"
    and "prev = None \<and> g = fs_new (he_fast E) \<or> prev = Some (fs_to_bytes (he_fast E) g)"
  shows "stream_pause E prev (stream_of E n (events, k)) =
    fs_to_bytes (he_fast E) (writes (he_fast E) (block_writes n events) g)"
proof -
  let ?F = "he_fast E"
  have h: "hashers_write E (HLen (length events)) [1, 0, n, 0] (es_hasher (stream_of E n (events, k))) =
      Fast (writes ?F (block_writes n events) (fs_new ?F))"
    by (simp add: stream_of_spec(3) block_writes_def)
  show ?thesis
  proof (cases prev)
    case None
    then show ?thesis using assms(2) h by (simp add: stream_pause_def stream_of_spec(1,2))
  next
    case (Some p)
    then have "fs_from_bytes ?F p = g" "length p = STABLE_HASH_LEN"
      using assms by (auto simp: fast_hasher_laws_def)
    then show ?thesis using h Some writes_mixin[OF assms(1), of "block_writes n events" g]
      by (simp add: stream_pause_def stream_of_spec(1,2))
  qed
qed

lemma empty_block_writes: "fast_hasher_laws F \<Longrightarrow> writes F (block_writes n []) h = h"
  by (simp add: block_writes_def event_writes_def fast_hasher_laws_def)

text \<open>After some blocks, the stored hash of a region is that of all its blocks; it is there if a trigger of the region was processed.\<close>

definition region_blocks :: "string \<Rightarrow> 'e poi_call list list \<Rightarrow> 'e poi_event list list" where
  "region_blocks cr blocks = map (region_events cr) blocks"

definition touched :: "string \<Rightarrow> 'e poi_call list list \<Rightarrow> bool" where
  "touched cr blocks \<longleftrightarrow> list_ex (touches cr) blocks"

lemma untouched_events: "\<not> touches cr calls \<Longrightarrow> region_events cr calls = []"
  by (simp add: touches_def region_events_def region_history_def list_ex_iff filter_empty_conv)

lemma index_chain_spec:
  assumes laws: "fast_hasher_laws (he_fast E)"
  shows "index_chain E FastVersion blocks cr =
      (if touched cr blocks
       then Some (fs_to_bytes (he_fast E) (writes (he_fast E) (region_writes (region_blocks cr blocks)) (fs_new (he_fast E))))
       else None)"
    and "\<not> touched cr blocks \<Longrightarrow>
      writes (he_fast E) (region_writes (region_blocks cr blocks)) (fs_new (he_fast E)) = fs_new (he_fast E)"
proof (induction blocks rule: rev_induct)
  case Nil
  { case 1 show ?case by (simp add: index_chain_def touched_def region_blocks_def) }
  { case 2 show ?case by (simp add: region_blocks_def region_writes_def) }
next
  case (snoc calls blocks)
  let ?F = "he_fast E" and ?n = "length blocks" and ?es = "region_events cr calls"
  have regions: "region_writes (region_blocks cr (blocks @ [calls])) =
      region_writes (region_blocks cr blocks) @ block_writes ?n ?es"
    by (simp add: region_blocks_def region_writes_snoc)
  have has: "touched cr (blocks @ [calls]) \<longleftrightarrow> touched cr blocks \<or> touches cr calls"
    by (auto simp: touched_def)
  obtain k where h: "region_history cr calls = (?es, k)" by (cases "region_history cr calls") (simp add: region_events_def)
  have "index_chain E FastVersion (blocks @ [calls]) cr =
      store_streams E (block_poi E FastVersion ?n calls) (index_chain E FastVersion blocks) cr"
    by (simp add: index_chain_def index_block_def enumerate_snoc)
  then have step: "index_chain E FastVersion (blocks @ [calls]) cr =
      (if touches cr calls then Some (stream_pause E (index_chain E FastVersion blocks cr) (stream_of E ?n (?es, k)))
       else index_chain E FastVersion blocks cr)"
    by (simp add: store_streams_spec[OF poi_streams(2)] poi_streams(1) h)
  { case 1
    show ?case
    proof (cases "touches cr calls")
      case False
      then show ?thesis using snoc(1) step has regions empty_block_writes[OF laws] untouched_events[OF False] by simp
    next
      case True
      have "stream_pause E (index_chain E FastVersion blocks cr) (stream_of E ?n (?es, k)) =
          fs_to_bytes ?F (writes ?F (block_writes ?n ?es) (writes ?F (region_writes (region_blocks cr blocks)) (fs_new ?F)))"
        by (rule stream_pause_spec[OF laws]) (use snoc in \<open>auto split: if_splits\<close>)
      then show ?thesis using True step has regions by simp
    qed }
  { case 2
    then have none: "\<not> touched cr blocks" "\<not> touches cr calls" using has by simp_all
    show ?case using snoc(2) none regions empty_block_writes[OF laws] untouched_events[OF none(2)] by simp }
qed

subsection \<open>The digest\<close>

definition reference_of :: "string list \<Rightarrow> 'e poi_call list list \<Rightarrow> nat list \<Rightarrow> string \<Rightarrow> nat list option \<Rightarrow> 'e ref_poi" where
  "reference_of names blocks block_hash subgraph_id indexer =
     \<lparr>rp_causality_regions = map (\<lambda>cr. (cr, region_blocks cr blocks)) (filter (\<lambda>cr. touched cr blocks) names),
      rp_subgraph_id = subgraph_id, rp_block_hash = block_hash, rp_indexer = indexer\<rparr>"

definition region_entry :: "('a, 'e, 'h) fast_hasher \<Rightarrow> string \<Rightarrow> 'e poi_event list list \<Rightarrow> nat list" where
  "region_entry F cr blocks = fs_to_bytes F
     (writes F (region_writes blocks @ [(HLen (length blocks), [1, 0]), (HStr cr, [0])]) (fs_new F))"

lemma hash_regions_entries:
  assumes "fast_hasher_laws F"
  shows "hash_regions F regions (fs_child F (fs_root F) 0) h =
    writes F (map (\<lambda>(cr, blocks). (HBytes (region_entry F cr blocks), [0])) regions) h"
proof -
  have entry: "hash_region F blocks (fs_child F (fs_root F) 1) (fs_hash F (HStr cr) (fs_child F (fs_root F) 0) (fs_new F)) =
      writes F (region_writes blocks @ [(HLen (length blocks), [1, 0]), (HStr cr, [0])]) (fs_new F)" for cr blocks
  proof -
    have "fs_hash F (HStr cr) (fs_child F (fs_root F) 0) (fs_new F) = writes F [(HStr cr, [0])] (fs_new F)"
      by (simp add: address_of_def)
    then have "hash_region F blocks (fs_child F (fs_root F) 1) (fs_hash F (HStr cr) (fs_child F (fs_root F) 0) (fs_new F)) =
        writes F ([(HStr cr, [0])] @ region_writes blocks @ [(HLen (length blocks), [1, 0])]) (fs_new F)"
      by (simp only: hash_region_writes writes_simps(3))
    also have "\<dots> = writes F (region_writes blocks @ [(HLen (length blocks), [1, 0]), (HStr cr, [0])]) (fs_new F)"
      by (rule writes_permuted[OF assms]) simp
    finally show ?thesis .
  qed
  have "fs_child F (fs_root F) 0 = address_of F [0]" by (simp add: address_of_def)
  then show ?thesis
    unfolding hash_regions_def entry by (induction regions arbitrary: h) (auto simp: region_entry_def)
qed

lemma finisher_regions:
  assumes laws: "fast_hasher_laws (he_fast E)" and "fi_block_number fin + 1 = length blocks" and "fi_state fin = Fast h"
  shows "fi_state (fold (\<lambda>name. case index_chain E FastVersion blocks name of None \<Rightarrow> id
      | Some region \<Rightarrow> add_causality_region E name region) names fin) =
    Fast (writes (he_fast E) (map (\<lambda>cr. (HBytes (region_entry (he_fast E) cr (region_blocks cr blocks)), [0]))
      (filter (\<lambda>cr. touched cr blocks) names)) h)"
  using assms(2,3)
proof (induction names arbitrary: fin h)
  case (Cons cr names)
  let ?F = "he_fast E" and ?bs = "region_blocks cr blocks"
  show ?case
  proof (cases "touched cr blocks")
    case False
    then show ?thesis using Cons index_chain_spec(1)[OF laws, of blocks cr] by simp
  next
    case True
    let ?region = "fs_to_bytes ?F (writes ?F (region_writes ?bs) (fs_new ?F))"
    have db: "index_chain E FastVersion blocks cr = Some ?region"
      using index_chain_spec(1)[OF laws, of blocks cr] True by simp
    have resumed: "hashers_from_bytes E ?region = Fast (writes ?F (region_writes ?bs) (fs_new ?F))"
      using laws by (simp add: hashers_from_bytes_def fast_hasher_laws_def)
    have len: "fi_block_number fin + 1 = length ?bs" using Cons.prems(1) by (simp add: region_blocks_def)
    let ?fin = "add_causality_region E cr ?region fin"
    have "fi_state ?fin = Fast (writes ?F [(HBytes (region_entry ?F cr ?bs), [0])] h)"
      unfolding add_causality_region_def resumed len Let_def
      by (simp add: Cons.prems(2) region_entry_def)
    moreover have "fi_block_number ?fin + 1 = length blocks"
      using Cons.prems(1) by (simp add: add_causality_region_def)
    ultimately show ?thesis using Cons.IH[of ?fin] db True by simp
  qed
qed simp

lemma online_is_reference:
  assumes laws: "fast_hasher_laws (he_fast E)" and ne: "blocks \<noteq> []"
  shows "online_digest E FastVersion names blocks block_hash subgraph_id indexer =
    reference_digest (he_fast E) (reference_of names blocks block_hash subgraph_id indexer)"
proof -
  let ?F = "he_fast E"
  let ?rs = "map (\<lambda>cr. (HBytes (region_entry ?F cr (region_blocks cr blocks)), [0])) (filter (\<lambda>cr. touched cr blocks) names)"
  let ?head = "[(HStr subgraph_id, [1]), (HBytes block_hash, [2]), (HOptBytes indexer, [3])]"
  let ?fin = "finisher_new E (length blocks - 1) block_hash subgraph_id indexer FastVersion"
  have "fi_state ?fin = Fast (writes ?F ?head (fs_new ?F))" "fi_block_number ?fin + 1 = length blocks"
    using ne by (simp add: finisher_new_def hashers_new_def Let_def del: One_nat_def)
      (use ne in \<open>cases blocks, simp_all add: finisher_new_def\<close>)
  then have online: "online_digest E FastVersion names blocks block_hash subgraph_id indexer =
      fs_digest ?F (writes ?F (?head @ ?rs) (fs_new ?F))"
    using finisher_regions[OF laws] by (simp add: online_digest_def finisher_finish_def Let_def del: One_nat_def)
  have a: "fs_child ?F (fs_root ?F) i = address_of ?F [i]" for i by (simp add: address_of_def)
  have "hash_regions ?F (rp_causality_regions (reference_of names blocks block_hash subgraph_id indexer)) (fs_child ?F (fs_root ?F) 0) (fs_new ?F) =
      writes ?F ?rs (fs_new ?F)"
    by (simp add: hash_regions_entries[OF laws] reference_of_def comp_def)
  then have "reference_digest ?F (reference_of names blocks block_hash subgraph_id indexer) =
      fs_digest ?F (writes ?F (?rs @ ?head) (fs_new ?F))"
    unfolding reference_digest_def by (simp add: a reference_of_def)
  moreover have "writes ?F (?rs @ ?head) (fs_new ?F) = writes ?F (?head @ ?rs) (fs_new ?F)"
    by (rule writes_permuted[OF laws]) simp
  ultimately show ?thesis using online by simp
qed

end
