(* ===== verification/Host_Exports.thy ===== *)
theory Host_Exports
  imports Block_State Proof_Of_Indexing
begin

text \<open>
  The host functions that handlers call to reach the store and to create data sources,
  \<open>runtime/wasm/src/host_exports.rs\<close>, with the gas they use, \<open>graph/src/runtime/gas/\<close>. They act on the block
  state and on the proof of indexing. Conversions from and to the memory of the guest are not modelled.
\<close>

section \<open>Gas\<close>

text \<open>Gas is a \<open>u64\<close> with saturating arithmetic.\<close>

definition GAS_MAX :: nat where
  "GAS_MAX = 2 ^ 64 - 1"

definition gas_add :: "nat \<Rightarrow> nat \<Rightarrow> nat" where
  "gas_add a b = min (a + b) GAS_MAX"

definition gas_mul :: "nat \<Rightarrow> nat \<Rightarrow> nat" where
  "gas_mul a b = min (a * b) GAS_MAX"

definition CONST_MAX_GAS_PER_HANDLER :: nat where
  "CONST_MAX_GAS_PER_HANDLER = 1000 * 10000000000"

definition HOST_EXPORT_GAS :: nat where
  "HOST_EXPORT_GAS = 10000"

record gas_op =
  go_base_cost :: nat
  go_size_mult :: nat

definition with_args :: "gas_op \<Rightarrow> nat \<Rightarrow> nat" where
  "with_args op gas_size = gas_add (go_base_cost op) (gas_mul gas_size (go_size_mult op))"

definition STORE_SET_GAS :: gas_op where
  "STORE_SET_GAS = \<lparr>go_base_cost = CONST_MAX_GAS_PER_HANDLER div 250000,
     go_size_mult = CONST_MAX_GAS_PER_HANDLER div 1000000000\<rparr>"

definition STORE_GET_GAS :: gas_op where
  "STORE_GET_GAS = \<lparr>go_base_cost = CONST_MAX_GAS_PER_HANDLER div 10000000,
     go_size_mult = CONST_MAX_GAS_PER_HANDLER div 10000000000\<rparr>"

definition STORE_REMOVE_GAS :: gas_op where
  "STORE_REMOVE_GAS = STORE_SET_GAS"

definition CREATE_DATA_SOURCE_GAS :: nat where
  "CREATE_DATA_SOURCE_GAS = CONST_MAX_GAS_PER_HANDLER div 100000"

datatype host_export_error = HUnknown string | HPossibleReorg string | HDeterministic string

fun error_text :: "host_export_error \<Rightarrow> string" where
  "error_text (HUnknown m) = m"
| "error_text (HPossibleReorg m) = m"
| "error_text (HDeterministic m) = m"

text \<open>The counter after the host function, and whether the limit is reached. A gas error counts as unknown.\<close>

definition consume_host_fn :: "nat \<Rightarrow> nat \<Rightarrow> nat \<Rightarrow> nat \<times> bool" where
  "consume_host_fn max_gas_per_handler amount counter =
     (let new = gas_add counter (gas_add amount HOST_EXPORT_GAS) in (new, max_gas_per_handler \<le> new))"

section \<open>Ids as text\<close>

definition hex_digit :: "nat \<Rightarrow> char" where
  "hex_digit n = ''0123456789abcdef'' ! n"

definition hex_encode :: "nat list \<Rightarrow> string" where
  "hex_encode bs = concat (map (\<lambda>b. [hex_digit (b div 16), hex_digit (b mod 16)]) bs)"

definition hex_value :: "char \<Rightarrow> nat option" where
  "hex_value c = (let n = of_char c :: nat in
     if 48 \<le> n \<and> n \<le> 57 then Some (n - 48)
     else if 97 \<le> n \<and> n \<le> 102 then Some (n - 87)
     else if 65 \<le> n \<and> n \<le> 70 then Some (n - 55) else None)"

fun hex_decode :: "string \<Rightarrow> nat list option" where
  "hex_decode [] = Some []"
| "hex_decode [c] = None"
| "hex_decode (c # d # s) =
     (case (hex_value c, hex_value d, hex_decode s) of
        (Some x, Some y, Some bs) \<Rightarrow> Some ((16 * x + y) # bs)
      | _ \<Rightarrow> None)"

fun trim_0x_prefix :: "string \<Rightarrow> string" where
  "trim_0x_prefix (c # d # s) = (if [c, d] = ''0x'' then trim_0x_prefix s else c # d # s)"
| "trim_0x_prefix s = s"

text \<open>\<open>parse_i64\<close> and \<open>show_i64\<close> are the conversions of the standard library.\<close>

definition id_to_string :: "(int \<Rightarrow> string) \<Rightarrow> id \<Rightarrow> string" where
  "id_to_string show_i64 i =
     (case i of IdString s \<Rightarrow> s | IdBytes b \<Rightarrow> ''0x'' @ hex_encode b | IdInt8 n \<Rightarrow> show_i64 n)"

definition id_type_parse :: "(string \<Rightarrow> int option) \<Rightarrow> id_type \<Rightarrow> string \<Rightarrow> id option" where
  "id_type_parse parse_i64 t s =
     (case t of
        IdTypeString \<Rightarrow> Some (IdString s)
      | IdTypeBytes \<Rightarrow> map_option IdBytes (hex_decode (trim_0x_prefix s))
      | IdTypeInt8 \<Rightarrow> map_option IdInt8 (parse_i64 s))"

lemma hex_value_digit: "n < 16 \<Longrightarrow> hex_value (hex_digit n) = Some n"
proof -
  assume "n < 16"
  then have "n \<in> {0,1,2,3,4,5,6,7,8,9,10,11,12,13,14,15}"
    by (simp only: insert_iff empty_iff) presburger
  then show ?thesis by (auto simp: hex_value_def hex_digit_def)
qed

lemma hex_round_trip: "\<forall>b \<in> set bs. b < 256 \<Longrightarrow> hex_decode (hex_encode bs) = Some bs"
proof (induction bs)
  case (Cons b bs)
  then have "b div 16 < 16" "b mod 16 < 16" by auto
  then show ?case using Cons by (simp add: hex_encode_def hex_value_digit)
qed (simp add: hex_encode_def)

lemma hex_digit_not_x: "n < 16 \<Longrightarrow> hex_digit n \<noteq> CHR ''x''"
  using hex_value_digit[of n] by (auto simp: hex_value_def)

lemma trim_hex: "\<forall>b \<in> set bs. b < 256 \<Longrightarrow> trim_0x_prefix (''0x'' @ hex_encode bs) = hex_encode bs"
proof (cases bs)
  case (Cons b bs')
  moreover assume "\<forall>b \<in> set bs. b < 256"
  ultimately have "hex_digit (b mod 16) \<noteq> CHR ''x''" by (intro hex_digit_not_x) simp
  then show ?thesis by (simp add: Cons hex_encode_def)
qed (simp add: hex_encode_def)

lemma id_text_round_trip:
  assumes "case i of IdBytes bs \<Rightarrow> \<forall>b \<in> set bs. b < 256 | IdInt8 n \<Rightarrow> parse_i64 (show_i64 n) = Some n | _ \<Rightarrow> True"
  shows "id_type_parse parse_i64 (id_type_of i) (id_to_string show_i64 i) = Some i"
  using assms trim_hex hex_round_trip by (cases i) (simp_all add: id_type_parse_def id_to_string_def)

section \<open>The environment of the host functions\<close>

text \<open>
  What a host knows of its data source, and the rest of the environment: the cache, the hashes of
  the proof of indexing, the schema beyond what the cache asks of it, the sizes of arguments for the gas and its limit.
\<close>

record 'ont data_source_details =
  dd_api_version :: "nat \<times> nat \<times> nat"
  dd_name :: string
  dd_entity_type_access :: entity_type_access
  dd_templates :: "(string \<times> 'ont ds_template) list"
  dd_causality_region :: causality_region
  dd_poi_causality_region :: string

record ('q, 'a, 'h, 's, 'l) exports_env =
  xe_cache :: "'q cache_env"
  xe_pool :: pool_ref
  xe_hash :: "('a, entity, 'h, 's, 'l) hash_env"
  xe_known_type :: "string \<Rightarrow> bool"
  xe_is_timeseries :: "entity_type \<Rightarrow> bool"
  xe_id_type :: "entity_type \<Rightarrow> id_type option"
  xe_parse_i64 :: "string \<Rightarrow> int option"
  xe_show_i64 :: "int \<Rightarrow> string"
  xe_set_size :: "entity_key \<Rightarrow> (string \<times> store_value) list \<Rightarrow> nat"
  xe_key_size :: "entity_key \<Rightarrow> nat"
  xe_get_size :: "entity_key \<Rightarrow> entity option \<Rightarrow> nat"
  xe_related_size :: "load_related_request \<Rightarrow> entity list \<Rightarrow> nat"
  xe_max_gas :: nat

record ('q, 'ont, 'h, 'l) mapping_ctx =
  mc_state :: "('q, 'ont, subgraph_error) block_state"
  mc_poi :: "('h, 'l) shared_poi"
  mc_gas :: nat

text \<open>
  The outcome of a host function: a panic, or an error or a value, with the context. \<open>step\<close> continues after
  a value.
\<close>

type_synonym ('q, 'ont, 'h, 'l, 'r) outcome =
  "((host_export_error, 'r) result \<times> ('q, 'ont, 'h, 'l) mapping_ctx) option"

definition check :: "(host_export_error, 'r) result \<Rightarrow> ('q, 'ont, 'h, 'l) mapping_ctx
    \<Rightarrow> ('r \<Rightarrow> ('q, 'ont, 'h, 'l, 't) outcome) \<Rightarrow> ('q, 'ont, 'h, 'l, 't) outcome" where
  "check r ctx k = (case r of Inl e \<Rightarrow> Some (Inl e, ctx) | Inr x \<Rightarrow> k x)"

definition require :: "bool \<Rightarrow> host_export_error \<Rightarrow> (host_export_error, unit) result" where
  "require P e = (if P then Inr () else Inl e)"

definition of_option :: "host_export_error \<Rightarrow> 'r option \<Rightarrow> (host_export_error, 'r) result" where
  "of_option e x = (case x of None \<Rightarrow> Inl e | Some x \<Rightarrow> Inr x)"

definition track_gas :: "('q, 'a, 'h, 's, 'l) exports_env \<Rightarrow> nat \<Rightarrow> ('q, 'ont, 'h, 'l) mapping_ctx
    \<Rightarrow> (('q, 'ont, 'h, 'l) mapping_ctx \<Rightarrow> ('q, 'ont, 'h, 'l, 't) outcome) \<Rightarrow> ('q, 'ont, 'h, 'l, 't) outcome" where
  "track_gas E amount ctx k =
     (let (new, exceeded) = consume_host_fn (xe_max_gas E) amount (mc_gas ctx);
          ctx = ctx\<lparr>mc_gas := new\<rparr>
      in if exceeded then Some (Inl (HUnknown ''Gas limit exceeded''), ctx) else k ctx)"

definition set_cache :: "'q entity_cache \<Rightarrow> ('q, 'ont, 'h, 'l) mapping_ctx \<Rightarrow> ('q, 'ont, 'h, 'l) mapping_ctx" where
  "set_cache cache ctx = ctx\<lparr>mc_state := (mc_state ctx)\<lparr>bs_entity_cache := cache\<rparr>\<rparr>"

definition object_fields :: "('q, 'a, 'h, 's, 'l) exports_env \<Rightarrow> entity_type \<Rightarrow> field list option" where
  "object_fields E t = ce_object_type (xe_cache E) t"

definition has_field_with_name :: "('q, 'a, 'h, 's, 'l) exports_env \<Rightarrow> entity_type \<Rightarrow> string \<Rightarrow> bool" where
  "has_field_with_name E t name =
     (case object_fields E t of None \<Rightarrow> False | Some fs \<Rightarrow> name \<in> set (map f_name fs))"

definition check_entity_type_access :: "'ont data_source_details \<Rightarrow> entity_type \<Rightarrow> (host_export_error, unit) result" where
  "check_entity_type_access ds t =
     require (access_allows (dd_entity_type_access ds) t) (HDeterministic ''entity type is not on the entities list'')"

definition check_invalid_fields :: "('q, 'a, 'h, 's, 'l) exports_env \<Rightarrow> nat \<times> nat \<times> nat \<Rightarrow> (string \<times> store_value) list
    \<Rightarrow> entity_type \<Rightarrow> (host_export_error, unit) result" where
  "check_invalid_fields E api_version data t =
     (if (0, 0, 8) \<le> api_version \<and> list_ex (\<lambda>(name, _). \<not> has_field_with_name E t name) data
      then Inl (HDeterministic (''Attempted to set undefined fields '' @
             concat (sort (map fst (filter (\<lambda>(name, _). \<not> has_field_with_name E t name) data)))))
      else Inr ())"

definition expect_object_type :: "('q, 'a, 'h, 's, 'l) exports_env \<Rightarrow> entity_type \<Rightarrow> (host_export_error, unit) result" where
  "expect_object_type E t = require (object_fields E t \<noteq> None) (HDeterministic ''The type must be an @entity type'')"

definition schema_entity_type :: "('q, 'a, 'h, 's, 'l) exports_env \<Rightarrow> string \<Rightarrow> (host_export_error, entity_type) result" where
  "schema_entity_type E name = (if xe_known_type E name then Inr name else Inl (HUnknown ''unknown entity type''))"

definition parse_key_in :: "('q, 'a, 'h, 's, 'l) exports_env \<Rightarrow> entity_type \<Rightarrow> string \<Rightarrow> causality_region
    \<Rightarrow> (host_export_error, entity_key) result" where
  "parse_key_in E t id_text cr =
     of_option (HUnknown ''can not parse the id'')
       (map_option (\<lambda>i. \<lparr>key_type = t, key_id = i, key_causality_region = cr\<rparr>)
          (Option.bind (xe_id_type E t) (\<lambda>ty. id_type_parse (xe_parse_i64 E) ty id_text)))"

section \<open>Writing\<close>

text \<open>The id and the data with it: generated for the id \<open>auto\<close> and for timeseries.\<close>

definition set_id :: "('q, 'a, 'h, 's, 'l) exports_env \<Rightarrow> 'ont data_source_details \<Rightarrow> block_number \<Rightarrow> entity_type \<Rightarrow> string
    \<Rightarrow> (string \<times> store_value) list \<Rightarrow> ('q, 'ont, 'h, 'l) mapping_ctx
    \<Rightarrow> (host_export_error, string \<times> (string \<times> store_value) list) result \<times> ('q, 'ont, 'h, 'l) mapping_ctx" where
  "set_id E ds block t id_text data ctx =
     (if id_text = ''auto'' \<or> xe_is_timeseries E t
      then if dd_causality_region ds \<noteq> CR_ONCHAIN
           then (Inl (HUnknown ''Autogenerated IDs are only supported for onchain data sources''), ctx)
           else (case xe_id_type E t of
                   None \<Rightarrow> (Inl (HUnknown ''the type of the id''), ctx)
                 | Some id_type \<Rightarrow>
                     (case cache_generate_id id_type block (bs_entity_cache (mc_state ctx)) of
                        (Inl _, cache) \<Rightarrow> (Inl (HUnknown ''String does not support generating ids''), set_cache cache ctx)
                      | (Inr i, cache) \<Rightarrow>
                          (Inr (id_to_string (xe_show_i64 E) i, AList.update ID (value_from_id i) data), set_cache cache ctx)))
      else (Inr (id_text, data), ctx))"

definition check_set_id :: "entity_key \<Rightarrow> (string \<times> store_value) list
    \<Rightarrow> (host_export_error, (string \<times> store_value) list) result" where
  "check_set_id key data =
     (case map_of data ID of
        Some v \<Rightarrow>
          if id_eq_value (key_id key) v then Inr data
          else if value_type_name v \<noteq> id_type_as_str (id_type_of (key_id key))
          then Inl (HUnknown ''Attribute id has wrong type'')
          else Inl (HUnknown ''Value of attribute id conflicts with ID passed to store.set'')
      | None \<Rightarrow> Inr (AList.update ID (value_from_id (key_id key)) data))"

definition store_set :: "('q, 'a, 'h, 's, 'l) exports_env \<Rightarrow> 'ont data_source_details \<Rightarrow> block_number \<Rightarrow> block_time
    \<Rightarrow> string \<Rightarrow> string \<Rightarrow> (string \<times> store_value) list \<Rightarrow> ('q, 'ont, 'h, 'l) mapping_ctx
    \<Rightarrow> ('q, 'ont, 'h, 'l, unit) outcome" where
  "store_set E ds block time type_name id_text data ctx =
     check (schema_entity_type E type_name) ctx (\<lambda>t.
     check (expect_object_type E t) ctx (\<lambda>_.
     (case set_id E ds block t id_text data ctx of (r, ctx) \<Rightarrow>
     check r ctx (\<lambda>(id_text, data).
     check (parse_key_in E t id_text (dd_causality_region ds)) ctx (\<lambda>key.
     check (check_entity_type_access ds t) ctx (\<lambda>_.
     track_gas E (with_args STORE_SET_GAS (xe_set_size E key data)) ctx (\<lambda>ctx.
     let data = (if xe_is_timeseries E t then AList.update ''timestamp'' (VTimestamp time) data else data) in
     check (check_set_id key data) ctx (\<lambda>data.
     check (check_invalid_fields E (dd_api_version ds) data t) ctx (\<lambda>_.
     (case entity_make (xe_pool E) (filter (\<lambda>(name, _). has_field_with_name E t name) data) of
        Inl e \<Rightarrow> Some (Inl (HDeterministic ''the entity is not valid''), ctx)
      | Inr entity \<Rightarrow>
          let ctx = ctx\<lparr>mc_poi := write_event (xe_hash E)
                (SetEntity t (id_to_string (xe_show_i64 E) (key_id key)) entity) (dd_poi_causality_region ds) (mc_poi ctx)\<rparr>
          in map_option (\<lambda>(r, left, cache).
                 ((case r of Inl e \<Rightarrow> Inl (HUnknown ''entity_cache.set'') | Inr u \<Rightarrow> Inr ()),
                  ctx\<lparr>mc_state := (mc_state ctx)\<lparr>bs_entity_cache := cache,
                       bs_write_capacity_remaining := (case left of None \<Rightarrow> bs_write_capacity_remaining (mc_state ctx) | Some n \<Rightarrow> n)\<rparr>\<rparr>))
               (cache_set (xe_cache E) key entity block (Some (bs_write_capacity_remaining (mc_state ctx)))
                  (bs_entity_cache (mc_state ctx)))))))))))))"

text \<open>\<open>store_remove\<close> writes its event before any check.\<close>

definition store_remove :: "('q, 'a, 'h, 's, 'l) exports_env \<Rightarrow> 'ont data_source_details \<Rightarrow> string \<Rightarrow> string
    \<Rightarrow> ('q, 'ont, 'h, 'l) mapping_ctx \<Rightarrow> ('q, 'ont, 'h, 'l, unit) outcome" where
  "store_remove E ds type_name id_text ctx =
     (let ctx = ctx\<lparr>mc_poi := write_event (xe_hash E) (RemoveEntity type_name id_text) (dd_poi_causality_region ds) (mc_poi ctx)\<rparr> in
     check (schema_entity_type E type_name) ctx (\<lambda>t.
     check (expect_object_type E t) ctx (\<lambda>_.
     check (parse_key_in E t id_text (dd_causality_region ds)) ctx (\<lambda>key.
     check (check_entity_type_access ds t) ctx (\<lambda>_.
     track_gas E (with_args STORE_REMOVE_GAS (xe_key_size E key)) ctx (\<lambda>ctx.
     map_option (\<lambda>cache. (Inr (), set_cache cache ctx)) (cache_remove key (bs_entity_cache (mc_state ctx)))))))))"

section \<open>Reading\<close>

text \<open>
  The two functions return an \<open>anyhow::Error\<close>. The \<open>?\<close> in \<open>context.rs\<close> makes it an error of unknown origin,
  whatever it was before: that the access to the type is denied is not a deterministic error here.
\<close>

definition through_anyhow :: "('q, 'ont, 'h, 'l, 'r) outcome \<Rightarrow> ('q, 'ont, 'h, 'l, 'r) outcome" where
  "through_anyhow out =
     map_option (\<lambda>(r, ctx). (case r of Inl e \<Rightarrow> Inl (HUnknown (error_text e)) | Inr x \<Rightarrow> Inr x, ctx)) out"

definition store_get :: "('q, 'a, 'h, 's, 'l) exports_env \<Rightarrow> 'ont data_source_details \<Rightarrow> string \<Rightarrow> string \<Rightarrow> get_scope
    \<Rightarrow> ('q, 'ont, 'h, 'l) mapping_ctx \<Rightarrow> ('q, 'ont, 'h, 'l, entity option) outcome" where
  "store_get E ds type_name id_text scope ctx = through_anyhow (
     check (schema_entity_type E type_name) ctx (\<lambda>t.
     check (expect_object_type E t) ctx (\<lambda>_.
     check (parse_key_in E t id_text (dd_causality_region ds)) ctx (\<lambda>key.
     check (check_entity_type_access ds t) ctx (\<lambda>_.
     (case cache_get (xe_cache E) key scope (bs_entity_cache (mc_state ctx)) of
        None \<Rightarrow> None
      | Some (Inl e, cache) \<Rightarrow> Some (Inl (HUnknown ''entity_cache.get''), set_cache cache ctx)
      | Some (Inr result, cache) \<Rightarrow>
          track_gas E (with_args STORE_GET_GAS (xe_get_size E key result)) (set_cache cache ctx) (\<lambda>ctx.
          Some (Inr result, ctx))))))))"

definition store_load_related :: "('q, 'a, 'h, 's, 'l) exports_env \<Rightarrow> 'ont data_source_details \<Rightarrow> string \<Rightarrow> string \<Rightarrow> string
    \<Rightarrow> ('q, 'ont, 'h, 'l) mapping_ctx \<Rightarrow> ('q, 'ont, 'h, 'l, entity list) outcome" where
  "store_load_related E ds type_name id_text entity_field ctx = through_anyhow (
     check (schema_entity_type E type_name) ctx (\<lambda>t.
     check (parse_key_in E t id_text (dd_causality_region ds)) ctx (\<lambda>key.
     let store_key = \<lparr>lr_entity_type = key_type key, lr_entity_id = key_id key, lr_entity_field = entity_field,
                      lr_causality_region = dd_causality_region ds\<rparr> in
     check (check_entity_type_access ds t) ctx (\<lambda>_.
     (case load_related (xe_cache E) store_key (bs_entity_cache (mc_state ctx)) of
        None \<Rightarrow> None
      | Some (Inl e, cache) \<Rightarrow> Some (Inl (HUnknown ''entity_cache.load_related''), set_cache cache ctx)
      | Some (Inr result, cache) \<Rightarrow>
          track_gas E (with_args STORE_GET_GAS (xe_related_size E store_key result)) (set_cache cache ctx) (\<lambda>ctx.
          Some (Inr result, ctx)))))))"

section \<open>Creating data sources\<close>

definition data_source_create :: "('q, 'a, 'h, 's, 'l) exports_env \<Rightarrow> 'ont data_source_details \<Rightarrow> string \<Rightarrow> string list
    \<Rightarrow> string option \<Rightarrow> block_number \<Rightarrow> ('q, 'ont, 'h, 'l) mapping_ctx \<Rightarrow> ('q, 'ont, 'h, 'l, unit) outcome" where
  "data_source_create E ds name params context block ctx =
     track_gas E CREATE_DATA_SOURCE_GAS ctx (\<lambda>ctx.
     (case find (\<lambda>(n, _). n = name) (dd_templates ds) of
        None \<Rightarrow> Some (Inl (HDeterministic ''Failed to create data source from name''), ctx)
      | Some (_, template) \<Rightarrow>
          map_option (\<lambda>state. (Inr (), ctx\<lparr>mc_state := state\<rparr>))
            (push_created_data_source
               \<lparr>di_template = template, di_params = params, di_context = context, di_creation_block = block\<rparr>
               (mc_state ctx))))"

end
