(* ===== verification/Wasm_Handler.thy ===== *)
theory Wasm_Handler
  imports Host_Exports Subgraph_Instance
begin

text \<open>
  Running a handler, \<open>runtime/wasm/src/module/instance.rs\<close>, \<open>mapping.rs\<close> and \<open>host.rs\<close>. The guest
  is a tree of host calls that ends with a return or a trap; a guest that does not end is interrupted, so that every tree is finite along each of its paths.
\<close>

section \<open>Guests\<close>

datatype 'c host_call =
    StoreSet string string "(string \<times> store_value) list"
  | StoreRemove string string
  | StoreGet string string get_scope
  | StoreLoadRelated string string string
  | DataSourceCreate string "string list" "string option"
  | UseGas nat
  | OtherCall 'c

datatype 'r host_reply = NoReply | EntityReply "entity option" | EntitiesReply "entity list" | OtherReply 'r

text \<open>The traps of \<open>wasmtime\<close>; \<open>HostTrap\<close> is the error of a host function, with its text.\<close>

datatype wasm_trap =
    MemoryOutOfBounds | HeapMisaligned | TableOutOfBounds | IndirectCallToNull | BadSignature | IntegerOverflow
  | IntegerDivisionByZero | BadConversionToInteger | UnreachableCodeReached | Interrupt | StackOverflow | HostTrap string

datatype ('c, 'r) guest =
    Return
  | Trap wasm_trap
  | Call "'c host_call" "'r host_reply \<Rightarrow> ('c, 'r) guest"

definition is_trap_deterministic :: "wasm_trap \<Rightarrow> bool" where
  "is_trap_deterministic trap =
     (case trap of Interrupt \<Rightarrow> False | StackOverflow \<Rightarrow> False | HostTrap _ \<Rightarrow> False | _ \<Rightarrow> True)"

section \<open>Host calls\<close>

text \<open>
  The other host functions do not change the block state and are a parameter, as are the text of a trap and the
  handlers that a module exports, by name and argument.
\<close>

record ('q, 'a, 'h, 's, 'l, 'c, 'r, 'snd, 't) wasm_env =
  we_exports :: "('q, 'a, 'h, 's, 'l) exports_env"
  we_other :: "'c \<Rightarrow> (host_export_error, 'r) result"
  we_trap_text :: "wasm_trap \<Rightarrow> string"
  we_get_func :: "'snd \<Rightarrow> string \<Rightarrow> ('t \<Rightarrow> ('c, 'r) guest) option"

definition reply_with :: "('x \<Rightarrow> 'r host_reply) \<Rightarrow> ('q, 'ont, 'h, 'l, 'x) outcome \<Rightarrow> ('q, 'ont, 'h, 'l, 'r host_reply) outcome" where
  "reply_with f out = map_option (\<lambda>(r, ctx). (case r of Inl e \<Rightarrow> Inl e | Inr x \<Rightarrow> Inr (f x), ctx)) out"

text \<open>
  The imported function \<open>gas\<close> marks its trap in a flag of its own, which nothing reads, so that
  running out of gas is an error of unknown origin.
\<close>

fun run_call :: "('q, 'a, 'h, 's, 'l, 'c, 'r, 'snd, 't) wasm_env \<Rightarrow> 'ont data_source_details \<Rightarrow> block_number \<Rightarrow> block_time
    \<Rightarrow> 'c host_call \<Rightarrow> ('q, 'ont, 'h, 'l) mapping_ctx \<Rightarrow> ('q, 'ont, 'h, 'l, 'r host_reply) outcome" where
  "run_call W ds block time (StoreSet t i data) ctx =
     reply_with (\<lambda>_. NoReply) (store_set (we_exports W) ds block time t i data ctx)"
| "run_call W ds block time (StoreRemove t i) ctx = reply_with (\<lambda>_. NoReply) (store_remove (we_exports W) ds t i ctx)"
| "run_call W ds block time (StoreGet t i scope) ctx = reply_with EntityReply (store_get (we_exports W) ds t i scope ctx)"
| "run_call W ds block time (StoreLoadRelated t i field) ctx =
     reply_with EntitiesReply (store_load_related (we_exports W) ds t i field ctx)"
| "run_call W ds block time (DataSourceCreate name params context) ctx =
     reply_with (\<lambda>_. NoReply) (data_source_create (we_exports W) ds name params context block ctx)"
| "run_call W ds block time (UseGas amount) ctx = track_gas (we_exports W) amount ctx (\<lambda>ctx. Some (Inr NoReply, ctx))"
| "run_call W ds block time (OtherCall c) ctx =
     Some (case we_other W c of Inl e \<Rightarrow> Inl e | Inr r \<Rightarrow> Inr (OtherReply r), ctx)"

record ('q, 'ont, 'h, 'l) wasm_data =
  wd_ctx :: "('q, 'ont, 'h, 'l) mapping_ctx"
  wd_possible_reorg :: bool
  wd_deterministic_host_trap :: bool

definition flag_error :: "host_export_error \<Rightarrow> ('q, 'ont, 'h, 'l) wasm_data \<Rightarrow> ('q, 'ont, 'h, 'l) wasm_data" where
  "flag_error e d =
     (case e of
        HDeterministic _ \<Rightarrow> d\<lparr>wd_deterministic_host_trap := True\<rparr>
      | HPossibleReorg _ \<Rightarrow> d\<lparr>wd_possible_reorg := True\<rparr>
      | HUnknown _ \<Rightarrow> d)"

primrec run_guest :: "('q, 'a, 'h, 's, 'l, 'c, 'r, 'snd, 't) wasm_env \<Rightarrow> 'ont data_source_details \<Rightarrow> block_number \<Rightarrow> block_time
    \<Rightarrow> ('c, 'r) guest \<Rightarrow> ('q, 'ont, 'h, 'l) wasm_data
    \<Rightarrow> (wasm_trap option \<times> ('q, 'ont, 'h, 'l) wasm_data) option" where
  "run_guest W ds block time Return = (\<lambda>d. Some (None, d))"
| "run_guest W ds block time (Trap t) = (\<lambda>d. Some (Some t, d))"
| "run_guest W ds block time (Call c k) = (\<lambda>d.
     (case run_call W ds block time c (wd_ctx d) of
        None \<Rightarrow> None
      | Some (Inl e, ctx) \<Rightarrow> Some (Some (HostTrap (error_text e)), flag_error e (d\<lparr>wd_ctx := ctx\<rparr>))
      | Some (Inr r, ctx) \<Rightarrow> run_guest W ds block time (k r) (d\<lparr>wd_ctx := ctx\<rparr>)))"

section \<open>Invoking a handler\<close>

datatype mapping_error = PossibleReorgError string | UnknownError string

text \<open>Line breaks become tabs; the context of the error comes first.\<close>

definition handler_error :: "('q, 'a, 'h, 's, 'l, 'c, 'r, 'snd, 't) wasm_env \<Rightarrow> string \<Rightarrow> string option \<Rightarrow> block_ptr
    \<Rightarrow> wasm_trap \<Rightarrow> subgraph_error" where
  "handler_error W handler error_context ptr trap =
     \<lparr>se_message = map (\<lambda>c. if c = CHR 0x0A then CHR 0x09 else c)
        ((case error_context of None \<Rightarrow> '''' | Some c \<Rightarrow> c @ '': '') @ we_trap_text W trap),
      se_handler = Some handler, se_block_ptr = Some ptr, se_deterministic = True\<rparr>"

definition invoke_handler :: "('q, 'a, 'h, 's, 'l, 'c, 'r, 'snd, 't) wasm_env \<Rightarrow> 'ont data_source_details
    \<Rightarrow> 'snd \<Rightarrow> string \<Rightarrow> 't \<Rightarrow> string option \<Rightarrow> block_ptr \<Rightarrow> block_time \<Rightarrow> ('q, 'ont, 'h, 'l) wasm_data
    \<Rightarrow> ((mapping_error, ('q, 'ont, 'h, 'l) mapping_ctx) result) option" where
  "invoke_handler W ds sender handler arg error_context ptr time d =
     (let env = xe_cache (we_exports W);
          with_state = (\<lambda>d state. (wd_ctx d)\<lparr>mc_state := state\<rparr>);
          exit_with = (\<lambda>d err. map_option (\<lambda>_. Inl err) (bs_exit_handler env (mc_state (wd_ctx d))))
      in case we_get_func W sender handler of
           None \<Rightarrow> Some (Inl (UnknownError (''function not found'')))
         | Some func \<Rightarrow>
             (case bs_enter_handler (mc_state (wd_ctx d)) of
                None \<Rightarrow> None
              | Some state \<Rightarrow>
                  (case run_guest W ds (number ptr) time (func arg) (d\<lparr>wd_ctx := with_state d state\<rparr>) of
                     None \<Rightarrow> None
                   | Some (None, d) \<Rightarrow>
                       if wd_possible_reorg d \<or> wd_deterministic_host_trap d then None
                       else map_option (\<lambda>state. Inr (with_state d state)) (bs_exit_handler env (mc_state (wd_ctx d)))
                   | Some (Some trap, d) \<Rightarrow>
                       if wd_possible_reorg d then exit_with d (PossibleReorgError (we_trap_text W trap))
                       else if trap = Interrupt then exit_with d (UnknownError ''hit the timeout'')
                       else if is_trap_deterministic trap \<or> wd_deterministic_host_trap d
                       then map_option (\<lambda>state. Inr (with_state d state))
                              (bs_discard_changes (handler_error W handler error_context ptr trap) (mc_state (wd_ctx d)))
                       else exit_with d (UnknownError (we_trap_text W trap)))))"

text \<open>What a host knows of its data source; the version of the API and the name are parameters.\<close>

definition details_from_data_source :: "(string \<times> 'ont ds_template) list \<Rightarrow> ('on any_data_source \<Rightarrow> nat \<times> nat \<times> nat)
    \<Rightarrow> ('on any_data_source \<Rightarrow> string) \<Rightarrow> string \<Rightarrow> 'on any_data_source \<Rightarrow> 'ont data_source_details" where
  "details_from_data_source templates api_version name network ds =
     \<lparr>dd_api_version = api_version ds, dd_name = name ds, dd_entity_type_access = ds_entities ds,
      dd_templates = templates, dd_causality_region = causality_region_of ds,
      dd_poi_causality_region = ''ethereum/'' @ network\<rparr>"

text \<open>
  A request to the mapping thread makes a fresh instance of the module; a panic there is caught and
  becomes an error. The proof of indexing is shared, but after an error nobody looks at it any more.
\<close>

definition process_mapping_trigger :: "('q, 'a, 'h, 's, 'l, 'c, 'r, 'snd, 't) wasm_env \<Rightarrow> 'ont data_source_details
    \<Rightarrow> 'snd \<Rightarrow> 't trigger_with_handler \<Rightarrow> string option \<Rightarrow> block_time \<Rightarrow> ('q, 'ont, subgraph_error) block_state
    \<Rightarrow> ('h, 'l) shared_poi \<Rightarrow> (mapping_error, ('q, 'ont, subgraph_error) block_state \<times> ('h, 'l) shared_poi) result" where
  "process_mapping_trigger W ds sender trigger error_context time state poi =
     (case invoke_handler W ds sender (th_handler trigger) (th_trigger trigger) error_context (th_block_ptr trigger)
             (case th_timestamp trigger of None \<Rightarrow> time | Some t \<Rightarrow> t)
             \<lparr>wd_ctx = \<lparr>mc_state = state, mc_poi = poi, mc_gas = 0\<rparr>, wd_possible_reorg = False, wd_deterministic_host_trap = False\<rparr> of
        None \<Rightarrow> Inl (UnknownError ''Subgraph panicked'')
      | Some (Inl e) \<Rightarrow> Inl e
      | Some (Inr ctx) \<Rightarrow> Inr (mc_state ctx, mc_poi ctx))"

section \<open>What host calls do\<close>

text \<open>
  Every host call is a sequence of small steps: gas is used, an event goes to the region of the data
  source, the cache changes what belongs to the handler, the write capacity changes, a data source is created.
  If the pool of the schema is well-formed and has the word \<open>vid\<close>, the pending operations stay well-formed.
\<close>

definition pool_laws :: "('q, 'a, 'h, 's, 'l) exports_env \<Rightarrow> bool" where
  "pool_laws E \<longleftrightarrow> pool_ok (ref_pool (xe_pool E)) \<and> VID_FIELD \<in> words_of (xe_pool E)"

definition cache_frame :: "('q, 'a, 'h, 's, 'l) exports_env \<Rightarrow> 'q entity_cache \<Rightarrow> 'q entity_cache \<Rightarrow> bool" where
  "cache_frame E a b \<longleftrightarrow> ec_in_handler b = ec_in_handler a \<and> (ec_in_handler a \<longrightarrow> ec_updates b = ec_updates a)
     \<and> (pool_laws E \<and> updates_ok (xe_pool E) a \<longrightarrow> updates_ok (xe_pool E) b)"

lemma cache_frame_trans: "cache_frame E a b \<Longrightarrow> cache_frame E b c \<Longrightarrow> cache_frame E a c"
  by (simp add: cache_frame_def)

lemma updates_ok_seq [simp]: "updates_ok P (c\<lparr>ec_seq := n\<rparr>) = updates_ok P c"
  by (simp add: updates_ok_def)

inductive host_step :: "('q, 'a, 'h, 's, 'l) exports_env \<Rightarrow> string \<Rightarrow> ('q, 'ont, 'h, 'l) mapping_ctx
    \<Rightarrow> ('q, 'ont, 'h, 'l) mapping_ctx \<Rightarrow> bool" for E region where
  gas: "host_step E region ctx (ctx\<lparr>mc_gas := n\<rparr>)"
| event: "host_step E region ctx (ctx\<lparr>mc_poi := write_event (xe_hash E) e region (mc_poi ctx)\<rparr>)"
| cache: "cache_frame E (bs_entity_cache (mc_state ctx)) c \<Longrightarrow> host_step E region ctx (set_cache c ctx)"
| capacity: "host_step E region ctx (ctx\<lparr>mc_state := (mc_state ctx)\<lparr>bs_write_capacity_remaining := w\<rparr>\<rparr>)"
| create: "push_created_data_source ds (mc_state ctx) = Some s \<Longrightarrow> host_step E region ctx (ctx\<lparr>mc_state := s\<rparr>)"

abbreviation host_steps :: "('q, 'a, 'h, 's, 'l) exports_env \<Rightarrow> string \<Rightarrow> ('q, 'ont, 'h, 'l) mapping_ctx
    \<Rightarrow> ('q, 'ont, 'h, 'l) mapping_ctx \<Rightarrow> bool" where
  "host_steps E region \<equiv> (host_step E region)\<^sup>*\<^sup>*"

lemma host_steps_single: "host_step E region a b \<Longrightarrow> host_steps E region a b"
  by (rule r_into_rtranclp)

lemma host_steps_two: "host_step E region a b \<Longrightarrow> host_step E region b c \<Longrightarrow> host_steps E region a c"
  by (meson host_steps_single rtranclp_trans)

definition steps_only :: "('q, 'a, 'h, 's, 'l) exports_env \<Rightarrow> string \<Rightarrow> ('x \<times> ('q, 'ont, 'h, 'l) mapping_ctx) option
    \<Rightarrow> ('q, 'ont, 'h, 'l) mapping_ctx \<Rightarrow> bool" where
  "steps_only E region out ctx \<longleftrightarrow> (\<forall>r ctx'. out = Some (r, ctx') \<longrightarrow> host_steps E region ctx ctx')"

lemma steps_only_None: "steps_only E region None ctx"
  by (simp add: steps_only_def)

lemma steps_only_Some: "steps_only E region (Some (r, ctx)) ctx"
  by (simp add: steps_only_def)

lemma steps_only_seq: "host_steps E region ctx ctx' \<Longrightarrow> steps_only E region out ctx' \<Longrightarrow> steps_only E region out ctx"
  unfolding steps_only_def by (blast intro: rtranclp_trans)

lemma steps_only_step: "host_step E region ctx ctx' \<Longrightarrow> steps_only E region out ctx' \<Longrightarrow> steps_only E region out ctx"
  by (rule steps_only_seq) (rule r_into_rtranclp)

lemma steps_only_check: "(\<And>x. steps_only E region (k x) ctx) \<Longrightarrow> steps_only E region (check r ctx k) ctx"
  by (cases r) (simp_all add: check_def steps_only_Some)

lemma steps_only_gas:
  assumes "\<And>ctx'. steps_only E region (k ctx') ctx'"
  shows "steps_only E region (track_gas E n ctx k) ctx"
proof (cases "consume_host_fn (xe_max_gas E) n (mc_gas ctx)")
  case (Pair new exceeded)
  show ?thesis
    by (rule steps_only_step[OF host_step.gas[of _ _ _ new]])
       (simp add: track_gas_def Pair Let_def assms steps_only_Some)
qed

lemma cache_frame_read:
  assumes "(case read of
        Inl err \<Rightarrow> Some (Inl err, c)
      | Inr current \<Rightarrow>
          (case lfu_get q key current of
             (None, current) \<Rightarrow> None
           | (Some e, current) \<Rightarrow> Some (Inr e, c\<lparr>ec_current := current\<rparr>))) = Some (r, c')"
  shows "cache_frame E c c'"
proof (cases read)
  case (Inr current)
  obtain x current' where g: "lfu_get q key current = (x, current')" by (cases "lfu_get q key current")
  show ?thesis
  proof (cases x)
    case (Some e)
    have "c' = c\<lparr>ec_current := current'\<rparr>" using assms unfolding Inr by (simp add: g Some)
    then show ?thesis by (simp add: cache_frame_def)
  qed (use assms in \<open>unfold Inr, simp add: g\<close>)
next
  case (Inl err)
  have "c' = c" using assms unfolding Inl by simp
  then show ?thesis by (simp add: cache_frame_def)
qed

lemma cached_current_frame: "cached_current env key c = Some (r, c') \<Longrightarrow> cache_frame E c c'"
  unfolding cached_current_def Let_def by (rule cache_frame_read)

lemma cache_get_frame:
  assumes "cache_get env key scope c = Some (r, c')"
  shows "cache_frame E c c'"
proof -
  obtain x c1 where x: "(case scope of StoreScope \<Rightarrow> cached_current env key c | InBlock \<Rightarrow> Some (Inr None, c)) = Some (x, c1)"
    using assms by (cases "case scope of StoreScope \<Rightarrow> cached_current env key c | InBlock \<Rightarrow> Some (Inr None, c)")
      (auto simp: cache_get_def)
  have "c' = c1"
  proof (cases x)
    case (Inr b)
    then obtain y where "(case y of Inl e \<Rightarrow> Some (Inl e) | Inr e \<Rightarrow> apply_pending key (ec_handler_updates c1) e) = Some r \<and> c1 = c'"
      using assms by (auto simp: cache_get_def x bind_eq_Some_conv)
    then show ?thesis by simp
  qed (use assms in \<open>simp add: cache_get_def x\<close>)
  moreover have "cache_frame E c c1"
    using x by (cases scope) (auto dest: cached_current_frame simp: cache_frame_def)
  ultimately show ?thesis by simp
qed

lemma entity_op_frame:
  assumes "entity_op key op c = Some c'" and "pool_laws E \<Longrightarrow> op_ok (xe_pool E) op"
  shows "cache_frame E c c'"
proof -
  have "updates_ok (xe_pool E) c'" if "pool_laws E" "updates_ok (xe_pool E) c"
    using entity_op_spec[OF that(2) assms(2)[OF that(1)], of key] assms(1) by (metis option.inject)
  then show ?thesis using assms(1) by (auto simp: entity_op_def cache_frame_def split: if_splits)
qed

lemma load_related_frame:
  assumes "load_related env eref c = Some (r, c')"
  shows "cache_frame E c c'"
proof (cases "ce_field_related env eref")
  case (Inr tf)
  obtain t field where tf: "tf = (t, field)" by (cases tf)
  let ?q = "\<lparr>dq_entity_type = t, dq_entity_field = field, dq_value = lr_entity_id eref,
    dq_causality_region = lr_causality_region eref\<rparr>"
  show ?thesis
    using assms Inr tf by (cases "rs_get_derived (ce_store env) ?q") (auto simp: load_related_def Let_def cache_frame_def)
qed (use assms in \<open>simp add: load_related_def cache_frame_def\<close>)

lemma cache_set_frame:
  assumes "cache_set env key e block capacity c = Some (r, left, c')" and "pool_laws E \<Longrightarrow> entity_ok (xe_pool E) e"
  shows "cache_frame E c c'"
proof (cases "check_capacity env key e capacity c")
  case (Inl err)
  then show ?thesis using assms(1) by (simp add: cache_set_def cache_frame_def)
next
  case (Inr cap)
  let ?c = "c\<lparr>ec_vid_seq := ec_vid_seq c + 1\<rparr>"
  have vid: "cache_frame E c ?c" by (simp add: cache_frame_def)
  consider (set) e' old c1 where "set_vid (block_vid block (ec_vid_seq c)) e = Inr (old, e')"
      "entity_op key (UpdateOp e') ?c = Some c1" "c' = c1 \<or> (\<exists>x. read_back env key c1 = Some (x, c'))"
    | (vid_set) "c' = ?c"
    using assms(1) Inr
    by (auto simp: cache_set_def Let_def bind_eq_Some_conv split: sum.splits option.splits if_splits prod.splits)
  then show ?thesis
  proof cases
    case set
    have "op_ok (xe_pool E) (UpdateOp e')" if "pool_laws E"
      using set_vid_spec[OF assms(2)[OF that], of "block_vid block (ec_vid_seq c)"] that set(1) by (auto simp: pool_laws_def)
    from cache_frame_trans[OF vid entity_op_frame[OF set(2) this]] have c1: "cache_frame E c c1" by blast
    from set(3) show ?thesis
    proof
      assume "\<exists>x. read_back env key c1 = Some (x, c')"
      then obtain y where "cache_get env key StoreScope c1 = Some (y, c')"
        by (auto simp: read_back_def)
      from cache_frame_trans[OF c1 cache_get_frame[OF this]] show ?thesis .
    qed (simp add: c1)
  next
    case vid_set
    then show ?thesis using vid by simp
  qed
qed

text \<open>Rules for the control structure of a host function, tried in the order of the bundle \<open>steps_intros\<close>.\<close>

lemma steps_only_set_id:
  assumes "\<And>r ctx'. steps_only E region (k r ctx') ctx'"
  shows "steps_only E region (case set_id E ds block t id_text data ctx of (r, ctx') \<Rightarrow> k r ctx') ctx"
proof -
  obtain r ctx' where id: "set_id E ds block t id_text data ctx = (r, ctx')" by (cases "set_id E ds block t id_text data ctx")
  have "host_steps E region ctx ctx'"
  proof (cases "(id_text = ''auto'' \<or> xe_is_timeseries E t) \<and> dd_causality_region ds = CR_ONCHAIN \<and> xe_id_type E t \<noteq> None")
    case True
    then obtain ty where ty: "xe_id_type E t = Some ty" by blast
    obtain y cache where g: "cache_generate_id ty block (bs_entity_cache (mc_state ctx)) = (y, cache)"
      by (cases "cache_generate_id ty block (bs_entity_cache (mc_state ctx))")
    have ctx': "ctx' = set_cache cache ctx" using id True by (cases y) (simp_all add: set_id_def ty g)
    have "cache_frame E (bs_entity_cache (mc_state ctx)) cache"
      using g by (auto simp: cache_generate_id_def cache_frame_def split: sum.splits)
    then show ?thesis unfolding ctx' by (intro host_steps_single host_step.cache)
  next
    case False
    then have "ctx' = ctx" using id by (auto simp: set_id_def split: if_splits option.splits)
    then show ?thesis by simp
  qed
  from steps_only_seq[OF this assms] show ?thesis unfolding id prod.case .
qed

lemma steps_only_let_event:
  "(\<And>ctx'. steps_only E region (k ctx') ctx') \<Longrightarrow>
    steps_only E region (let ctx' = ctx\<lparr>mc_poi := write_event (xe_hash E) e region (mc_poi ctx)\<rparr> in k ctx') ctx"
  unfolding Let_def by (rule steps_only_step[OF host_step.event])

lemma steps_only_let: "(\<And>x. steps_only E region (k x) ctx) \<Longrightarrow> steps_only E region (let x = v in k x) ctx"
  unfolding Let_def .

lemma steps_only_prod: "(\<And>a b. steps_only E region (k a b) ctx) \<Longrightarrow> steps_only E region (case x of (a, b) \<Rightarrow> k a b) ctx"
  by (cases x) simp

lemma steps_only_sum:
  "(\<And>a. steps_only E region (f a) ctx) \<Longrightarrow> (\<And>b. steps_only E region (g b) ctx)
    \<Longrightarrow> steps_only E region (case x of Inl a \<Rightarrow> f a | Inr b \<Rightarrow> g b) ctx"
  by (cases x) simp_all

lemma steps_only_option:
  "steps_only E region f ctx \<Longrightarrow> (\<And>b. steps_only E region (g b) ctx)
    \<Longrightarrow> steps_only E region (case x of None \<Rightarrow> f | Some b \<Rightarrow> g b) ctx"
  by (cases x) simp_all

lemma steps_only_write:
  assumes "entity_make (xe_pool E) kvs = Inr e"
  shows "steps_only E region (map_option (\<lambda>(r, left, cache). (f r,
       ctx\<lparr>mc_state := (mc_state ctx)\<lparr>bs_entity_cache := cache, bs_write_capacity_remaining := g left\<rparr>\<rparr>))
     (cache_set env key e block capacity (bs_entity_cache (mc_state ctx)))) ctx"
proof (cases "cache_set env key e block capacity (bs_entity_cache (mc_state ctx))")
  case (Some out)
  obtain r left cache where out: "out = (r, left, cache)" by (cases out)
  have "cache_frame E (bs_entity_cache (mc_state ctx)) cache"
    using Some unfolding out by (rule cache_set_frame) (use entity_make_spec(1)[OF _ assms] in \<open>simp add: pool_laws_def\<close>)
  then have "host_steps E region ctx ((set_cache cache ctx)\<lparr>mc_state :=
      (mc_state (set_cache cache ctx))\<lparr>bs_write_capacity_remaining := g left\<rparr>\<rparr>)"
    by (intro host_steps_two[OF host_step.cache host_step.capacity])
  then show ?thesis unfolding Some out by (simp add: steps_only_def set_cache_def)
qed (simp add: steps_only_None)

lemma steps_only_make:
  assumes "\<And>err. steps_only E region (f err) ctx"
    and "\<And>e. entity_make (xe_pool E) kvs = Inr e \<Longrightarrow> steps_only E region (g e) ctx"
  shows "steps_only E region (case entity_make (xe_pool E) kvs of Inl err \<Rightarrow> f err | Inr e \<Rightarrow> g e) ctx"
  using assms by (cases "entity_make (xe_pool E) kvs") simp_all

lemma steps_only_remove:
  "steps_only E region (map_option (\<lambda>cache. (r, set_cache cache ctx)) (cache_remove key (bs_entity_cache (mc_state ctx)))) ctx"
proof (cases "cache_remove key (bs_entity_cache (mc_state ctx))")
  case (Some cache)
  then have "cache_frame E (bs_entity_cache (mc_state ctx)) cache" unfolding cache_remove_def by (rule entity_op_frame) simp
  from steps_only_step[OF host_step.cache[OF this] steps_only_Some] show ?thesis by (simp add: Some)
qed (simp add: steps_only_None)

text \<open>A read: the cache that it leaves, whatever it answers.\<close>

lemma steps_only_read:
  assumes "\<And>r cache. x = Some (r, cache) \<Longrightarrow> cache_frame E (bs_entity_cache (mc_state ctx)) cache"
    and "\<And>a ctx'. steps_only E region (g a ctx') ctx'"
  shows "steps_only E region (case x of None \<Rightarrow> None
      | Some (Inl e, cache) \<Rightarrow> Some (Inl err, set_cache cache ctx)
      | Some (Inr a, cache) \<Rightarrow> g a (set_cache cache ctx)) ctx"
proof (cases x)
  case (Some y)
  obtain r cache where y: "y = (r, cache)" by (cases y)
  note step = steps_only_step[OF host_step.cache[OF assms(1)[OF Some[unfolded y]]]]
  show ?thesis
  proof (cases r)
    case (Inl e)
    show ?thesis unfolding Some y Inl by simp (rule step[OF steps_only_Some])
  next
    case (Inr a)
    show ?thesis unfolding Some y Inr by simp (rule step[OF assms(2)])
  qed
qed (simp add: steps_only_None)

lemma steps_only_create:
  "steps_only E region (map_option (\<lambda>state. (r, ctx\<lparr>mc_state := state\<rparr>)) (push_created_data_source ds (mc_state ctx))) ctx"
proof (cases "push_created_data_source ds (mc_state ctx)")
  case (Some s)
  show ?thesis using host_steps_single[OF host_step.create[OF Some]] by (simp add: Some steps_only_def)
qed (simp add: steps_only_None)

lemmas steps_intros =
  steps_only_check steps_only_gas steps_only_set_id steps_only_let_event steps_only_remove
  steps_only_create steps_only_None steps_only_Some steps_only_let steps_only_sum steps_only_prod steps_only_option

lemma store_set_steps: "steps_only E (dd_poi_causality_region ds) (store_set E ds block time type_name id_text data ctx) ctx"
  unfolding store_set_def
  by (assumption | rule steps_only_check steps_only_gas steps_only_set_id steps_only_make steps_only_let_event steps_only_write
      steps_only_None steps_only_Some steps_only_let steps_only_sum steps_only_prod steps_only_option)+

lemma store_remove_steps: "steps_only E (dd_poi_causality_region ds) (store_remove E ds type_name id_text ctx) ctx"
  unfolding store_remove_def by (rule steps_intros)+

lemma steps_only_anyhow: "steps_only E region out ctx \<Longrightarrow> steps_only E region (through_anyhow out) ctx"
  by (auto simp: steps_only_def through_anyhow_def)

lemma store_get_steps: "steps_only E region (store_get E ds type_name id_text scope ctx) ctx"
  unfolding store_get_def
  by (rule steps_only_anyhow steps_only_check | rule steps_only_read, erule cache_get_frame | rule steps_only_gas steps_only_Some)+

lemma store_load_related_steps: "steps_only E region (store_load_related E ds type_name id_text field ctx) ctx"
  unfolding store_load_related_def
  by (rule steps_only_anyhow steps_only_check steps_only_let | rule steps_only_read, erule load_related_frame
      | rule steps_only_gas steps_only_Some)+

lemma data_source_create_steps: "steps_only E region (data_source_create E ds name params context block ctx) ctx"
  unfolding data_source_create_def by (rule steps_intros)+

lemma steps_only_reply: "steps_only E region out ctx \<Longrightarrow> steps_only E region (reply_with f out) ctx"
  by (auto simp: steps_only_def reply_with_def)

lemma run_call_steps: "steps_only (we_exports W) (dd_poi_causality_region ds) (run_call W ds block time c ctx) ctx"
  by (cases c) (simp_all add: steps_only_reply store_set_steps store_remove_steps store_get_steps
    store_load_related_steps data_source_create_steps steps_only_gas steps_only_Some)

text \<open>A guest only makes such steps, whatever calls it makes and however it ends.\<close>

lemma run_guest_steps:
  "run_guest W ds block time g d = Some (trap, d')
    \<Longrightarrow> host_steps (we_exports W) (dd_poi_causality_region ds) (wd_ctx d) (wd_ctx d')"
proof (induction g arbitrary: d)
  case (Call c k)
  obtain r ctx where r: "run_call W ds block time c (wd_ctx d) = Some (r, ctx)"
    using Call.prems(1) by (cases "run_call W ds block time c (wd_ctx d)") auto
  have steps: "host_steps (we_exports W) (dd_poi_causality_region ds) (wd_ctx d) ctx"
    using run_call_steps[of W ds block time c "wd_ctx d"] r by (simp add: steps_only_def)
  show ?case
  proof (cases r)
    case (Inl e)
    have "wd_ctx d' = ctx" using Call.prems(1) r Inl by (cases e) (auto simp: flag_error_def)
    then show ?thesis using steps by simp
  next
    case (Inr x)
    have "run_guest W ds block time (k x) (d\<lparr>wd_ctx := ctx\<rparr>) = Some (trap, d')"
      using Call.prems(1) r Inr by simp
    from rtranclp_trans[OF steps] Call.IH[OF _ this] show ?thesis by simp
  qed
qed simp_all

subsection \<open>What the steps keep\<close>

definition in_handler :: "('q, 'ont, 'err) block_state \<Rightarrow> bool" where
  "in_handler s \<longleftrightarrow> bs_in_handler s \<and> ec_in_handler (bs_entity_cache s)"

text \<open>While a handler runs, nothing changes that does not belong to it.\<close>

definition handler_frame :: "('q, 'ont, 'err) block_state \<Rightarrow> ('q, 'ont, 'err) block_state \<Rightarrow> bool" where
  "handler_frame a b \<longleftrightarrow> in_handler b
     \<and> ec_updates (bs_entity_cache b) = ec_updates (bs_entity_cache a)
     \<and> bs_deterministic_errors b = bs_deterministic_errors a \<and> bs_created_data_sources b = bs_created_data_sources a
     \<and> bs_persisted_data_sources b = bs_persisted_data_sources a
     \<and> bs_processed_data_sources b = bs_processed_data_sources a"

lemma host_step_frame:
  "host_step E region ctx ctx' \<Longrightarrow> handler_frame s (mc_state ctx) \<Longrightarrow> handler_frame s (mc_state ctx')"
  by (induction rule: host_step.induct)
     (auto simp: handler_frame_def in_handler_def cache_frame_def set_cache_def push_created_data_source_def split: if_splits)

lemma host_steps_frame:
  assumes "host_steps E region ctx ctx'" and "in_handler (mc_state ctx)"
  shows "handler_frame (mc_state ctx) (mc_state ctx')"
  using assms(1)
proof (induction rule: rtranclp_induct)
  case (step y z)
  from host_step_frame[OF step(2) step(3)] show ?case .
qed (simp add: handler_frame_def assms(2))

text \<open>The pending operations stay well-formed.\<close>

lemma host_step_updates_ok:
  "host_step E region ctx ctx' \<Longrightarrow> pool_laws E \<Longrightarrow> updates_ok (xe_pool E) (bs_entity_cache (mc_state ctx))
    \<Longrightarrow> updates_ok (xe_pool E) (bs_entity_cache (mc_state ctx'))"
  by (induction rule: host_step.induct) (auto simp: cache_frame_def set_cache_def push_created_data_source_def split: if_splits)

lemma host_steps_updates_ok:
  "host_steps E region ctx ctx' \<Longrightarrow> pool_laws E \<Longrightarrow> updates_ok (xe_pool E) (bs_entity_cache (mc_state ctx))
    \<Longrightarrow> updates_ok (xe_pool E) (bs_entity_cache (mc_state ctx'))"
  by (induction rule: rtranclp_induct) (blast dest: host_step_updates_ok)+

text \<open>The proof of indexing only grows, in the region of the data source.\<close>

definition poi_grows :: "('a, 'e, 'h, 's, 'l) hash_env \<Rightarrow> string \<Rightarrow> ('h, 'l) shared_poi \<Rightarrow> ('h, 'l) shared_poi \<Rightarrow> bool" where
  "poi_grows E region p p' \<longleftrightarrow> (\<exists>events. p' = fold (\<lambda>e. write_event E e region) events p)"

lemma poi_grows_refl [simp]: "poi_grows E region p p"
  unfolding poi_grows_def by (rule exI[of _ "[]"]) simp

lemma poi_grows_trans: "poi_grows E region p q \<Longrightarrow> poi_grows E region q r \<Longrightarrow> poi_grows E region p r"
  unfolding poi_grows_def by (metis fold_append comp_apply)

lemma poi_grows_event: "poi_grows E region p (write_event E e region p)"
  unfolding poi_grows_def by (rule exI[of _ "[e]"]) simp

lemma host_step_poi: "host_step E region ctx ctx' \<Longrightarrow> poi_grows (xe_hash E) region (mc_poi ctx) (mc_poi ctx')"
  by (induction rule: host_step.induct) (simp_all add: poi_grows_event set_cache_def)

lemma host_steps_poi: "host_steps E region ctx ctx' \<Longrightarrow> poi_grows (xe_hash E) region (mc_poi ctx) (mc_poi ctx')"
proof (induction rule: rtranclp_induct)
  case (step y z)
  from poi_grows_trans[OF step(3) host_step_poi[OF step(2)]] show ?case .
qed simp

section \<open>A handler is a transaction\<close>

definition idle :: "('q, 'ont, 'err) block_state \<Rightarrow> bool" where
  "idle s \<longleftrightarrow> \<not> bs_in_handler s \<and> \<not> ec_in_handler (bs_entity_cache s)
     \<and> ec_handler_updates (bs_entity_cache s) = [] \<and> bs_handler_created_data_sources s = []"

text \<open>The two ways in which the state can come out of a handler.\<close>

definition committed :: "('q, 'ont, 'err) block_state \<Rightarrow> ('q, 'ont, 'err) block_state \<Rightarrow> bool" where
  "committed s s' \<longleftrightarrow> bs_deterministic_errors s' = bs_deterministic_errors s
     \<and> (\<exists>new. bs_created_data_sources s' = bs_created_data_sources s @ new)"

definition rolled_back :: "'err \<Rightarrow> ('q, 'ont, 'err) block_state \<Rightarrow> ('q, 'ont, 'err) block_state \<Rightarrow> bool" where
  "rolled_back e s s' \<longleftrightarrow> bs_deterministic_errors s' = bs_deterministic_errors s @ [e]
     \<and> bs_created_data_sources s' = bs_created_data_sources s
     \<and> ec_updates (bs_entity_cache s') = ec_updates (bs_entity_cache s)"

lemma entity_ops_outside:
  "entity_ops ops c = Some c' \<Longrightarrow> \<not> ec_in_handler c
    \<Longrightarrow> \<not> ec_in_handler c' \<and> ec_handler_updates c' = ec_handler_updates c"
proof (induction ops arbitrary: c rule: list.induct)
  case (Cons x ops)
  obtain key op where x: "x = (key, op)" by (cases x)
  obtain c1 where c1: "entity_op key op c = Some c1" "entity_ops ops c1 = Some c'"
    using Cons.prems(1) by (auto simp: x bind_eq_Some_conv)
  have "\<not> ec_in_handler c1 \<and> ec_handler_updates c1 = ec_handler_updates c"
    using c1(1) Cons.prems(2) by (auto simp: entity_op_def)
  then show ?case using Cons.IH[OF c1(2)] by simp
qed simp

lemma bs_enter_handler_frame:
  assumes "bs_enter_handler s = Some s1" and "idle s"
  shows "in_handler s1 \<and> ec_updates (bs_entity_cache s1) = ec_updates (bs_entity_cache s)
    \<and> bs_deterministic_errors s1 = bs_deterministic_errors s \<and> bs_created_data_sources s1 = bs_created_data_sources s
    \<and> bs_persisted_data_sources s1 = bs_persisted_data_sources s
    \<and> bs_processed_data_sources s1 = bs_processed_data_sources s"
  using assms by (auto simp: bs_enter_handler_def enter_handler_def in_handler_def idle_def split: if_splits)

lemma bs_exit_handler_commits:
  assumes "bs_exit_handler env s = Some s'"
  shows "idle s' \<and> committed s s' \<and> bs_persisted_data_sources s' = bs_persisted_data_sources s
    \<and> bs_processed_data_sources s' = bs_processed_data_sources s"
proof -
  obtain c where c: "exit_handler env (bs_entity_cache s) = Some c"
    and s': "s' = s\<lparr>bs_in_handler := False,
             bs_created_data_sources := bs_created_data_sources s @ bs_handler_created_data_sources s,
             bs_handler_created_data_sources := [], bs_entity_cache := c\<rparr>"
    using assms by (auto simp: bs_exit_handler_def split: if_splits)
  have "\<not> ec_in_handler c \<and> ec_handler_updates c = []"
    using c entity_ops_outside by (fastforce simp: exit_handler_def split: if_splits)
  then show ?thesis by (simp add: s' idle_def committed_def)
qed

lemma bs_discard_changes_rolls_back:
  "bs_discard_changes e s = Some s' \<Longrightarrow> idle s' \<and> rolled_back e s s' \<and> bs_persisted_data_sources s' = bs_persisted_data_sources s
    \<and> bs_processed_data_sources s' = bs_processed_data_sources s"
  by (auto simp: bs_discard_changes_def exit_handler_and_discard_changes_def idle_def rolled_back_def split: if_splits)

text \<open>
  The run of the module for a trigger: the guest of its handler, from a state in which a handler was
  entered. It ends with no trap or with one.
\<close>

definition run_data :: "('q, 'ont, subgraph_error) block_state \<Rightarrow> ('h, 'l) shared_poi \<Rightarrow> ('q, 'ont, 'h, 'l) wasm_data" where
  "run_data s poi = \<lparr>wd_ctx = \<lparr>mc_state = s, mc_poi = poi, mc_gas = 0\<rparr>, wd_possible_reorg = False, wd_deterministic_host_trap = False\<rparr>"

definition handler_run :: "('q, 'a, 'h, 's, 'l, 'c, 'r, 'snd, 't) wasm_env \<Rightarrow> 'ont data_source_details \<Rightarrow> 'snd
    \<Rightarrow> 't trigger_with_handler \<Rightarrow> block_time \<Rightarrow> ('q, 'ont, subgraph_error) block_state \<Rightarrow> ('h, 'l) shared_poi
    \<Rightarrow> (wasm_trap option \<times> ('q, 'ont, 'h, 'l) wasm_data) option" where
  "handler_run W ds sender trigger time s poi =
     Option.bind (we_get_func W sender (th_handler trigger)) (\<lambda>func.
       Option.bind (bs_enter_handler s) (\<lambda>s1.
         run_guest W ds (number (th_block_ptr trigger)) (case th_timestamp trigger of None \<Rightarrow> time | Some t \<Rightarrow> t)
           (func (th_trigger trigger)) (run_data s1 poi)))"

text \<open>Whether a trap is the fault of the subgraph, so that the handler is rolled back and the block goes on.\<close>

definition deterministic_failure :: "wasm_trap \<Rightarrow> ('q, 'ont, 'h, 'l) wasm_data \<Rightarrow> bool" where
  "deterministic_failure trap d \<longleftrightarrow> \<not> wd_possible_reorg d \<and> trap \<noteq> Interrupt
     \<and> (is_trap_deterministic trap \<or> wd_deterministic_host_trap d)"

lemma handler_run_invoke:
  assumes "handler_run W ds sender trigger time s poi = Some (trap, d)"
  shows "process_mapping_trigger W ds sender trigger error_context time s poi =
    (let env = xe_cache (we_exports W); state = mc_state (wd_ctx d); poi' = mc_poi (wd_ctx d);
         panic = Inl (UnknownError ''Subgraph panicked'');
         exit_with = (\<lambda>e. case bs_exit_handler env state of None \<Rightarrow> panic | Some _ \<Rightarrow> Inl e)
     in case trap of
          None \<Rightarrow> if wd_possible_reorg d \<or> wd_deterministic_host_trap d then panic
                  else (case bs_exit_handler env state of None \<Rightarrow> panic | Some s' \<Rightarrow> Inr (s', poi'))
        | Some t \<Rightarrow>
            if deterministic_failure t d
            then (case bs_discard_changes (handler_error W (th_handler trigger) error_context (th_block_ptr trigger) t) state of
                    None \<Rightarrow> panic | Some s' \<Rightarrow> Inr (s', poi'))
            else exit_with (if wd_possible_reorg d then PossibleReorgError (we_trap_text W t)
                            else if t = Interrupt then UnknownError ''hit the timeout'' else UnknownError (we_trap_text W t)))"
proof -
  obtain func s1 where func: "we_get_func W sender (th_handler trigger) = Some func" and s1: "bs_enter_handler s = Some s1"
    and run: "run_guest W ds (number (th_block_ptr trigger)) (case th_timestamp trigger of None \<Rightarrow> time | Some t \<Rightarrow> t)
      (func (th_trigger trigger)) (run_data s1 poi) = Some (trap, d)"
    using assms by (auto simp: handler_run_def bind_eq_Some_conv)
  note run = run[unfolded run_data_def]
  show ?thesis
  proof (cases trap)
    case None
    then show ?thesis
      by (cases "bs_exit_handler (xe_cache (we_exports W)) (mc_state (wd_ctx d))")
         (simp_all add: process_mapping_trigger_def invoke_handler_def Let_def func s1 run)
  next
    case (Some t)
    then show ?thesis
      by (cases "bs_exit_handler (xe_cache (we_exports W)) (mc_state (wd_ctx d))";
          cases "bs_discard_changes (handler_error W (th_handler trigger) error_context (th_block_ptr trigger) t) (mc_state (wd_ctx d))")
         (simp_all add: process_mapping_trigger_def invoke_handler_def Let_def func s1 run deterministic_failure_def)
  qed
qed

lemma process_mapping_trigger_runs:
  assumes "process_mapping_trigger W ds sender trigger error_context time s poi = Inr (s', poi')"
  obtains trap d where "handler_run W ds sender trigger time s poi = Some (trap, d)"
proof -
  note call = assms[unfolded process_mapping_trigger_def invoke_handler_def Let_def]
  obtain func where func: "we_get_func W sender (th_handler trigger) = Some func"
    using call by (cases "we_get_func W sender (th_handler trigger)") simp_all
  obtain s1 where s1: "bs_enter_handler s = Some s1"
    using call by (cases "bs_enter_handler s") (simp_all add: func)
  have "handler_run W ds sender trigger time s poi \<noteq> None"
  proof
    assume "handler_run W ds sender trigger time s poi = None"
    then have "run_guest W ds (number (th_block_ptr trigger)) (case th_timestamp trigger of None \<Rightarrow> time | Some t \<Rightarrow> t)
        (func (th_trigger trigger)) (run_data s1 poi) = None"
      by (simp add: handler_run_def func s1)
    with call show False by (simp add: func s1 run_data_def)
  qed
  then show thesis using that by fast
qed

lemma handler_run_poi:
  assumes "handler_run W ds sender trigger time s poi = Some (trap, d)"
  shows "poi_grows (xe_hash (we_exports W)) (dd_poi_causality_region ds) poi (mc_poi (wd_ctx d))"
proof -
  obtain func s1 where "run_guest W ds (number (th_block_ptr trigger)) (case th_timestamp trigger of None \<Rightarrow> time | Some t \<Rightarrow> t)
      (func (th_trigger trigger)) (run_data s1 poi) = Some (trap, d)"
    using assms by (auto simp: handler_run_def bind_eq_Some_conv)
  from host_steps_poi[OF run_guest_steps[OF this]] show ?thesis by (simp add: run_data_def)
qed

text \<open>While it runs, the module changes nothing that does not belong to its handler.\<close>

lemma handler_run_frame:
  assumes "handler_run W ds sender trigger time s poi = Some (trap, d)" and "idle s"
  shows "ec_updates (bs_entity_cache (mc_state (wd_ctx d))) = ec_updates (bs_entity_cache s)
    \<and> bs_deterministic_errors (mc_state (wd_ctx d)) = bs_deterministic_errors s
    \<and> bs_created_data_sources (mc_state (wd_ctx d)) = bs_created_data_sources s
    \<and> bs_persisted_data_sources (mc_state (wd_ctx d)) = bs_persisted_data_sources s
    \<and> bs_processed_data_sources (mc_state (wd_ctx d)) = bs_processed_data_sources s"
proof -
  obtain func s1 where s1: "bs_enter_handler s = Some s1"
    and run: "run_guest W ds (number (th_block_ptr trigger)) (case th_timestamp trigger of None \<Rightarrow> time | Some t \<Rightarrow> t)
      (func (th_trigger trigger)) (run_data s1 poi) = Some (trap, d)"
    using assms(1) by (auto simp: handler_run_def bind_eq_Some_conv)
  note enter = bs_enter_handler_frame[OF s1 assms(2)]
  have "in_handler (mc_state (wd_ctx (run_data s1 poi)))" using enter by (simp add: run_data_def)
  from host_steps_frame[OF run_guest_steps[OF run] this] enter
  show ?thesis by (simp add: handler_frame_def run_data_def)
qed

lemma handler_run_updates_ok:
  assumes "handler_run W ds sender trigger time s poi = Some (trap, d)" and "pool_laws (we_exports W)"
    and "updates_ok (xe_pool (we_exports W)) (bs_entity_cache s)"
  shows "updates_ok (xe_pool (we_exports W)) (bs_entity_cache (mc_state (wd_ctx d)))"
proof -
  obtain func s1 where s1: "bs_enter_handler s = Some s1"
    and run: "run_guest W ds (number (th_block_ptr trigger)) (case th_timestamp trigger of None \<Rightarrow> time | Some t \<Rightarrow> t)
      (func (th_trigger trigger)) (run_data s1 poi) = Some (trap, d)"
    using assms(1) by (auto simp: handler_run_def bind_eq_Some_conv)
  have "updates_ok (xe_pool (we_exports W)) (bs_entity_cache s1)"
    using s1 assms(3) by (auto simp: bs_enter_handler_def enter_handler_def updates_ok_def split: if_splits)
  then show ?thesis using host_steps_updates_ok[OF run_guest_steps[OF run] assms(2)] by (simp add: run_data_def)
qed

text \<open>Leaving a handler keeps what the block shows.\<close>

lemma bs_exit_handler_view:
  assumes "bs_exit_handler env s = Some s'" and "hash_order_ok env" and "updates_ok P (bs_entity_cache s)"
  shows "bs_view st s' = bs_view st s \<and> updates_ok P (bs_entity_cache s')"
proof -
  obtain c where c: "exit_handler env (bs_entity_cache s) = Some c" "bs_entity_cache s' = c"
    using assms(1) by (auto simp: bs_exit_handler_def split: if_splits)
  then have "ec_in_handler (bs_entity_cache s)" by (auto simp: exit_handler_def split: if_splits)
  from exit_handler_spec[OF assms(2,3) this, of st] c show ?thesis by (auto simp: bs_view_def)
qed

lemma bs_discard_changes_updates_ok:
  "bs_discard_changes e s = Some s' \<Longrightarrow> updates_ok P (bs_entity_cache s) \<Longrightarrow> updates_ok P (bs_entity_cache s')"
  by (auto simp: bs_discard_changes_def exit_handler_and_discard_changes_def updates_ok_def split: if_splits)

text \<open>
  A handler commits what its run leaves exactly if the run ended without a trap. It is rolled back
  if the trap is deterministic, with an error of that trap that names the handler and the block; every other trap fails.
\<close>

lemma process_mapping_trigger_outcome:
  assumes "process_mapping_trigger W ds sender trigger error_context time s poi = Inr (s', poi')" and "idle s"
    and "handler_run W ds sender trigger time s poi = Some (trap, d)"
  shows "idle s' \<and> poi' = mc_poi (wd_ctx d) \<and> bs_persisted_data_sources s' = bs_persisted_data_sources s
    \<and> bs_processed_data_sources s' = bs_processed_data_sources s
    \<and> (case trap of
          None \<Rightarrow> bs_deterministic_errors s' = bs_deterministic_errors s
            \<and> bs_created_data_sources s' = bs_created_data_sources s @ bs_handler_created_data_sources (mc_state (wd_ctx d))
        | Some t \<Rightarrow> deterministic_failure t d
            \<and> rolled_back (handler_error W (th_handler trigger) error_context (th_block_ptr trigger) t) s s')"
proof (cases trap)
  case None
  obtain s2 where s2: "bs_exit_handler (xe_cache (we_exports W)) (mc_state (wd_ctx d)) = Some s2" "s' = s2" "poi' = mc_poi (wd_ctx d)"
    using assms(1) unfolding handler_run_invoke[OF assms(3)] by (auto simp: None Let_def split: if_splits option.splits)
  have "bs_created_data_sources s2 = bs_created_data_sources (mc_state (wd_ctx d)) @ bs_handler_created_data_sources (mc_state (wd_ctx d))"
    using s2(1) by (auto simp: bs_exit_handler_def split: if_splits)
  then show ?thesis using bs_exit_handler_commits[OF s2(1)] handler_run_frame[OF assms(3,2)] s2 None by (simp add: committed_def)
next
  case (Some t)
  obtain s2 where s2: "bs_discard_changes (handler_error W (th_handler trigger) error_context (th_block_ptr trigger) t)
      (mc_state (wd_ctx d)) = Some s2" "s' = s2" "poi' = mc_poi (wd_ctx d)" "deterministic_failure t d"
    using assms(1) unfolding handler_run_invoke[OF assms(3)] by (auto simp: Some Let_def split: if_splits option.splits)
  then show ?thesis
    using bs_discard_changes_rolls_back[OF s2(1)] handler_run_frame[OF assms(3,2)] Some by (simp add: rolled_back_def)
qed

text \<open>What a handler commits is what its run saw last, and the pending operations stay well-formed either way.\<close>

lemma process_mapping_trigger_view:
  assumes "process_mapping_trigger W ds sender trigger error_context time s poi = Inr (s', poi')"
    and "handler_run W ds sender trigger time s poi = Some (trap, d)"
    and "pool_laws (we_exports W)" and "hash_order_ok (xe_cache (we_exports W))"
    and "updates_ok (xe_pool (we_exports W)) (bs_entity_cache s)"
  shows "updates_ok (xe_pool (we_exports W)) (bs_entity_cache s')
    \<and> (trap = None \<longrightarrow> bs_view st s' = bs_view st (mc_state (wd_ctx d)))"
proof -
  note ok = handler_run_updates_ok[OF assms(2,3,5)]
  consider (exit) "trap = None" "bs_exit_handler (xe_cache (we_exports W)) (mc_state (wd_ctx d)) = Some s'"
    | (discard) e where "trap \<noteq> None" "bs_discard_changes e (mc_state (wd_ctx d)) = Some s'"
    using assms(1) unfolding handler_run_invoke[OF assms(2)] by (auto simp: Let_def split: if_splits option.splits)
  then show ?thesis
    using bs_exit_handler_view[OF _ assms(4) ok] bs_discard_changes_updates_ok[OF _ ok] by cases blast+
qed

lemma process_mapping_trigger_transaction:
  assumes "process_mapping_trigger W ds sender trigger error_context time s poi = Inr (s', poi')" and "idle s"
  shows "idle s' \<and> bs_persisted_data_sources s' = bs_persisted_data_sources s
    \<and> bs_processed_data_sources s' = bs_processed_data_sources s
    \<and> (committed s s' \<or> (\<exists>trap. rolled_back (handler_error W (th_handler trigger) error_context (th_block_ptr trigger) trap) s s'))"
proof -
  obtain trap d where run: "handler_run W ds sender trigger time s poi = Some (trap, d)"
    using assms(1) by (rule process_mapping_trigger_runs)
  show ?thesis using process_mapping_trigger_outcome[OF assms run] by (cases trap) (auto simp: committed_def)
qed

lemma rolled_back_view:
  "rolled_back e s s' \<Longrightarrow> idle s \<Longrightarrow> idle s' \<Longrightarrow> bs_view st s' = bs_view st s"
  by (simp add: rolled_back_def idle_def bs_view_def cache_view_def)

text \<open>Whatever the outcome, the events of the handler stay in the proof of indexing.\<close>

lemma process_mapping_trigger_poi:
  assumes "process_mapping_trigger W ds sender trigger error_context time s poi = Inr (s', poi')"
  shows "poi_grows (xe_hash (we_exports W)) (dd_poi_causality_region ds) poi poi'"
proof -
  obtain trap d where run: "handler_run W ds sender trigger time s poi = Some (trap, d)"
    using assms by (rule process_mapping_trigger_runs)
  have "poi' = mc_poi (wd_ctx d)"
    using assms unfolding handler_run_invoke[OF run] by (auto simp: Let_def split: if_splits option.splits)
  then show ?thesis using handler_run_poi[OF run] by simp
qed

end
