(* ===== verification/Trigger_Processor.thy ===== *)
theory Trigger_Processor
  imports Wasm_Handler
begin

text \<open>
  Matching triggers with hosts and running them, \<open>core/src/subgraph/trigger_processor.rs\<close>: all triggers of a block
  are decoded first, then the handlers run one after the other, and a deterministic error of one of them is
  an event of the proof of indexing. A panic is the outer \<open>None\<close>.
\<close>

section \<open>Hosts as runners\<close>

text \<open>
  What a host is built with besides its data source, and the context that a trigger adds to an error;
  \<open>hc_no_time\<close> is \<open>BlockTime::NONE\<close>, the time of a file data source.
\<close>

record ('on, 'ont, 't) host_config =
  hc_templates :: "(string \<times> 'ont ds_template) list"
  hc_api_version :: "'on any_data_source \<Rightarrow> nat \<times> nat \<times> nat"
  hc_name :: "'on any_data_source \<Rightarrow> string"
  hc_network :: string
  hc_serde :: context_serde
  hc_error_context :: "'t \<Rightarrow> string option"
  hc_no_time :: block_time

definition rh_process_mapping_trigger :: "('q, 'a, 'h, 'w, 'l, 'c, 'r, 's, 't) wasm_env \<Rightarrow> ('on, 'ont, 't) host_config
    \<Rightarrow> ('on, 's) host \<Rightarrow> 't trigger_with_handler \<Rightarrow> ('q, 'ont, subgraph_error) block_state \<Rightarrow> ('h, 'l) shared_poi
    \<Rightarrow> (mapping_error, ('q, 'ont, subgraph_error) block_state \<times> ('h, 'l) shared_poi) result" where
  "rh_process_mapping_trigger W H host trigger state poi =
     process_mapping_trigger W
       (details_from_data_source (hc_templates H) (hc_api_version H) (hc_name H) (hc_network H) (rh_data_source host))
       (rh_sender host) trigger (hc_error_context H (th_trigger trigger)) (hc_no_time H) state poi"

section \<open>Decoding\<close>

type_synonym ('on, 's, 't) hosted_trigger = "('on, 's) host \<times> 't trigger_with_handler"

record ('on, 's, 'ct, 'mt, 'd) runnable_triggers =
  rt_trigger :: "('ct, 'd) trigger_data"
  rt_hosted_triggers :: "('on, 's, ('mt, 'd) mapping_trigger) hosted_trigger list"

fun match_and_decode_inner :: "('on, 'ont, 'ct, 'mt) chain \<Rightarrow> cells \<Rightarrow> block_ptr \<Rightarrow> block_time \<Rightarrow> ('ct, 'd) trigger_data
    \<Rightarrow> ('on, 's) host list \<Rightarrow> (ds_error, ('on, 's, ('mt, 'd) mapping_trigger) hosted_trigger list) result" where
  "match_and_decode_inner C cells ptr time trigger [] = Inr []"
| "match_and_decode_inner C cells ptr time trigger (host # hosts) =
     bind_res (ds_match_and_decode C cells ptr time (rh_data_source host) trigger) (\<lambda>m.
     bind_res (match_and_decode_inner C cells ptr time trigger hosts) (\<lambda>rest.
       Inr (case m of None \<Rightarrow> rest | Some mapping_trigger \<Rightarrow> (host, mapping_trigger) # rest)))"

text \<open>An error of a data source is of unknown origin; its text is left out.\<close>

definition match_and_decode :: "('on, 'ont, 'ct, 'mt) chain \<Rightarrow> cells \<Rightarrow> block_ptr \<Rightarrow> block_time \<Rightarrow> ('ct, 'd) trigger_data
    \<Rightarrow> ('on, 's) host list \<Rightarrow> (mapping_error, ('on, 's, 'ct, 'mt, 'd) runnable_triggers) result" where
  "match_and_decode C cells ptr time trigger hosts =
     (case match_and_decode_inner C cells ptr time trigger hosts of
        Inl e \<Rightarrow> Inl (UnknownError ''failed to process trigger'')
      | Inr hosted \<Rightarrow> Inr \<lparr>rt_trigger = trigger, rt_hosted_triggers = hosted\<rparr>)"

text \<open>The hook of the chain may change or refuse what was decoded; the hosts of a trigger are looked up with \<open>None\<close> for a panic.\<close>

fun decode_all :: "('on, 'ont, 'ct, 'mt) chain \<Rightarrow> cells \<Rightarrow> block_ptr \<Rightarrow> block_time
    \<Rightarrow> (('ct, 'd) trigger_data \<Rightarrow> ('on, 's) host list option) \<Rightarrow> ('ct, 'd) trigger_data list
    \<Rightarrow> (mapping_error, ('on, 's, 'ct, 'mt, 'd) runnable_triggers list) result option" where
  "decode_all C cells ptr time hosts_filter [] = Some (Inr [])"
| "decode_all C cells ptr time hosts_filter (trigger # triggers) =
     (case hosts_filter trigger of
        None \<Rightarrow> None
      | Some hosts \<Rightarrow>
          (case match_and_decode C cells ptr time trigger hosts of
             Inl e \<Rightarrow> Some (Inl e)
           | Inr runnable \<Rightarrow>
               map_option (\<lambda>r. bind_res r (\<lambda>rest. Inr (runnable # rest))) (decode_all C cells ptr time hosts_filter triggers)))"

definition match_and_decode_many :: "('on, 'ont, 'ct, 'mt) chain
    \<Rightarrow> (('on, 's, 'ct, 'mt, 'd) runnable_triggers list \<Rightarrow> (mapping_error, ('on, 's, 'ct, 'mt, 'd) runnable_triggers list) result)
    \<Rightarrow> cells \<Rightarrow> block_ptr \<Rightarrow> block_time \<Rightarrow> (('ct, 'd) trigger_data \<Rightarrow> ('on, 's) host list option) \<Rightarrow> ('ct, 'd) trigger_data list
    \<Rightarrow> (mapping_error, ('on, 's, 'ct, 'mt, 'd) runnable_triggers list) result option" where
  "match_and_decode_many C after_decode cells ptr time hosts_filter triggers =
     map_option (\<lambda>r. bind_res r after_decode) (decode_all C cells ptr time hosts_filter triggers)"

section \<open>Running\<close>

text \<open>
  The cells of file data sources are shared, so that a mark stays when a later host of the
  trigger fails; the state does not.
\<close>

type_synonym ('q, 'ont, 'h, 'l) run_result =
  "((mapping_error, ('q, 'ont, subgraph_error) block_state \<times> ('h, 'l) shared_poi) result \<times> cells) option"

fun run_hosted_triggers :: "('q, 'a, 'h, 'w, 'l, 'c, 'r, 's, 't) wasm_env \<Rightarrow> ('on, 'ont, 't) host_config \<Rightarrow> block_number
    \<Rightarrow> ('on, 's, 't) hosted_trigger list \<Rightarrow> ('q, 'ont, subgraph_error) block_state \<Rightarrow> ('h, 'l) shared_poi \<Rightarrow> cells
    \<Rightarrow> ('q, 'ont, 'h, 'l) run_result" where
  "run_hosted_triggers W H block [] state poi cells = Some (Inr (state, poi), cells)"
| "run_hosted_triggers W H block ((host, mapping_trigger) # triggers) state poi cells =
     (case rh_process_mapping_trigger W H host mapping_trigger state poi of
        Inl e \<Rightarrow> Some (Inl e, cells)
      | Inr (state, poi) \<Rightarrow>
          (case as_offchain (rh_data_source host) of
             None \<Rightarrow> run_hosted_triggers W H block triggers state poi cells
           | Some ds \<Rightarrow>
               (case mark_processed_at ds block cells of
                  None \<Rightarrow> None
                | Some cells \<Rightarrow>
                    (case od_as_stored (hc_serde H) cells ds of
                       None \<Rightarrow> None
                     | Some stored \<Rightarrow>
                         run_hosted_triggers W H block triggers
                           (state\<lparr>bs_processed_data_sources := bs_processed_data_sources state @ [stored]\<rparr>) poi cells))))"

definition process_trigger :: "('q, 'a, 'h, 'w, 'l, 'c, 'r, 's, 't) wasm_env \<Rightarrow> ('on, 'ont, 't) host_config \<Rightarrow> block_number
    \<Rightarrow> ('on, 's, 't) hosted_trigger list \<Rightarrow> string \<Rightarrow> ('q, 'ont, subgraph_error) block_state \<Rightarrow> ('h, 'l) shared_poi \<Rightarrow> cells
    \<Rightarrow> ('q, 'ont, 'h, 'l) run_result" where
  "process_trigger W H block triggers causality_region state poi cells =
     (let error_count = length (bs_deterministic_errors state);
          E = xe_hash (we_exports W)
      in if triggers = [] then Some (Inr (state, poi), cells)
         else
           (case run_hosted_triggers W H block triggers state (start_handler E causality_region poi) cells of
              None \<Rightarrow> None
            | Some (Inl e, cells) \<Rightarrow> Some (Inl e, cells)
            | Some (Inr (state, poi), cells) \<Rightarrow>
                if length (bs_deterministic_errors state) \<noteq> error_count
                then if length (bs_deterministic_errors state) = error_count + 1
                     then Some (Inr (state, write_deterministic_error E causality_region poi), cells)
                     else None
                else Some (Inr (state, poi), cells)))"

text \<open>The loop over the decoded triggers of a block, which the runner has twice.\<close>

fun run_runnables :: "('q, 'a, 'h, 'w, 'l, 'c, 'r, 's, ('mt, 'd) mapping_trigger) wasm_env
    \<Rightarrow> ('on, 'ont, ('mt, 'd) mapping_trigger) host_config \<Rightarrow> block_number
    \<Rightarrow> ('on, 's, 'ct, 'mt, 'd) runnable_triggers list \<Rightarrow> string \<Rightarrow> ('q, 'ont, subgraph_error) block_state
    \<Rightarrow> ('h, 'l) shared_poi \<Rightarrow> cells \<Rightarrow> ('q, 'ont, 'h, 'l) run_result" where
  "run_runnables W H block [] causality_region state poi cells = Some (Inr (state, poi), cells)"
| "run_runnables W H block (runnable # runnables) causality_region state poi cells =
     (case process_trigger W H block (rt_hosted_triggers runnable) causality_region state poi cells of
        None \<Rightarrow> None
      | Some (Inl e, cells) \<Rightarrow> Some (Inl e, cells)
      | Some (Inr (state, poi), cells) \<Rightarrow> run_runnables W H block runnables causality_region state poi cells)"

section \<open>What running keeps\<close>

text \<open>Errors and created data sources are only added, and a handler is never left open.\<close>

definition extended_by :: "('q, 'ont, 'err) block_state \<Rightarrow> ('q, 'ont, 'err) block_state \<Rightarrow> bool" where
  "extended_by s s' \<longleftrightarrow> idle s' \<and> bs_persisted_data_sources s' = bs_persisted_data_sources s
     \<and> (\<exists>errors. bs_deterministic_errors s' = bs_deterministic_errors s @ errors)
     \<and> (\<exists>created. bs_created_data_sources s' = bs_created_data_sources s @ created)"

lemma extended_by_refl: "idle s \<Longrightarrow> extended_by s s"
  by (simp add: extended_by_def)

lemma extended_by_trans: "extended_by a b \<Longrightarrow> extended_by b c \<Longrightarrow> extended_by a c"
  by (fastforce simp: extended_by_def)

lemma extended_by_idle: "extended_by a b \<Longrightarrow> idle b"
  by (simp add: extended_by_def)

lemma extended_by_processed: "extended_by a b \<Longrightarrow> extended_by a (b\<lparr>bs_processed_data_sources := p\<rparr>)"
  by (simp add: extended_by_def idle_def)

lemma rh_process_extends:
  assumes "rh_process_mapping_trigger W H host trigger s poi = Inr (s', poi')" and "idle s"
  shows "extended_by s s'"
proof -
  from process_mapping_trigger_transaction[OF assms(1)[unfolded rh_process_mapping_trigger_def] assms(2)]
  show ?thesis by (auto simp: extended_by_def committed_def rolled_back_def)
qed

lemma run_hosted_extends:
  "run_hosted_triggers W H block ts s poi cells = Some (Inr (s', poi'), cells') \<Longrightarrow> idle s \<Longrightarrow> extended_by s s'"
proof (induction ts arbitrary: s poi cells)
  case (Cons x ts)
  obtain host t where x: "x = (host, t)" by (cases x)
  obtain s1 poi1 where r: "rh_process_mapping_trigger W H host t s poi = Inr (s1, poi1)"
    using Cons.prems(1) by (cases "rh_process_mapping_trigger W H host t s poi") (auto simp: x)
  have s1: "extended_by s s1" by (rule rh_process_extends[OF r Cons.prems(2)])
  show ?case
  proof (cases "as_offchain (rh_data_source host)")
    case None
    then have "run_hosted_triggers W H block ts s1 poi1 cells = Some (Inr (s', poi'), cells')"
      using Cons.prems(1) r by (simp add: x)
    from Cons.IH[OF this extended_by_idle[OF s1]] show ?thesis by (rule extended_by_trans[OF s1])
  next
    case (Some ds)
    then obtain cells1 where m: "mark_processed_at ds block cells = Some cells1"
      using Cons.prems(1) r by (cases "mark_processed_at ds block cells") (simp_all add: x)
    obtain stored where stored: "od_as_stored (hc_serde H) cells1 ds = Some stored"
      using Cons.prems(1) r Some m by (cases "od_as_stored (hc_serde H) cells1 ds") (simp_all add: x)
    let ?s1 = "s1\<lparr>bs_processed_data_sources := bs_processed_data_sources s1 @ [stored]\<rparr>"
    have s1: "extended_by s ?s1" by (rule extended_by_processed[OF s1])
    have "run_hosted_triggers W H block ts ?s1 poi1 cells1 = Some (Inr (s', poi'), cells')"
      using Cons.prems(1) r Some m stored by (simp add: x)
    from Cons.IH[OF this extended_by_idle[OF s1]] show ?thesis by (rule extended_by_trans[OF s1])
  qed
qed (simp add: extended_by_refl)

lemma process_trigger_extends:
  assumes "process_trigger W H block ts cr s poi cells = Some (Inr (s', poi'), cells')" and "idle s"
  shows "extended_by s s' \<and> length (bs_deterministic_errors s') \<le> length (bs_deterministic_errors s) + 1"
proof (cases "ts = []")
  case True
  then show ?thesis using assms by (simp add: process_trigger_def extended_by_refl)
next
  case False
  obtain s1 poi1 cells1 where run: "run_hosted_triggers W H block ts s (start_handler (xe_hash (we_exports W)) cr poi) cells =
      Some (Inr (s1, poi1), cells1)"
    and s': "s' = s1" "length (bs_deterministic_errors s1) \<le> length (bs_deterministic_errors s) + 1"
    using assms(1) False by (auto simp: process_trigger_def Let_def split: option.splits sum.splits prod.splits if_splits)
  from run_hosted_extends[OF run assms(2)] s' show ?thesis by simp
qed

lemma run_runnables_extends:
  "run_runnables W H block rs cr s poi cells = Some (Inr (s', poi'), cells') \<Longrightarrow> idle s \<Longrightarrow> extended_by s s'"
proof (induction rs arbitrary: s poi cells)
  case (Cons r rs)
  obtain s1 poi1 cells1 where p: "process_trigger W H block (rt_hosted_triggers r) cr s poi cells = Some (Inr (s1, poi1), cells1)"
    and rest: "run_runnables W H block rs cr s1 poi1 cells1 = Some (Inr (s', poi'), cells')"
    using Cons.prems(1) by (auto split: option.splits sum.splits prod.splits)
  have s1: "extended_by s s1" using process_trigger_extends[OF p Cons.prems(2)] by blast
  from Cons.IH[OF rest extended_by_idle[OF s1]] show ?case by (rule extended_by_trans[OF s1])
qed (simp add: extended_by_refl)

text \<open>Without hosts, nothing happens.\<close>

lemma run_runnables_no_hosts:
  "\<forall>r \<in> set rs. rt_hosted_triggers r = [] \<Longrightarrow> run_runnables W H block rs cr s poi cells = Some (Inr (s, poi), cells)"
  by (induction rs) (simp_all add: process_trigger_def)

section \<open>Two failures\<close>

text \<open>
  When every host of a trigger returns, the outcome only depends on how many of them
  failed: with two the assertion fails.
\<close>

lemma process_trigger_outcome:
  assumes "run_hosted_triggers W H block ts s (start_handler (xe_hash (we_exports W)) cr poi) cells = Some (Inr (s', poi'), cells')"
    and "idle s"
  shows "process_trigger W H block ts cr s poi cells = None
    \<longleftrightarrow> length (bs_deterministic_errors s) + 2 \<le> length (bs_deterministic_errors s')"
proof -
  have "length (bs_deterministic_errors s) \<le> length (bs_deterministic_errors s')"
    using run_hosted_extends[OF assms] by (auto simp: extended_by_def)
  then show ?thesis using assms(1) by (cases "ts = []") (auto simp: process_trigger_def Let_def split: if_splits)
qed

section \<open>The events of a failed trigger\<close>

definition host_region :: "('on, 'ont, 't) host_config \<Rightarrow> string" where
  "host_region H = ''ethereum/'' @ hc_network H"

lemma run_hosted_poi:
  "run_hosted_triggers W H block ts s poi cells = Some (Inr (s', poi'), cells')
    \<Longrightarrow> poi_grows (xe_hash (we_exports W)) (host_region H) poi poi'"
proof (induction ts arbitrary: s poi cells)
  case (Cons x ts)
  obtain host t where x: "x = (host, t)" by (cases x)
  obtain s1 poi1 where r: "rh_process_mapping_trigger W H host t s poi = Inr (s1, poi1)"
    using Cons.prems(1) by (cases "rh_process_mapping_trigger W H host t s poi") (auto simp: x)
  have poi1: "poi_grows (xe_hash (we_exports W)) (host_region H) poi poi1"
    using process_mapping_trigger_poi[OF r[unfolded rh_process_mapping_trigger_def]]
    by (simp add: details_from_data_source_def host_region_def)
  obtain s2 cells2 where "run_hosted_triggers W H block ts s2 poi1 cells2 = Some (Inr (s', poi'), cells')"
    using Cons.prems(1) r by (auto simp: x split: option.splits)
  from poi_grows_trans[OF poi1 Cons.IH[OF this]] show ?case .
qed simp

lemma region_stream_write [simp]:
  "region_stream E cr (poi_write E cr e p) = stream_write E e (region_stream E cr p)"
  by (simp add: region_stream_def poi_write_def with_causality_region_def update_conv')

lemma write_events_stream:
  "es_vec_length (region_stream E cr (fold (poi_write E cr) events p)) = es_vec_length (region_stream E cr p) + length events
   \<and> es_handler_start (region_stream E cr (fold (poi_write E cr) events p)) = es_handler_start (region_stream E cr p)"
  by (induction events arbitrary: p) (simp_all add: stream_write_def)

abbreviation known_region :: "string \<Rightarrow> ('h, 'l) proof_of_indexing \<Rightarrow> bool" where
  "known_region cr p \<equiv> map_of (pi_per_causality_region p) cr \<noteq> None"

lemma known_region_update: "known_region cr (with_causality_region E cr f p)"
  by (simp add: with_causality_region_def update_conv')

lemma write_events_known: "known_region cr p \<Longrightarrow> known_region cr (fold (poi_write E cr) events p)"
proof (induction events arbitrary: p)
  case (Cons e events)
  have "known_region cr (poi_write E cr e p)" unfolding poi_write_def by (rule known_region_update)
  from Cons.IH[OF this] show ?case by simp
qed simp

lemma touch_known: "known_region cr p \<Longrightarrow> with_causality_region E cr id p = p"
  by (auto simp: with_causality_region_def region_stream_def update_triv)

lemma fold_write_event: "fold (\<lambda>e. write_event E e cr) events (Some p) = Some (fold (poi_write E cr) events p)"
  by (induction events arbitrary: p) (simp_all add: write_event_def)

text \<open>
  The error event says how many events were written since the trigger started: those of the host that failed,
  and those of the hosts of the same trigger that did not fail.
\<close>

lemma process_trigger_redacts:
  assumes "process_trigger W H block ts (host_region H) s (Some poi) cells = Some (Inr (s', poi'), cells')"
    and "length (bs_deterministic_errors s') \<noteq> length (bs_deterministic_errors s)"
  shows "\<exists>events. poi' = Some (poi_write (xe_hash (we_exports W)) (host_region H) (DeterministicError (length events))
    (fold (poi_write (xe_hash (we_exports W)) (host_region H)) events (poi_start_handler (xe_hash (we_exports W)) (host_region H) poi)))"
proof -
  let ?E = "xe_hash (we_exports W)" and ?cr = "host_region H"
  let ?p = "poi_start_handler ?E ?cr poi"
  obtain s1 poi1 cells1 where run: "run_hosted_triggers W H block ts s (Some ?p) cells = Some (Inr (s1, poi1), cells1)"
    and poi': "poi' = write_deterministic_error ?E ?cr poi1"
    using assms
    by (auto simp: process_trigger_def start_handler_def Let_def split: if_splits option.splits sum.splits prod.splits)
  obtain events where poi1: "poi1 = Some (fold (poi_write ?E ?cr) events ?p)"
    using run_hosted_poi[OF run] unfolding poi_grows_def fold_write_event by blast
  let ?q = "fold (poi_write ?E ?cr) events ?p"
  have known: "known_region ?cr ?p" unfolding poi_start_handler_def by (rule known_region_update)
  have "es_vec_length (region_stream ?E ?cr ?p) = es_handler_start (region_stream ?E ?cr ?p)"
    by (simp add: poi_start_handler_def with_causality_region_def region_stream_def update_conv' stream_start_handler_def)
  then have "es_vec_length (region_stream ?E ?cr ?q) - es_handler_start (region_stream ?E ?cr ?q) = length events"
    using write_events_stream[of ?E ?cr events ?p] by simp
  then have "poi_write_deterministic_error ?E ?cr ?q = poi_write ?E ?cr (DeterministicError (length events)) ?q"
    by (simp add: poi_write_deterministic_error_def touch_known[OF write_events_known[OF known]])
  then show ?thesis using poi' poi1 by (auto simp: write_deterministic_error_def)
qed

end
