(* ===== verification/Subgraph_Runner.thy ===== *)
theory Subgraph_Runner
  imports Trigger_Processor
begin

text \<open>
  The loop that indexes a subgraph, \<open>core/src/subgraph/runner.rs\<close>: a block is processed by its
  triggers, the data sources that they create, the proof of indexing, the file data sources that are ready and one
  transaction; errors decide whether the subgraph goes on, restarts its block stream or stops.
\<close>

section \<open>Inputs and state\<close>

text \<open>
  The arguments of \<open>transact_block_operations\<close>, and what the runner calls of the writable store and of
  the chain store; the state of the store is of type \<open>'st\<close>.
\<close>

record transaction =
  ta_ptr :: block_ptr
  ta_time :: block_time
  ta_cursor :: string
  ta_mods :: "entity entity_modification list"
  ta_data_sources :: "stored_data_source list"
  ta_errors :: "subgraph_error list"
  ta_processed :: "stored_data_source list"
  ta_non_fatal_errors :: bool
  ta_caught_up :: bool

record 'st writable =
  ws_block_ptr :: "'st \<Rightarrow> block_ptr option"
  ws_read :: "'st \<Rightarrow> read_store"
  ws_is_synced :: "'st \<Rightarrow> bool"
  ws_is_failed :: "'st \<Rightarrow> (string, bool) result"
  ws_chain_head :: "'st \<Rightarrow> (string, block_ptr option) result"
  ws_transact :: "transaction \<Rightarrow> 'st \<Rightarrow> (string, unit) result \<times> 'st"
  ws_revert :: "block_ptr \<Rightarrow> string \<Rightarrow> 'st \<Rightarrow> (string, unit) result \<times> 'st"
  ws_fail :: "subgraph_error \<Rightarrow> 'st \<Rightarrow> (string, unit) result \<times> 'st"
  ws_unfail_deterministic :: "block_ptr \<Rightarrow> block_ptr \<Rightarrow> 'st \<Rightarrow> (string, unit) result \<times> 'st"
  ws_unfail :: "block_ptr \<Rightarrow> 'st \<Rightarrow> (string, bool) result \<times> 'st"
  ws_unassign :: "'st \<Rightarrow> (string, unit) result \<times> 'st"
  ws_flush :: "'st \<Rightarrow> (string, unit) result \<times> 'st"
  ws_restart :: "'st \<Rightarrow> (string, 'st option) result"

text \<open>
  \<open>IndexingInputs\<close>, \<open>inputs.rs\<close>, with the environment variables. The chain refetches a block and finds the
  triggers of a block for a filter, which is the list of data sources that it is made from.
\<close>

record ('on, 'ont, 'ct, 'mt, 'd, 's, 'st) runner_inputs =
  ri_chain :: "('on, 'ont, 'ct, 'mt) chain"
  ri_instance_env :: "'s instance_env"
  ri_store :: "'st writable"
  ri_templates :: "'ont ds_template list"
  ri_end_blocks :: "block_number list"
  ri_max_end_block :: "block_number option"
  ri_stop_block :: "block_number option"
  ri_non_fatal_errors :: bool
  ri_static_filters :: bool
  ri_static_filters_threshold :: nat
  ri_disable_fail_fast :: bool
  ri_poi_version :: poi_version
  ri_network :: string
  ri_write_capacity :: "64 word"
  ri_has_aggregations :: bool
  ri_dead_weight :: bool
  ri_dips_metrics :: bool
  ri_dips_store_url :: "string option"
  ri_parse_path :: "string \<Rightarrow> string option"
  ri_after_decode :: "('on, 's, 'ct, 'mt, 'd) runnable_triggers list
    \<Rightarrow> (mapping_error, ('on, 's, 'ct, 'mt, 'd) runnable_triggers list) result"
  ri_parent_ptr :: "block_ptr \<Rightarrow> (string, block_ptr option) result"
  ri_block_again :: "block_ptr \<times> block_time \<Rightarrow> (string, block_ptr \<times> block_time) result"
  ri_triggers_in_block :: "block_ptr \<Rightarrow> 'on list \<Rightarrow> (string, ('ct, 'd) trigger_data list) result"

text \<open>A trigger filter by what it is made from: data sources, templates, and the source subgraphs.\<close>

record subgraph_filter =
  sf_subgraph :: string
  sf_start_block :: block_number
  sf_entities :: "string list"
  sf_manifest_idx :: nat

record ('on, 'ont) trigger_filter =
  tf_data_sources :: "'on list"
  tf_templates :: "'ont list"
  tf_subgraphs :: "subgraph_filter list"

text \<open>The context, \<open>IndexingState\<close> of \<open>state.rs\<close>, the store and the cells of file data sources; the filter is a field of the context.\<close>

record ('q, 'on, 'ont, 's, 'st) subgraph_runner =
  sr_ctx :: "('on, 's) indexing_context"
  sr_filter :: "('on, 'ont) trigger_filter option"
  sr_cells :: cells
  sr_store :: 'st
  sr_entity_lfu_cache :: "'q lfu_cache"
  sr_cached_head_ptr :: "block_ptr option"
  sr_should_try_unfail :: bool
  sr_backoff_attempt :: nat

datatype action = Continue | Stop | Restart

fun block_finished :: "action \<Rightarrow> bool" where
  "block_finished Restart = False"
| "block_finished Continue = True"
| "block_finished Stop = True"

datatype block_error = BlockUnknown string | BlockDeterministic subgraph_error | BlockCanceled

fun block_error_is_deterministic :: "block_error \<Rightarrow> bool" where
  "block_error_is_deterministic (BlockUnknown e) = False"
| "block_error_is_deterministic (BlockDeterministic e) = True"
| "block_error_is_deterministic BlockCanceled = False"

text \<open>A step of the runner panics or returns an error or a value, and the state after it.\<close>

type_synonym ('e, 'x, 'self) step = "((('e, 'x) result) \<times> 'self) option"

definition and_then :: "('e, 'x, 'self) step \<Rightarrow> ('x \<Rightarrow> 'self \<Rightarrow> ('e, 'y, 'self) step) \<Rightarrow> ('e, 'y, 'self) step" where
  "and_then m k =
     (case m of
        None \<Rightarrow> None
      | Some (Inl e, self) \<Rightarrow> Some (Inl e, self)
      | Some (Inr x, self) \<Rightarrow> k x self)"

definition map_error :: "('e \<Rightarrow> 'f) \<Rightarrow> ('e, 'x) result \<Rightarrow> ('f, 'x) result" where
  "map_error f r = (case r of Inl e \<Rightarrow> Inl (f e) | Inr x \<Rightarrow> Inr x)"

lemma and_then_simps [simp]:
  "and_then None k = None"
  "and_then (Some (Inl e, self)) k = Some (Inl e, self)"
  "and_then (Some (Inr x, self)) k = k x self"
  by (simp_all add: and_then_def)

lemma map_error_simps [simp]: "map_error f (Inl e) = Inl (f e)" "map_error f (Inr x) = Inr x"
  by (simp_all add: map_error_def)

lemma and_then_Inr:
  assumes "and_then m k = Some (Inr y, s')"
  obtains x s where "m = Some (Inr x, s)" "k x s = Some (Inr y, s')"
  using assms by (auto simp: and_then_def split: option.splits sum.splits prod.splits)

lemma and_then_Inl:
  assumes "and_then m k = Some (Inl e, s')"
  obtains "m = Some (Inl e, s')" | x s where "m = Some (Inr x, s)" "k x s = Some (Inl e, s')"
  using assms by (auto simp: and_then_def split: option.splits sum.splits prod.splits)

section \<open>Filters and reverting\<close>

definition is_static_filters_enabled :: "('on, 'ont, 'ct, 'mt, 'd, 's, 'st) runner_inputs
    \<Rightarrow> ('q, 'on, 'ont, 's, 'st) subgraph_runner \<Rightarrow> bool" where
  "is_static_filters_enabled I self \<longleftrightarrow>
     ri_static_filters I \<or> si_hosts_len (ic_instance (sr_ctx self)) > ri_static_filters_threshold I"

definition end_block_filter :: "('on, 'ont, 'ct, 'mt) chain \<Rightarrow> block_ptr option \<Rightarrow> 'on \<Rightarrow> bool" where
  "end_block_filter C current_ptr ds \<longleftrightarrow>
     (case current_ptr of
        None \<Rightarrow> True
      | Some block \<Rightarrow> (case ch_end_block C ds of None \<Rightarrow> True | Some e \<Rightarrow> number block < e))"

fun as_subgraph :: "'on any_data_source \<Rightarrow> subgraph_data_source option" where
  "as_subgraph (Onchain ds) = None"
| "as_subgraph (Offchain ds) = None"
| "as_subgraph (Subgraph ds) = Some ds"

fun template_as_onchain :: "'ont ds_template \<Rightarrow> 'ont option" where
  "template_as_onchain (OnchainTemplate t) = Some t"
| "template_as_onchain (OffchainTemplate t) = None"

definition build_filter :: "('on, 'ont, 'ct, 'mt, 'd, 's, 'st) runner_inputs
    \<Rightarrow> ('q, 'on, 'ont, 's, 'st) subgraph_runner \<Rightarrow> ('on, 'ont) trigger_filter option" where
  "build_filter I self =
     (let C = ri_chain I;
          current_ptr = ws_block_ptr (ri_store I) (sr_store self);
          data_sources = si_static_data_sources (ic_instance (sr_ctx self));
          subgraphs = map (\<lambda>ds. \<lparr>sf_subgraph = sg_source_address ds, sf_start_block = sg_start_block ds,
              sf_entities = map enh_entity (sg_handlers ds), sf_manifest_idx = sg_manifest_idx ds\<rparr>)
            (List.map_filter as_subgraph data_sources)
      in if \<not> is_static_filters_enabled I self
         then map_option (\<lambda>dss. \<lparr>tf_data_sources = filter (end_block_filter C current_ptr) dss,
                  tf_templates = [], tf_subgraphs = subgraphs\<rparr>)
                (onchain_data_sources C (ic_instance (sr_ctx self)))
         else Some \<lparr>tf_data_sources = filter (end_block_filter C current_ptr) (List.map_filter as_onchain data_sources),
                tf_templates = List.map_filter template_as_onchain (ri_templates I), tf_subgraphs = subgraphs\<rparr>)"

text \<open>The cache is replaced by an empty one, made with \<open>LfuCache::new\<close> from the environment.\<close>

definition revert_state_to :: "('on, 'ont, 'ct, 'mt, 'd, 's, 'st) runner_inputs
    \<Rightarrow> ('q, entity_key, entity option) priority_queue \<Rightarrow> block_number
    \<Rightarrow> ('q, 'on, 'ont, 's, 'st) subgraph_runner \<Rightarrow> ('q, 'on, 'ont, 's, 'st) subgraph_runner option" where
  "revert_state_to I Q block_number self =
     map_option (\<lambda>(cells, ctx). self\<lparr>sr_entity_lfu_cache := lfu_new Q (ri_dead_weight I), sr_cells := cells, sr_ctx := ctx\<rparr>)
       (ic_revert_data_sources (ri_chain I) (block_number + 1) (sr_cells self) (sr_ctx self))"

definition needs_restart :: "('on, 'ont, 'ct, 'mt, 'd, 's, 'st) runner_inputs \<Rightarrow> block_ptr \<Rightarrow> block_ptr \<Rightarrow> bool" where
  "needs_restart I revert_to_ptr subgraph_ptr \<longleftrightarrow>
     list_ex (\<lambda>b. number revert_to_ptr \<le> b \<and> b \<le> number subgraph_ptr) (ri_end_blocks I)"

definition close_to_chain_head :: "block_ptr \<Rightarrow> block_ptr option \<Rightarrow> block_number \<Rightarrow> bool" where
  "close_to_chain_head deployment_head chain_head n \<longleftrightarrow>
     (case chain_head of None \<Rightarrow> False | Some head \<Rightarrow> number deployment_head \<ge> number head - n)"

definition CAUGHT_UP_DISTANCE :: block_number where
  "CAUGHT_UP_DISTANCE = 10"

definition is_caught_up :: "('on, 'ont, 'ct, 'mt, 'd, 's, 'st) runner_inputs \<Rightarrow> block_ptr
    \<Rightarrow> ('q, 'on, 'ont, 's, 'st) subgraph_runner \<Rightarrow> (block_error, bool, ('q, 'on, 'ont, 's, 'st) subgraph_runner) step" where
  "is_caught_up I ptr self =
     (let cached = sr_cached_head_ptr self
      in and_then
           (if cached = None \<or> close_to_chain_head ptr cached CAUGHT_UP_DISTANCE
            then (case ws_chain_head (ri_store I) (sr_store self) of
                    Inl e \<Rightarrow> Some (Inl (BlockUnknown e), self)
                  | Inr head \<Rightarrow> Some (Inr (), self\<lparr>sr_cached_head_ptr := head\<rparr>))
            else Some (Inr (), self))
           (\<lambda>_ self. Some (Inr (close_to_chain_head ptr (sr_cached_head_ptr self) CAUGHT_UP_DISTANCE), self)))"

section \<open>Created data sources\<close>

fun template_manifest_idx :: "('on, 'ont, 'ct, 'mt) chain \<Rightarrow> 'ont ds_template \<Rightarrow> nat option" where
  "template_manifest_idx C (OnchainTemplate t) = ch_template_idx C t"
| "template_manifest_idx C (OffchainTemplate t) = Some (ot_manifest_idx t)"

text \<open>One data source from its template; a new file data source takes the next causality region first.\<close>

definition instantiate :: "('on, 'ont, 'ct, 'mt, 'd, 's, 'st) runner_inputs \<Rightarrow> 'ont ds_info \<Rightarrow> 'ont ds_template
    \<Rightarrow> ('q, 'on, 'ont, 's, 'st) subgraph_runner
    \<Rightarrow> (creation_error, 'on any_data_source) result \<times> ('q, 'on, 'ont, 's, 'st) subgraph_runner" where
  "instantiate I info created_ds_template self =
     (case di_template info of
        OnchainTemplate _ \<Rightarrow>
          (case template_as_onchain created_ds_template of
             None \<Rightarrow> (Inl (CreationError NoTemplate), self)
           | Some t \<Rightarrow> (bind_res (ch_from_template_info (ri_chain I) info t) (\<lambda>ds. Inr (Onchain ds)), self))
      | OffchainTemplate _ \<Rightarrow>
          (case ic_causality_region_next_value (sr_ctx self) of
             (cr, ctx) \<Rightarrow>
               (case od_from_template_info (ri_parse_path I) info cr (sr_cells self) of
                  Inl e \<Rightarrow> (Inl e, self\<lparr>sr_ctx := ctx\<rparr>)
                | Inr (ds, cells) \<Rightarrow> (Inr (Offchain ds), self\<lparr>sr_ctx := ctx, sr_cells := cells\<rparr>))))"

fun create_dynamic_data_sources :: "('on, 'ont, 'ct, 'mt, 'd, 's, 'st) runner_inputs \<Rightarrow> 'ont ds_info list
    \<Rightarrow> ('q, 'on, 'ont, 's, 'st) subgraph_runner
    \<Rightarrow> (block_error, ('on any_data_source \<times> ('on, 's) host) list, ('q, 'on, 'ont, 's, 'st) subgraph_runner) step" where
  "create_dynamic_data_sources I [] self = Some (Inr [], self)"
| "create_dynamic_data_sources I (info # infos) self =
     (case template_manifest_idx (ri_chain I) (di_template info) of
        None \<Rightarrow> Some (Inl (BlockUnknown ''Expected template to have an idx''), self)
      | Some idx \<Rightarrow>
          (case find (\<lambda>t. template_manifest_idx (ri_chain I) t = Some idx) (ri_templates I) of
             None \<Rightarrow> Some (Inl (BlockUnknown ''Expected to find a template for this dynamic data source''), self)
           | Some t \<Rightarrow>
               (case instantiate I info t self of
                  (Inl (Ignore _), self) \<Rightarrow> create_dynamic_data_sources I infos self
                | (Inl (CreationError e), self) \<Rightarrow> Some (Inl (BlockUnknown ''failed to create the data source''), self)
                | (Inr data_source, self) \<Rightarrow>
                    (case ic_add_dynamic_data_source (ri_chain I) (ri_instance_env I) (sr_cells self) data_source (sr_ctx self) of
                       None \<Rightarrow> None
                     | Some (Inl e, ctx) \<Rightarrow> Some (Inl (BlockUnknown ''failed to add the data source''), self\<lparr>sr_ctx := ctx\<rparr>)
                     | Some (Inr (Some host), ctx) \<Rightarrow>
                         and_then (create_dynamic_data_sources I infos (self\<lparr>sr_ctx := ctx\<rparr>)) (\<lambda>rest self.
                           Some (Inr ((data_source, host) # rest), self))
                     | Some (Inr None, ctx) \<Rightarrow> create_dynamic_data_sources I infos (self\<lparr>sr_ctx := ctx\<rparr>)))))"

fun persist_dynamic_data_sources :: "('on, 'ont, 'ct, 'mt) chain \<Rightarrow> context_serde \<Rightarrow> cells \<Rightarrow> 'on any_data_source list
    \<Rightarrow> ('q, 'ont, 'err) block_state \<Rightarrow> ('q, 'ont, 'err) block_state option" where
  "persist_dynamic_data_sources C J cells [] state = Some state"
| "persist_dynamic_data_sources C J cells (ds # dss) state =
     (case as_stored_dynamic C J cells ds of
        None \<Rightarrow> None
      | Some stored \<Rightarrow> persist_dynamic_data_sources C J cells dss (persist_data_source stored state))"

end
