(* ===== verification/Process_Block.thy ===== *)
theory Process_Block
  imports Subgraph_Runner
begin

text \<open>
  \<open>process_block\<close>, \<open>handle_offchain_triggers\<close> and \<open>update_proof_of_indexing\<close> of \<open>core/src/subgraph/runner.rs\<close>,
  in the order of the source. The environment of handlers is an argument next to the inputs.
\<close>

section \<open>The triggers of a block\<close>

record ('ct, 'd) block_with_triggers =
  rb_ptr :: block_ptr
  rb_time :: block_time
  rb_triggers :: "('ct, 'd) trigger_data list"

text \<open>The environment of handlers reads from the store of the subgraph, or from none.\<close>

definition with_read_store :: "read_store \<Rightarrow> ('q, 'a, 'h, 'w, 'l, 'c, 'r, 's, 't) wasm_env \<Rightarrow> ('q, 'a, 'h, 'w, 'l, 'c, 'r, 's, 't) wasm_env" where
  "with_read_store rs W =
     W\<lparr>we_exports := (we_exports W)\<lparr>xe_cache := (xe_cache (we_exports W))\<lparr>ce_store := rs\<rparr>\<rparr>\<rparr>"

definition empty_store :: read_store where
  "empty_store = \<lparr>rs_get = (\<lambda>_. Inr None), rs_get_many = (\<lambda>_. Inr []), rs_get_derived = (\<lambda>_. Inr [])\<rparr>"

definition poi_region_from_network :: "string \<Rightarrow> string" where
  "poi_region_from_network network = ''ethereum/'' @ network"

text \<open>Decoding and running, which the source has twice: for the hosts of the instance and for new hosts.\<close>

definition run_block_triggers :: "('on, 'ont, 'ct, 'mt, 'd, 's, 'st) runner_inputs
    \<Rightarrow> ('q, 'a, 'h, 'w, 'l, 'c, 'r, 's, ('mt, 'd) mapping_trigger) wasm_env
    \<Rightarrow> ('on, 'ont, ('mt, 'd) mapping_trigger) host_config \<Rightarrow> block_ptr \<times> block_time
    \<Rightarrow> (('ct, 'd) trigger_data \<Rightarrow> ('on, 's) host list option) \<Rightarrow> ('ct, 'd) trigger_data list
    \<Rightarrow> ('q, 'ont, subgraph_error) block_state \<Rightarrow> ('h, 'l) shared_poi \<Rightarrow> ('q, 'on, 'ont, 's, 'st) subgraph_runner
    \<Rightarrow> (mapping_error, ('q, 'ont, subgraph_error) block_state \<times> ('h, 'l) shared_poi, ('q, 'on, 'ont, 's, 'st) subgraph_runner) step" where
  "run_block_triggers I W H block hosts_filter triggers state poi self =
     (case match_and_decode_many (ri_chain I) (ri_after_decode I) (sr_cells self) (fst block) (snd block) hosts_filter triggers of
        None \<Rightarrow> None
      | Some (Inl e) \<Rightarrow> Some (Inl e, self)
      | Some (Inr runnables) \<Rightarrow>
          map_option (\<lambda>(r, cells). (r, self\<lparr>sr_cells := cells\<rparr>))
            (run_runnables (with_read_store (ws_read (ri_store I) (sr_store self)) W) H (number (fst block)) runnables
               (poi_region_from_network (ri_network I)) state poi (sr_cells self)))"

section \<open>Data sources created in the block\<close>

fun mapping_error_text :: "mapping_error \<Rightarrow> string" where
  "mapping_error_text (PossibleReorgError e) = e"
| "mapping_error_text (UnknownError e) = e"

text \<open>One iteration of the loop: the created data sources get hosts and process the block; a trigger of a subgraph is unreachable here.\<close>

definition created_step :: "('on, 'ont, 'ct, 'mt, 'd, 's, 'st) runner_inputs
    \<Rightarrow> ('q, 'a, 'h, 'w, 'l, 'c, 'r, 's, ('mt, 'd) mapping_trigger) wasm_env
    \<Rightarrow> ('on, 'ont, ('mt, 'd) mapping_trigger) host_config \<Rightarrow> block_ptr \<times> block_time
    \<Rightarrow> ('q, 'ont, subgraph_error) block_state \<Rightarrow> ('h, 'l) shared_poi \<Rightarrow> ('q, 'on, 'ont, 's, 'st) subgraph_runner
    \<Rightarrow> (block_error, ('q, 'ont, subgraph_error) block_state \<times> ('h, 'l) shared_poi, ('q, 'on, 'ont, 's, 'st) subgraph_runner) step" where
  "created_step I W H block state poi self =
     (case drain_created_data_sources state of
        None \<Rightarrow> None
      | Some (created, state) \<Rightarrow>
          and_then (create_dynamic_data_sources I created self) (\<lambda>new self.
          (let data_sources = map fst new; runtime_hosts = map snd new in
           case ri_block_again I block of
             Inl e \<Rightarrow> Some (Inl (BlockUnknown e), self)
           | Inr block \<Rightarrow>
               (case ri_triggers_in_block I (fst block) (List.map_filter as_onchain data_sources) of
                  Inl e \<Rightarrow> Some (Inl (BlockUnknown e), self)
                | Inr triggers \<Rightarrow>
                    (case persist_dynamic_data_sources (ri_chain I) (hc_serde H) (sr_cells self) data_sources state of
                       None \<Rightarrow> None
                     | Some state \<Rightarrow>
                         map_option (\<lambda>(r, self). (map_error (\<lambda>e. BlockUnknown (mapping_error_text e)) r, self))
                           (run_block_triggers I W H block
                              (\<lambda>t. case t of SubgraphTrigger _ \<Rightarrow> None | _ \<Rightarrow> Some runtime_hosts) triggers state poi self))))))"

text \<open>
  The loop with fuel, \<open>None\<close> when it is used up; inside, as before, a panic is \<open>None\<close>. The limit on the number
  of data sources bounds the iterations, see \<open>Runner_Correct\<close>.
\<close>

fun created_loop :: "nat \<Rightarrow> ('on, 'ont, 'ct, 'mt, 'd, 's, 'st) runner_inputs
    \<Rightarrow> ('q, 'a, 'h, 'w, 'l, 'c, 'r, 's, ('mt, 'd) mapping_trigger) wasm_env
    \<Rightarrow> ('on, 'ont, ('mt, 'd) mapping_trigger) host_config \<Rightarrow> block_ptr \<times> block_time
    \<Rightarrow> ('q, 'ont, subgraph_error) block_state \<Rightarrow> ('h, 'l) shared_poi \<Rightarrow> ('q, 'on, 'ont, 's, 'st) subgraph_runner
    \<Rightarrow> (block_error, ('q, 'ont, subgraph_error) block_state \<times> ('h, 'l) shared_poi, ('q, 'on, 'ont, 's, 'st) subgraph_runner) step option" where
  "created_loop 0 I W H block state poi self = None"
| "created_loop (Suc fuel) I W H block state poi self =
     (case has_created_data_sources state of
        None \<Rightarrow> Some None
      | Some False \<Rightarrow> Some (Some (Inr (state, poi), self))
      | Some True \<Rightarrow>
          (case created_step I W H block state poi self of
             None \<Rightarrow> Some None
           | Some (Inl e, self) \<Rightarrow> Some (Some (Inl e, self))
           | Some (Inr (state, poi), self) \<Rightarrow> created_loop fuel I W H block state poi self))"

definition created_fuel :: "('on, 'ont, 'ct, 'mt, 'd, 's, 'st) runner_inputs \<Rightarrow> nat" where
  "created_fuel I = ie_max_data_sources (ri_instance_env I) + 2"

section \<open>The proof of indexing of the block\<close>

definition POI_DIGEST :: string where
  "POI_DIGEST = ''digest''"

definition POI_BLOCK_TIME :: string where
  "POI_BLOCK_TIME = ''blockTime''"

definition poi_key :: "string \<Rightarrow> entity_key" where
  "poi_key region = \<lparr>key_type = POI_OBJECT, key_id = IdString region, key_causality_region = CR_ONCHAIN\<rparr>"

definition store_poi_entity :: "pool_ref \<Rightarrow> bool \<Rightarrow> 'q cache_env \<Rightarrow> string \<Rightarrow> nat list \<Rightarrow> block_time \<Rightarrow> block_number
    \<Rightarrow> 'q entity_cache \<Rightarrow> ((block_error, unit) result \<times> 'q entity_cache) option" where
  "store_poi_entity pool has_aggregations env region digest time block cache =
     (case entity_make pool ([(ID, VString region), (POI_DIGEST, VBytes digest)] @
             (if has_aggregations then [(POI_BLOCK_TIME, VInt8 (time div 1000000000))] else [])) of
        Inl e \<Rightarrow> Some (Inl (BlockUnknown ''the PoI entity is not valid''), cache)
      | Inr poi \<Rightarrow>
          map_option (\<lambda>(r, left, cache). (map_error (\<lambda>e. BlockUnknown ''entity_cache.set'') r, cache))
            (cache_set env (poi_key region) poi block None cache))"

text \<open>The streams in the order of the map; \<open>None\<close> is also a digest that is not bytes.\<close>

fun update_proof_of_indexing :: "('a, entity, 'h, 'w, 'l) hash_env \<Rightarrow> pool_ref \<Rightarrow> bool \<Rightarrow> 'q cache_env \<Rightarrow> block_time \<Rightarrow> block_number
    \<Rightarrow> (string \<times> ('h, 'l) block_event_stream) list \<Rightarrow> 'q entity_cache \<Rightarrow> ((block_error, unit) result \<times> 'q entity_cache) option" where
  "update_proof_of_indexing E pool has_aggregations env time block [] cache = Some (Inr (), cache)"
| "update_proof_of_indexing E pool has_aggregations env time block ((region, stream) # streams) cache =
     (case cache_get env (poi_key region) StoreScope cache of
        None \<Rightarrow> None
      | Some (Inl e, cache) \<Rightarrow> Some (Inl (BlockUnknown ''entity_cache.get''), cache)
      | Some (Inr entity, cache) \<Rightarrow>
          (case (case entity of
               None \<Rightarrow> Some None
             | Some e \<Rightarrow> (case entity_get e POI_DIGEST of Some (VBytes b) \<Rightarrow> Some (Some b) | _ \<Rightarrow> None)) of
             None \<Rightarrow> None
           | Some prev_poi \<Rightarrow>
               (case store_poi_entity pool has_aggregations env region (stream_pause E prev_poi stream) time block cache of
                  None \<Rightarrow> None
                | Some (Inl e, cache) \<Rightarrow> Some (Inl e, cache)
                | Some (Inr u, cache) \<Rightarrow> update_proof_of_indexing E pool has_aggregations env time block streams cache)))"

section \<open>File data sources\<close>

text \<open>Each trigger has a store and a cache of its own, and is not part of the proof of indexing.\<close>

definition handle_offchain_trigger :: "('on, 'ont, 'ct, 'mt, 'd, 's, 'st) runner_inputs
    \<Rightarrow> ('q, 'a, 'h, 'w, 'l, 'c, 'r, 's, ('mt, 'd) mapping_trigger) wasm_env
    \<Rightarrow> ('on, 'ont, ('mt, 'd) mapping_trigger) host_config \<Rightarrow> block_ptr \<times> block_time \<Rightarrow> offchain_trigger
    \<Rightarrow> ('q, 'on, 'ont, 's, 'st) subgraph_runner
    \<Rightarrow> (block_error, entity entity_modification list \<times> stored_data_source list \<times> stored_data_source list,
        ('q, 'on, 'ont, 's, 'st) subgraph_runner) step" where
  "handle_offchain_trigger I W H block t self =
     (let W = with_read_store empty_store W;
          env = xe_cache (we_exports W);
          state = block_state_new (ri_write_capacity I) (lfu_new (ce_queue env) (ri_dead_weight I));
          trigger = OffchainTrigger t
      in case hosts_for_trigger (ri_chain I) (ic_instance (sr_ctx self)) trigger of
           None \<Rightarrow> None
         | Some hosts \<Rightarrow>
             (case match_and_decode (ri_chain I) (sr_cells self) (fst block) (snd block) trigger hosts of
                Inl e \<Rightarrow> Some (Inl (BlockUnknown (mapping_error_text e)), self)
              | Inr runnable \<Rightarrow>
                  (case process_trigger W H (number (fst block)) (rt_hosted_triggers runnable) '''' state None (sr_cells self) of
                     None \<Rightarrow> None
                   | Some (Inl e, cells) \<Rightarrow> Some (Inl (BlockUnknown (mapping_error_text e)), self\<lparr>sr_cells := cells\<rparr>)
                   | Some (Inr (state, _), cells) \<Rightarrow>
                       let self = self\<lparr>sr_cells := cells\<rparr> in
                       (case has_created_on_chain_data_sources state of
                          None \<Rightarrow> None
                        | Some True \<Rightarrow> Some (Inl (BlockUnknown ''Attempted to create on-chain data source''), self)
                        | Some False \<Rightarrow>
                            (case drain_created_data_sources state of
                               None \<Rightarrow> None
                             | Some (created, state) \<Rightarrow>
                                 and_then (create_dynamic_data_sources I created self) (\<lambda>new self.
                                 (case persist_dynamic_data_sources (ri_chain I) (hc_serde H) (sr_cells self) (map fst new) state of
                                    None \<Rightarrow> None
                                  | Some state \<Rightarrow>
                                      (case bs_deterministic_errors state of
                                         err # errs \<Rightarrow> Some (Inl (BlockUnknown (se_message err)), self)
                                       | [] \<Rightarrow>
                                           (case as_modifications env (number (fst block)) (bs_entity_cache state) of
                                              None \<Rightarrow> None
                                            | Some (Inl e) \<Rightarrow> Some (Inl (BlockUnknown ''as_modifications''), self)
                                            | Some (Inr m) \<Rightarrow>
                                                Some (Inr (mc_modifications m, bs_processed_data_sources state,
                                                        bs_persisted_data_sources state), self))))))))))"

fun handle_offchain_triggers :: "('on, 'ont, 'ct, 'mt, 'd, 's, 'st) runner_inputs
    \<Rightarrow> ('q, 'a, 'h, 'w, 'l, 'c, 'r, 's, ('mt, 'd) mapping_trigger) wasm_env
    \<Rightarrow> ('on, 'ont, ('mt, 'd) mapping_trigger) host_config \<Rightarrow> block_ptr \<times> block_time \<Rightarrow> offchain_trigger list
    \<Rightarrow> ('q, 'on, 'ont, 's, 'st) subgraph_runner
    \<Rightarrow> (block_error, entity entity_modification list \<times> stored_data_source list \<times> stored_data_source list,
        ('q, 'on, 'ont, 's, 'st) subgraph_runner) step" where
  "handle_offchain_triggers I W H block [] self = Some (Inr ([], [], []), self)"
| "handle_offchain_triggers I W H block (t # ts) self =
     and_then (handle_offchain_trigger I W H block t self) (\<lambda>(mods, processed, persisted) self.
     and_then (handle_offchain_triggers I W H block ts self) (\<lambda>(mods', processed', persisted') self.
       Some (Inr (mods @ mods', processed @ processed', persisted @ persisted'), self)))"

end
