(* ===== verification/Runner_Loop.thy ===== *)
theory Runner_Loop
  imports Process_Block
begin

text \<open>
  The end of \<open>process_block\<close>, and how the runner reacts to what the block stream gives it: \<open>handle_process_block\<close>,
  \<open>handle_action\<close>, \<open>handle_revert\<close>, \<open>handle_err\<close> and the inner loop of \<open>run_inner\<close>, \<open>core/src/subgraph/runner.rs\<close>.
\<close>

section \<open>The transaction of a block\<close>

text \<open>What the handlers and the proof of indexing changed; a file data source has its own cache.\<close>

definition block_modifications :: "('on, 'ont, 'ct, 'mt, 'd, 's, 'st) runner_inputs
    \<Rightarrow> ('q, 'a, 'h, 'w, 'l, 'c, 'r, 's, ('mt, 'd) mapping_trigger) wasm_env \<Rightarrow> block_ptr \<times> block_time
    \<Rightarrow> ('q, 'ont, subgraph_error) block_state \<Rightarrow> ('h, 'l) shared_poi
    \<Rightarrow> (block_error, 'q modifications_and_cache) result option" where
  "block_modifications I W block state poi =
     (let E = we_exports W; env = xe_cache E
      in case (case poi of
             None \<Rightarrow> Some (Inr (), bs_entity_cache state)
           | Some p \<Rightarrow> update_proof_of_indexing (xe_hash E) (xe_pool E) (ri_has_aggregations I) env (snd block) (number (fst block))
                 (pi_per_causality_region p) (bs_entity_cache state)) of
           None \<Rightarrow> None
         | Some (Inl e, cache) \<Rightarrow> Some (Inl e)
         | Some (Inr u, cache) \<Rightarrow>
             map_option (map_error (\<lambda>e. BlockUnknown ''as_modifications'')) (as_modifications env (number (fst block)) cache))"

definition is_poi_entity :: "entity entity_modification \<Rightarrow> bool" where
  "is_poi_entity m \<longleftrightarrow> key_type (emod_key m) = POI_OBJECT"

text \<open>
  The upload of the metrics is spawned and its errors are only logged; without the URL of the object store there is none.
\<close>

definition flush_metrics_to_store :: "('on, 'ont, 'ct, 'mt, 'd, 's, 'st) runner_inputs \<Rightarrow> (string, unit) result" where
  "flush_metrics_to_store I =
     (if \<not> ri_dips_metrics I then Inr ()
      else (case ri_dips_store_url I of None \<Rightarrow> Inl ''Object store URL is not set'' | Some url \<Rightarrow> Inr ()))"

text \<open>
  From the check of the assertion on the modifications to the outcome of the block. The metrics are flushed after the transaction.
\<close>

definition transact_block :: "('on, 'ont, 'ct, 'mt, 'd, 's, 'st) runner_inputs \<Rightarrow> block_ptr \<times> block_time \<Rightarrow> string \<Rightarrow> bool
    \<Rightarrow> ('q, 'ont, subgraph_error) block_state
    \<Rightarrow> entity entity_modification list \<times> stored_data_source list \<times> stored_data_source list
    \<Rightarrow> ('q, 'on, 'ont, 's, 'st) subgraph_runner \<Rightarrow> (block_error, action, ('q, 'on, 'ont, 's, 'st) subgraph_runner) step" where
  "transact_block I block cursor restart state out self =
     (case out of (mods, processed, persisted) \<Rightarrow>
      let fatal = has_errors state \<and> \<not> ri_non_fatal_errors I;
          mods = (if fatal then filter is_poi_entity mods else mods)
      in if fatal \<and> length mods \<noteq> 1 then None
         else and_then (is_caught_up I (fst block) self) (\<lambda>caught_up self.
           (case ws_transact (ri_store I)
               \<lparr>ta_ptr = fst block, ta_time = snd block, ta_cursor = cursor, ta_mods = mods,
                ta_data_sources = bs_persisted_data_sources state @ persisted,
                ta_errors = bs_deterministic_errors state, ta_processed = processed,
                ta_non_fatal_errors = ri_non_fatal_errors I, ta_caught_up = caught_up\<rparr> (sr_store self) of
              (Inl e, st) \<Rightarrow> Some (Inl (BlockUnknown ''Failed to transact block operations''), self\<lparr>sr_store := st\<rparr>)
            | (Inr u, st) \<Rightarrow>
                let self = self\<lparr>sr_store := st\<rparr> in
                if fatal then Some (Inl (BlockDeterministic (hd (bs_deterministic_errors state))), self)
                else
                  (case flush_metrics_to_store I of
                     Inl e \<Rightarrow> Some (Inl (BlockUnknown e), self)
                   | Inr u \<Rightarrow>
                       if has_errors state \<and> \<not> ri_disable_fail_fast I \<and> \<not> ws_is_synced (ri_store I) (sr_store self)
                       then (case ws_unassign (ri_store I) (sr_store self) of
                               (Inl e, st) \<Rightarrow> Some (Inl (BlockUnknown e), self\<lparr>sr_store := st\<rparr>)
                             | (Inr u, st) \<Rightarrow> Some (Inl BlockCanceled, self\<lparr>sr_store := st\<rparr>))
                       else Some (Inr (if restart then Restart else Continue), self)))))"

text \<open>The events that are ready are taken from the monitor even if one of them fails afterwards.\<close>

definition finish_block :: "('on, 'ont, 'ct, 'mt, 'd, 's, 'st) runner_inputs
    \<Rightarrow> ('q, 'a, 'h, 'w, 'l, 'c, 'r, 's, ('mt, 'd) mapping_trigger) wasm_env
    \<Rightarrow> ('on, 'ont, ('mt, 'd) mapping_trigger) host_config \<Rightarrow> block_ptr \<times> block_time \<Rightarrow> string \<Rightarrow> bool \<Rightarrow> bool
    \<Rightarrow> ('q, 'ont, subgraph_error) block_state \<Rightarrow> ('h, 'l) shared_poi \<Rightarrow> ('q, 'on, 'ont, 's, 'st) subgraph_runner
    \<Rightarrow> (block_error, action, ('q, 'on, 'ont, 's, 'st) subgraph_runner) step" where
  "finish_block I W H block cursor canceled restart state poi self =
     (if canceled then Some (Inl BlockCanceled, self)
      else
        (case block_modifications I (with_read_store (ws_read (ri_store I) (sr_store self)) W) block state poi of
           None \<Rightarrow> None
         | Some (Inl e) \<Rightarrow> Some (Inl e, self)
         | Some (Inr m) \<Rightarrow>
             (case ready_offchain_events (ic_offchain_monitor (sr_ctx self)) of
                (events, monitor) \<Rightarrow>
                  let self = self\<lparr>sr_ctx := (sr_ctx self)\<lparr>ic_offchain_monitor := monitor\<rparr>\<rparr> in
                  (case events of
                     Inl e \<Rightarrow> Some (Inl (BlockUnknown e), self)
                   | Inr events \<Rightarrow>
                       and_then (handle_offchain_triggers I W H block events self) (\<lambda>(mods, processed, persisted) self.
                         if \<not> lfu_is_empty (ce_queue (xe_cache (we_exports W))) (sr_entity_lfu_cache self) then None
                         else transact_block I block cursor restart state
                                (mc_modifications m @ mods, processed, persisted)
                                (self\<lparr>sr_entity_lfu_cache := mc_entity_lfu_cache m\<rparr>))))))"

section \<open>A block\<close>

text \<open>
  A possible reorg does nothing but restart the block stream; the inner \<open>None\<close> of the loop is its panic.
\<close>

definition process_block :: "('on, 'ont, 'ct, 'mt, 'd, 's, 'st) runner_inputs
    \<Rightarrow> ('q, 'a, 'h, 'w, 'l, 'c, 'r, 's, ('mt, 'd) mapping_trigger) wasm_env
    \<Rightarrow> ('on, 'ont, ('mt, 'd) mapping_trigger) host_config \<Rightarrow> bool \<Rightarrow> ('ct, 'd) block_with_triggers \<Rightarrow> string
    \<Rightarrow> ('q, 'on, 'ont, 's, 'st) subgraph_runner \<Rightarrow> (block_error, action, ('q, 'on, 'ont, 's, 'st) subgraph_runner) step option" where
  "process_block I W H canceled b cursor self =
     (let block = (rb_ptr b, rb_time b);
          Q = ce_queue (xe_cache (we_exports W));
          poi = Some (poi_new (nat (number (rb_ptr b))) (ri_poi_version I));
          state = block_state_new (ri_write_capacity I) (sr_entity_lfu_cache self);
          self = self\<lparr>sr_entity_lfu_cache := lfu_new Q False\<rparr>
      in case run_block_triggers I W H block (hosts_for_trigger (ri_chain I) (ic_instance (sr_ctx self))) (rb_triggers b) state poi self of
           None \<Rightarrow> Some None
         | Some (Inl (UnknownError e), self) \<Rightarrow> Some (Some (Inl (BlockUnknown e), self))
         | Some (Inl (PossibleReorgError e), self) \<Rightarrow> Some (Some (Inr Restart, self))
         | Some (Inr (state, poi), self) \<Rightarrow>
             let has_expired_data_sources = number (rb_ptr b) \<in> set (ri_end_blocks I) in
             (case (if is_static_filters_enabled I self then Some False else has_created_on_chain_data_sources state) of
                None \<Rightarrow> Some None
              | Some created_data_sources_needs_restart \<Rightarrow>
                  map_option (\<lambda>m. and_then m (\<lambda>(state, poi) self.
                      finish_block I W H block cursor canceled
                        (created_data_sources_needs_restart \<or> has_expired_data_sources) state poi self))
                    (created_loop (created_fuel I) I W H block state poi self)))"

section \<open>Reacting to the outcome\<close>

text \<open>\<open>sleep_async\<close> counts the attempts, without overflow here.\<close>

definition fail_with :: "('on, 'ont, 'ct, 'mt, 'd, 's, 'st) runner_inputs \<Rightarrow> subgraph_error
    \<Rightarrow> ('q, 'on, 'ont, 's, 'st) subgraph_runner \<Rightarrow> (string, unit, ('q, 'on, 'ont, 's, 'st) subgraph_runner) step" where
  "fail_with I e self =
     (case ws_fail (ri_store I) e (sr_store self) of
        (r, st) \<Rightarrow> Some (map_error (\<lambda>_. ''Failed to set subgraph status to `failed`'') r, self\<lparr>sr_store := st\<rparr>))"

fun block_error_text :: "block_error \<Rightarrow> string" where
  "block_error_text (BlockUnknown e) = e"
| "block_error_text (BlockDeterministic e) = se_message e"
| "block_error_text BlockCanceled = ''subgraph stopped while processing triggers''"

definition handle_ok_action :: "('on, 'ont, 'ct, 'mt, 'd, 's, 'st) runner_inputs \<Rightarrow> block_ptr \<Rightarrow> action
    \<Rightarrow> ('q, 'on, 'ont, 's, 'st) subgraph_runner \<Rightarrow> (string, action, ('q, 'on, 'ont, 's, 'st) subgraph_runner) step" where
  "handle_ok_action I ptr act self =
     and_then
       (if sr_should_try_unfail self
        then (case ws_unfail (ri_store I) ptr (sr_store self) of
                (Inl e, st) \<Rightarrow> Some (Inl e, self\<lparr>sr_store := st\<rparr>)
              | (Inr unfailed, st) \<Rightarrow>
                  Some (Inr (), self\<lparr>sr_store := st, sr_should_try_unfail := False,
                    sr_backoff_attempt := (if unfailed then 0 else sr_backoff_attempt self)\<rparr>))
        else Some (Inr (), self))
       (\<lambda>_ self.
         if (case ri_stop_block I of None \<Rightarrow> False | Some b \<Rightarrow> b \<le> number ptr) then Some (Inr Stop, self)
         else if (case ri_max_end_block I of None \<Rightarrow> False | Some b \<Rightarrow> b \<le> number ptr) then Some (Inr Stop, self)
         else Some (Inr act, self))"

definition last_good_block :: "('on, 'ont, 'ct, 'mt, 'd, 's, 'st) runner_inputs \<Rightarrow> 'st \<Rightarrow> block_number" where
  "last_good_block I st = (case ws_block_ptr (ri_store I) st of None \<Rightarrow> 0 | Some ptr \<Rightarrow> number ptr)"

definition handle_action :: "('on, 'ont, 'ct, 'mt, 'd, 's, 'st) runner_inputs
    \<Rightarrow> ('q, entity_key, entity option) priority_queue \<Rightarrow> block_ptr \<Rightarrow> (block_error, action) result
    \<Rightarrow> ('q, 'on, 'ont, 's, 'st) subgraph_runner \<Rightarrow> (string, action, ('q, 'on, 'ont, 's, 'st) subgraph_runner) step" where
  "handle_action I Q ptr act self =
     (case act of
        Inr act \<Rightarrow> handle_ok_action I ptr act self
      | Inl BlockCanceled \<Rightarrow> Some (Inr Stop, self)
      | Inl e \<Rightarrow>
          (case revert_state_to I Q (last_good_block I (sr_store self)) self of
             None \<Rightarrow> None
           | Some self \<Rightarrow>
               let deterministic = block_error_is_deterministic e;
                   err = \<lparr>se_message = map (\<lambda>c. if c = CHR 0x0A then CHR 0x09 else c) (block_error_text e),
                          se_handler = None, se_block_ptr = Some ptr, se_deterministic = deterministic\<rparr>
               in if deterministic
                  then and_then (fail_with I err self) (\<lambda>_ self. Some (Inl (se_message err), self))
                  else
                    (case ws_is_failed (ri_store I) (sr_store self) of
                       Inl e \<Rightarrow> Some (Inl e, self)
                     | Inr failed \<Rightarrow>
                         and_then (if failed then Some (Inr (), self) else fail_with I err self) (\<lambda>_ self.
                           Some (Inr Restart, self\<lparr>sr_backoff_attempt := sr_backoff_attempt self + 1,
                                   sr_should_try_unfail := True\<rparr>)))))"

section \<open>Events of the block stream\<close>

text \<open>\<open>timer_running\<close>: the time since the last pointer update is within the threshold of five minutes.\<close>

definition SKIP_DISTANCE :: block_number where
  "SKIP_DISTANCE = 1000"

definition handle_process_block :: "('on, 'ont, 'ct, 'mt, 'd, 's, 'st) runner_inputs
    \<Rightarrow> ('q, 'a, 'h, 'w, 'l, 'c, 'r, 's, ('mt, 'd) mapping_trigger) wasm_env
    \<Rightarrow> ('on, 'ont, ('mt, 'd) mapping_trigger) host_config \<Rightarrow> bool \<Rightarrow> bool \<Rightarrow> ('ct, 'd) block_with_triggers \<Rightarrow> string
    \<Rightarrow> ('q, 'on, 'ont, 's, 'st) subgraph_runner \<Rightarrow> (string, action, ('q, 'on, 'ont, 's, 'st) subgraph_runner) step option" where
  "handle_process_block I W H timer_running canceled b cursor self =
     (let process = map_option (\<lambda>m. (case m of
              None \<Rightarrow> None
            | Some (r, self) \<Rightarrow> handle_action I (ce_queue (xe_cache (we_exports W))) (rb_ptr b) r self))
            (process_block I W H canceled b cursor self)
      in if rb_triggers b = [] \<and> timer_running \<and> \<not> ws_is_synced (ri_store I) (sr_store self)
         then (case ws_chain_head (ri_store I) (sr_store self) of
                 Inl e \<Rightarrow> Some (Some (Inl e, self))
               | Inr head \<Rightarrow>
                   if \<not> close_to_chain_head (rb_ptr b) head SKIP_DISTANCE then Some (Some (Inr Continue, self))
                   else process)
         else process)"

text \<open>Without a block pointer the \<open>unwrap\<close> panics.\<close>

definition handle_revert :: "('on, 'ont, 'ct, 'mt, 'd, 's, 'st) runner_inputs
    \<Rightarrow> ('q, entity_key, entity option) priority_queue \<Rightarrow> block_ptr \<Rightarrow> string
    \<Rightarrow> ('q, 'on, 'ont, 's, 'st) subgraph_runner \<Rightarrow> (string, action, ('q, 'on, 'ont, 's, 'st) subgraph_runner) step" where
  "handle_revert I Q revert_to_ptr cursor self =
     (case ws_block_ptr (ri_store I) (sr_store self) of
        None \<Rightarrow> None
      | Some subgraph_ptr \<Rightarrow>
          if number revert_to_ptr \<ge> number subgraph_ptr then Some (Inr Continue, self)
          else
            (case ws_revert (ri_store I) revert_to_ptr cursor (sr_store self) of
               (Inl e, st) \<Rightarrow> Some (Inr Restart, self\<lparr>sr_store := st\<rparr>)
             | (Inr u, st) \<Rightarrow>
                 map_option (\<lambda>self. (Inr (if needs_restart I revert_to_ptr subgraph_ptr then Restart else Continue), self))
                   (revert_state_to I Q (number revert_to_ptr) (self\<lparr>sr_store := st\<rparr>))))"

datatype stream_error = FatalStreamError string | OtherStreamError string

definition handle_err :: "('on, 'ont, 'ct, 'mt, 'd, 's, 'st) runner_inputs \<Rightarrow> bool \<Rightarrow> stream_error
    \<Rightarrow> ('q, 'on, 'ont, 's, 'st) subgraph_runner \<Rightarrow> (string, action, ('q, 'on, 'ont, 's, 'st) subgraph_runner) step" where
  "handle_err I canceled err self =
     (if canceled then Some (Inr Stop, self)
      else (case err of
              FatalStreamError msg \<Rightarrow>
                and_then (fail_with I \<lparr>se_message = msg, se_handler = None, se_block_ptr = None, se_deterministic = True\<rparr> self)
                  (\<lambda>_ self. Some (Inr Stop, self))
            | OtherStreamError msg \<Rightarrow> Some (Inr Continue, self)))"

text \<open>An event with the handle and the timer as they are when it arrives; the stream may end.\<close>

datatype ('ct, 'd) stream_event =
    ProcessBlock "('ct, 'd) block_with_triggers" string
  | Revert block_ptr string
  | StreamError stream_error
  | StreamEnd

definition handle_stream_event :: "('on, 'ont, 'ct, 'mt, 'd, 's, 'st) runner_inputs
    \<Rightarrow> ('q, 'a, 'h, 'w, 'l, 'c, 'r, 's, ('mt, 'd) mapping_trigger) wasm_env
    \<Rightarrow> ('on, 'ont, ('mt, 'd) mapping_trigger) host_config \<Rightarrow> bool \<Rightarrow> bool \<Rightarrow> ('ct, 'd) stream_event
    \<Rightarrow> ('q, 'on, 'ont, 's, 'st) subgraph_runner \<Rightarrow> (string, action, ('q, 'on, 'ont, 's, 'st) subgraph_runner) step option" where
  "handle_stream_event I W H timer_running canceled event self =
     (case event of
        ProcessBlock b cursor \<Rightarrow> handle_process_block I W H timer_running canceled b cursor self
      | Revert ptr cursor \<Rightarrow> Some (handle_revert I (ce_queue (xe_cache (we_exports W))) ptr cursor self)
      | StreamError e \<Rightarrow> Some (handle_err I canceled e self)
      | StreamEnd \<Rightarrow> Some (Some (Inr Stop, self)))"

section \<open>The loops of \<open>run_inner\<close>\<close>

text \<open>Before the first stream: a subgraph that failed deterministically goes back one block, and one that has reached its maximum end block stops.\<close>

definition run_start :: "('on, 'ont, 'ct, 'mt, 'd, 's, 'st) runner_inputs \<Rightarrow> ('q, 'on, 'ont, 's, 'st) subgraph_runner
    \<Rightarrow> (string, action, ('q, 'on, 'ont, 's, 'st) subgraph_runner) step" where
  "run_start I self =
     (case ws_block_ptr (ri_store I) (sr_store self) of
        None \<Rightarrow> Some (Inr Continue, self)
      | Some current_ptr \<Rightarrow>
          (case ri_parent_ptr I current_ptr of
             Inl e \<Rightarrow> Some (Inl e, self)
           | Inr parent \<Rightarrow>
               and_then
                 (case parent of
                    None \<Rightarrow> Some (Inr (), self)
                  | Some parent_ptr \<Rightarrow>
                      (case ws_unfail_deterministic (ri_store I) current_ptr parent_ptr (sr_store self) of
                         (r, st) \<Rightarrow> Some (r, self\<lparr>sr_store := st\<rparr>)))
                 (\<lambda>_ self.
                   if (case ri_max_end_block I of None \<Rightarrow> False | Some b \<Rightarrow> b \<le> number current_ptr)
                   then (case ws_flush (ri_store I) (sr_store self) of
                           (r, st) \<Rightarrow> Some (map_sum id (\<lambda>_. Stop) r, self\<lparr>sr_store := st\<rparr>))
                   else Some (Inr Continue, self))))"

definition start_stream :: "('on, 'ont, 'ct, 'mt, 'd, 's, 'st) runner_inputs \<Rightarrow> ('q, 'on, 'ont, 's, 'st) subgraph_runner
    \<Rightarrow> ('q, 'on, 'ont, 's, 'st) subgraph_runner option" where
  "start_stream I self = map_option (\<lambda>f. self\<lparr>sr_filter := Some f\<rparr>) (build_filter I self)"

definition restart_store :: "('on, 'ont, 'ct, 'mt, 'd, 's, 'st) runner_inputs
    \<Rightarrow> ('q, entity_key, entity option) priority_queue \<Rightarrow> ('q, 'on, 'ont, 's, 'st) subgraph_runner
    \<Rightarrow> (string, unit, ('q, 'on, 'ont, 's, 'st) subgraph_runner) step" where
  "restart_store I Q self =
     (case ws_restart (ri_store I) (sr_store self) of
        Inl e \<Rightarrow> Some (Inl e, self)
      | Inr None \<Rightarrow> Some (Inr (), self)
      | Inr (Some st) \<Rightarrow>
          map_option (\<lambda>self. (Inr (), self\<lparr>sr_store := st\<rparr>)) (revert_state_to I Q (last_good_block I st) self))"

text \<open>
  An event with the circumstances in which it is handled: the timer, the handle before and after
  the event, and whether a newer runner of the deployment is active. The streams of all restarts are one list.
\<close>

record ('ct, 'd) occurrence =
  oe_event :: "('ct, 'd) stream_event"
  oe_timer_running :: bool
  oe_canceled :: bool
  oe_canceled_after :: bool
  oe_newer_active :: bool

datatype run_end = RunnerStopped | RunnerWaiting

text \<open>The outer loop starts with the filter, the inner loop handles one event after the other.\<close>

fun run_stream :: "('on, 'ont, 'ct, 'mt, 'd, 's, 'st) runner_inputs
    \<Rightarrow> ('q, 'a, 'h, 'w, 'l, 'c, 'r, 's, ('mt, 'd) mapping_trigger) wasm_env
    \<Rightarrow> ('on, 'ont, ('mt, 'd) mapping_trigger) host_config \<Rightarrow> ('ct, 'd) occurrence list
    \<Rightarrow> ('q, 'on, 'ont, 's, 'st) subgraph_runner \<Rightarrow> (string, run_end, ('q, 'on, 'ont, 's, 'st) subgraph_runner) step option" where
  "run_stream I W H [] self = Some (Some (Inr RunnerWaiting, self))"
| "run_stream I W H (ev # evs) self =
     (case handle_stream_event I W H (oe_timer_running ev) (oe_canceled ev) (oe_event ev) self of
        None \<Rightarrow> None
      | Some None \<Rightarrow> Some None
      | Some (Some (Inl e, self)) \<Rightarrow> Some (Some (Inl e, self))
      | Some (Some (Inr act, self)) \<Rightarrow>
          if oe_canceled_after ev
          then if oe_newer_active ev then Some (Some (Inl ''subgraph runner terminated because a newer one was active'', self))
               else Some (Some (Inr RunnerStopped, self))
          else
            (case act of
               Continue \<Rightarrow> run_stream I W H evs self
             | Stop \<Rightarrow>
                 (case ws_flush (ri_store I) (sr_store self) of
                    (r, st) \<Rightarrow> Some (Some (map_sum id (\<lambda>_. RunnerStopped) r, self\<lparr>sr_store := st\<rparr>)))
             | Restart \<Rightarrow>
                 (case restart_store I (ce_queue (xe_cache (we_exports W))) self of
                    None \<Rightarrow> Some None
                  | Some (Inl e, self) \<Rightarrow> Some (Some (Inl e, self))
                  | Some (Inr u, self) \<Rightarrow>
                      (case start_stream I self of None \<Rightarrow> Some None | Some self \<Rightarrow> run_stream I W H evs self))))"

definition run_inner :: "('on, 'ont, 'ct, 'mt, 'd, 's, 'st) runner_inputs
    \<Rightarrow> ('q, 'a, 'h, 'w, 'l, 'c, 'r, 's, ('mt, 'd) mapping_trigger) wasm_env
    \<Rightarrow> ('on, 'ont, ('mt, 'd) mapping_trigger) host_config \<Rightarrow> ('ct, 'd) occurrence list
    \<Rightarrow> ('q, 'on, 'ont, 's, 'st) subgraph_runner \<Rightarrow> (string, run_end, ('q, 'on, 'ont, 's, 'st) subgraph_runner) step option" where
  "run_inner I W H evs self =
     (case run_start I self of
        None \<Rightarrow> Some None
      | Some (Inl e, self) \<Rightarrow> Some (Some (Inl e, self))
      | Some (Inr Stop, self) \<Rightarrow> Some (Some (Inr RunnerStopped, self))
      | Some (Inr _, self) \<Rightarrow> (case start_stream I self of None \<Rightarrow> Some None | Some self \<Rightarrow> run_stream I W H evs self))"

section \<open>The end blocks of a subgraph\<close>

text \<open>From \<open>instance_manager.rs\<close>: the end blocks are a set, those of the data sources of the manifest.\<close>

definition manifest_end_blocks :: "('on, 'ont, 'ct, 'mt) chain \<Rightarrow> 'on any_data_source list \<Rightarrow> block_number list" where
  "manifest_end_blocks C manifest =
     sorted_list_of_set (set (List.map_filter (\<lambda>d. Option.bind (as_onchain d) (ch_end_block C)) manifest))"

definition max_end_block :: "('on, 'ont, 'ct, 'mt) chain \<Rightarrow> 'on any_data_source list \<Rightarrow> 'on any_data_source list
    \<Rightarrow> block_number option" where
  "max_end_block C manifest dynamic =
     (let end_blocks = manifest_end_blocks C manifest
      in if length (manifest @ dynamic) = length end_blocks
         then (if end_blocks = [] then None else Some (last end_blocks))
         else None)"

end
