(* ===== verification/Runner_Correct.thy ===== *)
theory Runner_Correct
  imports Instance_Correct Runner_Loop
begin

text \<open>
  What the runner guarantees: the loop over created data sources ends, a block changes the store by one
  transaction or not at all, a fatal error only stores the proof of indexing, and filters are only kept when they do not change.
\<close>

section \<open>The number of hosts\<close>

abbreviation hosts_of :: "('q, 'on, 'ont, 's, 'st) subgraph_runner \<Rightarrow> nat" where
  "hosts_of self \<equiv> si_hosts_len (ic_instance (sr_ctx self))"

lemma btree_push_length: "sum_list (map (length \<circ> snd) (btree_push k v m)) = sum_list (map (length \<circ> snd) m) + 1"
  by (induction k v m rule: btree_push.induct) simp_all

lemma oh_push_length: "oh_len (oh_push address h self) = oh_len self + 1"
  by (simp add: oh_len_def oh_push_def Let_def split: option.split)

lemma fh_push_length: "fh_len (fh_push address block h self) = fh_len self + 1"
  using btree_push_length[of "block h" h "fh_by_block self"]
  by (simp add: fh_len_def fh_push_def Let_def split: option.split)

lemma new_host_length:
  "new_host C env ds inst = (r, inst') \<Longrightarrow> si_hosts_len inst' = si_hosts_len inst
    \<and> (\<forall>h. r = Inr (Some h) \<longrightarrow> rh_data_source h = ds)"
  by (auto simp: new_host_def si_hosts_len_def Let_def split: option.splits sum.splits prod.splits)

lemma add_host_length:
  assumes "add_host C host inst = Some (r, inst')" and "as_subgraph (rh_data_source host) = None"
  shows "si_hosts_len inst' = si_hosts_len inst + (case r of Inr (Some _) \<Rightarrow> 1 | _ \<Rightarrow> 0)"
  using assms
  by (cases "rh_data_source host")
     (auto simp: add_host_def si_hosts_len_def oh_push_length fh_push_length split: if_splits option.splits bool.splits)

text \<open>A data source only gets a host below the limit.\<close>

lemma add_dynamic_length:
  assumes "si_add_dynamic_data_source C env ds inst = Some (r, inst')" and "as_subgraph ds = None"
  shows "case r of
      Inr (Some _) \<Rightarrow> si_hosts_len inst < ie_max_data_sources env \<and> si_hosts_len inst' = si_hosts_len inst + 1
    | _ \<Rightarrow> si_hosts_len inst' = si_hosts_len inst"
proof (cases "ie_max_data_sources env \<le> si_hosts_len inst")
  case True
  then show ?thesis using assms(1) by (auto simp: si_add_dynamic_data_source_def)
next
  case False
  obtain r1 inst1 where new: "new_host C env ds inst = (r1, inst1)" by (cases "new_host C env ds inst")
  note len = new_host_length[OF new]
  consider e where "r1 = Inl e" | "r1 = Inr None" | host where "r1 = Inr (Some host)"
    by (metis option.exhaust sum.exhaust_sel)
  then show ?thesis
  proof cases
    case (3 host)
    then have add: "add_host C host inst1 = Some (r, inst')" and ds: "rh_data_source host = ds"
      using assms(1) False new len by (simp_all add: si_add_dynamic_data_source_def)
    show ?thesis using add_host_length[OF add] assms(2) ds len False by (auto split: sum.splits option.splits)
  qed (use assms(1) False new len in \<open>auto simp: si_add_dynamic_data_source_def\<close>)
qed

lemma ic_add_length:
  assumes "ic_add_dynamic_data_source C env cells ds ctx = Some (r, ctx')" and "as_subgraph ds = None"
  shows "case r of
      Inr (Some _) \<Rightarrow> si_hosts_len (ic_instance ctx) < ie_max_data_sources env
        \<and> si_hosts_len (ic_instance ctx') = si_hosts_len (ic_instance ctx) + 1
    | _ \<Rightarrow> si_hosts_len (ic_instance ctx') = si_hosts_len (ic_instance ctx)"
proof -
  let ?fields = "map_option (\<lambda>ds. (od_source ds, is_processed cells ds)) (as_offchain ds)"
  obtain r1 inst where add: "si_add_dynamic_data_source C env ds (ic_instance ctx) = Some (r1, inst)"
    using assms(1) by (cases "si_add_dynamic_data_source C env ds (ic_instance ctx)") (auto simp: ic_add_dynamic_data_source_def)
  consider e where "r1 = Inl e" | "r1 = Inr None" | host where "r1 = Inr (Some host)"
    by (metis option.exhaust sum.exhaust_sel)
  then have r: "r = r1 \<and> ic_instance ctx' = inst"
  proof cases
    case 3
    then show ?thesis using assms(1) add
      by (cases "\<exists>src. ?fields = Some (src, False)") (auto simp: ic_add_dynamic_data_source_def Let_def split: option.splits bool.splits)
  qed (use assms(1) add in \<open>auto simp: ic_add_dynamic_data_source_def\<close>)
  from add_dynamic_length[OF add assms(2)] show ?thesis by (simp only: conjunct1[OF r] conjunct2[OF r])
qed

lemma instantiate_spec:
  assumes "instantiate I info t self = (r, self')"
  shows "sr_store self' = sr_store self" "hosts_of self' = hosts_of self"
    "sr_entity_lfu_cache self' = sr_entity_lfu_cache self" "r = Inr ds \<Longrightarrow> as_subgraph ds = None"
proof -
  have "sr_store self' = sr_store self \<and> hosts_of self' = hosts_of self
      \<and> sr_entity_lfu_cache self' = sr_entity_lfu_cache self \<and> (\<forall>ds. r = Inr ds \<longrightarrow> as_subgraph ds = None)"
    using assms
    by (auto simp: instantiate_def ic_causality_region_next_value_def si_causality_region_next_value_def seq_next_val_def
      si_hosts_len_def Let_def bind_res_def split: ds_template.splits option.splits sum.splits prod.splits)
  then show "sr_store self' = sr_store self" "hosts_of self' = hosts_of self"
    "sr_entity_lfu_cache self' = sr_entity_lfu_cache self" "r = Inr ds \<Longrightarrow> as_subgraph ds = None" by auto
qed

text \<open>Creating data sources: what stays the same, and how many hosts there are afterwards.\<close>

definition same_outside_ctx :: "('q, 'on, 'ont, 's, 'st) subgraph_runner \<Rightarrow> ('q, 'on, 'ont, 's, 'st) subgraph_runner \<Rightarrow> bool" where
  "same_outside_ctx a b \<longleftrightarrow> sr_store b = sr_store a \<and> sr_entity_lfu_cache b = sr_entity_lfu_cache a"

lemma same_outside_refl [simp]: "same_outside_ctx a a"
  by (simp add: same_outside_ctx_def)

lemma same_outside_trans: "same_outside_ctx a b \<Longrightarrow> same_outside_ctx b c \<Longrightarrow> same_outside_ctx a c"
  by (simp add: same_outside_ctx_def)

lemma create_spec:
  assumes "create_dynamic_data_sources I infos self = Some (r, self')"
  shows "same_outside_ctx self self' \<and> (\<forall>new. r = Inr new \<longrightarrow> hosts_of self' = hosts_of self + length new
    \<and> (new \<noteq> [] \<longrightarrow> hosts_of self' \<le> ie_max_data_sources (ri_instance_env I)))"
  using assms
proof (induction infos arbitrary: self r)
  case (Cons info infos)
  let ?goal = "\<lambda>self r. same_outside_ctx self self' \<and> (\<forall>new. r = Inr new \<longrightarrow> hosts_of self' = hosts_of self + length new
    \<and> (new \<noteq> [] \<longrightarrow> hosts_of self' \<le> ie_max_data_sources (ri_instance_env I)))"
  show ?case
  proof (cases "template_manifest_idx (ri_chain I) (di_template info)")
    case (Some idx)
    show ?thesis
    proof (cases "find (\<lambda>t. template_manifest_idx (ri_chain I) t = Some idx) (ri_templates I)")
      case (Some t)
      obtain x self1 where inst: "instantiate I info t self = (x, self1)" by (cases "instantiate I info t self")
      note i = instantiate_spec[OF inst]
      have s1: "same_outside_ctx self self1" using i by (simp add: same_outside_ctx_def)
      note step = Cons.prems[unfolded create_dynamic_data_sources.simps \<open>template_manifest_idx _ _ = Some idx\<close> Some
          option.case inst prod.case]
      consider (ignore) m where "x = Inl (Ignore m)" | (err) e where "x = Inl (CreationError e)" | (ok) ds where "x = Inr ds"
        by (metis creation_error.exhaust sum.exhaust_sel)
      then show ?thesis
      proof cases
        case ignore
        then have "create_dynamic_data_sources I infos self1 = Some (r, self')" using step by simp
        from Cons.IH[OF this] same_outside_trans[OF s1] i(2) show ?thesis by auto
      next
        case err
        then show ?thesis using step s1 by auto
      next
        case (ok ds)
        obtain y ctx where add: "ic_add_dynamic_data_source (ri_chain I) (ri_instance_env I) (sr_cells self1) ds (sr_ctx self1) = Some (y, ctx)"
          using step ok
          by (cases "ic_add_dynamic_data_source (ri_chain I) (ri_instance_env I) (sr_cells self1) ds (sr_ctx self1)") auto
        note len = ic_add_length[OF add i(4)[OF ok]]
        let ?s2 = "self1\<lparr>sr_ctx := ctx\<rparr>"
        have s2: "same_outside_ctx self ?s2" using s1 by (simp add: same_outside_ctx_def)
        consider (e) e where "y = Inl e" | (none) "y = Inr None" | (some) host where "y = Inr (Some host)"
          by (metis option.exhaust sum.exhaust_sel)
        then show ?thesis
        proof cases
          case e
          then show ?thesis using step ok add s2 by auto
        next
          case none
          then have "create_dynamic_data_sources I infos ?s2 = Some (r, self')" using step ok add by simp
          from Cons.IH[OF this] same_outside_trans[OF s2] i(2) len none show ?thesis by auto
        next
          case (some host)
          then obtain r2 where rest: "create_dynamic_data_sources I infos ?s2 = Some (r2, self')"
            and r: "r = map_sum id (Cons (ds, host)) r2"
            using step ok add by (auto simp: and_then_def split: option.splits sum.splits prod.splits)
          have "hosts_of ?s2 = hosts_of self + 1" "hosts_of ?s2 \<le> ie_max_data_sources (ri_instance_env I)"
            using len some i(2) by simp_all
          with Cons.IH[OF rest] same_outside_trans[OF s2] r show ?thesis by (cases r2) auto
        qed
      qed
    qed (use Cons.prems Some in auto)
  qed (use Cons.prems in auto)
qed simp

section \<open>The loop over created data sources ends\<close>

text \<open>The hook of the chain after decoding does not invent hosts; that of Ethereum does not change what was decoded.\<close>

definition hook_adds_no_hosts :: "('on, 'ont, 'ct, 'mt, 'd, 's, 'st) runner_inputs \<Rightarrow> bool" where
  "hook_adds_no_hosts I \<longleftrightarrow> (\<forall>rs rs'. ri_after_decode I rs = Inr rs' \<longrightarrow>
     (\<forall>r \<in> set rs. rt_hosted_triggers r = []) \<longrightarrow> (\<forall>r \<in> set rs'. rt_hosted_triggers r = []))"

lemma decode_no_hosts:
  assumes "decode_all C cells ptr time f ts = Some (Inr rs)" and "\<forall>t hs. f t = Some hs \<longrightarrow> hs = []"
  shows "\<forall>r \<in> set rs. rt_hosted_triggers r = []"
  using assms(1)
proof (induction ts arbitrary: rs)
  case (Cons t ts)
  obtain hs where "f t = Some hs" using Cons.prems by (cases "f t") auto
  then have f: "f t = Some []" using assms(2) by auto
  obtain rest where "decode_all C cells ptr time f ts = Some (Inr rest)"
    "rs = \<lparr>rt_trigger = t, rt_hosted_triggers = []\<rparr> # rest"
    using Cons.prems f by (auto simp: match_and_decode_def bind_res_Inr_iff)
  with Cons.IH show ?case by simp
qed simp

lemma run_block_triggers_keeps:
  assumes "run_block_triggers I W H block f ts st poi self = Some (r, self')"
  shows "same_outside_ctx self self' \<and> sr_ctx self' = sr_ctx self \<and> sr_filter self' = sr_filter self"
  using assms by (auto simp: run_block_triggers_def same_outside_ctx_def split: option.splits sum.splits)

lemma run_block_triggers_extends:
  assumes "run_block_triggers I W H block f ts st poi self = Some (Inr (st', poi'), self')" and "idle st"
  shows "extended_by st st'"
  using assms by (auto simp: run_block_triggers_def split: option.splits sum.splits intro: run_runnables_extends)

lemma run_block_triggers_no_hosts:
  assumes "run_block_triggers I W H block f ts st poi self = Some (Inr (st', poi'), self')"
    and "\<forall>t hs. f t = Some hs \<longrightarrow> hs = []" and "hook_adds_no_hosts I"
  shows "st' = st"
proof -
  obtain rs where rs: "match_and_decode_many (ri_chain I) (ri_after_decode I) (sr_cells self) (fst block) (snd block) f ts = Some (Inr rs)"
    using assms(1) by (auto simp: run_block_triggers_def split: option.splits sum.splits)
  then obtain ds where ds: "decode_all (ri_chain I) (sr_cells self) (fst block) (snd block) f ts = Some (Inr ds)"
    "ri_after_decode I ds = Inr rs"
    by (auto simp: match_and_decode_many_def bind_res_Inr_iff)
  have "\<forall>r \<in> set rs. rt_hosted_triggers r = []"
    using decode_no_hosts[OF ds(1) assms(2)] ds(2) assms(3) unfolding hook_adds_no_hosts_def by blast
  then show ?thesis using assms(1) rs by (simp add: run_block_triggers_def run_runnables_no_hosts)
qed

lemma persist_keeps:
  "persist_dynamic_data_sources C J cells dss st = Some st'
    \<Longrightarrow> (idle st \<longrightarrow> idle st') \<and> bs_created_data_sources st' = bs_created_data_sources st
      \<and> bs_deterministic_errors st' = bs_deterministic_errors st"
proof (induction dss arbitrary: st)
  case (Cons ds dss)
  obtain stored where "persist_dynamic_data_sources C J cells dss (persist_data_source stored st) = Some st'"
    using Cons.prems by (auto split: option.splits)
  from Cons.IH[OF this] show ?case by (simp add: persist_data_source_def idle_def)
qed simp

lemma idle_drain:
  "drain_created_data_sources st = Some (created, st') \<Longrightarrow> idle st
    \<Longrightarrow> idle st' \<and> bs_created_data_sources st' = [] \<and> bs_deterministic_errors st' = bs_deterministic_errors st"
  by (auto simp: drain_created_data_sources_def idle_def split: if_splits)

text \<open>
  One iteration: hosts are added within the limit, or nothing was created and nothing is left to do.
\<close>

lemma created_step_spec:
  assumes "created_step I W H block st poi self = Some (r, self')" and "idle st"
  shows "same_outside_ctx self self' \<and> (\<forall>st' poi'. r = Inr (st', poi') \<longrightarrow> idle st'
    \<and> (\<exists>es. bs_deterministic_errors st' = bs_deterministic_errors st @ es)
    \<and> (hook_adds_no_hosts I \<longrightarrow>
       hosts_of self < hosts_of self' \<and> hosts_of self' \<le> ie_max_data_sources (ri_instance_env I)
       \<or> bs_created_data_sources st' = []))"
proof -
  obtain created st1 where d: "drain_created_data_sources st = Some (created, st1)"
    using assms(1) by (cases "drain_created_data_sources st") (auto simp: created_step_def)
  note drained = idle_drain[OF d assms(2)]
  obtain r1 self1 where c: "create_dynamic_data_sources I created self = Some (r1, self1)"
    using assms(1) d by (cases "create_dynamic_data_sources I created self") (auto simp: created_step_def)
  note created = create_spec[OF c]
  show ?thesis
  proof (cases r1)
    case (Inl e)
    then have "r = Inl e" "self1 = self'" using assms(1) d c by (auto simp: created_step_def)
    then show ?thesis using created by auto
  next
    case (Inr new)
    note step = assms(1)[unfolded created_step_def d c option.case prod.case Inr and_then_simps Let_def]
    show ?thesis
    proof (cases "ri_block_again I block")
      case (Inl e)
      then show ?thesis using step created by auto
    next
      case again: (Inr block2)
      show ?thesis
      proof (cases "ri_triggers_in_block I (fst block2) (List.map_filter as_onchain (map fst new))")
        case (Inl e)
        then show ?thesis using step created again by auto
      next
        case ts: (Inr ts)
        obtain st2 where p: "persist_dynamic_data_sources (ri_chain I) (hc_serde H) (sr_cells self1) (map fst new) st1 = Some st2"
          using step again ts
          by (cases "persist_dynamic_data_sources (ri_chain I) (hc_serde H) (sr_cells self1) (map fst new) st1") auto
        note st2 = persist_keeps[OF p]
        let ?f = "\<lambda>t. case t of SubgraphTrigger _ \<Rightarrow> None | _ \<Rightarrow> Some (map snd new)"
        obtain r2 where run: "run_block_triggers I W H block2 ?f ts st2 poi self1 = Some (r2, self')"
          and r: "r = map_error (\<lambda>e. BlockUnknown (mapping_error_text e)) r2"
          using step again ts p by auto
        note keeps = run_block_triggers_keeps[OF run]
        have same: "same_outside_ctx self self'" using created keeps same_outside_trans by blast
        show ?thesis
        proof (cases r2)
          case (Inl e)
          then show ?thesis using same r by simp
        next
          case (Inr out)
          obtain st3 poi3 where out: "out = (st3, poi3)" by (cases out)
          have ext: "extended_by st2 st3"
            using run_block_triggers_extends[OF run[unfolded Inr out]] drained st2 by simp
          have "bs_created_data_sources st3 = []" if "new = []" "hook_adds_no_hosts I"
          proof -
            have f: "\<forall>t hs. ?f t = Some hs \<longrightarrow> hs = []" using that(1) by (auto split: trigger_data.splits)
            have "st3 = st2" by (rule run_block_triggers_no_hosts[OF run[unfolded Inr out] f that(2)])
            then show ?thesis using st2 drained by simp
          qed
          then show ?thesis using same r Inr out ext st2 drained created \<open>r1 = Inr new\<close> keeps
            by (cases "new = []") (auto simp: extended_by_def)
        qed
      qed
    qed
  qed
qed

lemma created_loop_ends:
  assumes "hook_adds_no_hosts I" and "idle st"
    and "ie_max_data_sources (ri_instance_env I) - hosts_of self + 2 \<le> fuel"
  shows "created_loop fuel I W H block st poi self \<noteq> None"
  using assms(2,3)
proof (induction fuel arbitrary: st poi self)
  case (Suc fuel)
  have h: "has_created_data_sources st = Some (bs_created_data_sources st \<noteq> [])"
    using Suc.prems(1) by (simp add: has_created_data_sources_def idle_def)
  show ?case
  proof (cases "bs_created_data_sources st = []")
    case False
    show ?thesis
    proof (cases "created_step I W H block st poi self")
      case (Some out)
      obtain r self1 where out: "out = (r, self1)" by (cases out)
      note step = created_step_spec[OF Some[unfolded out] Suc.prems(1)]
      show ?thesis
      proof (cases r)
        case (Inr x)
        obtain st1 poi1 where x: "x = (st1, poi1)" by (cases x)
        have loop: "created_loop (Suc fuel) I W H block st poi self = created_loop fuel I W H block st1 poi1 self1"
          using h False Some by (simp add: out Inr x)
        have st1: "idle st1" using step Inr x by simp
        from step Inr x assms(1) consider
          (more) "hosts_of self < hosts_of self1" "hosts_of self1 \<le> ie_max_data_sources (ri_instance_env I)"
          | (none) "bs_created_data_sources st1 = []" by auto
        then show ?thesis
        proof cases
          case more
          then have "ie_max_data_sources (ri_instance_env I) - hosts_of self1 + 2 \<le> fuel" using Suc.prems(2) by simp
          from Suc.IH[OF st1 this] show ?thesis unfolding loop .
        next
          case none
          obtain fuel' where "fuel = Suc fuel'" using Suc.prems(2) by (cases fuel) simp_all
          then show ?thesis unfolding loop using none st1
            by (simp add: has_created_data_sources_def idle_def)
        qed
      qed (simp add: h False Some out)
    qed (simp add: h False)
  qed (simp add: h)
qed simp

section \<open>The store\<close>

lemma created_loop_keeps:
  "created_loop fuel I W H block st poi self = Some (Some (r, self')) \<Longrightarrow> idle st
    \<Longrightarrow> same_outside_ctx self self' \<and> (\<forall>st' poi'. r = Inr (st', poi') \<longrightarrow> idle st' \<and> bs_created_data_sources st' = []
      \<and> (\<exists>es. bs_deterministic_errors st' = bs_deterministic_errors st @ es))"
proof (induction fuel arbitrary: st poi self)
  case (Suc fuel)
  have h: "has_created_data_sources st = Some (bs_created_data_sources st \<noteq> [])"
    using Suc.prems(2) by (simp add: has_created_data_sources_def idle_def)
  show ?case
  proof (cases "bs_created_data_sources st = []")
    case True
    then show ?thesis using Suc.prems h by auto
  next
    case False
    obtain r1 self1 where step: "created_step I W H block st poi self = Some (r1, self1)"
      using Suc.prems(1) h False by (cases "created_step I W H block st poi self") auto
    note s = created_step_spec[OF step Suc.prems(2)]
    show ?thesis
    proof (cases r1)
      case (Inl e)
      then have "r = Inl e" "self' = self1" using Suc.prems(1) h False step by auto
      then show ?thesis using s by auto
    next
      case (Inr x)
      obtain st1 poi1 where x: "x = (st1, poi1)" by (cases x)
      have loop: "created_loop fuel I W H block st1 poi1 self1 = Some (Some (r, self'))"
        using Suc.prems(1) h False step by (simp add: Inr x)
      have "idle st1" using s Inr x by simp
      from Suc.IH[OF loop this] same_outside_trans show ?thesis using s Inr x by fastforce
    qed
  qed
qed simp

lemma same_outside_cells [simp]:
  "same_outside_ctx a (b\<lparr>sr_cells := c\<rparr>) = same_outside_ctx a b"
  "same_outside_ctx a (b\<lparr>sr_ctx := x\<rparr>) = same_outside_ctx a b"
  "same_outside_ctx (b\<lparr>sr_cells := c\<rparr>) a = same_outside_ctx b a"
  "same_outside_ctx (b\<lparr>sr_ctx := x\<rparr>) a = same_outside_ctx b a"
  by (simp_all add: same_outside_ctx_def)

lemma offchain_trigger_keeps:
  assumes "handle_offchain_trigger I W H block t self = Some (r, self')"
  shows "same_outside_ctx self self'"
proof -
  have create: "same_outside_ctx self s2"
    if "create_dynamic_data_sources I created (self\<lparr>sr_cells := c\<rparr>) = Some (x, s2)" for created c x s2
    using create_spec[OF that] by simp
  show ?thesis
    using assms
    by (auto simp: handle_offchain_trigger_def Let_def and_then_def dest!: create
      split: option.splits sum.splits prod.splits bool.splits list.splits)
qed

lemma offchain_triggers_keep:
  "handle_offchain_triggers I W H block ts self = Some (r, self') \<Longrightarrow> same_outside_ctx self self'"
proof (induction ts arbitrary: self r)
  case (Cons t ts)
  obtain r1 self1 where t: "handle_offchain_trigger I W H block t self = Some (r1, self1)"
    using Cons.prems by (cases "handle_offchain_trigger I W H block t self") auto
  note keep = offchain_trigger_keeps[OF t]
  show ?case
  proof (cases r1)
    case (Inl e)
    then show ?thesis using Cons.prems t keep by simp
  next
    case (Inr x)
    obtain r2 where "handle_offchain_triggers I W H block ts self1 = Some (r2, self')"
      using Cons.prems t Inr by (cases x) (auto simp: and_then_def split: option.splits sum.splits prod.splits)
    from same_outside_trans[OF keep Cons.IH[OF this]] show ?thesis .
  qed
qed simp

lemma is_caught_up_keeps:
  assumes "is_caught_up I ptr self = Some (r, self')"
  shows "sr_store self' = sr_store self" "r = Inl e \<Longrightarrow> \<exists>m. e = BlockUnknown m"
  using assms by (auto simp: is_caught_up_def Let_def and_then_def split: if_splits sum.splits)

text \<open>The transaction of a block, and the two ways in which the store differs afterwards.\<close>

definition block_transaction :: "('on, 'ont, 'ct, 'mt, 'd, 's, 'st) runner_inputs \<Rightarrow> block_ptr \<times> block_time \<Rightarrow> string
    \<Rightarrow> transaction \<Rightarrow> bool" where
  "block_transaction I block cursor ta \<longleftrightarrow> ta_ptr ta = fst block \<and> ta_time ta = snd block \<and> ta_cursor ta = cursor
     \<and> ta_non_fatal_errors ta = ri_non_fatal_errors I
     \<and> (ta_errors ta \<noteq> [] \<and> \<not> ri_non_fatal_errors I \<longrightarrow> (\<exists>m. ta_mods ta = [m] \<and> is_poi_entity m))"

definition store_outcome :: "('on, 'ont, 'ct, 'mt, 'd, 's, 'st) runner_inputs \<Rightarrow> block_ptr \<times> block_time \<Rightarrow> string
    \<Rightarrow> (block_error, action) result \<Rightarrow> 'st \<Rightarrow> 'st \<Rightarrow> bool" where
  "store_outcome I block cursor r st st' \<longleftrightarrow>
     (\<exists>ta u st1. block_transaction I block cursor ta \<and> ws_transact (ri_store I) ta st = (u, st1) \<and>
       (case u of
          Inl e \<Rightarrow> (\<exists>m. r = Inl (BlockUnknown m)) \<and> st' = st1
        | Inr _ \<Rightarrow>
            if ta_errors ta \<noteq> [] \<and> \<not> ri_non_fatal_errors I then r = Inl (BlockDeterministic (hd (ta_errors ta))) \<and> st' = st1
            else if flush_metrics_to_store I \<noteq> Inr () then (\<exists>m. r = Inl (BlockUnknown m)) \<and> st' = st1
            else if ta_errors ta \<noteq> [] \<and> \<not> ri_disable_fail_fast I \<and> \<not> ws_is_synced (ri_store I) st1
            then (r = Inl BlockCanceled \<or> (\<exists>m. r = Inl (BlockUnknown m))) \<and> st' = snd (ws_unassign (ri_store I) st1)
            else (r = Inr Continue \<or> r = Inr Restart) \<and> st' = st1))"

lemma filter_one: "length (filter P xs) = 1 \<Longrightarrow> \<exists>m. filter P xs = [m] \<and> P m"
  by (metis One_nat_def Suc_length_conv length_0_conv list.set_intros(1) mem_Collect_eq set_filter)

lemma transact_block_outcome:
  assumes "transact_block I block cursor restart st out self = Some (r, self')"
  shows "store_outcome I block cursor r (sr_store self) (sr_store self')
    \<or> sr_store self' = sr_store self \<and> (\<exists>m. r = Inl (BlockUnknown m))"
proof -
  obtain mods processed persisted where out: "out = (mods, processed, persisted)" by (cases out)
  let ?fatal = "has_errors st \<and> \<not> ri_non_fatal_errors I"
  let ?mods = "if ?fatal then filter is_poi_entity mods else mods"
  have one: "?fatal \<Longrightarrow> length ?mods = 1" using assms by (auto simp: transact_block_def out Let_def split: if_splits)
  obtain c self1 where c: "is_caught_up I (fst block) self = Some (c, self1)"
    using assms by (cases "is_caught_up I (fst block) self") (auto simp: transact_block_def out Let_def split: if_splits)
  note keeps = is_caught_up_keeps[OF c]
  show ?thesis
  proof (cases c)
    case (Inl e)
    then have "r = Inl e" "self' = self1" using assms c by (auto simp: transact_block_def out Let_def split: if_splits)
    then show ?thesis using keeps Inl by auto
  next
    case (Inr caught_up)
    let ?ta = "\<lparr>ta_ptr = fst block, ta_time = snd block, ta_cursor = cursor, ta_mods = ?mods,
                ta_data_sources = bs_persisted_data_sources st @ persisted,
                ta_errors = bs_deterministic_errors st, ta_processed = processed,
                ta_non_fatal_errors = ri_non_fatal_errors I, ta_caught_up = caught_up\<rparr>"
    have bt: "block_transaction I block cursor ?ta"
      using one filter_one[of is_poi_entity mods] by (auto simp: block_transaction_def has_errors_def)
    obtain u st1 where u: "ws_transact (ri_store I) ?ta (sr_store self) = (u, st1)"
      by (cases "ws_transact (ri_store I) ?ta (sr_store self)")
    have rest: "(case (u, st1) of
              (Inl e, st) \<Rightarrow> Some (Inl (BlockUnknown ''Failed to transact block operations''), self1\<lparr>sr_store := st\<rparr>)
            | (Inr u, s) \<Rightarrow>
                let self = self1\<lparr>sr_store := s\<rparr> in
                if ?fatal then Some (Inl (BlockDeterministic (hd (bs_deterministic_errors st))), self)
                else
                  (case flush_metrics_to_store I of
                     Inl e \<Rightarrow> Some (Inl (BlockUnknown e), self)
                   | Inr u \<Rightarrow>
                       if has_errors st \<and> \<not> ri_disable_fail_fast I \<and> \<not> ws_is_synced (ri_store I) (sr_store self)
                       then (case ws_unassign (ri_store I) (sr_store self) of
                               (Inl e, st) \<Rightarrow> Some (Inl (BlockUnknown e), self\<lparr>sr_store := st\<rparr>)
                             | (Inr u, st) \<Rightarrow> Some (Inl BlockCanceled, self\<lparr>sr_store := st\<rparr>))
                       else Some (Inr (if restart then Restart else Continue), self))) = Some (r, self')"
      using assms c Inr keeps one u
      by (simp add: transact_block_def out Let_def split: if_split_asm del: sum.case_eq_if)
    have "store_outcome I block cursor r (sr_store self) (sr_store self')"
      unfolding store_outcome_def
    proof (intro exI conjI)
      show "block_transaction I block cursor ?ta" by (rule bt)
      show "ws_transact (ri_store I) ?ta (sr_store self) = (u, st1)" by (rule u)
      show "case u of
          Inl e \<Rightarrow> (\<exists>m. r = Inl (BlockUnknown m)) \<and> sr_store self' = st1
        | Inr _ \<Rightarrow>
            if ta_errors ?ta \<noteq> [] \<and> \<not> ri_non_fatal_errors I
            then r = Inl (BlockDeterministic (hd (ta_errors ?ta))) \<and> sr_store self' = st1
            else if flush_metrics_to_store I \<noteq> Inr () then (\<exists>m. r = Inl (BlockUnknown m)) \<and> sr_store self' = st1
            else if ta_errors ?ta \<noteq> [] \<and> \<not> ri_disable_fail_fast I \<and> \<not> ws_is_synced (ri_store I) st1
            then (r = Inl BlockCanceled \<or> (\<exists>m. r = Inl (BlockUnknown m))) \<and> sr_store self' = snd (ws_unassign (ri_store I) st1)
            else (r = Inr Continue \<or> r = Inr Restart) \<and> sr_store self' = st1"
        using rest by (cases u) (auto simp: has_errors_def Let_def split: if_splits prod.splits sum.splits)
    qed
    then show ?thesis by simp
  qed
qed

text \<open>Only the transaction reports a deterministic error.\<close>

definition unknown :: "block_error \<Rightarrow> bool" where
  "unknown e \<longleftrightarrow> (\<exists>m. e = BlockUnknown m)"

lemma unknown_simps [simp]: "unknown (BlockUnknown m)" "\<not> unknown (BlockDeterministic d)" "\<not> unknown BlockCanceled"
  by (simp_all add: unknown_def)

lemma map_error_Inl: "map_error f r = Inl e \<longleftrightarrow> (\<exists>x. r = Inl x \<and> e = f x)"
  by (cases r) auto

lemma create_unknown: "create_dynamic_data_sources I infos self = Some (Inl e, self') \<Longrightarrow> unknown e"
proof (induction infos arbitrary: self)
  case (Cons info infos)
  show ?case
  proof (cases "\<exists>self1. create_dynamic_data_sources I infos self1 = Some (Inl e, self')")
    case True
    then show ?thesis using Cons.IH by blast
  next
    case False
    then show ?thesis using Cons.prems
      by (auto simp: and_then_def split: option.splits sum.splits prod.splits creation_error.splits)
  qed
qed simp

lemma created_step_unknown: "created_step I W H block st poi self = Some (Inl e, self') \<Longrightarrow> unknown e"
  by (auto simp: created_step_def Let_def map_error_Inl elim!: and_then_Inl dest: create_unknown
    split: option.splits sum.splits prod.splits)

lemma created_loop_unknown: "created_loop fuel I W H block st poi self = Some (Some (Inl e, self')) \<Longrightarrow> unknown e"
  by (induction fuel arbitrary: st poi self)
     (auto dest: created_step_unknown split: option.splits sum.splits prod.splits bool.splits)

lemma offchain_unknown: "handle_offchain_triggers I W H block ts self = Some (Inl e, self') \<Longrightarrow> unknown e"
proof (induction ts arbitrary: self)
  case (Cons t ts)
  have "unknown e" if "handle_offchain_trigger I W H block t self = Some (Inl e, self')" for self
    using that by (auto simp: handle_offchain_trigger_def Let_def elim!: and_then_Inl dest: create_unknown
      split: option.splits sum.splits prod.splits bool.splits list.splits)
  with Cons show ?case by (auto elim!: and_then_Inl split: prod.splits)
qed simp

lemma update_poi_unknown:
  "update_proof_of_indexing E pool agg env time block streams cache = Some (Inl e, cache') \<Longrightarrow> unknown e"
proof (induction streams arbitrary: cache)
  case (Cons x streams)
  obtain region stream where x: "x = (region, stream)" by (cases x)
  have "unknown e" if "store_poi_entity pool agg env region d time block c = Some (Inl e, c')" for d c c'
    using that by (auto simp: store_poi_entity_def map_error_Inl split: sum.splits)
  with Cons show ?case by (auto simp: x split: option.splits sum.splits prod.splits)
qed simp

lemma block_modifications_unknown: "block_modifications I W block st poi = Some (Inl e) \<Longrightarrow> unknown e"
  by (auto simp: block_modifications_def Let_def map_error_Inl dest: update_poi_unknown
    split: option.splits sum.splits prod.splits)

section \<open>A block as a whole\<close>

text \<open>The block changed nothing in the store, which only happens with an error that is not deterministic or with a restart.\<close>

definition no_change :: "(block_error, action) result \<Rightarrow> 'st \<Rightarrow> 'st \<Rightarrow> bool" where
  "no_change r st st' \<longleftrightarrow> st' = st \<and> (case r of
      Inl e \<Rightarrow> \<not> block_error_is_deterministic e
    | Inr act \<Rightarrow> act = Restart)"

lemma unknown_not_deterministic: "unknown e \<Longrightarrow> \<not> block_error_is_deterministic e"
  by (auto simp: unknown_def)

lemma finish_block_outcome:
  assumes "finish_block I W H block cursor canceled restart st poi self = Some (r, self')"
  shows "store_outcome I block cursor r (sr_store self) (sr_store self') \<or> no_change r (sr_store self) (sr_store self')"
proof (cases canceled)
  case True
  then show ?thesis using assms by (auto simp: finish_block_def no_change_def)
next
  case False
  let ?W = "with_read_store (ws_read (ri_store I) (sr_store self)) W"
  obtain x where x: "block_modifications I ?W block st poi = Some x"
    using assms False by (cases "block_modifications I ?W block st poi") (auto simp: finish_block_def)
  show ?thesis
  proof (cases x)
    case (Inl e)
    then show ?thesis using assms False x block_modifications_unknown[OF x[unfolded Inl]]
      by (auto simp: finish_block_def no_change_def unknown_not_deterministic)
  next
    case (Inr m)
    obtain events monitor where ready: "ready_offchain_events (ic_offchain_monitor (sr_ctx self)) = (events, monitor)"
      by (cases "ready_offchain_events (ic_offchain_monitor (sr_ctx self))")
    let ?s1 = "self\<lparr>sr_ctx := (sr_ctx self)\<lparr>ic_offchain_monitor := monitor\<rparr>\<rparr>"
    show ?thesis
    proof (cases events)
      case (Inl e)
      then show ?thesis using assms False x Inr ready by (auto simp: finish_block_def no_change_def)
    next
      case events: (Inr ts)
      obtain y s2 where y: "handle_offchain_triggers I W H block ts ?s1 = Some (y, s2)"
        using assms False x Inr ready events
        by (cases "handle_offchain_triggers I W H block ts ?s1") (auto simp: finish_block_def)
      have store: "sr_store s2 = sr_store self"
        using offchain_triggers_keep[OF y] by (simp add: same_outside_ctx_def)
      show ?thesis
      proof (cases y)
        case (Inl e)
        then have "r = Inl e" "self' = s2" using assms False x Inr ready events y by (auto simp: finish_block_def)
        then show ?thesis using store offchain_unknown[OF y[unfolded Inl]]
          by (simp add: no_change_def unknown_not_deterministic)
      next
        case out: (Inr out)
        obtain mods processed persisted where o: "out = (mods, processed, persisted)" by (cases out)
        have "transact_block I block cursor restart st (mc_modifications m @ mods, processed, persisted)
            (s2\<lparr>sr_entity_lfu_cache := mc_entity_lfu_cache m\<rparr>) = Some (r, self')"
          using assms False x Inr ready events y out o by (auto simp: finish_block_def split: if_splits)
        from transact_block_outcome[OF this] store show ?thesis by (auto simp: no_change_def)
      qed
    qed
  qed
qed

lemma block_state_new_idle: "idle (block_state_new cap c)"
  by (simp add: idle_def block_state_new_def with_current_def)

text \<open>A block either makes one transaction or leaves the store as it was.\<close>

lemma process_block_outcome:
  assumes "process_block I W H canceled b cursor self = Some (Some (r, self'))"
  shows "store_outcome I (rb_ptr b, rb_time b) cursor r (sr_store self) (sr_store self')
    \<or> no_change r (sr_store self) (sr_store self')"
proof -
  let ?block = "(rb_ptr b, rb_time b)"
  let ?st = "block_state_new (ri_write_capacity I) (sr_entity_lfu_cache self)"
  let ?poi = "Some (poi_new (nat (number (rb_ptr b))) (ri_poi_version I))"
  let ?s0 = "self\<lparr>sr_entity_lfu_cache := lfu_new (ce_queue (xe_cache (we_exports W))) False\<rparr>"
  let ?run = "run_block_triggers I W H ?block (hosts_for_trigger (ri_chain I) (ic_instance (sr_ctx self))) (rb_triggers b) ?st ?poi ?s0"
  obtain x s1 where run: "?run = Some (x, s1)"
    using assms by (cases ?run) (auto simp: process_block_def Let_def)
  have s1: "sr_store s1 = sr_store self"
    using run_block_triggers_keeps[OF run] by (simp add: same_outside_ctx_def)
  show ?thesis
  proof (cases x)
    case (Inl e)
    then show ?thesis using assms run s1 by (cases e) (auto simp: process_block_def Let_def no_change_def)
  next
    case (Inr out)
    obtain st1 poi1 where out: "out = (st1, poi1)" by (cases out)
    have "extended_by ?st st1" by (rule run_block_triggers_extends[OF run[unfolded Inr out] block_state_new_idle])
    then have idle: "idle st1" by (rule extended_by_idle)
    obtain restart where loop: "map_option (\<lambda>m. and_then m (\<lambda>(st, poi) self.
        finish_block I W H ?block cursor canceled restart st poi self)) (created_loop (created_fuel I) I W H ?block st1 poi1 s1)
        = Some (Some (r, self'))"
      using assms run Inr out
      by (auto simp: process_block_def Let_def split: option.splits if_splits bool.splits)
    then obtain m where m: "created_loop (created_fuel I) I W H ?block st1 poi1 s1 = Some m"
      "and_then m (\<lambda>(st, poi) self. finish_block I W H ?block cursor canceled restart st poi self) = Some (r, self')"
      by auto
    obtain y s2 where y: "m = Some (y, s2)" using m(2) by (cases m) auto
    have s2: "sr_store s2 = sr_store self"
      using created_loop_keeps[OF m(1)[unfolded y] idle] s1 by (simp add: same_outside_ctx_def)
    show ?thesis
    proof (cases y)
      case (Inl e)
      then have "r = Inl e" "self' = s2" using m(2) y by auto
      then show ?thesis using s2 created_loop_unknown[OF m(1)[unfolded y Inl]]
        by (simp add: no_change_def unknown_not_deterministic)
    next
      case fin: (Inr z)
      obtain st2 poi2 where z: "z = (st2, poi2)" by (cases z)
      have "finish_block I W H ?block cursor canceled restart st2 poi2 s2 = Some (r, self')"
        using m(2) y fin z by simp
      from finish_block_outcome[OF this] s2 show ?thesis by simp
    qed
  qed
qed

text \<open>The loop in it has enough fuel.\<close>

lemma process_block_ends:
  assumes "hook_adds_no_hosts I"
  shows "process_block I W H canceled b cursor self \<noteq> None"
proof -
  let ?block = "(rb_ptr b, rb_time b)"
  let ?st = "block_state_new (ri_write_capacity I) (sr_entity_lfu_cache self)"
  let ?poi = "Some (poi_new (nat (number (rb_ptr b))) (ri_poi_version I))"
  let ?s0 = "self\<lparr>sr_entity_lfu_cache := lfu_new (ce_queue (xe_cache (we_exports W))) False\<rparr>"
  let ?run = "run_block_triggers I W H ?block (hosts_for_trigger (ri_chain I) (ic_instance (sr_ctx self))) (rb_triggers b) ?st ?poi ?s0"
  show ?thesis
  proof (cases "\<exists>st1 poi1 s1. ?run = Some (Inr (st1, poi1), s1)")
    case True
    then obtain st1 poi1 s1 where run: "?run = Some (Inr (st1, poi1), s1)" by blast
    have idle: "idle st1"
      using run_block_triggers_extends[OF run block_state_new_idle] by (rule extended_by_idle)
    have "created_loop (created_fuel I) I W H ?block st1 poi1 s1 \<noteq> None"
      by (rule created_loop_ends[OF assms idle]) (simp add: created_fuel_def)
    then show ?thesis using run by (auto simp: process_block_def Let_def split: option.splits)
  next
    case False
    then show ?thesis
      by (cases ?run) (auto simp: process_block_def Let_def split: sum.splits mapping_error.splits option.splits)
  qed
qed

section \<open>Filters after a revert\<close>

text \<open>A filter covers another one if it has all that the other is made from.\<close>

definition covers :: "('on, 'ont) trigger_filter \<Rightarrow> ('on, 'ont) trigger_filter \<Rightarrow> bool" where
  "covers f g \<longleftrightarrow> set (tf_data_sources g) \<subseteq> set (tf_data_sources f) \<and> set (tf_templates g) \<subseteq> set (tf_templates f)
     \<and> set (tf_subgraphs g) \<subseteq> set (tf_subgraphs f)"

lemma covers_trans: "covers f g \<Longrightarrow> covers g h \<Longrightarrow> covers f h"
  by (auto simp: covers_def)

text \<open>The data sources of the chain that the instance can filter for, and that their end blocks are all known.\<close>

definition chain_sources :: "('on, 's) subgraph_instance \<Rightarrow> 'on list" where
  "chain_sources inst = List.map_filter (as_onchain \<circ> rh_data_source) (on_hosts inst)
     @ List.map_filter as_onchain (si_static_data_sources inst)"

definition ends_known :: "('on, 'ont, 'ct, 'mt, 'd, 's, 'st) runner_inputs \<Rightarrow> ('on, 's) subgraph_instance \<Rightarrow> bool" where
  "ends_known I inst \<longleftrightarrow> (\<forall>ds \<in> set (chain_sources inst). \<forall>e. ch_end_block (ri_chain I) ds = Some e \<longrightarrow> e \<in> set (ri_end_blocks I))"

text \<open>The filter is static for good, or is not static now.\<close>

definition filter_kind_settled :: "('on, 'ont, 'ct, 'mt, 'd, 's, 'st) runner_inputs
    \<Rightarrow> ('q, 'on, 'ont, 's, 'st) subgraph_runner \<Rightarrow> bool" where
  "filter_kind_settled I self \<longleftrightarrow> ri_static_filters I \<or> \<not> is_static_filters_enabled I self"

lemma those_map: "\<forall>x \<in> set xs. f x \<noteq> None \<Longrightarrow> those (map f xs) = Some (List.map_filter f xs)"
  by (induction xs) (auto simp: map_filter_simps)

lemma map_filter_set: "set (List.map_filter f xs) = {y. \<exists>x \<in> set xs. f x = Some y}"
  by (force simp: List.map_filter_def)

lemma hosts_len_ok: "instance_ok C off inst \<Longrightarrow> si_hosts_len inst = length (on_hosts inst) + length off"
  using fh_all_spec(2) by (auto simp: si_hosts_len_def oh_len_def on_hosts_def instance_ok_def off_ok_def)

lemma onchain_data_sources_ok:
  assumes "instance_ok C off inst"
  shows "onchain_data_sources C inst = Some (List.map_filter (as_onchain \<circ> rh_data_source) (on_hosts inst)
    @ List.map_filter as_onchain (filter (\<lambda>ds. ds_runtime C ds = None) (si_static_data_sources inst)))"
proof -
  have "\<forall>h \<in> set (on_hosts inst). (as_onchain \<circ> rh_data_source) h \<noteq> None"
    using assms by (auto simp: instance_ok_def on_ok_def on_hosts_def list_all_iff)
  from those_map[OF this] show ?thesis by (simp add: onchain_data_sources_def on_hosts_def comp_def)
qed

lemma reverted_static_sources:
  "si_revert_data_sources C b cells inst = Some (sources, cells', inst') \<Longrightarrow> si_static_data_sources inst' = si_static_data_sources inst"
  by (auto simp: si_revert_data_sources_def Let_def split: option.splits if_splits)

text \<open>Fewer hosts at an earlier block, where no data source becomes active again: the filter that was enough before is enough.\<close>

lemma build_filter_shrinks:
  assumes "instance_ok (ri_chain I) off (ic_instance (sr_ctx self))" and "instance_ok (ri_chain I) off' (ic_instance (sr_ctx self'))"
    and "si_static_data_sources (ic_instance (sr_ctx self')) = si_static_data_sources (ic_instance (sr_ctx self))"
    and "set (on_hosts (ic_instance (sr_ctx self'))) \<subseteq> set (on_hosts (ic_instance (sr_ctx self)))"
    and "si_hosts_len (ic_instance (sr_ctx self')) \<le> si_hosts_len (ic_instance (sr_ctx self))"
    and "\<forall>ds \<in> set (chain_sources (ic_instance (sr_ctx self))).
      end_block_filter (ri_chain I) (ws_block_ptr (ri_store I) (sr_store self')) ds
      \<longrightarrow> end_block_filter (ri_chain I) (ws_block_ptr (ri_store I) (sr_store self)) ds"
    and "filter_kind_settled I self" and "build_filter I self = Some g"
  shows "\<exists>g'. build_filter I self' = Some g' \<and> covers g g'"
proof -
  have kind: "is_static_filters_enabled I self' = is_static_filters_enabled I self"
    using assms(5,7) by (auto simp: filter_kind_settled_def is_static_filters_enabled_def)
  show ?thesis
  proof (cases "is_static_filters_enabled I self")
    case True
    then show ?thesis using assms(3,6,8) kind
      by (auto simp: build_filter_def covers_def Let_def chain_sources_def)
  next
    case False
    let ?now = "ic_instance (sr_ctx self)" and ?then = "ic_instance (sr_ctx self')"
    have hosts: "set (List.map_filter (as_onchain \<circ> rh_data_source) (on_hosts ?then))
        \<subseteq> set (List.map_filter (as_onchain \<circ> rh_data_source) (on_hosts ?now))"
      using assms(4) unfolding map_filter_set by blast
    have static: "set (List.map_filter as_onchain (filter P (si_static_data_sources ?now)))
        \<subseteq> set (List.map_filter as_onchain (si_static_data_sources ?now))" for P
      unfolding map_filter_set by auto
    have "end_block_filter (ri_chain I) (ws_block_ptr (ri_store I) (sr_store self)) ds"
      if "ds \<in> set (chain_sources ?now)" "end_block_filter (ri_chain I) (ws_block_ptr (ri_store I) (sr_store self')) ds" for ds
      using that assms(6) by blast
    then have "end_block_filter (ri_chain I) (ws_block_ptr (ri_store I) (sr_store self)) ds"
      if "ds \<in> set (List.map_filter (as_onchain \<circ> rh_data_source) (on_hosts ?now)) \<or>
          ds \<in> set (List.map_filter as_onchain (filter (\<lambda>ds. ds_runtime (ri_chain I) ds = None) (si_static_data_sources ?now)))"
        "end_block_filter (ri_chain I) (ws_block_ptr (ri_store I) (sr_store self')) ds" for ds
      using that static by (auto simp: chain_sources_def)
    with hosts False assms(3,8) kind show ?thesis
      unfolding build_filter_def Let_def onchain_data_sources_ok[OF assms(1)] onchain_data_sources_ok[OF assms(2)]
      by (auto simp: covers_def)
  qed
qed

end
