(* ===== verification/Eth_Chain.thy ===== *)
theory Eth_Chain
  imports Eth_Data_Source Instance_Correct
begin

text \<open>
  Ethereum as a chain, the implementation of the trait \<open>DataSource\<close> in \<open>chain/ethereum/src/data_source.rs\<close>:
  creating a data source from a template or a stored data source, duplicates, and matching and
  decoding triggers. The crate \<open>ethabi\<close> decodes the parameters of events and functions; its decoders, the parser of addresses,
  Keccak-256 and the contents of blocks are the parameters of the chain. The declared calls of
  event handlers are left out.
\<close>

section \<open>Contracts\<close>

text \<open>Types of \<open>ethabi\<close>; the kinds of the inputs of a function are as \<open>ethabi\<close> displays them.\<close>

datatype param_type =
    PAddress | PBytes | PInt nat | PUint nat | PBool | PString
  | PArray param_type | PFixedBytes nat | PFixedArray param_type nat | PTuple "param_type list"

record abi_event =
  ae_name :: string
  ae_inputs :: "(bool \<times> param_type) list"

datatype state_mutability = Pure | View | NonPayable | Payable

record abi_function =
  af_name :: string
  af_inputs :: "(string \<times> string) list"
  af_outputs :: "string list"
  af_state_mutability :: state_mutability

record mapping_abi =
  ab_name :: string
  ab_events :: "abi_event list"
  ab_functions :: "abi_function list"

fun decimal :: "nat \<Rightarrow> string" where
  "decimal n = (if n < 10 then [char_of (48 + n)] else decimal (n div 10) @ [char_of (48 + n mod 10)])"

declare decimal.simps [simp del]

definition comma_join :: "string list \<Rightarrow> string" where
  "comma_join ss = concat (case ss of [] \<Rightarrow> [] | s # ss \<Rightarrow> s # map ((@) '','') ss)"

fun event_param_type_signature :: "param_type \<Rightarrow> string" where
  "event_param_type_signature PAddress = ''address''"
| "event_param_type_signature PBytes = ''bytes''"
| "event_param_type_signature (PInt n) = ''int'' @ decimal n"
| "event_param_type_signature (PUint n) = ''uint'' @ decimal n"
| "event_param_type_signature PBool = ''bool''"
| "event_param_type_signature PString = ''string''"
| "event_param_type_signature (PArray t) = event_param_type_signature t @ ''[]''"
| "event_param_type_signature (PFixedBytes n) = ''bytes'' @ decimal n"
| "event_param_type_signature (PFixedArray t n) = event_param_type_signature t @ ''['' @ decimal n @ '']''"
| "event_param_type_signature (PTuple ts) = ''('' @ comma_join (map event_param_type_signature ts) @ '')''"

definition ambiguous_event_signature :: "abi_event \<Rightarrow> string" where
  "ambiguous_event_signature e =
     ae_name e @ ''('' @ comma_join (map (event_param_type_signature \<circ> snd) (ae_inputs e)) @ '')''"

definition event_signature :: "abi_event \<Rightarrow> string" where
  "event_signature e =
     ae_name e @ ''('' @ comma_join (map (\<lambda>(indexed, kind).
       (if indexed then ''indexed '' else '''') @ event_param_type_signature kind) (ae_inputs e)) @ '')''"

definition contract_event_with_signature :: "mapping_abi \<Rightarrow> string \<Rightarrow> abi_event option" where
  "contract_event_with_signature abi signature =
     (case find (\<lambda>e. event_signature e = signature) (ab_events abi) of
        Some e \<Rightarrow> Some e
      | None \<Rightarrow>
          let event_name = (if CHR ''('' \<in> set signature then takeWhile (\<lambda>c. c \<noteq> CHR ''('') signature else '''')
          in (case filter (\<lambda>e. ae_name e = event_name) (ab_events abi) of
                [e] \<Rightarrow> if ambiguous_event_signature e = signature then Some e else None
              | _ \<Rightarrow> None))"

definition contract_function_with_signature :: "mapping_abi \<Rightarrow> string \<Rightarrow> abi_function option" where
  "contract_function_with_signature abi target_signature =
     find (\<lambda>f. target_signature = af_name f @ ''('' @ comma_join (map snd (af_inputs f)) @ '')'')
       (filter (\<lambda>f. case af_state_mutability f of
            Payable \<Rightarrow> True | NonPayable \<Rightarrow> True | Pure \<Rightarrow> False | View \<Rightarrow> False) (ab_functions abi))"

section \<open>Data sources\<close>

text \<open>The other fields of a data source; \<open>ed_abis\<close> and \<open>ed_runtime\<close> are fields of its mapping.\<close>

record eth_data_source = data_source +
  ed_kind :: string
  ed_network :: "string option"
  ed_name :: string
  ed_manifest_idx :: nat
  ed_end_block :: "block_number option"
  ed_abis :: "mapping_abi list"
  ed_runtime :: "nat list"
  ed_context :: "string option"
  ed_creation_block :: "block_number option"
  ed_contract_abi :: mapping_abi

record eth_template =
  et_kind :: string
  et_network :: "string option"
  et_name :: string
  et_manifest_idx :: nat
  et_source_abi :: string
  et_mapping :: mapping
  et_abis :: "mapping_abi list"
  et_runtime :: "nat list"

definition base :: "eth_data_source \<Rightarrow> data_source" where
  "base ds = data_source.truncate ds"

record eth_transaction =
  tx_hash :: h256
  tx_block_hash :: "h256 option"
  tx_block_number :: "block_number option"
  tx_transaction_index :: "nat option"
  tx_from :: "address option"

datatype 'p eth_mapping_trigger =
    LogMapping block_ptr eth_transaction eth_log 'p
  | CallMapping block_ptr eth_transaction eth_call "(string \<times> 'p) list" "(string \<times> 'p) list"
  | BlockMapping block_ptr

text \<open>
  The parameters: parsing an address, decoding with an ABI, and the hash and the transactions of
  the block that a pointer points to.
\<close>

record 'p eth_env =
  ee_keccak :: "bytes \<Rightarrow> bytes"
  ee_parse_address :: "string \<Rightarrow> address option"
  ee_parse_log :: "abi_event \<Rightarrow> h256 list \<Rightarrow> bytes \<Rightarrow> 'p option"
  ee_decode_input :: "abi_function \<Rightarrow> bytes \<Rightarrow> 'p list option"
  ee_decode_output :: "abi_function \<Rightarrow> bytes \<Rightarrow> 'p list option"
  ee_block_hash :: "block_ptr \<Rightarrow> h256"
  ee_transactions :: "block_ptr \<Rightarrow> eth_transaction list"
  ee_serde :: context_serde

text \<open>The bytes of an address, the highest first. \<open>H160::from_slice\<close> panics, the \<open>None\<close>, if there are not 20 bytes.\<close>

definition address_bytes :: "address \<Rightarrow> nat list" where
  "address_bytes a = rev (map (\<lambda>i. nat (take_bit 8 (drop_bit (8 * i) (uint a)))) [0..<20])"

definition address_from_slice :: "nat list \<Rightarrow> address option" where
  "address_from_slice bs = (if length bs = 20 then Some (word_rcat (map of_nat bs :: 8 word list)) else None)"

definition find_abi :: "mapping_abi list \<Rightarrow> string \<Rightarrow> (ds_error, mapping_abi) result" where
  "find_abi abis abi_name =
     (case find (\<lambda>abi. ab_name abi = abi_name) abis of
        None \<Rightarrow> Inl (ChainError (''No ABI entry with name '' @ abi_name @ '' found''))
      | Some abi \<Rightarrow> Inr abi)"

text \<open>\<open>trim_start_matches\<close> removes the prefix as often as it is there.\<close>

fun trim_0x :: "string \<Rightarrow> string" where
  "trim_0x (c # d # s) = (if [c, d] = ''0x'' then trim_0x s else c # d # s)"
| "trim_0x s = s"

definition eth_from_template_info :: "'p eth_env \<Rightarrow> eth_template ds_info \<Rightarrow> eth_template ds_template
    \<Rightarrow> (ds_error, eth_data_source) result" where
  "eth_from_template_info E info ds_template =
     (case ds_template of
        OffchainTemplate _ \<Rightarrow> Inl (ChainError ''Cannot create onchain data source from offchain template'')
      | OnchainTemplate template \<Rightarrow>
          (case di_params info of
             [] \<Rightarrow> Inl (SourceMissing (et_name template))
           | param # _ \<Rightarrow>
               (case ee_parse_address E (trim_0x param) of
                  None \<Rightarrow> Inl (ChainError ''invalid address provided'')
                | Some address \<Rightarrow>
                    bind_res (find_abi (et_abis template) (et_source_abi template)) (\<lambda>contract_abi.
                      Inr \<lparr>ds_address = Some address, ds_start_block = di_creation_block info, ds_mapping = et_mapping template,
                         ed_kind = et_kind template, ed_network = et_network template, ed_name = et_name template,
                         ed_manifest_idx = et_manifest_idx template, ed_end_block = None, ed_abis = et_abis template,
                         ed_runtime = et_runtime template, ed_context = di_context info,
                         ed_creation_block = Some (di_creation_block info), ed_contract_abi = contract_abi\<rparr>))))"

definition eth_is_duplicate_of :: "eth_data_source \<Rightarrow> eth_data_source \<Rightarrow> bool" where
  "eth_is_duplicate_of self other \<longleftrightarrow>
     ed_kind self = ed_kind other \<and> ed_network self = ed_network other \<and> ed_name self = ed_name other
     \<and> ed_manifest_idx self = ed_manifest_idx other \<and> ds_address self = ds_address other
     \<and> ed_abis self = ed_abis other
     \<and> m_event_handlers (ds_mapping self) = m_event_handlers (ds_mapping other)
     \<and> m_call_handlers (ds_mapping self) = m_call_handlers (ds_mapping other)
     \<and> m_block_handlers (ds_mapping self) = m_block_handlers (ds_mapping other)
     \<and> ed_context self = ed_context other"

text \<open>\<open>None\<close> is a panic.\<close>

definition eth_as_stored :: "context_serde \<Rightarrow> eth_data_source \<Rightarrow> stored_data_source option" where
  "eth_as_stored J self =
     map_option (\<lambda>context.
       \<lparr>sd_manifest_idx = ed_manifest_idx self, sd_param = map_option address_bytes (ds_address self),
        sd_context = context, sd_creation_block = ed_creation_block self, sd_done_at = None,
        sd_causality_region = CR_ONCHAIN\<rparr>)
       (context_to_value J (ed_context self))"

definition eth_from_stored :: "context_serde \<Rightarrow> eth_template \<Rightarrow> stored_data_source \<Rightarrow> (ds_error, eth_data_source) result option" where
  "eth_from_stored J template stored =
     (if sd_causality_region stored \<noteq> CR_ONCHAIN then Some (Inl (ChainError ''stored ethereum data source has causality region''))
      else if sd_done_at stored \<noteq> None then Some (Inl (ChainError ''onchain data sources are never done''))
      else (case context_from_value J (sd_context stored) of
              None \<Rightarrow> Some (Inl BadContext)
            | Some context \<Rightarrow>
                (case find_abi (et_abis template) (et_source_abi template) of
                   Inl e \<Rightarrow> Some (Inl e)
                 | Inr contract_abi \<Rightarrow>
                     map_option (\<lambda>address. Inr
                         \<lparr>ds_address = address,
                          ds_start_block = (case sd_creation_block stored of None \<Rightarrow> 0 | Some b \<Rightarrow> b),
                          ds_mapping = et_mapping template, ed_kind = et_kind template, ed_network = et_network template,
                          ed_name = et_name template, ed_manifest_idx = sd_manifest_idx stored, ed_end_block = None,
                          ed_abis = et_abis template, ed_runtime = et_runtime template, ed_context = context,
                          ed_creation_block = sd_creation_block stored, ed_contract_abi = contract_abi\<rparr>)
                       (case sd_param stored of None \<Rightarrow> Some None | Some bs \<Rightarrow> map_option Some (address_from_slice bs)))))"

section \<open>Matching and decoding\<close>

definition with_handler :: "block_ptr \<Rightarrow> block_time \<Rightarrow> string \<Rightarrow> 't \<Rightarrow> 't trigger_with_handler" where
  "with_handler ptr time handler t = \<lparr>th_trigger = t, th_handler = handler, th_block_ptr = ptr, th_timestamp = Some time\<rparr>"

definition transaction_with_hash :: "'p eth_env \<Rightarrow> block_ptr \<Rightarrow> h256 option \<Rightarrow> eth_transaction option" where
  "transaction_with_hash E ptr h =
     Option.bind h (\<lambda>h. find (\<lambda>tx. tx_hash tx = h) (ee_transactions E ptr))"

text \<open>
  The dummy transaction of events outside of transactions has their hash, and the zero address as
  its sender.
\<close>

definition transaction_of_log :: "'p eth_env \<Rightarrow> block_ptr \<Rightarrow> eth_log \<Rightarrow> eth_transaction option" where
  "transaction_of_log E ptr log =
     (case log_transaction_hash log of
        None \<Rightarrow> None
      | Some h \<Rightarrow>
          if h = ee_block_hash E ptr \<or> h = 0
          then Some \<lparr>tx_hash = h, tx_block_hash = Some (ee_block_hash E ptr), tx_block_number = Some (number ptr),
                 tx_transaction_index = log_transaction_index log, tx_from = Some 0\<rparr>
          else transaction_with_hash E ptr (Some h))"

definition decode_log :: "'p eth_env \<Rightarrow> eth_data_source \<Rightarrow> block_ptr \<Rightarrow> block_time \<Rightarrow> eth_log
    \<Rightarrow> (ds_error, 'p eth_mapping_trigger trigger_with_handler option) result" where
  "decode_log E self ptr time log =
     (case those (map (\<lambda>h. map_option (Pair h) (contract_event_with_signature (ed_contract_abi self) (eh_event h)))
             (handlers_for_log (ee_keccak E) (base self) log)) of
        None \<Rightarrow> Inl (ChainError ''Event with the signature not found in contract'')
      | Some valid_handlers \<Rightarrow>
          let matching_handlers = List.map_filter (\<lambda>(h, e).
                map_option (Pair h) (ee_parse_log E e (log_topics log) (log_data log))) valid_handlers
          in if matching_handlers = [] then Inr None
             else let (event_handler, params) = last matching_handlers
                  in if butlast matching_handlers \<noteq> [] then Inl (MultipleHandlers (eh_event event_handler))
                     else (case transaction_of_log E ptr log of
                             None \<Rightarrow> Inl (ChainError ''Found no transaction for event'')
                           | Some tx \<Rightarrow>
                               Inr (Some (with_handler ptr time (eh_handler event_handler) (LogMapping ptr tx log params)))))"

text \<open>A call with fewer than four bytes of input is an error, inputs that cannot be decoded are not.\<close>

definition decode_call :: "'p eth_env \<Rightarrow> eth_data_source \<Rightarrow> block_ptr \<Rightarrow> block_time \<Rightarrow> eth_call
    \<Rightarrow> (ds_error, 'p eth_mapping_trigger trigger_with_handler option) result" where
  "decode_call E self ptr time call =
     (case handler_for_call (ee_keccak E) (base self) call of
        Inl _ \<Rightarrow> Inl (ChainError ''Ethereum call has input with less than 4 bytes'')
      | Inr None \<Rightarrow> Inr None
      | Inr (Some handler) \<Rightarrow>
          (case contract_function_with_signature (ed_contract_abi self) (ch_function handler) of
             None \<Rightarrow> Inl (ChainError ''Function with the signature not found in contract'')
           | Some function_abi \<Rightarrow>
               (case ee_decode_input E function_abi (drop 4 (call_input call)) of
                  None \<Rightarrow> Inr None
                | Some tokens \<Rightarrow>
                    if length tokens \<noteq> length (af_inputs function_abi)
                    then Inl (ChainError ''Number of arguments in call does not match'')
                    else (case ee_decode_output E function_abi (call_output call) of
                            None \<Rightarrow> Inl (ChainError ''Decoding function outputs failed'')
                          | Some outputs \<Rightarrow>
                              if length outputs \<noteq> length (af_outputs function_abi)
                              then Inl (ChainError ''Number of parameters in the call output does not match'')
                              else (case transaction_with_hash E ptr (call_transaction_hash call) of
                                      None \<Rightarrow> Inl (ChainError ''Found no transaction for call'')
                                    | Some tx \<Rightarrow>
                                        Inr (Some (with_handler ptr time (ch_handler handler)
                                          (CallMapping ptr tx call (zip (map fst (af_inputs function_abi)) tokens)
                                             (zip (af_outputs function_abi) outputs)))))))))"

definition eth_match_and_decode :: "'p eth_env \<Rightarrow> eth_data_source \<Rightarrow> eth_trigger \<Rightarrow> block_ptr \<Rightarrow> block_time
    \<Rightarrow> (ds_error, 'p eth_mapping_trigger trigger_with_handler option) result" where
  "eth_match_and_decode E self trigger ptr time =
     (if \<not> matches_trigger_address (base self) trigger then Inr None
      else if ds_start_block self > number ptr then Inr None
      else (case trigger of
              BlockTrigger _ trigger_type \<Rightarrow>
                (case handler_for_block (base self) trigger_type (number ptr) of
                   None \<Rightarrow> Inr None
                 | Some handler \<Rightarrow> Inr (Some (with_handler ptr time (bh_handler handler) (BlockMapping ptr))))
            | LogTrigger log \<Rightarrow> decode_log E self ptr time log
            | CallTrigger call \<Rightarrow> decode_call E self ptr time call))"

section \<open>The chain\<close>

definition eth_chain :: "'p eth_env \<Rightarrow> (eth_data_source, eth_template, eth_trigger, 'p eth_mapping_trigger) chain" where
  "eth_chain E =
     \<lparr>ch_address = (\<lambda>ds. map_option address_bytes (ds_address ds)), ch_creation_block = ed_creation_block,
      ch_end_block = ed_end_block, ch_runtime = (\<lambda>ds. Some (ed_runtime ds)),
      ch_is_duplicate_of = eth_is_duplicate_of, ch_as_stored = eth_as_stored (ee_serde E),
      ch_match_and_decode = eth_match_and_decode E,
      ch_trigger_address = (\<lambda>t. map_option address_bytes (trigger_address t)),
      ch_from_template_info = (\<lambda>info t. case eth_from_template_info E info (OnchainTemplate t) of
         Inl e \<Rightarrow> Inl (CreationError e) | Inr ds \<Rightarrow> Inr ds),
      ch_template_idx = (\<lambda>t. Some (et_manifest_idx t))\<rparr>"

lemma base_address [simp]: "ds_address (base ds) = ds_address ds"
  by (simp add: base_def data_source.defs)

interpretation eth: chain_contract "eth_chain E" for E
proof unfold_locales
  show "ch_address (eth_chain E) a = ch_address (eth_chain E) b" if "ch_is_duplicate_of (eth_chain E) a b" for a b
    using that by (simp add: eth_chain_def eth_is_duplicate_of_def)
  show "ch_address (eth_chain E) ds = None \<or> ch_address (eth_chain E) ds = Some x"
    if "ch_match_and_decode (eth_chain E) ds t ptr time \<noteq> Inr None" and "ch_trigger_address (eth_chain E) t = Some x"
    for ds t ptr time x
  proof -
    have "matches_trigger_address (base ds) t"
      using that(1) by (auto simp: eth_chain_def eth_match_and_decode_def split: if_splits)
    then show ?thesis using that(2) by (auto simp: eth_chain_def matches_trigger_address_def split: option.splits)
  qed
qed

section \<open>Properties\<close>

text \<open>A data source that is decoded has a handler for the trigger.\<close>

lemma decoded_is_wanted:
  assumes "eth_match_and_decode E ds t ptr time = Inr (Some h)"
  shows "wants_trigger (ee_keccak E) (base ds) (number ptr) t"
proof -
  have start: "ds_start_block (base ds) = ds_start_block ds" by (simp add: base_def data_source.defs)
  have m: "matches_trigger_address (base ds) t" "ds_start_block (base ds) \<le> number ptr"
    using assms start by (auto simp: eth_match_and_decode_def split: if_splits)
  show ?thesis
  proof (cases t)
    case (LogTrigger log)
    then have "handlers_for_log (ee_keccak E) (base ds) log \<noteq> []"
      using assms m start by (auto simp: eth_match_and_decode_def decode_log_def map_filter_simps)
    then show ?thesis using m LogTrigger by (simp add: wants_trigger_def)
  next
    case (CallTrigger call)
    then show ?thesis using assms m start
      by (auto simp: wants_trigger_def eth_match_and_decode_def decode_call_def split: sum.splits option.splits)
  next
    case (BlockTrigger p ty)
    then show ?thesis using assms m start
      by (auto simp: wants_trigger_def eth_match_and_decode_def split: option.splits)
  qed
qed

lemma horner_bytes:
  "horner_sum id 256 (map (\<lambda>i. take_bit 8 (drop_bit (8 * i) (x :: int))) [0..<n]) = take_bit (8 * n) x"
proof (induction n)
  case (Suc n)
  have p: "(256 :: int) ^ n = 2 ^ (8 * n)" by (simp add: power_mult)
  have "take_bit (8 * Suc n) x = take_bit (8 * n) x + 2 ^ (8 * n) * take_bit 8 (drop_bit (8 * n) x)"
    using zmod_zmult2_eq[of "2 ^ 8" x "2 ^ (8 * n)"]
    by (simp add: take_bit_eq_mod drop_bit_eq_div power_add mult.commute add.commute)
  then show ?case using Suc by (simp add: horner_sum_append p)
qed simp

lemma horner_sum_map: "horner_sum f a xs = horner_sum id a (map f xs)"
  by (induction xs) simp_all

lemma address_from_slice_bytes: "address_from_slice (address_bytes a) = Some a"
proof -
  let ?f = "\<lambda>i. take_bit 8 (drop_bit (8 * i) (uint a))"
  let ?bs = "map (\<lambda>i. of_nat (nat (?f i))) [0..<20] :: 8 word list"
  have "map uint ?bs = map ?f [0..<20]" by (simp add: unsigned_of_int)
  then have "horner_sum uint 256 ?bs = horner_sum id 256 (map ?f [0..<20])"
    by (simp only: horner_sum_map[of uint])
  also have "\<dots> = uint a" using uint_range_size[of a] by (simp add: horner_bytes take_bit_int_eq_self word_size)
  finally have "horner_sum uint 256 ?bs = uint a" .
  then have "word_rcat (rev ?bs) = a" by (simp add: word_rcat_def)
  then show ?thesis by (simp add: address_from_slice_def address_bytes_def rev_map comp_def)
qed

text \<open>
  Storing and loading a data source that was created from a template gives it back: the start block
  is the creation block, and there is no end block.
\<close>

lemma eth_stored_round_trip:
  assumes "eth_from_template_info E info (OnchainTemplate t) = Inr ds" and "serde_laws J" and "eth_as_stored J ds = Some stored"
  shows "eth_from_stored J t stored = Some (Inr ds)"
  using assms context_round_trip[OF assms(2)]
  by (auto simp: eth_from_template_info_def eth_from_stored_def eth_as_stored_def address_from_slice_bytes
      split: list.splits option.splits sum.splits)

end
