(* ===== verification/Runner_Properties.thy ===== *)
theory Runner_Properties
  imports Runner_Correct Eth_Chain Memory_Store
begin

text \<open>
  The properties of data sources, hosts, handlers, the proof of indexing and the runner, with a small
  subgraph on which they are applied: data sources and triggers are numbers, a trigger is for the data source with its number.
\<close>

section \<open>A small subgraph\<close>

text \<open>The data source 0 ends at block 5, the others never.\<close>

definition toy_chain :: "(nat, nat, nat, nat) chain" where
  "toy_chain = \<lparr>ch_address = (\<lambda>n. Some [n]), ch_creation_block = (\<lambda>n. None),
     ch_end_block = (\<lambda>n. if n = 0 then Some 5 else None), ch_runtime = (\<lambda>n. Some [n]), ch_is_duplicate_of = (=),
     ch_as_stored = (\<lambda>n. Some \<lparr>sd_manifest_idx = n, sd_param = None, sd_context = None, sd_creation_block = None,
       sd_done_at = None, sd_causality_region = CR_ONCHAIN\<rparr>),
     ch_match_and_decode = (\<lambda>ds t ptr time. Inr (if ds = t then Some
       \<lparr>th_trigger = t, th_handler = ''handler'', th_block_ptr = ptr, th_timestamp = Some time\<rparr> else None)),
     ch_trigger_address = (\<lambda>t. Some [t]), ch_from_template_info = (\<lambda>info t. Inr t), ch_template_idx = (\<lambda>t. Some t)\<rparr>"

text \<open>A hash that counts what is written, with the sum of the address.\<close>

fun toy_code :: "'e hashable \<Rightarrow> nat list \<Rightarrow> nat" where
  "toy_code (HEvent e) a = 1 + sum_list a"
| "toy_code (HLen n) a = (if n = 0 then 0 else n + sum_list a)"
| "toy_code (HStr s) a = length s + sum_list a"
| "toy_code (HBytes bs) a = sum_list bs + sum_list a"
| "toy_code (HOptBytes bs) a = (case bs of None \<Rightarrow> 0 | Some bs \<Rightarrow> sum_list bs + sum_list a)"

definition toy_fast :: "(nat list, 'e, nat) fast_hasher" where
  "toy_fast = \<lparr>fs_root = [], fs_child = (\<lambda>a i. a @ [i]), fs_new = 0, fs_hash = (\<lambda>v a h. toy_code v a + h),
     fs_mixin = (+), fs_to_bytes = (\<lambda>h. h # replicate 31 0), fs_from_bytes = hd, fs_digest = (\<lambda>h. [h])\<rparr>"

definition toy_legacy :: "(nat list, 'e, nat) legacy_hasher" where
  "toy_legacy = \<lparr>ls_root = [], ls_skip = (\<lambda>i a. a @ [i]), ls_next_child = id, ls_new = 0,
     ls_hash = (\<lambda>v a h. toy_code v a + h), ls_finish_unordered = (+), ls_to_bytes = (\<lambda>h. [h]), ls_from_bytes = hd,
     ls_finish = (\<lambda>h. [h])\<rparr>"

definition toy_hash :: "(nat list, entity, nat, nat list, nat) hash_env" where
  "toy_hash = \<lparr>he_fast = toy_fast, he_legacy = toy_legacy, he_sha256 = (\<lambda>bs. bs)\<rparr>"

lemma toy_hash_laws: "fast_hasher_laws (he_fast toy_hash)"
  by (simp add: fast_hasher_laws_def toy_hash_def toy_fast_def STABLE_HASH_LEN_def)

text \<open>
  The module of data source 0 hits a possible reorg, that of 1 creates a data source and then traps, that of 2
  returns, and that of 3 removes an entity that it may not touch.
\<close>

definition toy_guest :: "nat \<Rightarrow> (nat, unit) guest" where
  "toy_guest n =
     (if n = 0 then Call (OtherCall n) (\<lambda>_. Return)
      else if n = 1 then Call (DataSourceCreate ''Pair'' [''x''] None) (\<lambda>_. Trap UnreachableCodeReached)
      else if n = 2 then Return
      else Call (StoreRemove ''Account'' ''a'') (\<lambda>_. Trap UnreachableCodeReached))"

definition toy_exports :: "((entity_key, entity option) list_queue, nat list, nat, nat list, nat) exports_env" where
  "toy_exports = \<lparr>xe_cache = memory_env (\<lambda>_. None) 1000 [], xe_pool = account_pool, xe_hash = toy_hash,
     xe_known_type = (\<lambda>t. t = ''Account''), xe_is_timeseries = (\<lambda>t. False), xe_id_type = (\<lambda>t. Some IdTypeString),
     xe_parse_i64 = (\<lambda>s. None), xe_show_i64 = (\<lambda>i. ''''), xe_set_size = (\<lambda>k d. 1), xe_key_size = (\<lambda>k. 1),
     xe_get_size = (\<lambda>k e. 1), xe_related_size = (\<lambda>k e. 1), xe_max_gas = CONST_MAX_GAS_PER_HANDLER\<rparr>"

definition toy_wasm :: "((entity_key, entity option) list_queue, nat list, nat, nat list, nat, nat, unit, nat,
    (nat, unit) mapping_trigger) wasm_env" where
  "toy_wasm = \<lparr>we_exports = toy_exports, we_other = (\<lambda>c. Inl (HPossibleReorg ''reorg'')), we_trap_text = (\<lambda>t. ''trap''),
     we_get_func = (\<lambda>sender name. Some (\<lambda>t. toy_guest sender))\<rparr>"

definition toy_config :: "(nat, nat, (nat, unit) mapping_trigger) host_config" where
  "toy_config = \<lparr>hc_templates = [(''Pair'', OnchainTemplate 4)], hc_api_version = (\<lambda>ds. (0, 0, 7)),
     hc_name = (\<lambda>ds. ''toy''), hc_network = ''main'', hc_serde = \<lparr>cs_to_value = Some, cs_from_value = Some\<rparr>,
     hc_error_context = (\<lambda>t. None), hc_no_time = 0\<rparr>"

definition toy_host :: "nat \<Rightarrow> (nat, nat) host" where
  "toy_host n = \<lparr>rh_ptr = n, rh_data_source = Onchain n, rh_sender = n\<rparr>"

definition toy_trigger :: "nat \<Rightarrow> (nat, unit) mapping_trigger trigger_with_handler" where
  "toy_trigger n = \<lparr>th_trigger = OnchainMapping n, th_handler = ''handler'', th_block_ptr = \<lparr>hash = ''b'', number = 4\<rparr>,
     th_timestamp = Some 0\<rparr>"

definition toy_state :: "((entity_key, entity option) list_queue, nat, subgraph_error) block_state" where
  "toy_state = block_state_new 1000 (lfu_new list_queue False)"

lemma toy_idle: "idle toy_state"
  by (simp add: toy_state_def block_state_new_idle)

lemma toy_onchain: "as_offchain (rh_data_source (toy_host n)) = None"
  by (simp add: toy_host_def)

lemmas toy_defs = toy_wasm_def toy_exports_def toy_config_def toy_host_def toy_trigger_def toy_guest_def

text \<open>What the handlers of the data sources 1 and 2 do.\<close>

definition toy_error :: subgraph_error where
  "toy_error = \<lparr>se_message = ''trap'', se_handler = Some ''handler'', se_block_ptr = Some \<lparr>hash = ''b'', number = 4\<rparr>,
     se_deterministic = True\<rparr>"

lemmas handler_simps = rh_process_mapping_trigger_def process_mapping_trigger_def invoke_handler_def Let_def
  bs_enter_handler_def enter_handler_def bs_discard_changes_def exit_handler_and_discard_changes_def
  bs_exit_handler_def exit_handler_def

lemma toy_fails:
  assumes "idle s"
  shows "rh_process_mapping_trigger toy_wasm toy_config (toy_host 1) (toy_trigger 1) s poi =
    Inr (s\<lparr>bs_deterministic_errors := bs_deterministic_errors s @ [toy_error]\<rparr>, poi)"
  using assms
  by (simp add: handler_simps toy_defs idle_def data_source_create_def track_gas_def consume_host_fn_def
    reply_with_def push_created_data_source_def details_from_data_source_def is_trap_deterministic_def
    handler_error_def toy_error_def gas_add_def GAS_MAX_def CREATE_DATA_SOURCE_GAS_def CONST_MAX_GAS_PER_HANDLER_def HOST_EXPORT_GAS_def)

definition toy_details :: "nat data_source_details" where
  "toy_details = details_from_data_source (hc_templates toy_config) (hc_api_version toy_config) (hc_name toy_config)
     (hc_network toy_config) (Onchain 1)"

lemma toy_run:
  "\<exists>d. handler_run toy_wasm toy_details 1 (toy_trigger 1) 0 toy_state None = Some (Some UnreachableCodeReached, d)
     \<and> map di_params (bs_handler_created_data_sources (mc_state (wd_ctx d))) = [[''x'']]"
  using toy_idle
  by (simp add: handler_run_def run_data_def bs_enter_handler_def enter_handler_def toy_details_def toy_defs idle_def
    data_source_create_def track_gas_def consume_host_fn_def reply_with_def push_created_data_source_def
    details_from_data_source_def gas_add_def GAS_MAX_def CREATE_DATA_SOURCE_GAS_def CONST_MAX_GAS_PER_HANDLER_def HOST_EXPORT_GAS_def)

section \<open>The proof of indexing\<close>

text \<open>
  C5: With the fast hasher, the version \<open>FastVersion\<close>, the digest that the node computes block by block, storing a hash per causality region
  after each block and continuing it at the next, is the one that the reference implementation computes from the whole
  history of events. The history has every region for which a trigger was processed, also without an event, and counts in the
  event of a failed trigger the events since its handler started.
\<close>

theorem online_digest_is_reference:
  assumes "fast_hasher_laws (he_fast E)" and "blocks \<noteq> []"
  shows "online_digest E FastVersion names blocks block_hash subgraph_id indexer =
    reference_digest (he_fast E) (reference_of names blocks block_hash subgraph_id indexer)"
  using assms by (rule online_is_reference)

text \<open>The region \<open>file\<close> has no event, the region \<open>other\<close> no trigger.\<close>

definition toy_calls :: "entity poi_call list list" where
  "toy_calls = [[StartHandler ''ethereum/main'', WriteEvent ''ethereum/main'' (RemoveEntity ''Account'' ''a''), FailedTrigger ''ethereum/main''],
     [StartHandler ''file'']]"

theorem online_digest_is_reference_witness:
  "online_digest toy_hash FastVersion [''ethereum/main'', ''file'', ''other''] toy_calls [1, 2] ''Qm'' None =
    reference_digest (he_fast toy_hash)
      \<lparr>rp_causality_regions = [(''ethereum/main'', [[RemoveEntity ''Account'' ''a'', DeterministicError 1], []]), (''file'', [[], []])],
        rp_subgraph_id = ''Qm'', rp_block_hash = [1, 2], rp_indexer = None\<rparr>"
  using online_digest_is_reference[OF toy_hash_laws, of toy_calls "[''ethereum/main'', ''file'', ''other'']" "[1, 2]" "''Qm''" None]
  by (simp add: toy_calls_def reference_of_def touched_def touches_def region_blocks_def region_events_def region_history_def)

section \<open>Handlers\<close>

text \<open>
  C4: A handler is a transaction. When it returns, its guest ran to an end, and how it ended decides: without a trap the entities
  that the block shows are those that the handler saw at the end of its run, its pending updates included, the data
  sources that the run created come after the others and no error is added; with a trap, which is then a deterministic one,
  the error of that trap is added, with the handler and its block, while the entities that the block shows and its data sources are
  what they were. Either way the events of the run stay in the proof of indexing, no handler is left open, the updates of the
  block stay well-formed, and what was persisted or processed stays.
\<close>

theorem handler_is_transaction:
  assumes "process_mapping_trigger W ds sender trigger error_context time s poi = Inr (s', poi')" and "idle s"
    and "pool_laws (we_exports W)" and "hash_order_ok (xe_cache (we_exports W))"
    and "updates_ok (xe_pool (we_exports W)) (bs_entity_cache s)"
  shows "\<exists>trap d. handler_run W ds sender trigger time s poi = Some (trap, d)
    \<and> idle s' \<and> poi' = mc_poi (wd_ctx d) \<and> bs_persisted_data_sources s' = bs_persisted_data_sources s
    \<and> bs_processed_data_sources s' = bs_processed_data_sources s
    \<and> updates_ok (xe_pool (we_exports W)) (bs_entity_cache s')
    \<and> (case trap of
          None \<Rightarrow> bs_view st s' = bs_view st (mc_state (wd_ctx d))
            \<and> bs_deterministic_errors s' = bs_deterministic_errors s
            \<and> bs_created_data_sources s' = bs_created_data_sources s @ bs_handler_created_data_sources (mc_state (wd_ctx d))
        | Some t \<Rightarrow> deterministic_failure t d
            \<and> bs_deterministic_errors s' = bs_deterministic_errors s
                @ [handler_error W (th_handler trigger) error_context (th_block_ptr trigger) t]
            \<and> bs_view st s' = bs_view st s \<and> bs_created_data_sources s' = bs_created_data_sources s)"
proof -
  obtain trap d where run: "handler_run W ds sender trigger time s poi = Some (trap, d)"
    using assms(1) by (rule process_mapping_trigger_runs)
  note outcome = process_mapping_trigger_outcome[OF assms(1,2) run]
  then have "bs_view st s' = bs_view st s" if "trap = Some t" for t
    using that rolled_back_view[OF _ assms(2)] by auto
  with outcome run process_mapping_trigger_view[OF assms(1) run assms(3-5)] show ?thesis
    by (cases trap) (auto simp: rolled_back_def)
qed

lemma toy_laws: "pool_laws (we_exports toy_wasm)" "hash_order_ok (xe_cache (we_exports toy_wasm))"
  "updates_ok (xe_pool (we_exports toy_wasm)) (bs_entity_cache toy_state)"
  by (simp_all add: toy_wasm_def toy_exports_def pool_laws_def account_pool_ok account_words VID_FIELD_def updates_ok_def
    toy_state_def block_state_new_def with_current_def)

theorem handler_is_transaction_witness:
  "\<exists>d. handler_run toy_wasm toy_details 1 (toy_trigger 1) 0 toy_state None = Some (Some UnreachableCodeReached, d)
     \<and> map di_params (bs_handler_created_data_sources (mc_state (wd_ctx d))) = [[''x'']] \<and> deterministic_failure UnreachableCodeReached d
     \<and> process_mapping_trigger toy_wasm toy_details 1 (toy_trigger 1) None 0 toy_state None =
         Inr (toy_state\<lparr>bs_deterministic_errors := [toy_error]\<rparr>, mc_poi (wd_ctx d))"
proof -
  have errors: "bs_deterministic_errors toy_state = []" by (simp add: toy_state_def block_state_new_def)
  note call = toy_fails[OF toy_idle, of None, unfolded errors append_Nil rh_process_mapping_trigger_def]
  have host: "rh_data_source (toy_host 1) = Onchain 1" "rh_sender (toy_host 1) = 1" "hc_error_context toy_config t = None"
    "hc_no_time toy_config = 0" for t by (simp_all add: toy_host_def toy_config_def)
  note call = call[unfolded host, folded toy_details_def]
  from handler_is_transaction[OF call toy_idle toy_laws, of "\<lambda>_. None"] toy_run call show ?thesis by auto
qed

section \<open>The runner\<close>

text \<open>A store that remembers its head and its transactions.\<close>

definition toy_store :: "(block_ptr option \<times> transaction list) writable" where
  "toy_store = \<lparr>ws_block_ptr = fst, ws_read = (\<lambda>st. memory_store []), ws_is_synced = (\<lambda>st. False),
     ws_is_failed = (\<lambda>st. Inr False), ws_chain_head = (\<lambda>st. Inr None),
     ws_transact = (\<lambda>ta st. (Inr (), (Some (ta_ptr ta), snd st @ [ta]))),
     ws_revert = (\<lambda>ptr cursor st. (Inr (), (Some ptr, snd st))), ws_fail = (\<lambda>e st. (Inr (), st)),
     ws_unfail_deterministic = (\<lambda>a b st. (Inr (), st)), ws_unfail = (\<lambda>ptr st. (Inr False, st)),
     ws_unassign = (\<lambda>st. (Inr (), st)), ws_flush = (\<lambda>st. (Inr (), st)), ws_restart = (\<lambda>st. Inr None)\<rparr>"

text \<open>The subgraph has the data source 0, so that its end blocks are 5 alone.\<close>

definition toy_inputs :: "(nat, nat, nat, nat, unit, nat, block_ptr option \<times> transaction list) runner_inputs" where
  "toy_inputs = \<lparr>ri_chain = toy_chain,
     ri_instance_env = \<lparr>ie_max_data_sources = 3, ie_module_hash = id, ie_spawn_mapping = (\<lambda>bs. Inr (hd bs))\<rparr>,
     ri_store = toy_store, ri_templates = [OnchainTemplate 4], ri_end_blocks = manifest_end_blocks toy_chain [Onchain 0],
     ri_max_end_block = max_end_block toy_chain [Onchain 0] [], ri_stop_block = None, ri_non_fatal_errors = False,
     ri_static_filters = False, ri_static_filters_threshold = 10, ri_disable_fail_fast = False,
     ri_poi_version = FastVersion, ri_network = ''main'', ri_write_capacity = 1000, ri_has_aggregations = False, ri_dead_weight = False,
     ri_dips_metrics = False, ri_dips_store_url = None,
     ri_parse_path = Some, ri_after_decode = Inr, ri_parent_ptr = (\<lambda>ptr. Inr None), ri_block_again = Inr,
     ri_triggers_in_block = (\<lambda>ptr dss. Inr [])\<rparr>"

definition toy_instance :: "nat list \<Rightarrow> (nat, nat) subgraph_instance" where
  "toy_instance ns = (si_new [] 0)\<lparr>si_onchain_hosts := fold (\<lambda>n. oh_push (rh_address toy_chain) (toy_host n)) ns oh_new\<rparr>"

definition toy_monitor :: offchain_monitor where
  "toy_monitor = \<lparr>om_ipfs = [], om_ipfs_rx = [], om_ipfs_closed = False, om_arweave = [], om_arweave_rx = [], om_arweave_closed = False\<rparr>"

definition toy_runner :: "nat list \<Rightarrow> block_number
    \<Rightarrow> ((entity_key, entity option) list_queue, nat, nat, nat, block_ptr option \<times> transaction list) subgraph_runner" where
  "toy_runner ns n = \<lparr>sr_ctx = \<lparr>ic_instance = toy_instance ns, ic_offchain_monitor = toy_monitor\<rparr>, sr_filter = None,
     sr_cells = [], sr_store = (Some \<lparr>hash = ''a'', number = n\<rparr>, []), sr_entity_lfu_cache = lfu_new list_queue False,
     sr_cached_head_ptr = None, sr_should_try_unfail = False, sr_backoff_attempt = 0\<rparr>"

definition toy_block :: "block_number \<Rightarrow> nat list \<Rightarrow> (nat, unit) block_with_triggers" where
  "toy_block n ts = \<lparr>rb_ptr = \<lparr>hash = ''b'', number = n\<rparr>, rb_time = 0, rb_triggers = map OnchainTrigger ts\<rparr>"

lemma toy_hook: "hook_adds_no_hosts toy_inputs"
  by (simp add: hook_adds_no_hosts_def toy_inputs_def)

lemma toy_end_block: "manifest_end_blocks toy_chain [Onchain 0] = [5]" "max_end_block toy_chain [Onchain 0] [] = Some 5"
  by (simp_all add: manifest_end_blocks_def max_end_block_def toy_chain_def map_filter_simps)

text \<open>
  C6: \<open>process_block\<close> ends: the loop that creates data sources and runs their handlers in the same block, whose
  handlers may create data sources again, is bounded by the limit on their number.
\<close>

theorem process_block_terminates:
  assumes "hook_adds_no_hosts I"
  shows "process_block I W H canceled b cursor self \<noteq> None"
  using assms by (rule process_block_ends)

theorem process_block_terminates_witness:
  "process_block toy_inputs toy_wasm toy_config False (toy_block 4 [1]) ''cursor'' (toy_runner [1] 3) \<noteq> None"
  using process_block_terminates[OF toy_hook] .

text \<open>
  C22: \<open>max_end_block\<close>, the block at which the whole subgraph stops, is only set if there are no dynamic data sources and every data
  source of the manifest has ended by it, and only if all end blocks differ: two data sources with the same end block keep the subgraph running.
\<close>

theorem max_end_block_is_sound:
  assumes "max_end_block C manifest dynamic = Some m"
  shows "dynamic = [] \<and> (\<forall>d \<in> set manifest. \<exists>ds e. d = Onchain ds \<and> ch_end_block C ds = Some e \<and> e \<le> m)
    \<and> distinct (map (\<lambda>d. Option.bind (as_onchain d) (ch_end_block C)) manifest)"
proof -
  let ?f = "\<lambda>d. Option.bind (as_onchain d) (ch_end_block C)"
  let ?ends = "List.map_filter ?f manifest"
  have len: "length (manifest @ dynamic) = card (set ?ends)" and m: "m = last (sorted_list_of_set (set ?ends))"
    and ne: "set ?ends \<noteq> {}"
    using assms by (auto simp: max_end_block_def manifest_end_blocks_def Let_def split: if_splits)
  have "length ?ends \<le> length manifest" by (induction manifest) (auto simp: map_filter_simps split: option.splits)
  moreover have "card (set ?ends) \<le> length ?ends" by (rule card_length)
  ultimately have "length dynamic = 0" and full: "length ?ends = length manifest" and card: "card (set ?ends) = length ?ends"
    using len by (simp_all only: length_append)
  then have dyn: "dynamic = []" by simp
  have all: "map Some (List.map_filter ?f ds) = map ?f ds" if "length (List.map_filter ?f ds) = length ds" for ds
    using that
  proof (induction ds)
    case (Cons d ds)
    have "length (List.map_filter ?f ds) \<le> length ds" by (induction ds) (auto simp: map_filter_simps split: option.splits)
    then show ?case using Cons by (cases "?f d") (auto simp: map_filter_simps)
  qed (simp add: map_filter_simps)
  note ends = all[OF full]
  have "distinct ?ends" using card by (rule card_distinct)
  then have "distinct (map Some ?ends)" by (simp add: distinct_map)
  then have "distinct (map ?f manifest)" unfolding ends .
  moreover have "\<exists>ds e. d = Onchain ds \<and> ch_end_block C ds = Some e \<and> e \<le> m" if "d \<in> set manifest" for d
  proof -
    have "?f d \<in> set (map Some ?ends)" unfolding ends using that by simp
    then obtain e where e: "?f d = Some e" "e \<in> set ?ends" by auto
    then have "e \<in> set (sorted_list_of_set (set ?ends))" by simp
    have "e \<le> last (sorted_list_of_set (set ?ends))"
    proof (rule sorted_last_ge[of "\<lambda>x. x"])
      show "sorted (map (\<lambda>x. x) (sorted_list_of_set (set ?ends)))" by simp
      show "sorted_list_of_set (set ?ends) \<noteq> []" using \<open>e \<in> set (sorted_list_of_set (set ?ends))\<close> by auto
      show "e \<in> set (sorted_list_of_set (set ?ends))" by fact
    qed (rule order_refl)
    then have "e \<le> m" unfolding m .
    then show ?thesis using e(1) by (cases d) auto
  qed
  ultimately show ?thesis using dyn by blast
qed

theorem max_end_block_is_sound_witness:
  "max_end_block toy_chain [Onchain 0] [] = Some 5 \<and> max_end_block toy_chain [Onchain 0, Onchain 0] [] = None
    \<and> (\<exists>ds e. Onchain 0 = Onchain ds \<and> ch_end_block toy_chain ds = Some e \<and> e \<le> 5)"
  using max_end_block_is_sound[OF toy_end_block(2)]
  by (simp add: toy_end_block(2)) (simp add: max_end_block_def manifest_end_blocks_def toy_chain_def map_filter_simps)

text \<open>The handler of data source 2 changes nothing, so that its block stores the proof of indexing alone.\<close>

lemma toy_returns:
  assumes "idle s"
  shows "rh_process_mapping_trigger toy_wasm toy_config (toy_host 2) (toy_trigger 2) s poi = Inr (s, poi)"
  using assms by (simp add: handler_simps toy_defs idle_def)

lemma toy_read_store: "with_read_store (memory_store []) toy_wasm = toy_wasm"
  by (simp add: with_read_store_def toy_wasm_def toy_exports_def memory_env_def)

lemma toy_poi_entity: "\<exists>e. entity_make account_pool [(ID, VString region), (POI_DIGEST, VBytes digest)] = Inr e
    \<and> entity_ok account_pool e \<and> obj_get e VID_FIELD = None"
proof -
  let ?kvs = "[(ID, VString region), (POI_DIGEST, VBytes digest)]"
  have "entity_ok account_pool (obj_new account_pool)"
    using account_pool_ok by (simp add: entity_ok_def obj_new_ok) (simp add: obj_new_def)
  from merge_iter_spec[OF this, of ?kvs] obtain e where e: "merge_iter ?kvs (obj_new account_pool) = Inr e" "entity_ok account_pool e"
    "obj_get e = map_of (rev ?kvs)"
    by (auto simp: obj_new_get account_words ID_def POI_DIGEST_def split: sum.splits intern_error.splits)
  then have "check_id e = Inr ()" by (simp add: check_id_def entity_get_def ID_def VID_FIELD_def POI_DIGEST_def map_add_def)
  with e show ?thesis by (simp add: entity_make_def ID_def VID_FIELD_def POI_DIGEST_def)
qed

lemma toy_modifications:
  assumes "pi_per_causality_region p = [(region, stream)]"
  obtains m where "block_modifications toy_inputs toy_wasm (ptr, time) (block_state_new cap (lfu_new list_queue False)) (Some p) = Some (Inr m)"
proof -
  let ?env = "memory_env (\<lambda>_. None) 1000 []"
  let ?c = "with_current (lfu_new list_queue False) :: (entity_key, entity option) list_queue entity_cache"
  have E: "xe_cache (we_exports toy_wasm) = ?env" "xe_pool (we_exports toy_wasm) = account_pool" "\<not> ri_has_aggregations toy_inputs"
    by (simp_all add: toy_wasm_def toy_exports_def toy_inputs_def)
  have reads: "store_reads account_pool ?env (\<lambda>_. None)"
    using memory_store_reads[of account_pool "[]"] by (simp add: stored_def store_view_of_def)
  have ok: "cache_ok account_pool ?env (\<lambda>_. None) ?c"
    by (rule with_current_ok) (use new_cache_ok[of ?env account_pool] in \<open>simp add: list_queue_laws\<close>)
  have view: "cache_view (\<lambda>_. None) ?c = (\<lambda>_. None)" "\<not> ec_in_handler ?c" by (simp_all add: with_current_def cache_view_def)
  obtain e c1 where c1: "cache_get ?env (poi_key region) StoreScope ?c = Some (Inr e, c1)"
    "answers account_pool (cache_view (\<lambda>_. None) ?c (poi_key region)) e" "cache_ok account_pool ?env (\<lambda>_. None) c1"
    by (rule cache_get_spec[OF memory_env_ok(1) reads ok, of "poi_key region"]) (rule that)
  then have e: "e = None" using view(1) by (simp add: answers_def)
  let ?d = "stream_pause (xe_hash (we_exports toy_wasm)) None stream"
  obtain poi where poi: "entity_make account_pool [(ID, VString region), (POI_DIGEST, VBytes ?d)] = Inr poi"
    "entity_ok account_pool poi" "obj_get poi VID_FIELD = None" using toy_poi_entity by metis
  have cap: "check_capacity ?env (poi_key region) poi None c1 = Inr None" by (simp add: check_capacity_def)
  have vid: "VID_FIELD \<in> words_of account_pool" by (simp add: account_words VID_FIELD_def)
  have "validate (ce_object_type ?env) (poi_key region) poi = Inr ()" by (simp add: validate_def poi_key_def)
  then obtain c2 where c2: "cache_set ?env (poi_key region) poi (number ptr) None c1 = Some (Inr (), None, c2)"
    "cache_ok account_pool ?env (\<lambda>_. None) c2"
    using cache_set_spec[OF memory_env_ok(1) reads c1(3) poi(2) vid poi(3) cap, of "number ptr"] by auto
  have "\<not> ec_in_handler c2"
    using cache_get_frame[OF c1(1), of "we_exports toy_wasm"] cache_set_frame[OF c2(1), of "we_exports toy_wasm"] poi(2) view(2)
    by (simp add: cache_frame_def E)
  then obtain m where "as_modifications ?env (number ptr) c2 = Some (Inr m)"
    using as_modifications_spec[OF memory_env_ok(1) reads c2(2) memory_well_behaved] by blast
  then show thesis using that[of m] assms c1(1) c2(1) poi(1)
    by (simp add: block_modifications_def E block_state_new_def e store_poi_entity_def)
qed

definition toy_transaction :: "block_number \<Rightarrow> entity entity_modification list \<Rightarrow> transaction" where
  "toy_transaction n mods = \<lparr>ta_ptr = \<lparr>hash = ''b'', number = n\<rparr>, ta_time = 0, ta_cursor = ''cursor'', ta_mods = mods,
     ta_data_sources = [], ta_errors = [], ta_processed = [], ta_non_fatal_errors = False, ta_caught_up = False\<rparr>"

lemma toy_finish:
  assumes "block_modifications toy_inputs toy_wasm (\<lparr>hash = ''b'', number = n\<rparr>, 0) (block_state_new cap c) poi = Some (Inr m)"
  shows "finish_block toy_inputs toy_wasm toy_config (\<lparr>hash = ''b'', number = n\<rparr>, 0) ''cursor'' False restart
      (block_state_new cap c) poi (toy_runner ns k) =
    Some (Inr (if restart then Restart else Continue),
      (toy_runner ns k)\<lparr>sr_store := (Some \<lparr>hash = ''b'', number = n\<rparr>, [toy_transaction n (mc_modifications m)]),
        sr_entity_lfu_cache := mc_entity_lfu_cache m\<rparr>)"
proof -
  have empty: "lfu_is_empty (ce_queue (xe_cache (we_exports toy_wasm))) (lfu_new list_queue False)"
    by (simp add: lfu_is_empty_def lfu_len_def lfu_new_def toy_wasm_def toy_exports_def list_queue_def entries_def)
  have monitor: "ready_offchain_events toy_monitor = (Inr [], toy_monitor)"
    by (simp add: ready_offchain_events_def toy_monitor_def)
  have transact: "transact_block toy_inputs (\<lparr>hash = ''b'', number = n\<rparr>, 0) ''cursor'' restart
      (block_state_new cap c) (mods, [], []) ((toy_runner ns k)\<lparr>sr_entity_lfu_cache := l\<rparr>) =
    Some (Inr (if restart then Restart else Continue),
     (toy_runner ns k)\<lparr>sr_store := (Some \<lparr>hash = ''b'', number = n\<rparr>, [toy_transaction n mods]), sr_entity_lfu_cache := l\<rparr>)" for mods l
    by (simp add: transact_block_def has_errors_def block_state_new_def is_caught_up_def toy_inputs_def toy_store_def
      toy_runner_def toy_transaction_def close_to_chain_head_def flush_metrics_to_store_def Let_def)
  have self: "(toy_runner ns k)\<lparr>sr_ctx := (sr_ctx (toy_runner ns k))\<lparr>ic_offchain_monitor := toy_monitor\<rparr>\<rparr> = toy_runner ns k"
    "ic_offchain_monitor (sr_ctx (toy_runner ns k)) = toy_monitor"
    "sr_entity_lfu_cache (toy_runner ns k) = lfu_new list_queue False"
    "ws_read (ri_store toy_inputs) (sr_store (toy_runner ns k)) = memory_store []"
    by (simp_all add: toy_runner_def toy_inputs_def toy_store_def)
  show ?thesis by (simp add: finish_block_def self toy_read_store assms monitor empty transact)
qed

text \<open>The trigger of data source 2 runs its handler in block 4.\<close>

lemma toy_block_runs:
  assumes "idle st"
  shows "run_block_triggers toy_inputs toy_wasm toy_config (\<lparr>hash = ''b'', number = 4\<rparr>, 0) (hosts_for_trigger toy_chain (toy_instance [2]))
      [OnchainTrigger 2] st (Some p) ((toy_runner [2] k)\<lparr>sr_entity_lfu_cache := l\<rparr>) =
    Some (Inr (st, Some (poi_start_handler toy_hash ''ethereum/main'' p)), (toy_runner [2] k)\<lparr>sr_entity_lfu_cache := l\<rparr>)"
proof -
  let ?self = "(toy_runner [2] k)\<lparr>sr_entity_lfu_cache := l\<rparr>"
  have hosts: "hosts_for_trigger toy_chain (toy_instance [2]) (OnchainTrigger 2 :: (nat, unit) trigger_data) = Some [toy_host 2]"
    by (simp add: hosts_for_trigger_def toy_instance_def si_new_def oh_new_def oh_push_def oh_matches_by_address_def toy_chain_def
      rh_address_def toy_host_def or_empty_def vec_get_def)
  have decoded: "match_and_decode_many toy_chain (ri_after_decode toy_inputs) [] \<lparr>hash = ''b'', number = 4\<rparr> 0
      (hosts_for_trigger toy_chain (toy_instance [2])) [OnchainTrigger 2] =
    Some (Inr [\<lparr>rt_trigger = OnchainTrigger 2, rt_hosted_triggers = [(toy_host 2, toy_trigger 2)]\<rparr>])"
    by (simp add: match_and_decode_many_def hosts match_and_decode_def toy_inputs_def toy_trigger_def)
      (simp add: toy_host_def toy_chain_def has_expired_def)
  have self: "ws_read (ri_store toy_inputs) (sr_store (toy_runner [2] k)) = memory_store []" "sr_cells (toy_runner [2] k) = []" "ri_chain toy_inputs = toy_chain"
    "ri_network toy_inputs = ''main''" "xe_hash (we_exports toy_wasm) = toy_hash" "?self\<lparr>sr_cells := []\<rparr> = ?self"
    by (simp_all add: toy_runner_def toy_inputs_def toy_store_def toy_wasm_def toy_exports_def)
  show ?thesis
    by (simp add: run_block_triggers_def self decoded toy_read_store process_trigger_def toy_returns[OF assms] toy_onchain start_handler_def
      poi_region_from_network_def)
qed

lemma toy_poi: "\<exists>stream. pi_per_causality_region (poi_start_handler toy_hash region (poi_new n v)) = [(region, stream)]"
  by (simp add: poi_start_handler_def poi_new_def with_causality_region_def)

lemma toy_block_transaction:
  "\<exists>m l. process_block toy_inputs toy_wasm toy_config False (toy_block 4 [2]) ''cursor'' (toy_runner [2] 3) =
    Some (Some (Inr Continue, (toy_runner [2] 3)\<lparr>sr_store := (Some \<lparr>hash = ''b'', number = 4\<rparr>, [toy_transaction 4 m]),
      sr_entity_lfu_cache := l\<rparr>))"
proof -
  let ?block = "(\<lparr>hash = ''b'', number = 4\<rparr>, 0)"
  let ?self = "(toy_runner [2] 3)\<lparr>sr_entity_lfu_cache := lfu_new list_queue False\<rparr>"
  have self: "?self = toy_runner [2] 3" by (simp add: toy_runner_def)
  have I: "ce_queue (xe_cache (we_exports toy_wasm)) = list_queue" "ri_end_blocks toy_inputs = [5]"
    "ic_instance (sr_ctx (toy_runner [2] 3)) = toy_instance [2]" "ri_chain toy_inputs = toy_chain"
    "sr_entity_lfu_cache (toy_runner [2] 3) = lfu_new list_queue False"
    by (simp_all add: toy_wasm_def toy_exports_def toy_inputs_def toy_end_block toy_runner_def)
  let ?st = "block_state_new (ri_write_capacity toy_inputs) (lfu_new list_queue False)"
  let ?p = "poi_start_handler toy_hash ''ethereum/main'' (poi_new 4 (ri_poi_version toy_inputs))"
  obtain stream where "pi_per_causality_region ?p = [(''ethereum/main'', stream)]" using toy_poi by blast
  from toy_modifications[OF this] obtain m where m: "block_modifications toy_inputs toy_wasm ?block ?st (Some ?p) = Some (Inr m)" by metis
  have st: "has_created_data_sources (block_state_new cap c) = Some False"
    "has_created_on_chain_data_sources (block_state_new cap c) = Some False" for cap c
    by (simp_all add: has_created_data_sources_def has_created_on_chain_data_sources_def block_state_new_def)
  have fuel: "created_fuel toy_inputs = Suc (Suc (Suc (Suc (Suc 0))))" by (simp add: created_fuel_def toy_inputs_def)
  have loop: "created_loop (created_fuel toy_inputs) toy_inputs toy_wasm toy_config block (block_state_new cap c) poi self =
      Some (Some (Inr (block_state_new cap c, poi), self))" for block cap c poi self
    unfolding fuel by (simp add: st)
  have run: "run_block_triggers toy_inputs toy_wasm toy_config ?block (hosts_for_trigger toy_chain (toy_instance [2]))
      [OnchainTrigger 2] ?st (Some (poi_new 4 (ri_poi_version toy_inputs))) (toy_runner [2] 3) =
    Some (Inr (?st, Some ?p), toy_runner [2] 3)"
    using toy_block_runs[OF block_state_new_idle, where k = 3 and l = "lfu_new list_queue False"] unfolding self .
  have "process_block toy_inputs toy_wasm toy_config False (toy_block 4 [2]) ''cursor'' (toy_runner [2] 3) =
    Some (Some (Inr Continue, (toy_runner [2] 3)\<lparr>sr_store := (Some \<lparr>hash = ''b'', number = 4\<rparr>, [toy_transaction 4 (mc_modifications m)]),
      sr_entity_lfu_cache := mc_entity_lfu_cache m\<rparr>))"
    by (simp add: process_block_def Let_def toy_block_def I self run st loop toy_finish[OF m])
  then show ?thesis by blast
qed

text \<open>
  C3: A block is one transaction or none. If \<open>process_block\<close> goes on, the store has committed exactly one
  transaction with the pointer, time and cursor of the block and nothing else has changed it. A deterministic error is only reported
  after a transaction whose only modification is the proof of indexing. Two things come after the transaction when it is
  committed and the error is not fatal: flushing the metrics, whose error leaves the transaction in place, and then, with non-fatal errors
  and an unsynced subgraph, the unassignment of the subgraph in the store, which cancels the runner. A failing transaction leaves the store as it says; every other
  error, a cancellation and a restart without a transaction leave the store as it was.
\<close>

theorem block_is_one_transaction:
  assumes "process_block I W H canceled b cursor self = Some (Some (r, self'))"
  shows "(\<exists>ta u st1. ta_ptr ta = rb_ptr b \<and> ta_time ta = rb_time b \<and> ta_cursor ta = cursor
      \<and> (ta_errors ta \<noteq> [] \<and> \<not> ri_non_fatal_errors I \<longrightarrow> (\<exists>m. ta_mods ta = [m] \<and> is_poi_entity m))
      \<and> ws_transact (ri_store I) ta (sr_store self) = (u, st1) \<and>
       (case u of
          Inl e \<Rightarrow> (\<exists>m. r = Inl (BlockUnknown m)) \<and> sr_store self' = st1
        | Inr _ \<Rightarrow>
            if ta_errors ta \<noteq> [] \<and> \<not> ri_non_fatal_errors I
            then r = Inl (BlockDeterministic (hd (ta_errors ta))) \<and> sr_store self' = st1
            else if flush_metrics_to_store I \<noteq> Inr () then (\<exists>m. r = Inl (BlockUnknown m)) \<and> sr_store self' = st1
            else if ta_errors ta \<noteq> [] \<and> \<not> ri_disable_fail_fast I \<and> \<not> ws_is_synced (ri_store I) st1
            then (r = Inl BlockCanceled \<or> (\<exists>m. r = Inl (BlockUnknown m))) \<and> sr_store self' = snd (ws_unassign (ri_store I) st1)
            else (r = Inr Continue \<or> r = Inr Restart) \<and> sr_store self' = st1))
    \<or> sr_store self' = sr_store self \<and> (r = Inr Restart \<or> (\<exists>e. r = Inl e \<and> \<not> block_error_is_deterministic e))"
  using process_block_outcome[OF assms]
proof
  assume "store_outcome I (rb_ptr b, rb_time b) cursor r (sr_store self) (sr_store self')"
  then show ?thesis unfolding store_outcome_def block_transaction_def fst_conv snd_conv by blast
next
  assume "no_change r (sr_store self) (sr_store self')"
  then show ?thesis by (auto simp: no_change_def split: sum.splits)
qed

theorem block_is_one_transaction_witness:
  "\<exists>self' ta. process_block toy_inputs toy_wasm toy_config False (toy_block 4 [2]) ''cursor'' (toy_runner [2] 3) = Some (Some (Inr Continue, self'))
    \<and> ta_ptr ta = \<lparr>hash = ''b'', number = 4\<rparr> \<and> ta_cursor ta = ''cursor'' \<and> ta_errors ta = []
    \<and> sr_store self' = (Some \<lparr>hash = ''b'', number = 4\<rparr>, [ta])"
proof -
  obtain m l where b: "process_block toy_inputs toy_wasm toy_config False (toy_block 4 [2]) ''cursor'' (toy_runner [2] 3) =
    Some (Some (Inr Continue, (toy_runner [2] 3)\<lparr>sr_store := (Some \<lparr>hash = ''b'', number = 4\<rparr>, [toy_transaction 4 m]),
      sr_entity_lfu_cache := l\<rparr>))" using toy_block_transaction by blast
  show ?thesis using block_is_one_transaction[OF b] b
    by (fastforce simp: toy_block_def toy_inputs_def toy_store_def toy_runner_def toy_transaction_def flush_metrics_to_store_def split: if_splits)
qed

text \<open>Without an end block between the pointers, what is active after the revert was active before it.\<close>

lemma filter_unchanged:
  assumes "\<not> needs_restart I revert_to ptr" and "number revert_to < number ptr"
    and "\<forall>e. ch_end_block C ds = Some e \<longrightarrow> e \<in> set (ri_end_blocks I)"
  shows "end_block_filter C (Some revert_to) ds = end_block_filter C (Some ptr) ds"
  using assms by (fastforce simp: end_block_filter_def needs_restart_def list_ex_iff split: option.splits)

text \<open>
  C19: A revert that the store accepts leaves the runner with an empty entity cache, the new state of the store and exactly the
  hosts of the chain that were created at or before the block; the hosts of subgraphs stay and all of them are well-formed. The filter of the block
  stream is not touched, it goes on to have the data sources that were reverted. It is still enough: if the block stream is not restarted, a filter
  that covered the one that would be built before the revert covers the one that would be built after it, as
  long as the store then stands at the block, the end blocks of the data sources are known and the filter was not made static by the number of hosts.
\<close>

theorem revert_restores_runner:
  assumes "instance_ok (ri_chain I) off (ic_instance (sr_ctx self))" and "own_cells (sr_cells self) off"
    and "ws_block_ptr (ri_store I) (sr_store self) = Some ptr" and "number revert_to < number ptr"
    and "ws_revert (ri_store I) revert_to cursor (sr_store self) = (Inr (), st')"
  defines "kept \<equiv> \<lambda>h. rh_creation_block (ri_chain I) h < Some (number revert_to + 1)"
  shows "\<exists>act self'. handle_revert I Q revert_to cursor self = Some (Inr act, self')
    \<and> sr_store self' = st' \<and> sr_entity_lfu_cache self' = lfu_new Q (ri_dead_weight I)
    \<and> instance_ok (ri_chain I) (filter kept off) (ic_instance (sr_ctx self'))
    \<and> on_hosts (ic_instance (sr_ctx self')) = filter kept (on_hosts (ic_instance (sr_ctx self)))
    \<and> sub_hosts (ic_instance (sr_ctx self')) = sub_hosts (ic_instance (sr_ctx self))
    \<and> sr_filter self' = sr_filter self
    \<and> (act = Restart \<or> act = Continue \<and> (\<forall>f g. sr_filter self = Some f \<and> build_filter I self = Some g \<and> covers f g
         \<and> filter_kind_settled I self \<and> ends_known I (ic_instance (sr_ctx self))
         \<and> ws_block_ptr (ri_store I) st' = Some revert_to
         \<longrightarrow> (\<exists>g'. build_filter I self' = Some g' \<and> covers f g')))"
proof -
  from revert_data_sources_spec[OF assms(1,2), of "number revert_to + 1"]
  obtain sources cells' inst' where r:
    "si_revert_data_sources (ri_chain I) (number revert_to + 1) (sr_cells self) (ic_instance (sr_ctx self)) = Some (sources, cells', inst')"
    "instance_ok (ri_chain I) (filter kept off) inst'" "on_hosts inst' = filter kept (on_hosts (ic_instance (sr_ctx self)))"
    "sub_hosts inst' = sub_hosts (ic_instance (sr_ctx self))" unfolding kept_def by blast
  let ?ctx = "\<lparr>ic_instance = inst', ic_offchain_monitor = fold add_source sources (ic_offchain_monitor (sr_ctx self))\<rparr>"
  let ?self = "self\<lparr>sr_store := st', sr_entity_lfu_cache := lfu_new Q (ri_dead_weight I), sr_cells := cells', sr_ctx := ?ctx\<rparr>"
  have revert: "handle_revert I Q revert_to cursor self =
      Some (Inr (if needs_restart I revert_to ptr then Restart else Continue), ?self)"
    using assms(3,4,5) r(1) by (simp add: handle_revert_def revert_state_to_def ic_revert_data_sources_def)
  have "\<exists>g'. build_filter I ?self = Some g' \<and> covers f g'"
    if f: "build_filter I self = Some g" "covers f g" and settled: "filter_kind_settled I self"
      and ends: "ends_known I (ic_instance (sr_ctx self))" and ptr: "ws_block_ptr (ri_store I) st' = Some revert_to"
      and stay: "\<not> needs_restart I revert_to ptr" for f g
  proof -
    have len: "si_hosts_len inst' \<le> si_hosts_len (ic_instance (sr_ctx self))"
      unfolding hosts_len_ok[OF r(2)] hosts_len_ok[OF assms(1)] r(3) by (intro add_mono length_filter_le)
    have active: "\<forall>ds \<in> set (chain_sources (ic_instance (sr_ctx self))). end_block_filter (ri_chain I) (Some revert_to) ds
        \<longrightarrow> end_block_filter (ri_chain I) (Some ptr) ds"
      using filter_unchanged[OF stay assms(4), of "ri_chain I"] ends unfolding ends_known_def by blast
    have "\<exists>g'. build_filter I ?self = Some g' \<and> covers g g'"
      by (rule build_filter_shrinks[OF assms(1) _ _ _ _ _ settled f(1)])
        (use r(2,3) reverted_static_sources[OF r(1)] len active assms(3) ptr in auto)
    then show ?thesis using covers_trans[OF f(2)] by blast
  qed
  with revert r(2-4) show ?thesis
    by (intro exI[of _ "if needs_restart I revert_to ptr then Restart else Continue"] exI[of _ ?self]) (simp, blast)
qed

text \<open>An instance with one host for a data source of the chain is well-formed.\<close>

lemma one_host_ok:
  assumes "as_onchain (rh_data_source h) \<noteq> None"
  shows "instance_ok C [] ((si_new [] 0)\<lparr>si_onchain_hosts := oh_push (rh_address C) h oh_new\<rparr>)"
proof -
  have ok: "instance_ok C [] (si_new [] 0 :: ('a, 'b) subgraph_instance)" for C :: "('a, 'c, 'd, 'e) chain"
    by (rule instance_ok_new)
  then have new: "on_ok C (si_onchain_hosts (si_new [] 0) :: ('a, 'b) host onchain_hosts)"
    "sub_ok C (si_subgraph_hosts (si_new [] 0) :: ('a, 'b) host onchain_hosts)"
    "off_ok C 0 0 ([] :: ('a, 'b) host list) (si_offchain_hosts (si_new [] 0))" for C :: "('a, 'c, 'd, 'e) chain"
    using ok[of C] by (simp_all add: instance_ok_def si_new_def)
  have "on_ok C (oh_push (rh_address C) h (si_onchain_hosts (si_new [] 0)))"
    by (rule on_ok_push[OF new(1) assms]) (simp_all add: oh_last_def si_new_def)
  then show ?thesis using new(2,3) by (simp add: instance_ok_def si_new_def)
qed

lemma toy_instance_ok: "instance_ok toy_chain [] (toy_instance [0])"
  unfolding toy_instance_def by (simp add: one_host_ok toy_host_def)

definition toy_filter :: "(nat, nat) trigger_filter" where
  "toy_filter = \<lparr>tf_data_sources = [0], tf_templates = [], tf_subgraphs = []\<rparr>"

theorem revert_restores_runner_witness:
  "\<exists>self' g'. handle_revert toy_inputs list_queue \<lparr>hash = ''a'', number = 3\<rparr> ''cursor'' ((toy_runner [0] 4)\<lparr>sr_filter := Some toy_filter\<rparr>) =
      Some (Inr Continue, self')
    \<and> sr_store self' = (Some \<lparr>hash = ''a'', number = 3\<rparr>, []) \<and> on_hosts (ic_instance (sr_ctx self')) = [toy_host 0]
    \<and> sr_filter self' = Some toy_filter \<and> build_filter toy_inputs self' = Some g' \<and> covers toy_filter g'"
proof -
  let ?self = "(toy_runner [0] 4)\<lparr>sr_filter := Some toy_filter\<rparr>"
  have go: "handle_revert toy_inputs list_queue \<lparr>hash = ''a'', number = 3\<rparr> ''cursor'' ?self = Some (Inr Restart, s) \<Longrightarrow> False" for s
    by (auto simp: handle_revert_def toy_runner_def toy_inputs_def toy_store_def needs_restart_def toy_end_block)
  have hosts: "on_hosts (toy_instance [0]) = [toy_host 0]" "si_static_data_sources (toy_instance [0]) = []"
    by (simp_all add: on_hosts_def toy_instance_def oh_push_def oh_new_def toy_host_def si_new_def Let_def split: option.split)
  have kept: "rh_creation_block toy_chain (toy_host 0) < Some 4"
    by (simp add: rh_creation_block_def toy_host_def toy_chain_def)
  have runner: "ri_chain toy_inputs = toy_chain" "ic_instance (sr_ctx (toy_runner [0] 4)) = toy_instance [0]"
    "ws_block_ptr (ri_store toy_inputs) = fst" "sr_store (toy_runner [0] 4) = (Some \<lparr>hash = ''a'', number = 4\<rparr>, [])"
    by (simp_all add: toy_inputs_def toy_runner_def toy_store_def)
  have source: "as_onchain (rh_data_source (toy_host 0)) = Some 0" "ch_end_block toy_chain 0 = Some 5"
    by (simp_all add: toy_host_def toy_chain_def)
  have static: "\<not> is_static_filters_enabled toy_inputs ?self"
    using hosts_len_ok[OF toy_instance_ok] hosts(1)
    by (simp add: is_static_filters_enabled_def runner) (simp add: toy_inputs_def)
  then have "filter_kind_settled toy_inputs ?self" by (simp add: filter_kind_settled_def)
  moreover have "build_filter toy_inputs ?self = Some toy_filter"
    using static onchain_data_sources_ok[OF toy_instance_ok]
    by (simp add: build_filter_def runner Let_def toy_filter_def end_block_filter_def map_filter_simps hosts source)
  moreover have "ends_known toy_inputs (toy_instance [0])"
    by (simp add: ends_known_def chain_sources_def hosts map_filter_simps runner source) (simp add: toy_inputs_def toy_end_block)
  ultimately show ?thesis
    using revert_restores_runner[of toy_inputs "[]" ?self "\<lparr>hash = ''a'', number = 4\<rparr>" "\<lparr>hash = ''a'', number = 3\<rparr>"
        "''cursor''" "(Some \<lparr>hash = ''a'', number = 3\<rparr>, [])" list_queue] toy_instance_ok go hosts kept
    by (auto simp: own_cells_def runner covers_def) (auto simp: toy_inputs_def toy_store_def)
qed

section \<open>Hosts and data sources of Ethereum\<close>

text \<open>Decoding only depends on the hosts that decode the trigger.\<close>

lemma decode_inner_filter:
  "match_and_decode_inner C cells ptr time t hs = match_and_decode_inner C cells ptr time t (filter (decodes C cells ptr time t) hs)"
proof (induction hs)
  case (Cons h hs)
  show ?case
  proof (cases "decodes C cells ptr time t h")
    case False
    then have "ds_match_and_decode C cells ptr time (rh_data_source h) t = Inr None"
      by (auto simp: decodes_def split: sum.splits option.splits)
    then show ?thesis using Cons False
      by (cases "match_and_decode_inner C cells ptr time t (filter (decodes C cells ptr time t) hs)") simp_all
  qed (simp add: Cons)
qed simp

text \<open>
  C20: The hosts that the indexes return for a trigger are enough: with well-formed hosts the lookup never panics, and
  matching and decoding the trigger gives the same hosted triggers, in the same order, as with all hosts of its kind.
\<close>

theorem host_index_loses_no_trigger:
  assumes "instance_ok (eth_chain E) off inst"
  shows "\<exists>hs. hosts_for_trigger (eth_chain E) inst t = Some hs
    \<and> match_and_decode (eth_chain E) cells ptr time t hs = match_and_decode (eth_chain E) cells ptr time t (trigger_hosts off inst t)"
proof -
  obtain hs where hs: "hosts_for_trigger (eth_chain E) inst t = Some hs"
    "filter (decodes (eth_chain E) cells ptr time t) hs = filter (decodes (eth_chain E) cells ptr time t) (trigger_hosts off inst t)"
    by (rule eth.hosts_for_trigger_spec[OF assms, of t cells ptr time]) (rule that)
  have "match_and_decode_inner (eth_chain E) cells ptr time t hs =
      match_and_decode_inner (eth_chain E) cells ptr time t (trigger_hosts off inst t)"
    unfolding decode_inner_filter[of _ _ _ _ _ hs] decode_inner_filter[of _ _ _ _ _ "trigger_hosts off inst t"] hs(2) ..
  then show ?thesis using hs(1) by (simp add: match_and_decode_def)
qed

text \<open>A data source with a block handler, and its host.\<close>

text \<open>Conversions that put a quote before the context and take it away.\<close>

definition quoting_serde :: context_serde where
  "quoting_serde = \<lparr>cs_to_value = (\<lambda>s. Some (CHR 0x22 # s)), cs_from_value = (\<lambda>s. case s of [] \<Rightarrow> None | c # s \<Rightarrow> if c = CHR 0x22 then Some s else None)\<rparr>"

lemma quoting_serde_laws: "serde_laws quoting_serde"
  by (simp add: serde_laws_def quoting_serde_def)

definition toy_eth :: "unit eth_env" where
  "toy_eth = \<lparr>ee_keccak = (\<lambda>bs. bs), ee_parse_address = (\<lambda>s. if s = ''01'' then Some 1 else None), ee_parse_log = (\<lambda>e ts d. None),
     ee_decode_input = (\<lambda>f d. None), ee_decode_output = (\<lambda>f d. None), ee_block_hash = (\<lambda>ptr. 0), ee_transactions = (\<lambda>ptr. []), ee_serde = quoting_serde\<rparr>"

definition toy_template :: eth_template where
  "toy_template = \<lparr>et_kind = ''ethereum/contract'', et_network = Some ''main'', et_name = ''Pair'', et_manifest_idx = 1,
     et_source_abi = ''Pair'',
     et_mapping = \<lparr>m_block_handlers = [\<lparr>bh_handler = ''handleBlock'', bh_filter = None\<rparr>], m_call_handlers = [], m_event_handlers = []\<rparr>,
     et_abis = [\<lparr>ab_name = ''Pair'', ab_events = [], ab_functions = []\<rparr>], et_runtime = [0]\<rparr>"

definition toy_eth_source :: eth_data_source where
  "toy_eth_source = \<lparr>ds_address = Some 1, ds_start_block = 4, ds_mapping = et_mapping toy_template, ed_kind = ''ethereum/contract'',
     ed_network = Some ''main'', ed_name = ''Pair'', ed_manifest_idx = 1, ed_end_block = None, ed_abis = et_abis toy_template,
     ed_runtime = [0], ed_context = None, ed_creation_block = Some 4, ed_contract_abi = hd (et_abis toy_template)\<rparr>"

definition toy_eth_instance :: "(eth_data_source, nat) subgraph_instance" where
  "toy_eth_instance = (si_new [] 0)\<lparr>si_onchain_hosts := oh_push (rh_address (eth_chain toy_eth))
     \<lparr>rh_ptr = 0, rh_data_source = Onchain toy_eth_source, rh_sender = 0\<rparr> oh_new\<rparr>"

definition toy_block_trigger :: "(eth_trigger, unit) trigger_data" where
  "toy_block_trigger = OnchainTrigger (BlockTrigger \<lparr>hash = ''b'', number = 5\<rparr> EndTrigger)"

lemma toy_eth_instance_ok: "instance_ok (eth_chain toy_eth) [] toy_eth_instance"
  unfolding toy_eth_instance_def by (simp add: one_host_ok)

theorem host_index_loses_no_trigger_witness:
  "\<exists>hs. hosts_for_trigger (eth_chain toy_eth) toy_eth_instance toy_block_trigger = Some hs
    \<and> match_and_decode (eth_chain toy_eth) [] \<lparr>hash = ''b'', number = 5\<rparr> 0 toy_block_trigger hs =
      match_and_decode (eth_chain toy_eth) [] \<lparr>hash = ''b'', number = 5\<rparr> 0 toy_block_trigger
        (trigger_hosts [] toy_eth_instance toy_block_trigger)"
  by (rule host_index_loses_no_trigger[OF toy_eth_instance_ok])

text \<open>
  C21: Adding a dynamic data source to well-formed hosts never panics and keeps them well-formed. The host is appended to the
  hosts of its kind only if there is room under the limit on data sources and no host of that kind has the same data source; in every
  other case no host changes.
\<close>

theorem add_dynamic_keeps_hosts:
  assumes "instance_ok (eth_chain E) off inst"
    and "as_offchain ds \<noteq> None \<Longrightarrow> own_region (si_causality_region_seq inst) ds"
  shows "\<exists>r off' inst'. si_add_dynamic_data_source (eth_chain E) env ds inst = Some (r, inst') \<and> instance_ok (eth_chain E) off' inst'
    \<and> (case r of
         Inr (Some host) \<Rightarrow> rh_data_source host = ds \<and> length (on_hosts inst) + length off < ie_max_data_sources env
           \<and> \<not> (\<exists>h \<in> set (kind_hosts ds off inst). rh_eq (eth_chain E) h host) \<and> appended host off inst off' inst'
       | _ \<Rightarrow> off' = off \<and> on_hosts inst' = on_hosts inst \<and> sub_hosts inst' = sub_hosts inst)"
  by (rule eth.add_dynamic_data_source_spec[OF assms, where env = env]) blast+

theorem add_dynamic_keeps_hosts_witness:
  "\<exists>r inst'. si_add_dynamic_data_source (eth_chain toy_eth)
      \<lparr>ie_max_data_sources = 10, ie_module_hash = (\<lambda>bs. bs), ie_spawn_mapping = (\<lambda>bs. Inr (3 :: nat))\<rparr>
      (Onchain toy_eth_source) toy_eth_instance = Some (r, inst')
    \<and> (\<exists>off'. instance_ok (eth_chain toy_eth) off' inst')"
  using add_dynamic_keeps_hosts[OF toy_eth_instance_ok, of "Onchain toy_eth_source"
      "\<lparr>ie_max_data_sources = 10, ie_module_hash = (\<lambda>bs. bs), ie_spawn_mapping = (\<lambda>bs. Inr (3 :: nat))\<rparr>"]
  by auto

text \<open>
  C23: A data source that a handler created from a template is the same after the conversion to its stored form and back:
  the bytes of the address are those that the address is read from, the start block is the creation block, and there is no end block. The
  context goes through JSON, whose conversion is a parameter: where it has a value for the context, it reads that value back.
\<close>

theorem stored_data_source_round_trip:
  assumes "eth_from_template_info E info (OnchainTemplate t) = Inr ds"
    and "serde_laws (ee_serde E)" and "eth_as_stored (ee_serde E) ds = Some sds"
  shows "eth_from_stored (ee_serde E) t sds = Some (Inr ds)"
  using assms by (rule eth_stored_round_trip)

theorem stored_data_source_round_trip_witness:
  "\<exists>sds. eth_as_stored quoting_serde (toy_eth_source\<lparr>ed_context := Some ''{}''\<rparr>) = Some sds
    \<and> sd_context sds = Some (CHR 0x22 # ''{}'')
    \<and> eth_from_stored quoting_serde toy_template sds = Some (Inr (toy_eth_source\<lparr>ed_context := Some ''{}''\<rparr>))"
proof -
  let ?info = "\<lparr>di_template = OnchainTemplate toy_template, di_params = [''0x01''], di_context = Some ''{}'', di_creation_block = 4\<rparr>"
  have ds: "eth_from_template_info toy_eth ?info (OnchainTemplate toy_template) = Inr (toy_eth_source\<lparr>ed_context := Some ''{}''\<rparr>)"
    by (simp add: eth_from_template_info_def toy_eth_def toy_eth_source_def toy_template_def find_abi_def)
  have serde: "ee_serde toy_eth = quoting_serde" by (simp add: toy_eth_def)
  obtain sds where stored: "eth_as_stored quoting_serde (toy_eth_source\<lparr>ed_context := Some ''{}''\<rparr>) = Some sds"
    "sd_context sds = Some (CHR 0x22 # ''{}'')"
    by (simp add: eth_as_stored_def context_to_value_def quoting_serde_def)
  from stored_data_source_round_trip[OF ds, unfolded serde, OF quoting_serde_laws stored(1)] stored show ?thesis by blast
qed

end
