(* ===== verification/Spec2Isabelle.thy ===== *)
theory Spec2Isabelle
  imports Queue_Properties Stream_Properties Eth_Properties Cache_Properties Runner_Properties
begin

text \<open>
  A verification library for the indexing core of graph-node, the Rust program under
  \<open>graph-node/\<close> of this repository: how the triggers of a block are selected, how blocks are
  followed, how the runner of a subgraph processes a block, how the changes that its handlers make to
  entities are collected, folded and written, how they are read back while they are still queued, and how all of it is reverted.

  The program and the theories. The runner (\<open>core/src/subgraph/runner.rs\<close>, theories \<open>Subgraph_Runner\<close>,
  \<open>Process_Block\<close> and \<open>Runner_Loop\<close>) follows a chain with a block stream
  (\<open>graph/src/blockchain/polling_block_stream.rs\<close>, theory \<open>Block_Stream\<close>). The triggers of a block
  are found with filters that are built from the data sources of the subgraph
  (\<open>chain/ethereum/src/data_source.rs\<close>, \<open>Eth_Data_Source\<close>; \<open>adapter.rs\<close>, \<open>Eth_Log_Filter\<close> and
  \<open>Eth_Trigger_Filter\<close>, with \<open>ethereum_adapter.rs\<close> and \<open>capabilities.rs\<close>). Each data source, of a chain, of files
  or of another subgraph (\<open>graph/src/data_source\<close>, \<open>Data_Source\<close>; for Ethereum, \<open>Eth_Chain\<close>), has a host; the
  instance keeps the hosts indexed by address and block (\<open>core/src/subgraph/context\<close>, \<open>Host_Index\<close> and
  \<open>Subgraph_Instance\<close>). The trigger processor decodes a trigger for its hosts and runs their handlers
  (\<open>core/src/subgraph/trigger_processor.rs\<close>, \<open>Trigger_Processor\<close>), which call host functions
  (\<open>runtime/wasm/src/host_exports.rs\<close>, \<open>Host_Exports\<close>; \<open>module/instance.rs\<close>, \<open>Wasm_Handler\<close>); what they do is
  hashed into the proof of indexing (\<open>graph/src/components/subgraph/proof_of_indexing\<close>, \<open>Proof_Of_Indexing\<close>). Handlers
  create data sources and change entities through the entity cache of the block
  (\<open>graph/src/components/store/entity_cache.rs\<close>, \<open>Entity_Cache\<close>; \<open>components/subgraph/instance.rs\<close>,
  \<open>Block_State\<close>), which keeps entities of earlier blocks in an LFU cache (\<open>graph/src/util/lfu_cache.rs\<close>,
  \<open>Lfu_Cache\<close>). Entities are objects over a pool of interned names (\<open>graph/src/util/intern.rs\<close>,
  \<open>Intern\<close> and \<open>Object\<close>; \<open>graph/src/data/store/mod.rs\<close> and \<open>id.rs\<close>, \<open>Entity_Data\<close> and
  \<open>Entity_Maps\<close>). The changes of one block are a list of entity modifications (\<open>graph/src/components/store/write.rs\<close>, \<open>Entity_Mod\<close>), which are folded into
  one row group per entity type (\<open>Row_Group\<close>) of a batch (\<open>Batch\<close>). The writable store
  (\<open>store/postgres/src/writable.rs\<close>, \<open>Write_Queue\<close>) puts batches and reverts into a bounded queue
  (\<open>graph/src/util/bounded_queue.rs\<close>, \<open>Bounded_Queue\<close>), from which a background task executes them,
  and answers reads from the queue and the database together. Executing a request is a transaction
  of the deployment store (\<open>deployment_store.rs\<close>, \<open>deployment.rs\<close>, \<open>dynds/private.rs\<close>,
  \<open>Deployment_Store\<close>): it writes the groups to the tables of their types (\<open>relational.rs\<close>,
  \<open>relational_queries.rs\<close>, \<open>block_range.rs\<close>, \<open>Entity_Table\<close>), rolls up aggregations
  (\<open>relational.rs\<close>, \<open>Rollup\<close>), and updates the head, the health and the dynamic data sources.

  State. The runner is a record of its context, the cells of its file data sources, its cache and the state of
  its store, which is an interface of functions; an instance has its hosts and the sequence of causality regions. A module is a
  tree: it returns, traps, or makes a host call and goes on with the reply, so that a handler may do whatever its calls allow. A table is the list of its versions, each with the block range in which it is valid; a
  statement of SQL that the code assembles is the function on this list that its text denotes. A
  deployment is a record with the columns that the code reads or writes, its tables and its error
  and data source rows; a transaction maps it to a new one or to an error. The write queue is a
  record with the queued requests, the flags of \<open>Queue\<close>, the phase of the background task and the
  committed store; a read looks through the queue and then reads the store, which is one step here. The bounded queue has its entries, the permits of both semaphores and the number
  of tasks between two await points. An object is the vector of its entries, tombstones included; its
  abstraction is the map from names to values. The entity cache has the LFU cache, the operations of
  the block and of the running handler and the sequence numbers; its abstraction is the view, the
  function from keys to attributes that reads through the cache see. The block stream is the record of \<open>PollingBlockStream\<close>. A
  hash map or hash set is an association list or a list without duplicates, in the order in which
  it is iterated; no property depends on this order.

  Errors and loops. A \<open>Result\<close> is a sum with the error on the left; a \<open>panic!\<close>, a failed
  \<open>assert!\<close> and an \<open>unwrap\<close> of \<open>None\<close> are errors too. The loops that may not end are
  \<open>partial_function (option)\<close>: the eviction of the LFU cache, the write chunks of a group, \<open>BoundedQueue::clear\<close> and the vertex
  cover of \<open>eth_get_logs_filters\<close>; that they return a value is part of their properties. The loop that
  creates data sources and runs their handlers in the same block has fuel: the limit on the number of data sources and two, which is
  enough because every iteration but the last adds a host (\<open>process_block_terminates\<close>). Block numbers are \<open>int\<close>, and the properties bound them by \<open>BLOCK_NUMBER_MAX\<close> where the
  code reaches it; the block stream computes the size and the end of a range with the wrap-around of \<open>i32\<close> (\<open>wrap_i32\<close>), and its
  properties say when nothing wraps (\<open>range_fits\<close>); addresses, hashes and bytes are words of their width.

  Interfaces. \<open>Write_Queue_Refines\<close> states what the queue needs of a store as two locales,
  \<open>batch_store\<close> (what writing, reverting and looking up have to do with each other) and
  \<open>batch_queue\<close> (that appending batches and executing requests implement writing and reverting). The
  simulation and the property of reads are proved inside them; \<open>Queue_On_Store\<close> interprets both on
  the tables and the transactions of the model. \<open>Instance_Correct\<close> states what the hosts need of a chain as the locale
  \<open>chain_contract\<close> (duplicates have one address, and a data source with an address decodes only triggers for it), and
  \<open>Eth_Chain\<close> interprets it on the data sources of Ethereum.

  Lemmas. \<open>Intern\<close>, \<open>Object\<close> and \<open>Entity_Maps\<close> show that every operation on pools, objects and
  entities is the operation on lists and maps that its name says; \<open>Lfu_Cache\<close> and \<open>Lfu_Evict\<close> that
  the cache is a map with a recorded weight, and when eviction ends well; \<open>Entity_Cache_Correct\<close>,
  \<open>Cache_Modifications\<close> and \<open>Block_State\<close> that handlers, reads, writes and \<open>as_modifications\<close> do on the
  view what they promise. \<open>Host_Index\<close> and \<open>Instance_Correct\<close> show that the indexes hold every host and that adding and
  reverting keep the hosts well-formed; \<open>Proof_Of_Indexing\<close> that pausing and resuming is invisible in the digest; \<open>Wasm_Handler\<close>
  that a handler only makes the small steps of \<open>host_step\<close> and is a transaction; \<open>Trigger_Processor\<close> what a trigger adds to the block state;
  \<open>Runner_Correct\<close> that the created data sources come to an end, that a block is one transaction and that the filter of the stream still covers what it has to after a revert. \<open>List_Queue\<close> and \<open>Memory_Store\<close> are an environment for the cache that
  computes, with the proof that it keeps the laws. \<open>Version_Spec\<close> gives a single modification its meaning on a table (\<open>exec_mod\<close>) and shows
  that chunked and grouped statements have the meaning of their parts; \<open>Group_Refines\<close> shows that
  writing a group in two sweeps, and folding rows into a group, change nothing about the meaning;
  \<open>Group_Lookup\<close> relates lookups to what a group says and shows what reverting does;
  \<open>Eth_Log_Filter_Correct\<close> and \<open>Eth_Trigger_Filter_Correct\<close> say what each filter selects. The
  theories named \<open>_Properties\<close> state the properties of the components, with an instance of each at
  a concrete input; the property that spans the queue, its writer and the store is in this theory.

  Parameters. The modules, with the host functions that do not change the block state, and the text of a trap; the
  stable hashes, with the laws \<open>fast_hasher_laws\<close>; the hook after decoding, which is only assumed to add no host (\<open>hook_adds_no_hosts\<close>);
  decoding with contract ABIs; the writable store of the runner and what the chain answers; the time that passes and when the
  handle of the stream is cancelled. The priority queue of the crate priority_queue, with the laws \<open>pq_laws\<close>; the order in
  which hash maps are iterated, with \<open>hash_order_ok\<close>; the store that the entity cache reads, with
  \<open>store_reads\<close>; what the cache asks of the schema. The graph of the crate petgraph, with the laws \<open>graph_map_laws\<close>; Keccak-256; the
  rounding of \<open>f64\<close>, with the laws \<open>rounds_like_f64\<close>; the unstable sort, with \<open>sorts_by_rank\<close>; cache
  weights, clocks and the success of \<open>try_write\<close>; the answers of the chain; the SQL of one rollup; the conversion of
  the context of a data source to JSON and back, with \<open>serde_laws\<close>;
  the stable hash of an error; which interfaces an entity type shares.

  Not modelled. Everything that is I/O (JSON-RPC, the connection pools, HTTP servers, IPFS), logging
  and metrics (only that flushing them can fail after the transaction of a block is); the GraphQL engine and schema processing; the instrumentation of WebAssembly modules, their start function and
  their heap; the blocks of substreams (\<open>process_wasm_block\<close>) and their handler; declared calls; copying, grafting and pruning; the
  chains other than Ethereum; the start and registration of deployments; and
  the parts of the repository outside \<open>graph-node/\<close>. Of the modelled files, the retries of the
  synchronous store, \<open>LastRollupTracker\<close>, fulltext, filter and window queries, DDL, and the checks of
  a manifest that are about versions and declared calls are left out.
\<close>

text \<open>
  C1: what a client reads through the write queue. In every state that client calls and the
  background writer reach, in any interleaving and with any batching, reading an entity through
  the queue on top of the tables as they are committed gives what a store would give that had
  executed all accepted calls at once (\<open>d\<close>), as long as the writer has not failed. The client's
  writes go forward from the head and its reverts go back.
\<close>

theorem reads_see_all_accepted_writes:
  assumes "queue_run qc weight (batch_append im weigh) (req_execute (exec_transact c) (exec_revert c))
      (db_write im types key) (db_revert types) view_tables (deployment_ok c im types) q d h"
    and "\<not> wq_poisoned q"
  shows "queue_get (\<lambda>_ n. Inr (db_lookup types key (view_tables (wq_store q)) n)) (wq_requests q) key
    = Inr (db_lookup types key d BLOCK_NUMBER_MAX)"
  using assms by (rule writer.run_get)

text \<open>The example: the batch of two blocks on the table of tokens, written and executed, not yet popped.\<close>

lemma folded_batch_inv: "batch_inv (\<lambda>_. False) folded_batch"
  using token_rows_inv(1) unfolding batch_inv_def folded_batch_rows
  by (simp add: groups_inv_def row_between_def batch_defs)

lemma folded_batch_write:
  "db_write (\<lambda>_. False) {''Token''} token_key folded_batch (view_tables deployment) (view_tables deployment_after)"
proof -
  have "exec_groups (b_mods folded_batch) (view_tables deployment) (view_tables deployment_after)"
    using token_exec unfolding exec_groups_def folded_batch_rows
    by (simp add: view_tables_def db_of_def deployment_def deployment_after_def)
  moreover have "batch_fits (\<lambda>_. False) {''Token''} token_key folded_batch"
    using folded_batch_inv unfolding batch_fits_def folded_batch_rows
    by (simp add: no_end_if_def one_key_def batch_defs)
  ultimately show ?thesis by (simp add: db_write_def)
qed

theorem reads_see_all_accepted_writes_witness:
  "queue_get (\<lambda>_ n. Inr (db_lookup {''Token''} token_key (view_tables deployment_after) n))
     [ReqWrite folded_batch True] token_key
   = Inr (db_lookup {''Token''} token_key (view_tables deployment_after) BLOCK_NUMBER_MAX)"
proof -
  let ?run = "queue_run \<lparr>qc_write_batch_size = 10, qc_write_batch_duration_is_zero = False\<rparr> (\<lambda>_. 0)
    (batch_append (\<lambda>_. False) (\<lambda>_. 0)) execute_on_store (db_write (\<lambda>_. False) {''Token''} token_key)
    (db_revert {''Token''}) view_tables (deployment_ok config (\<lambda>_. False) {''Token''})"
  have ok: "deployment_ok config (\<lambda>_. False) {''Token''} 1 deployment"
    using tokens_at_head
    by (simp add: deployment_ok_def db_at_head_def view_tables_def db_of_def kinds_ok_def deployment_def
        config_def tokens_def BLOCK_NUMBER_MAX_def)
  then have "?run (queue_start 5 deployment) (view_tables deployment) 1" by (rule queue_run.start)
  then have "?run token_queue (view_tables deployment_after) (number (b_block_ptr folded_batch))"
  proof (rule queue_run.write_call[where young = True and lock_free = True])
    show "db_write (\<lambda>_. False) {''Token''} token_key folded_batch (view_tables deployment) (view_tables deployment_after)"
      by (rule folded_batch_write)
    show "1 < b_first_block folded_batch" by (simp add: batch_defs)
    show "push_write \<lparr>qc_write_batch_size = 10, qc_write_batch_duration_is_zero = False\<rparr> (\<lambda>_. 0)
        (batch_append (\<lambda>_. False) (\<lambda>_. 0)) True True folded_batch (queue_start 5 deployment)
      = Some (None, token_queue)"
      by (simp add: push_write_def try_append_def queue_push_def check_err_def token_queue_def queue_start_def
          put_newest_def request_write_def)
  qed
  then have "?run (token_queue\<lparr>wq_requests := [ReqWrite folded_batch True], wq_phase := Executing\<rparr>)
      (view_tables deployment_after) (number (b_block_ptr folded_batch))"
    by (rule queue_run.writer)
      (rule writer_step.start, simp add: writer_start_def token_queue_def queue_start_def request_write_def)
  then have "?run (token_queue\<lparr>wq_requests := [ReqWrite folded_batch True], wq_phase := Executed,
        wq_store := deployment_after\<rparr>) (view_tables deployment_after) (number (b_block_ptr folded_batch))"
    by (rule queue_run.writer)
      (rule writer_step.execute, simp add: writer_execute_def execute_folded_batch token_queue_def queue_start_def
        del: req_execute.simps)
  from reads_see_all_accepted_writes[OF this] show ?thesis
    by (simp add: token_queue_def queue_start_def)
qed

end
